(* ===== verification/Js_Prelude.thy ===== *)
theory Js_Prelude
  imports Main "HOL-Library.Word" "HOL-Library.Sublist"
begin

text \<open>
  Shared vocabulary of the development.

  \<^item> Labelled machines: \<open>steps\<close> is the reflexive transitive closure of a labelled step relation
    and the locale \<open>step_machine\<close> turns a one-step invariant into an invariant of every run.
    Each state machine of the program interprets it, or \<open>trace_machine\<close>, whose invariant sees the events so far.
  \<^item> The JavaScript string operations the sources call (\<open>split\<close>, \<open>join\<close>, \<open>trim\<close>,
    \<open>indexOf\<close>, \<open>includes\<close>, \<open>startsWith\<close>, decimal printing and reading). A string is a list of
    code units up to 255 (type \<open>string\<close>); code units above are outside the model.
  \<^item> The facts on \<open>split_on\<close> and \<open>join\<close> that every \<open>key=value,key=value\<close> codec of the program
    rests on.
\<close>

named_theorems split_simps \<open>evaluation of split and join\<close>

type_synonym byte = "8 word"
type_synonym u32 = "32 word"

section \<open>Labelled machines\<close>

inductive steps :: "('s \<Rightarrow> 'e \<Rightarrow> 's \<Rightarrow> bool) \<Rightarrow> 's \<Rightarrow> 'e list \<Rightarrow> 's \<Rightarrow> bool" for step where
  steps_nil: "steps step s [] s"
| steps_cons: "step s e s' \<Longrightarrow> steps step s' es s'' \<Longrightarrow> steps step s (e # es) s''"

inductive_simps steps_nil_iff [simp]: "steps step s [] s'"
inductive_simps steps_cons_iff [simp]: "steps step s (e # es) s'"

lemma steps_append:
  "steps step s (es @ fs) s'' \<longleftrightarrow> (\<exists>s'. steps step s es s' \<and> steps step s' fs s'')"
  by (induction es arbitrary: s) auto

text \<open>Runs of a machine given as a partial function of state and event.\<close>

fun run_exec :: "('s \<Rightarrow> 'e \<Rightarrow> 's option) \<Rightarrow> 's \<Rightarrow> 'e list \<Rightarrow> 's option" where
  "run_exec f s [] = Some s"
| "run_exec f s (e # es) = (case f s e of None \<Rightarrow> None | Some s' \<Rightarrow> run_exec f s' es)"

lemma steps_run_exec:
  assumes "\<And>s e s'. f s e = Some s' \<Longrightarrow> step s e s'" and "run_exec f s es = Some s'"
  shows "steps step s es s'"
  using assms(2) by (induction es arbitrary: s) (auto split: option.splits dest: assms(1))

text \<open>A run that exists and ends in a state with \<open>P\<close>, to be evaluated.\<close>

definition run_ends :: "('s \<Rightarrow> 'e \<Rightarrow> 's option) \<Rightarrow> 's \<Rightarrow> 'e list \<Rightarrow> ('s \<Rightarrow> bool) \<Rightarrow> bool" where
  "run_ends f s es P = (case run_exec f s es of None \<Rightarrow> False | Some s' \<Rightarrow> P s')"

lemma run_ends_iff: "run_ends f s es P \<longleftrightarrow> (\<exists>s'. run_exec f s es = Some s' \<and> P s')"
  by (simp add: run_ends_def split: option.split)

locale step_machine =
  fixes step :: "'s \<Rightarrow> 'e \<Rightarrow> 's \<Rightarrow> bool"
    and start :: "'s \<Rightarrow> bool"
    and inv :: "'s \<Rightarrow> bool"
  assumes inv_start: "start s \<Longrightarrow> inv s"
    and inv_step: "inv s \<Longrightarrow> step s e s' \<Longrightarrow> inv s'"
begin

lemma inv_steps: "steps step s es s' \<Longrightarrow> inv s \<Longrightarrow> inv s'"
  by (induction rule: steps.induct) (auto dest: inv_step)

lemma inv_run: "start s \<Longrightarrow> steps step s es s' \<Longrightarrow> inv s'"
  by (blast intro: inv_start inv_steps)

end

lemma run_exec_snoc: "run_exec f s (es @ [e]) = (case run_exec f s es of None \<Rightarrow> None | Some s' \<Rightarrow> f s' e)"
  by (induction es arbitrary: s) (auto split: option.split)

text \<open>A machine whose invariant speaks about the events so far.\<close>

locale trace_machine =
  fixes exec :: "'s \<Rightarrow> 'e \<Rightarrow> 's option"
    and s0 :: 's
    and inv :: "'e list \<Rightarrow> 's \<Rightarrow> bool"
  assumes trace_start: "inv [] s0"
    and trace_step: "run_exec exec s0 es = Some s \<Longrightarrow> inv es s \<Longrightarrow> exec s e = Some s' \<Longrightarrow> inv (es @ [e]) s'"
begin

lemma trace_run: "run_exec exec s0 es = Some s \<Longrightarrow> inv es s"
  by (induction es arbitrary: s rule: rev_induct) (auto simp: trace_start run_exec_snoc dest: trace_step split: option.splits)

end

section \<open>Strings\<close>

abbreviation code_of :: "char \<Rightarrow> nat" where
  "code_of c \<equiv> of_char c"

definition is_digit :: "char \<Rightarrow> bool" where
  "is_digit c \<longleftrightarrow> 48 \<le> code_of c \<and> code_of c \<le> 57"

definition is_upper :: "char \<Rightarrow> bool" where
  "is_upper c \<longleftrightarrow> 65 \<le> code_of c \<and> code_of c \<le> 90"

definition is_lower :: "char \<Rightarrow> bool" where
  "is_lower c \<longleftrightarrow> 97 \<le> code_of c \<and> code_of c \<le> 122"

definition is_alpha :: "char \<Rightarrow> bool" where
  "is_alpha c \<longleftrightarrow> is_upper c \<or> is_lower c"

definition is_alnum :: "char \<Rightarrow> bool" where
  "is_alnum c \<longleftrightarrow> is_alpha c \<or> is_digit c"

definition is_hex :: "char \<Rightarrow> bool" where
  "is_hex c \<longleftrightarrow> is_digit c \<or> (65 \<le> code_of c \<and> code_of c \<le> 70) \<or> (97 \<le> code_of c \<and> code_of c \<le> 102)"

text \<open>\<open>\w\<close> of a regular expression.\<close>

definition word_char :: "char \<Rightarrow> bool" where
  "word_char c \<longleftrightarrow> is_alnum c \<or> c = CHR ''_''"

text \<open>White space of \<open>String.prototype.trim\<close> and of the regular expression class \<open>\s\<close>, up to
  code unit 255: tab, line feed, vertical tab, form feed, carriage return, space, no-break space.\<close>

definition is_space :: "char \<Rightarrow> bool" where
  "is_space c \<longleftrightarrow> code_of c \<in> {9, 10, 11, 12, 13, 32, 160}"

definition trim_start :: "string \<Rightarrow> string" where
  "trim_start s = dropWhile is_space s"

definition trim_end :: "string \<Rightarrow> string" where
  "trim_end s = rev (dropWhile is_space (rev s))"

definition trim :: "string \<Rightarrow> string" where
  "trim s = trim_end (trim_start s)"

text \<open>\<open>toLowerCase\<close> and \<open>toUpperCase\<close> restricted to ASCII letters.\<close>

definition lower_char :: "char \<Rightarrow> char" where
  "lower_char c = (if is_upper c then char_of (code_of c + 32) else c)"

definition upper_char :: "char \<Rightarrow> char" where
  "upper_char c = (if is_lower c then char_of (code_of c - 32) else c)"

abbreviation to_lower :: "string \<Rightarrow> string" where
  "to_lower \<equiv> map lower_char"

abbreviation to_upper :: "string \<Rightarrow> string" where
  "to_upper \<equiv> map upper_char"

fun starts_with :: "string \<Rightarrow> string \<Rightarrow> bool" where
  "starts_with s [] = True"
| "starts_with [] (p # ps) = False"
| "starts_with (c # cs) (p # ps) = (c = p \<and> starts_with cs ps)"

definition ends_with :: "string \<Rightarrow> string \<Rightarrow> bool" where
  "ends_with s p = starts_with (rev s) (rev p)"

fun js_includes :: "string \<Rightarrow> string \<Rightarrow> bool" where
  "js_includes [] p = (p = [])"
| "js_includes (c # cs) p = (starts_with (c # cs) p \<or> js_includes cs p)"

lemma starts_with_iff: "starts_with s p \<longleftrightarrow> prefix p s"
  by (induction s p rule: starts_with.induct) auto

lemma starts_with_append [simp]: "starts_with (p @ s) p"
  by (simp add: starts_with_iff)

lemma ends_with_iff: "ends_with s p \<longleftrightarrow> suffix p s"
  by (simp add: ends_with_def starts_with_iff suffix_to_prefix)

lemma includes_iff: "js_includes s p \<longleftrightarrow> sublist p s"
proof (induction s)
  case Nil
  then show ?case by simp
next
  case (Cons c cs)
  then show ?case by (simp only: js_includes.simps sublist_Cons_right starts_with_iff)
qed

section \<open>split and join\<close>

text \<open>\<open>split_on c s\<close> is \<open>s.split(c)\<close> for a one-character separator: never the empty list.\<close>

fun split_on :: "char \<Rightarrow> string \<Rightarrow> string list" where
  "split_on sep [] = [[]]"
| "split_on sep (c # cs) =
     (if c = sep then [] # split_on sep cs
      else (case split_on sep cs of [] \<Rightarrow> [[c]] | w # ws \<Rightarrow> (c # w) # ws))"

fun join :: "string \<Rightarrow> string list \<Rightarrow> string" where
  "join sep [] = []"
| "join sep [w] = w"
| "join sep (w # v # ws) = w @ sep @ join sep (v # ws)"

declare split_on.simps [split_simps] join.simps [split_simps]

lemma split_on_not_Nil [simp]: "split_on sep s \<noteq> []"
  by (induction s) (auto split: list.splits)

lemma split_on_plain: "sep \<notin> set w \<Longrightarrow> split_on sep w = [w]"
  by (induction w) auto

lemma split_on_Cons_sep: "sep \<notin> set w \<Longrightarrow> split_on sep (w @ sep # s) = w # split_on sep s"
  by (induction w) auto

text \<open>Splitting a joined list of separator-free words gives the words back.\<close>

lemma split_on_join:
  assumes "ws \<noteq> []" and "\<forall>w \<in> set ws. sep \<notin> set w"
  shows "split_on sep (join [sep] ws) = ws"
  using assms
proof (induction "[sep]" ws rule: join.induct)
  case (3 w v ws)
  then show ?case by (simp add: split_on_Cons_sep)
qed (auto simp: split_on_plain)

lemma join_split_on: "join [sep] (split_on sep s) = s"
proof (induction s)
  case (Cons c cs)
  show ?case
  proof (cases "split_on sep cs")
    case (Cons w ws)
    with Cons.IH show ?thesis by (cases ws) auto
  qed simp
qed simp

lemma split_on_parts: "w \<in> set (split_on sep s) \<Longrightarrow> sep \<notin> set w"
  by (induction s arbitrary: w) (auto split: if_splits list.splits)

lemma join_chars: "x \<in> set (join sep ws) \<Longrightarrow> x \<in> set sep \<or> (\<exists>w\<in>set ws. x \<in> set w)"
  by (induction sep ws rule: join.induct) auto

text \<open>\<open>s.indexOf(c)\<close>, and the text before and after the first occurrence.\<close>

fun index_of :: "char \<Rightarrow> string \<Rightarrow> nat option" where
  "index_of c [] = None"
| "index_of c (d # ds) = (if c = d then Some 0 else map_option Suc (index_of c ds))"

lemma index_of_None [simp]: "index_of c s = None \<longleftrightarrow> c \<notin> set s"
  by (induction s) auto

lemma index_of_append: "c \<notin> set k \<Longrightarrow> index_of c (k @ c # v) = Some (length k)"
  by (induction k) auto

lemma index_of_Some: "index_of c s = Some i \<Longrightarrow> i < length s \<and> s ! i = c \<and> c \<notin> set (take i s)"
proof (induction s arbitrary: i)
  case (Cons d ds)
  then show ?case by (cases i) (auto split: if_splits)
qed simp

lemma index_of_nth: "distinct s \<Longrightarrow> i < length s \<Longrightarrow> index_of (s ! i) s = Some i"
proof (induction s arbitrary: i)
  case (Cons d ds)
  then show ?case by (cases i) auto
qed simp

section \<open>Decimal numbers\<close>

definition digit_val :: "char \<Rightarrow> nat" where
  "digit_val c = code_of c - 48"

definition digit_char :: "nat \<Rightarrow> char" where
  "digit_char d = char_of (48 + d)"

definition nat_of_digits :: "string \<Rightarrow> nat" where
  "nat_of_digits s = foldl (\<lambda>n c. 10 * n + digit_val c) 0 s"

fun show_nat :: "nat \<Rightarrow> string" where
  "show_nat n = (if n < 10 then [digit_char n] else show_nat (n div 10) @ [digit_char (n mod 10)])"

declare show_nat.simps [simp del]

lemma digit_char_val [simp]: "d < 10 \<Longrightarrow> digit_val (digit_char d) = d"
  by (simp add: digit_val_def digit_char_def)

lemma digit_char_is_digit [simp]: "d < 10 \<Longrightarrow> is_digit (digit_char d)"
  by (simp add: is_digit_def digit_char_def)

lemma nat_of_digits_snoc [simp]: "nat_of_digits (s @ [c]) = 10 * nat_of_digits s + digit_val c"
  by (simp add: nat_of_digits_def)

lemma nat_of_digits_Nil [simp]: "nat_of_digits [] = 0"
  by (simp add: nat_of_digits_def)

lemma nat_of_digits_show_nat [simp]: "nat_of_digits (show_nat n) = n"
proof (induction n rule: show_nat.induct)
  case (1 n)
  show ?case
  proof (cases "n < 10")
    case True
    then have "show_nat n = [] @ [digit_char n]" by (subst show_nat.simps) simp
    with True show ?thesis by (simp only: nat_of_digits_snoc) simp
  next
    case False
    with 1 show ?thesis by (subst show_nat.simps) simp
  qed
qed

lemma show_nat_digits: "c \<in> set (show_nat n) \<Longrightarrow> is_digit c"
proof (induction n rule: show_nat.induct)
  case (1 n)
  then show ?case by (subst (asm) show_nat.simps) (auto split: if_splits)
qed

lemma show_nat_not_Nil [simp]: "show_nat n \<noteq> []"
  by (subst show_nat.simps) simp

end
