(* ===== verification/Vnc_Frames.thy ===== *)
theory Vnc_Frames
  imports Js_Prelude
begin

text \<open>
  What the two console sockets of web/src/vnc_secure_socket.js share: base64, the big-endian
  sequence number, the frame layout, the AES-GCM calls (a parameter, see \<open>crypto\<close>) and the
  listener table behind \<open>addEventListener\<close>, \<open>removeEventListener\<close> and \<open>_dispatch\<close>.
\<close>

section \<open>Base64\<close>

text \<open>\<open>btoa\<close> and \<open>atob\<close> of the browser on byte strings. \<open>atob\<close> drops ASCII white space,
  accepts missing padding and throws (\<open>None\<close>) on anything else outside the alphabet.\<close>

definition b64_alphabet :: string where
  "b64_alphabet = ''ABCDEFGHIJKLMNOPQRSTUVWXYZabcdefghijklmnopqrstuvwxyz0123456789+/''"

definition b64_char :: "nat \<Rightarrow> char" where
  "b64_char n = b64_alphabet ! n"

definition b64_val :: "char \<Rightarrow> nat option" where
  "b64_val c = index_of c b64_alphabet"

fun btoa :: "byte list \<Rightarrow> string" where
  "btoa [] = []"
| "btoa [a] = [b64_char (unat a div 4), b64_char (unat a mod 4 * 16), CHR ''='', CHR ''='']"
| "btoa [a, b] =
     [b64_char (unat a div 4), b64_char (unat a mod 4 * 16 + unat b div 16),
      b64_char (unat b mod 16 * 4), CHR ''='']"
| "btoa (a # b # c # rest) =
     b64_char (unat a div 4) # b64_char (unat a mod 4 * 16 + unat b div 16)
     # b64_char (unat b mod 16 * 4 + unat c div 64) # b64_char (unat c mod 64) # btoa rest"

fun sextets :: "nat list \<Rightarrow> byte list" where
  "sextets (p # q # r # s # rest) =
     word_of_nat (p * 4 + q div 16) # word_of_nat (q mod 16 * 16 + r div 4)
     # word_of_nat (r mod 4 * 64 + s) # sextets rest"
| "sextets [p, q, r] = [word_of_nat (p * 4 + q div 16), word_of_nat (q mod 16 * 16 + r div 4)]"
| "sextets [p, q] = [word_of_nat (p * 4 + q div 16)]"
| "sextets _ = []"

fun opt_all :: "'a option list \<Rightarrow> 'a list option" where
  "opt_all [] = Some []"
| "opt_all (None # xs) = None"
| "opt_all (Some x # xs) = map_option ((#) x) (opt_all xs)"

definition strip_pad :: "string \<Rightarrow> string" where
  "strip_pad s =
     (if length s mod 4 \<noteq> 0 then s
      else if ends_with s ''=='' then take (length s - 2) s
      else if ends_with s ''='' then take (length s - 1) s else s)"

definition ascii_ws :: "char \<Rightarrow> bool" where
  "ascii_ws c \<longleftrightarrow> code_of c \<in> {9, 10, 12, 13, 32}"

definition atob :: "string \<Rightarrow> byte list option" where
  "atob s =
     (let d = strip_pad (filter (\<lambda>c. \<not> ascii_ws c) s)
      in if length d mod 4 = 1 then None else map_option sextets (opt_all (map b64_val d)))"

text \<open>\<open>_b64ToU8\<close>: the loop copies each code unit of \<open>atob\<close> into a byte array.\<close>

definition b64ToU8 :: "string \<Rightarrow> byte list option" where
  "b64ToU8 b64 = (case atob b64 of None \<Rightarrow> None | Some bin \<Rightarrow> Some (map (\<lambda>i. bin ! i) [0..<length bin]))"

text \<open>\<open>PollingVncSocket._bufToB64\<close>: the bytes are turned into a binary string 0x8000 at a time,
  and one \<open>btoa\<close> encodes the whole.\<close>

function bin_chunks :: "byte list \<Rightarrow> nat \<Rightarrow> byte list" where
  "bin_chunks u8 i =
     (if i < length u8 then take 32768 (drop i u8) @ bin_chunks u8 (i + 32768) else [])"
  by pat_completeness auto
termination
  by (relation "measure (\<lambda>(u8, i). length u8 - i)") auto

declare bin_chunks.simps [simp del]

definition bufToB64 :: "byte list \<Rightarrow> string" where
  "bufToB64 u8 = btoa (bin_chunks u8 0)"

lemma bin_chunks_drop: "bin_chunks u8 i = drop i u8"
proof (induction u8 i rule: bin_chunks.induct)
  case (1 u8 i)
  show ?case
  proof (cases "i < length u8")
    case True
    with 1 have "bin_chunks u8 i = take 32768 (drop i u8) @ drop 32768 (drop i u8)"
      by (subst bin_chunks.simps) (simp add: add.commute)
    then show ?thesis by (metis append_take_drop_id)
  qed (simp add: bin_chunks.simps)
qed

lemma b64_alphabet_distinct: "distinct b64_alphabet"
  by (simp add: b64_alphabet_def)

lemma b64_alphabet_length: "length b64_alphabet = 64"
  by (simp add: b64_alphabet_def)

lemma b64_alphabet_codes: "\<forall>c \<in> set b64_alphabet. code_of c \<notin> {9, 10, 12, 13, 32, 61}"
  by (simp add: b64_alphabet_def)

lemma b64_val_char: "n < 64 \<Longrightarrow> b64_val (b64_char n) = Some n"
  by (simp add: b64_val_def b64_char_def index_of_nth b64_alphabet_distinct b64_alphabet_length)

lemma b64_char_code: "n < 64 \<Longrightarrow> code_of (b64_char n) \<notin> {9, 10, 12, 13, 32, 61}"
  using b64_alphabet_codes by (simp add: b64_char_def b64_alphabet_length)

lemma b64_char_ws: "n < 64 \<Longrightarrow> \<not> ascii_ws (b64_char n)"
  using b64_char_code [of n] by (simp add: ascii_ws_def)

text \<open>The encoder's output as sextets and padding.\<close>

fun to_sextets :: "byte list \<Rightarrow> nat list" where
  "to_sextets [] = []"
| "to_sextets [a] = [unat a div 4, unat a mod 4 * 16]"
| "to_sextets [a, b] = [unat a div 4, unat a mod 4 * 16 + unat b div 16, unat b mod 16 * 4]"
| "to_sextets (a # b # c # rest) =
     [unat a div 4, unat a mod 4 * 16 + unat b div 16, unat b mod 16 * 4 + unat c div 64,
      unat c mod 64] @ to_sextets rest"

fun padding :: "byte list \<Rightarrow> string" where
  "padding [] = []"
| "padding [a] = ''==''"
| "padding [a, b] = ''=''"
| "padding (a # b # c # rest) = padding rest"

lemma btoa_sextets: "btoa bs = map b64_char (to_sextets bs) @ padding bs"
  by (induction bs rule: btoa.induct) auto

lemma byte_bound: "unat (a :: byte) < 256"
  using unsigned_less [of a] by simp

lemma to_sextets_bound: "n \<in> set (to_sextets bs) \<Longrightarrow> n < 64"
proof (induction bs rule: to_sextets.induct)
  case (2 a)
  then show ?case using byte_bound [of a] by auto
next
  case (3 a b)
  then show ?case using byte_bound [of a] byte_bound [of b] by auto
next
  case (4 a b c rest)
  then show ?case using byte_bound [of a] byte_bound [of b] byte_bound [of c] by auto
qed simp

lemma sextets_to_sextets: "sextets (to_sextets bs) = bs"
proof (induction bs rule: to_sextets.induct)
  case (2 a)
  then show ?case using byte_bound [of a] by (simp add: word_unat_eq_iff unat_of_nat)
next
  case (3 a b)
  then show ?case using byte_bound [of a] byte_bound [of b]
    by (simp add: word_unat_eq_iff unat_of_nat)
next
  case (4 a b c rest)
  then show ?case using byte_bound [of a] byte_bound [of b] byte_bound [of c]
    by (simp add: word_unat_eq_iff unat_of_nat)
qed simp

lemma to_sextets_length: "length (to_sextets bs) + length (padding bs) = 4 * ((length bs + 2) div 3)"
proof (induction bs rule: to_sextets.induct)
  case (4 a b c rest)
  have "(length (a # b # c # rest) + 2) div 3 = Suc ((length rest + 2) div 3)"
    by (simp add: div_add_self2 [of 3 "length rest + 2", simplified] del: div_mult_self1)
  with 4 show ?case by simp
qed auto

lemma padding_cases: "padding bs \<in> {[], ''='', ''==''}"
  by (induction bs rule: padding.induct) auto

lemma opt_all_Some: "\<forall>x \<in> set xs. f x = Some (g x) \<Longrightarrow> opt_all (map f xs) = Some (map g xs)"
  by (induction xs) auto

lemma opt_all_b64:
  assumes "\<forall>n \<in> set ns. n < 64"
  shows "opt_all (map b64_val (map b64_char ns)) = Some ns"
  using assms by (induction ns) (auto simp: b64_val_char)

lemma strip_pad_btoa:
  fixes bs :: "byte list"
  defines "d \<equiv> map b64_char (to_sextets bs)"
  shows "strip_pad (d @ padding bs) = d"
proof -
  have len: "length (d @ padding bs) mod 4 = 0"
    by (simp add: d_def to_sextets_length)
  have "c \<in> set d \<Longrightarrow> code_of c \<noteq> 61" for c
    using b64_char_code to_sextets_bound by (force simp: d_def)
  then have noeq: "CHR ''='' \<notin> set d"
    by force
  have "\<not> ends_with d ''=''" and "\<not> ends_with d ''==''" and "\<not> ends_with (d @ ''='') ''==''"
    using noeq by (auto simp: ends_with_iff suffix_def)
  moreover have "ends_with (d @ ''='') ''=''" "ends_with (d @ ''=='') ''==''"
    by (auto simp: ends_with_iff suffix_def)
  ultimately show ?thesis
    using padding_cases [of bs] len by (auto simp: strip_pad_def)
qed

lemma atob_btoa: "atob (btoa bs) = Some bs"
proof -
  let ?d = "map b64_char (to_sextets bs)"
  have "\<forall>c \<in> set ?d. \<not> ascii_ws c"
    by (auto dest!: to_sextets_bound simp: b64_char_ws)
  moreover have "\<forall>c \<in> set (padding bs). \<not> ascii_ws c"
    using padding_cases [of bs] by (auto simp: ascii_ws_def)
  ultimately have "\<forall>c \<in> set (?d @ padding bs). \<not> ascii_ws c"
    by (metis Un_iff set_append)
  then have "filter (\<lambda>c. \<not> ascii_ws c) (?d @ padding bs) = ?d @ padding bs"
    by (rule filter_True)
  moreover have "length ?d mod 4 \<noteq> 1"
    by (induction bs rule: to_sextets.induct) auto
  moreover have "opt_all (map b64_val ?d) = Some (to_sextets bs)"
    using to_sextets_bound by (intro opt_all_b64) auto
  ultimately show ?thesis
    by (simp add: atob_def btoa_sextets strip_pad_btoa sextets_to_sextets)
qed

lemma b64ToU8_bufToB64: "b64ToU8 (bufToB64 u8) = Some u8"
  by (simp add: b64ToU8_def bufToB64_def bin_chunks_drop atob_btoa map_nth)

section \<open>Sequence numbers and frames\<close>

text \<open>\<open>setUint32(0, seq, false)\<close> and \<open>getUint32(0, false)\<close>: big-endian, four bytes.\<close>

definition be32 :: "u32 \<Rightarrow> byte list" where
  "be32 w = [word_of_nat (unat w div 2 ^ 24), word_of_nat (unat w div 2 ^ 16),
             word_of_nat (unat w div 2 ^ 8), word_of_nat (unat w mod 2 ^ 8)]"

definition be32_get :: "byte list \<Rightarrow> u32" where
  "be32_get bs = word_of_nat (foldl (\<lambda>n b. 256 * n + unat b) 0 bs)"

lemma be32_length [simp]: "length (be32 w) = 4"
  by (simp add: be32_def)

lemma be32_get_be32 [simp]: "be32_get (be32 w) = w"
proof -
  let ?n = "unat w"
  have n: "?n < 2 ^ 32"
    using unsigned_less [of w] by simp
  let ?a = "?n div 256" let ?b = "?a div 256" let ?c = "?b div 256"
  have "?c < 256"
    using n by (simp add: less_mult_imp_div_less)
  then have "256 * (256 * (256 * (?c mod 256) + ?b mod 256) + ?a mod 256) + ?n mod 256 = ?n"
    by simp
  moreover have "?n div 2 ^ 8 = ?a" "?n div 2 ^ 16 = ?b" "?n div 2 ^ 24 = ?c"
    by (simp_all add: div_mult2_eq [symmetric])
  ultimately have "foldl (\<lambda>n b. 256 * n + unat b) 0 (be32 w) = ?n"
    by (simp add: be32_def unat_of_nat)
  then show ?thesis
    by (simp add: be32_get_def)
qed

section \<open>The cipher\<close>

text \<open>
  \<open>crypto.subtle.encrypt\<close> and \<open>decrypt\<close> with AES-GCM and a 128-bit tag, and
  \<open>crypto.getRandomValues\<close> on 8 bytes, are the browser's: a record of functions the model is
  given. The arguments of the first two are key, IV, additional data and text; \<open>None\<close> is a
  rejected promise. \<open>cr_rand n\<close> is the result of the \<open>n\<close>-th call of \<open>getRandomValues\<close>.
\<close>

record 'k crypto =
  cr_enc :: "'k \<Rightarrow> byte list \<Rightarrow> byte list \<Rightarrow> byte list \<Rightarrow> byte list option"
  cr_dec :: "'k \<Rightarrow> byte list \<Rightarrow> byte list \<Rightarrow> byte list \<Rightarrow> byte list option"
  cr_rand :: "nat \<Rightarrow> byte list"

text \<open>Documented behaviour: encryption succeeds and appends a 16-byte tag, decryption under the
  same key, IV and additional data gives the text back, and \<open>getRandomValues\<close> fills its buffer.\<close>

definition aead_ok :: "'k crypto \<Rightarrow> 'k \<Rightarrow> bool" where
  "aead_ok c k \<longleftrightarrow>
     (\<forall>n. length (cr_rand c n) = 8) \<and>
     (\<forall>iv ad p. length iv = 12 \<longrightarrow>
        (\<exists>ct. cr_enc c k iv ad p = Some ct \<and> length ct = length p + 16 \<and> cr_dec c k iv ad ct = Some p))"

text \<open>The frame both sockets build: \<open>[4 bytes seq][12 bytes IV = seq, 8 random][ciphertext, tag]\<close>.\<close>

definition seal :: "'k crypto \<Rightarrow> 'k \<Rightarrow> nat \<Rightarrow> u32 \<Rightarrow> byte list \<Rightarrow> byte list option" where
  "seal c k n seq pt =
     (let sb = be32 seq; iv = sb @ cr_rand c n
      in map_option (\<lambda>ct. sb @ iv @ ct) (cr_enc c k iv sb pt))"

datatype frame_error = Frame_Too_Short nat | Out_Of_Order u32 u32 | Auth_Failed

text \<open>The synchronous checks of \<open>_decrypt\<close>, shared by both sockets: length, then sequence
  number; the result is the IV, the additional data and the ciphertext.\<close>

definition check_frame :: "u32 \<Rightarrow> byte list \<Rightarrow> frame_error + (byte list \<times> byte list \<times> byte list)" where
  "check_frame expected u8 =
     (if length u8 < 4 + 12 + 16 then Inl (Frame_Too_Short (length u8))
      else let sb = take 4 u8; iv = take 12 (drop 4 u8); ct = drop 16 u8; seq = be32_get sb
           in if seq \<noteq> expected then Inl (Out_Of_Order seq expected) else Inr (iv, sb, ct))"

lemma check_frame_other:
  "check_frame a f = Inr p \<Longrightarrow> a \<noteq> b \<Longrightarrow> check_frame b f = Inl (Out_Of_Order a b)"
  by (auto simp: check_frame_def Let_def split: if_splits)

text \<open>The awaited half of \<open>_decrypt\<close>.\<close>

definition open_frame :: "'k crypto \<Rightarrow> 'k \<Rightarrow> byte list \<times> byte list \<times> byte list \<Rightarrow> byte list option" where
  "open_frame c k p = (case p of (iv, sb, ct) \<Rightarrow> cr_dec c k iv sb ct)"

text \<open>What a receiver that expects \<open>seq\<close> makes of a list of frames: the texts up to the first
  frame that does not verify. The sequence number wraps at 2^32, like \<open>>>> 0\<close>.\<close>

fun accept_stream :: "'k crypto \<Rightarrow> 'k \<Rightarrow> u32 \<Rightarrow> byte list list \<Rightarrow> byte list list" where
  "accept_stream c k seq [] = []"
| "accept_stream c k seq (f # fs) =
     (case check_frame seq f of Inl e \<Rightarrow> []
      | Inr p \<Rightarrow> (case open_frame c k p of None \<Rightarrow> [] | Some pt \<Rightarrow> pt # accept_stream c k (seq + 1) fs))"

lemma seal_Some:
  assumes "aead_ok c k"
  obtains f where "seal c k n seq pt = Some f" and "length f = length pt + 32"
    and "check_frame seq f = Inr (be32 seq @ cr_rand c n, be32 seq, drop 16 f)"
    and "open_frame c k (be32 seq @ cr_rand c n, be32 seq, drop 16 f) = Some pt"
proof -
  let ?iv = "be32 seq @ cr_rand c n"
  have iv: "length ?iv = 12"
    using assms by (simp add: aead_ok_def)
  obtain ct where ct: "cr_enc c k ?iv (be32 seq) pt = Some ct" "length ct = length pt + 16"
    "cr_dec c k ?iv (be32 seq) ct = Some pt"
    using assms iv unfolding aead_ok_def by blast
  let ?f = "be32 seq @ ?iv @ ct"
  have r: "length (cr_rand c n) = 8"
    using assms by (simp add: aead_ok_def)
  show ?thesis
    by (rule that [of ?f]) (use ct r in \<open>simp_all add: seal_def check_frame_def open_frame_def Let_def\<close>)
qed

text \<open>Frames sealed with consecutive sequence numbers are accepted, and give the texts back.\<close>

fun seal_all :: "'k crypto \<Rightarrow> 'k \<Rightarrow> nat \<Rightarrow> u32 \<Rightarrow> byte list list \<Rightarrow> byte list option list" where
  "seal_all c k n seq [] = []"
| "seal_all c k n seq (p # ps) = seal c k n seq p # seal_all c k (Suc n) (seq + 1) ps"

lemma seal_all_append:
  "seal_all c k n seq (ps @ qs) =
     seal_all c k n seq ps @ seal_all c k (n + length ps) (seq + word_of_nat (length ps)) qs"
  by (induction ps arbitrary: n seq) (auto simp: algebra_simps)

lemma seal_all_length [simp]: "length (seal_all c k n seq ps) = length ps"
  by (induction ps arbitrary: n seq) auto

lemma seal_all_Some:
  assumes ok: "aead_ok c k" and "r \<in> set (seal_all c k n seq ps)"
  shows "\<exists>f. r = Some f"
  using assms(2)
proof (induction ps arbitrary: n seq)
  case (Cons p ps)
  then show ?case using seal_Some [OF ok, of n seq p] by fastforce
qed simp

lemma accept_seal_all:
  assumes "aead_ok c k"
  shows "accept_stream c k seq (map the (seal_all c k n seq ps)) = ps"
proof (induction ps arbitrary: n seq)
  case (Cons p ps)
  obtain f where "seal c k n seq p = Some f"
    "check_frame seq f = Inr (be32 seq @ cr_rand c n, be32 seq, drop 16 f)"
    "open_frame c k (be32 seq @ cr_rand c n, be32 seq, drop 16 f) = Some p"
    by (rule seal_Some [OF assms, of n seq p])
  with Cons show ?case by simp
qed simp

lemma accept_stream_prefix:
  "prefix fs gs \<Longrightarrow> prefix (accept_stream c k seq fs) (accept_stream c k seq gs)"
proof (induction fs arbitrary: seq gs)
  case (Cons f fs)
  then obtain gs' where "gs = f # gs'" "prefix fs gs'"
    by (cases gs) auto
  with Cons.IH show ?case by (auto split: sum.splits option.splits)
qed simp

lemma accept_stream_length: "length (accept_stream c k seq fs) \<le> length fs"
  by (induction fs arbitrary: seq) (auto split: sum.splits option.splits)

lemma accept_stream_full:
  "length (accept_stream c k seq (fs @ gs)) = length (fs @ gs) \<Longrightarrow>
   length (accept_stream c k seq fs) = length fs"
proof (induction fs arbitrary: seq)
  case (Cons f fs)
  then show ?case by (auto split: sum.splits option.splits)
qed simp

text \<open>A cipher that satisfies \<open>aead_ok\<close>: the text followed by a tag of 16 zero bytes.\<close>

definition null_cipher :: "nat crypto" where
  "null_cipher =
     \<lparr>cr_enc = (\<lambda>k iv ad p. Some (p @ replicate 16 0)),
      cr_dec = (\<lambda>k iv ad ct. if 16 \<le> length ct \<and> drop (length ct - 16) ct = replicate 16 0
                 then Some (take (length ct - 16) ct) else None),
      cr_rand = (\<lambda>n. replicate 8 0)\<rparr>"

lemma null_cipher_ok: "aead_ok null_cipher k"
  by (simp add: aead_ok_def null_cipher_def)

section \<open>The listener table\<close>

text \<open>
  Event types, events and the table both classes keep: the registered listeners per type, the
  \<open>on...\<close> handler per type, and, as history variables, every dispatched event and every
  handler call in order. A handler is named by a number (its function identity). A handler that
  throws is caught in \<open>_dispatch\<close>, so it does not change what is called next.
\<close>

datatype ev_type = T_Open | T_Message | T_Close | T_Error | T_Integrity

datatype vnc_event =
    Ev_Open
  | Ev_Message "byte list"
  | Ev_Close nat string bool
  | Ev_Error
  | Ev_Integrity frame_error

fun type_of :: "vnc_event \<Rightarrow> ev_type" where
  "type_of Ev_Open = T_Open"
| "type_of (Ev_Message d) = T_Message"
| "type_of (Ev_Close c r w) = T_Close"
| "type_of Ev_Error = T_Error"
| "type_of (Ev_Integrity e) = T_Integrity"

record hub =
  hb_listeners :: "ev_type \<Rightarrow> nat list"
  hb_on :: "ev_type \<Rightarrow> nat option"
  hb_events :: "vnc_event list"
  hb_calls :: "(nat \<times> vnc_event) list"

definition empty_hub :: hub where
  "empty_hub = \<lparr>hb_listeners = (\<lambda>_. []), hb_on = (\<lambda>_. None), hb_events = [], hb_calls = []\<rparr>"

definition add_listener :: "ev_type \<Rightarrow> nat \<Rightarrow> hub \<Rightarrow> hub" where
  "add_listener t f h = h\<lparr>hb_listeners := (hb_listeners h)(t := hb_listeners h t @ [f])\<rparr>"

definition remove_listener :: "ev_type \<Rightarrow> nat \<Rightarrow> hub \<Rightarrow> hub" where
  "remove_listener t f h = h\<lparr>hb_listeners := (hb_listeners h)(t := remove1 f (hb_listeners h t))\<rparr>"

definition set_on :: "ev_type \<Rightarrow> nat option \<Rightarrow> hub \<Rightarrow> hub" where
  "set_on t f h = h\<lparr>hb_on := (hb_on h)(t := f)\<rparr>"

definition dispatch :: "vnc_event \<Rightarrow> hub \<Rightarrow> hub" where
  "dispatch ev h = h\<lparr>hb_events := hb_events h @ [ev],
     hb_calls := hb_calls h @ map (\<lambda>f. (f, ev)) (hb_listeners h (type_of ev))
                  @ (case hb_on h (type_of ev) of None \<Rightarrow> [] | Some f \<Rightarrow> [(f, ev)])\<rparr>"

fun messages :: "vnc_event list \<Rightarrow> byte list list" where
  "messages [] = []"
| "messages (Ev_Message d # es) = d # messages es"
| "messages (_ # es) = messages es"

lemma messages_append [simp]: "messages (xs @ ys) = messages xs @ messages ys"
  by (induction xs rule: messages.induct) auto

lemma dispatch_events [simp]: "hb_events (dispatch ev h) = hb_events h @ [ev]"
  by (simp add: dispatch_def)

lemma listener_events [simp]:
  "hb_events (add_listener t f h) = hb_events h"
  "hb_events (remove_listener t f h) = hb_events h"
  "hb_events (set_on t g h) = hb_events h"
  by (simp_all add: add_listener_def remove_listener_def set_on_def)

lemma empty_hub_events [simp]: "hb_events empty_hub = []"
  by (simp add: empty_hub_def)

end
