(* ===== verification/Vnc_Secure.thy ===== *)
theory Vnc_Secure
  imports Vnc_Frames
begin

text \<open>
  \<open>SecureVncSocket\<close> (web/src/vnc_secure_socket.js): a WebSocket-shaped wrapper that encrypts every
  message. Its fields are the record \<open>secure\<close>; each method and each callback it registers is one
  definition; \<open>sec_step\<close> is one turn of the event loop. A turn is a settled promise, an event of
  the WebSocket below, or a call of the client (noVNC). \<open>_recvChain\<close> and \<open>_sendChain\<close> are queues
  of the callbacks still to run, so every order in which WebCrypto may settle its promises is a
  run of the machine.
\<close>

section \<open>State\<close>

datatype payload = P_Text string | P_Bytes "byte list"

datatype ws_phase = Ws_None | Ws_Connecting | Ws_Open | Ws_Gone

datatype ws_call = Ws_Send "byte list" | Ws_Close "nat option" "string option"

text \<open>
  \<open>sc_decrypting\<close> is the frame whose \<open>_decrypt\<close> is awaited: what its promise will settle to.
  \<open>sc_send_chain\<close> holds, per call of \<open>_encryptAndSend\<close> still in \<open>_sendChain\<close>, whether the
  encryption has settled and its result. \<open>sc_sealed\<close> and \<open>sc_arrived\<close> are history variables: the
  texts given to \<open>_encrypt\<close> and the data of the message events, both in order.
\<close>

record 'k secure =
  sc_ready :: nat
  sc_hub :: hub
  sc_key_pending :: bool
  sc_key :: "'k option"
  sc_send_seq :: u32
  sc_recv_seq :: u32
  sc_send_queue :: "byte list list"
  sc_recv_chain :: "byte list list"
  sc_decrypting :: "byte list option option"
  sc_send_chain :: "(bool \<times> byte list option) list"
  sc_integrity_failed :: bool
  sc_ws :: ws_phase
  sc_ws_calls :: "ws_call list"
  sc_sealed :: "byte list list"
  sc_arrived :: "byte list list"

definition secure_new :: "'k secure" where
  "secure_new =
     \<lparr>sc_ready = 0, sc_hub = empty_hub, sc_key_pending = True, sc_key = None, sc_send_seq = 0,
      sc_recv_seq = 0, sc_send_queue = [], sc_recv_chain = [], sc_decrypting = None,
      sc_send_chain = [], sc_integrity_failed = False, sc_ws = Ws_None, sc_ws_calls = [],
      sc_sealed = [], sc_arrived = []\<rparr>"

definition secure_dispatch :: "vnc_event \<Rightarrow> 'k secure \<Rightarrow> 'k secure" where
  "secure_dispatch ev s = s\<lparr>sc_hub := dispatch ev (sc_hub s)\<rparr>"

section \<open>Sending\<close>

text \<open>\<open>TextEncoder\<close> on code units up to 255, and \<open>_u8\<close> on a buffer.\<close>

fun utf8 :: "string \<Rightarrow> byte list" where
  "utf8 [] = []"
| "utf8 (ch # cs) =
     (if code_of ch < 128 then word_of_nat (code_of ch) # utf8 cs
      else word_of_nat (192 + code_of ch div 64) # word_of_nat (128 + code_of ch mod 64) # utf8 cs)"

fun to_u8 :: "payload \<Rightarrow> byte list" where
  "to_u8 (P_Text s) = utf8 s"
| "to_u8 (P_Bytes b) = b"

text \<open>\<open>_encrypt\<close>: the sequence number is taken at the call; with no key WebCrypto rejects.\<close>

definition secure_encrypt :: "'k crypto \<Rightarrow> byte list \<Rightarrow> 'k secure \<Rightarrow> byte list option \<times> 'k secure" where
  "secure_encrypt c pt s =
     (let seq = sc_send_seq s;
          s' = s\<lparr>sc_send_seq := seq + 1, sc_sealed := sc_sealed s @ [pt]\<rparr>
      in (case sc_key s of None \<Rightarrow> None | Some k \<Rightarrow> seal c k (length (sc_sealed s)) seq pt, s'))"

definition secure_encrypt_and_send :: "'k crypto \<Rightarrow> byte list \<Rightarrow> 'k secure \<Rightarrow> 'k secure" where
  "secure_encrypt_and_send c pt s =
     (let (frame, s') = secure_encrypt c pt s
      in s'\<lparr>sc_send_chain := sc_send_chain s' @ [(False, frame)]\<rparr>)"

definition secure_send :: "'k crypto \<Rightarrow> payload \<Rightarrow> 'k secure \<Rightarrow> 'k secure" where
  "secure_send c data s =
     (let u8 = to_u8 data
      in if sc_ready s \<noteq> 1 \<or> sc_key s = None then s\<lparr>sc_send_queue := sc_send_queue s @ [u8]\<rparr>
         else secure_encrypt_and_send c u8 s)"

definition secure_close :: "nat option \<Rightarrow> string option \<Rightarrow> 'k secure \<Rightarrow> 'k secure" where
  "secure_close code reason s =
     (let s' = s\<lparr>sc_ready := 2\<rparr>
      in if sc_ws s \<noteq> Ws_None then s'\<lparr>sc_ws_calls := sc_ws_calls s' @ [Ws_Close code reason]\<rparr> else s')"

text \<open>The turns of \<open>_sendChain\<close>: an encryption settles, and the head of the chain, once settled,
  is handed to the socket; a rejected one is logged and skipped.\<close>

definition enc_settle :: "nat \<Rightarrow> 'k secure \<Rightarrow> 'k secure" where
  "enc_settle i s = s\<lparr>sc_send_chain := (sc_send_chain s)[i := (True, snd (sc_send_chain s ! i))]\<rparr>"

definition chain_send :: "'k secure \<Rightarrow> 'k secure" where
  "chain_send s =
     (case sc_send_chain s of
        (True, Some f) # rest \<Rightarrow> s\<lparr>sc_send_chain := rest, sc_ws_calls := sc_ws_calls s @ [Ws_Send f]\<rparr>
      | (True, None) # rest \<Rightarrow> s\<lparr>sc_send_chain := rest\<rparr>
      | _ \<Rightarrow> s)"

section \<open>The client\<close>

datatype client_call =
    Send payload
  | Close "nat option" "string option"
  | Add_Listener ev_type nat
  | Remove_Listener ev_type nat
  | Set_On ev_type "nat option"

fun client_do :: "'k crypto \<Rightarrow> client_call \<Rightarrow> 'k secure \<Rightarrow> 'k secure" where
  "client_do c (Send p) s = secure_send c p s"
| "client_do c (Close code reason) s = secure_close code reason s"
| "client_do c (Add_Listener t f) s = s\<lparr>sc_hub := add_listener t f (sc_hub s)\<rparr>"
| "client_do c (Remove_Listener t f) s = s\<lparr>sc_hub := remove_listener t f (sc_hub s)\<rparr>"
| "client_do c (Set_On t f) s = s\<lparr>sc_hub := set_on t f (sc_hub s)\<rparr>"

section \<open>The callbacks of the key import and of the WebSocket\<close>

definition open_socket :: "'k secure \<Rightarrow> 'k secure" where
  "open_socket s = s\<lparr>sc_ws := Ws_Connecting\<rparr>"

definition key_ready :: "'k \<Rightarrow> 'k secure \<Rightarrow> 'k secure" where
  "key_ready k s = open_socket (s\<lparr>sc_key_pending := False, sc_key := Some k\<rparr>)"

text \<open>The \<open>catch\<close> handler: the import was rejected, or \<open>new WebSocket(url)\<close> threw.\<close>

definition key_rejected :: "'k secure \<Rightarrow> 'k secure" where
  "key_rejected s = secure_dispatch Ev_Error (s\<lparr>sc_key_pending := False, sc_ready := 3\<rparr>)"

definition key_ready_bad_url :: "'k \<Rightarrow> 'k secure \<Rightarrow> 'k secure" where
  "key_ready_bad_url k s = key_rejected (s\<lparr>sc_key := Some k\<rparr>)"

text \<open>The \<open>while\<close> loop that flushes \<open>_sendQueue\<close>; \<open>_encryptAndSend\<close> never adds to the queue.\<close>

fun flush_queue :: "'k crypto \<Rightarrow> byte list list \<Rightarrow> 'k secure \<Rightarrow> 'k secure" where
  "flush_queue c [] s = s\<lparr>sc_send_queue := []\<rparr>"
| "flush_queue c (p # q) s = flush_queue c q (secure_encrypt_and_send c p (s\<lparr>sc_send_queue := q\<rparr>))"

text \<open>The \<open>open\<close> listener. \<open>acts\<close> are the calls the client makes on the socket from inside its
  own \<open>open\<close> handlers, so before the flush.\<close>

definition on_open :: "'k crypto \<Rightarrow> client_call list \<Rightarrow> 'k secure \<Rightarrow> 'k secure" where
  "on_open c acts s =
     (let s1 = secure_dispatch Ev_Open (s\<lparr>sc_ws := Ws_Open, sc_ready := 1\<rparr>);
          s2 = fold (client_do c) acts s1
      in flush_queue c (sc_send_queue s2) s2)"

definition on_message :: "byte list \<Rightarrow> 'k secure \<Rightarrow> 'k secure" where
  "on_message d s = s\<lparr>sc_recv_chain := sc_recv_chain s @ [d], sc_arrived := sc_arrived s @ [d]\<rparr>"

definition on_close :: "nat \<Rightarrow> string \<Rightarrow> bool \<Rightarrow> 'k secure \<Rightarrow> 'k secure" where
  "on_close code reason clean s =
     secure_dispatch (Ev_Close code reason clean) (s\<lparr>sc_ws := Ws_Gone, sc_ready := 3\<rparr>)"

definition on_error :: "'k secure \<Rightarrow> 'k secure" where
  "on_error s = secure_dispatch Ev_Error s"

section \<open>Receiving\<close>

text \<open>\<open>_decrypt\<close> up to its \<open>await\<close>: the checks, and the receive counter taken before the await.\<close>

definition secure_decrypt :: "byte list \<Rightarrow> 'k secure \<Rightarrow>
    (frame_error + (byte list \<times> byte list \<times> byte list)) \<times> 'k secure" where
  "secure_decrypt d s =
     (case check_frame (sc_recv_seq s) d of
        Inl e \<Rightarrow> (Inl e, s)
      | Inr p \<Rightarrow> (Inr p, s\<lparr>sc_recv_seq := sc_recv_seq s + 1\<rparr>))"

text \<open>The \<open>catch\<close> branch of \<open>_deliver\<close>.\<close>

definition integrity_fail :: "frame_error \<Rightarrow> 'k secure \<Rightarrow> 'k secure" where
  "integrity_fail e s =
     (let s' = secure_dispatch (Ev_Integrity e) (s\<lparr>sc_integrity_failed := True\<rparr>)
      in s'\<lparr>sc_ws_calls := sc_ws_calls s' @ [Ws_Close (Some 4099) (Some ''integrity_check_failed'')]\<rparr>)"

text \<open>\<open>_deliver\<close>, from the start of the chained callback to the await, and from the settled
  promise to the end.\<close>

definition deliver_start :: "'k crypto \<Rightarrow> 'k secure \<Rightarrow> 'k secure" where
  "deliver_start c s =
     (case sc_recv_chain s of
        [] \<Rightarrow> s
      | d # rest \<Rightarrow>
          let s1 = s\<lparr>sc_recv_chain := rest\<rparr>
          in if sc_integrity_failed s then s1
             else case secure_decrypt d s1 of
                    (Inl e, s2) \<Rightarrow> integrity_fail e s2
                  | (Inr p, s2) \<Rightarrow>
                      s2\<lparr>sc_decrypting := Some (case sc_key s of None \<Rightarrow> None | Some k \<Rightarrow> open_frame c k p)\<rparr>)"

definition deliver_settle :: "'k secure \<Rightarrow> 'k secure" where
  "deliver_settle s =
     (case sc_decrypting s of
        None \<Rightarrow> s
      | Some (Some pt) \<Rightarrow> secure_dispatch (Ev_Message pt) (s\<lparr>sc_decrypting := None\<rparr>)
      | Some None \<Rightarrow> integrity_fail Auth_Failed (s\<lparr>sc_decrypting := None\<rparr>))"

section \<open>One turn of the event loop\<close>

datatype sec_event =
    Key_Ready
  | Key_Ready_Bad_Url
  | Key_Rejected
  | Socket_Open "client_call list"
  | Socket_Message "byte list"
  | Socket_Closed nat string bool
  | Socket_Error
  | Deliver_Start
  | Deliver_Settle
  | Enc_Settle nat
  | Chain_Send
  | Client client_call

text \<open>The guards are what the browser promises: the key promise settles once, a WebSocket opens
  once, delivers messages while open, and the next callback of a promise chain starts when the one
  before has settled. \<open>k\<close> is the imported key.\<close>

inductive sec_step :: "'k crypto \<Rightarrow> 'k \<Rightarrow> 'k secure \<Rightarrow> sec_event \<Rightarrow> 'k secure \<Rightarrow> bool" for c k where
  key_ready: "sc_key_pending s \<Longrightarrow> sec_step c k s Key_Ready (key_ready k s)"
| key_bad_url: "sc_key_pending s \<Longrightarrow> sec_step c k s Key_Ready_Bad_Url (key_ready_bad_url k s)"
| key_rejected: "sc_key_pending s \<Longrightarrow> sec_step c k s Key_Rejected (key_rejected s)"
| socket_open: "sc_ws s = Ws_Connecting \<Longrightarrow> sec_step c k s (Socket_Open acts) (on_open c acts s)"
| socket_message: "sc_ws s = Ws_Open \<Longrightarrow> sec_step c k s (Socket_Message d) (on_message d s)"
| socket_closed: "sc_ws s = Ws_Connecting \<or> sc_ws s = Ws_Open \<Longrightarrow>
    sec_step c k s (Socket_Closed code reason clean) (on_close code reason clean s)"
| socket_error: "sc_ws s = Ws_Connecting \<or> sc_ws s = Ws_Open \<Longrightarrow> sec_step c k s Socket_Error (on_error s)"
| deliver_start: "sc_decrypting s = None \<Longrightarrow> sc_recv_chain s \<noteq> [] \<Longrightarrow>
    sec_step c k s Deliver_Start (deliver_start c s)"
| deliver_settle: "sc_decrypting s \<noteq> None \<Longrightarrow> sec_step c k s Deliver_Settle (deliver_settle s)"
| enc_settle: "i < length (sc_send_chain s) \<Longrightarrow> sec_step c k s (Enc_Settle i) (enc_settle i s)"
| chain_send: "sc_send_chain s = (True, r) # rest \<Longrightarrow> sec_step c k s Chain_Send (chain_send s)"
| client: "sec_step c k s (Client a) (client_do c a s)"

inductive_cases sec_step_elim: "sec_step c k s e s'"

text \<open>The same machine as a partial function, to run it on concrete events.\<close>

fun sec_exec :: "'k crypto \<Rightarrow> 'k \<Rightarrow> 'k secure \<Rightarrow> sec_event \<Rightarrow> 'k secure option" where
  "sec_exec c k s Key_Ready = (if sc_key_pending s then Some (key_ready k s) else None)"
| "sec_exec c k s Key_Ready_Bad_Url = (if sc_key_pending s then Some (key_ready_bad_url k s) else None)"
| "sec_exec c k s Key_Rejected = (if sc_key_pending s then Some (key_rejected s) else None)"
| "sec_exec c k s (Socket_Open acts) = (if sc_ws s = Ws_Connecting then Some (on_open c acts s) else None)"
| "sec_exec c k s (Socket_Message d) = (if sc_ws s = Ws_Open then Some (on_message d s) else None)"
| "sec_exec c k s (Socket_Closed code reason clean) =
     (if sc_ws s = Ws_Connecting \<or> sc_ws s = Ws_Open then Some (on_close code reason clean s) else None)"
| "sec_exec c k s Socket_Error =
     (if sc_ws s = Ws_Connecting \<or> sc_ws s = Ws_Open then Some (on_error s) else None)"
| "sec_exec c k s Deliver_Start =
     (if sc_decrypting s = None \<and> sc_recv_chain s \<noteq> [] then Some (deliver_start c s) else None)"
| "sec_exec c k s Deliver_Settle = (if sc_decrypting s \<noteq> None then Some (deliver_settle s) else None)"
| "sec_exec c k s (Enc_Settle i) = (if i < length (sc_send_chain s) then Some (enc_settle i s) else None)"
| "sec_exec c k s Chain_Send =
     (case sc_send_chain s of (True, r) # rest \<Rightarrow> Some (chain_send s) | _ \<Rightarrow> None)"
| "sec_exec c k s (Client a) = Some (client_do c a s)"

lemma sec_exec_step: "sec_exec c k s e = Some s' \<longleftrightarrow> sec_step c k s e s'"
  by (cases e)
    (auto intro: sec_step.intros elim: sec_step_elim split: if_splits list.splits prod.splits bool.splits)

text \<open>The frames handed to the WebSocket, in order.\<close>

fun wire_of :: "ws_call list \<Rightarrow> byte list list" where
  "wire_of [] = []"
| "wire_of (Ws_Send f # cs) = f # wire_of cs"
| "wire_of (Ws_Close a b # cs) = wire_of cs"

definition wire :: "'k secure \<Rightarrow> byte list list" where
  "wire s = wire_of (sc_ws_calls s)"

definition delivered :: "'k secure \<Rightarrow> byte list list" where
  "delivered s = messages (hb_events (sc_hub s))"

lemma wire_of_append [simp]: "wire_of (xs @ ys) = wire_of xs @ wire_of ys"
  by (induction xs rule: wire_of.induct) auto

section \<open>The sending side\<close>

text \<open>Every text given to \<open>_encrypt\<close> is either on the wire or waiting in \<open>_sendChain\<close>, in call
  order and sealed under consecutive sequence numbers.\<close>

definition send_inv :: "'k crypto \<Rightarrow> 'k \<Rightarrow> 'k secure \<Rightarrow> bool" where
  "send_inv c k s \<longleftrightarrow>
     (sc_key s = None \<or> sc_key s = Some k) \<and>
     (sc_ws s \<noteq> Ws_None \<longrightarrow> sc_key s = Some k) \<and>
     sc_send_seq s = word_of_nat (length (sc_sealed s)) \<and>
     map Some (wire s) @ map snd (sc_send_chain s) = seal_all c k 0 0 (sc_sealed s)"

lemmas secure_defs = secure_dispatch_def secure_close_def open_socket_def key_ready_def
  key_rejected_def key_ready_bad_url_def on_message_def on_close_def on_error_def integrity_fail_def Let_def

lemma send_inv_new: "send_inv c k secure_new"
  by (simp add: send_inv_def secure_new_def wire_def)

lemma send_inv_encrypt_and_send:
  assumes "send_inv c k s" and "sc_key s = Some k"
  shows "send_inv c k (secure_encrypt_and_send c pt s)"
  using assms
  by (simp add: send_inv_def secure_encrypt_and_send_def secure_encrypt_def wire_def Let_def
      seal_all_append flip: append_assoc)

lemma encrypt_and_send_frame [simp]:
  "sc_key (secure_encrypt_and_send c pt s) = sc_key s"
  "sc_ws (secure_encrypt_and_send c pt s) = sc_ws s"
  "sc_hub (secure_encrypt_and_send c pt s) = sc_hub s"
  "sc_recv_seq (secure_encrypt_and_send c pt s) = sc_recv_seq s"
  "sc_recv_chain (secure_encrypt_and_send c pt s) = sc_recv_chain s"
  "sc_decrypting (secure_encrypt_and_send c pt s) = sc_decrypting s"
  "sc_integrity_failed (secure_encrypt_and_send c pt s) = sc_integrity_failed s"
  "sc_arrived (secure_encrypt_and_send c pt s) = sc_arrived s"
  "sc_send_queue (secure_encrypt_and_send c pt s) = sc_send_queue s"
  "sc_ws_calls (secure_encrypt_and_send c pt s) = sc_ws_calls s"
  by (simp_all add: secure_encrypt_and_send_def secure_encrypt_def Let_def)

lemma send_inv_send: "send_inv c k s \<Longrightarrow> send_inv c k (secure_send c p s)"
  by (auto simp: secure_send_def Let_def intro!: send_inv_encrypt_and_send)
    (auto simp: send_inv_def wire_def)

lemma send_inv_client: "send_inv c k s \<Longrightarrow> send_inv c k (client_do c a s)"
  by (cases a) (auto simp: send_inv_send, auto simp: send_inv_def wire_def secure_close_def Let_def)

lemma client_do_frame [simp]:
  "sc_key (client_do c a s) = sc_key s"
  "sc_ws (client_do c a s) = sc_ws s"
  "sc_recv_seq (client_do c a s) = sc_recv_seq s"
  "sc_recv_chain (client_do c a s) = sc_recv_chain s"
  "sc_decrypting (client_do c a s) = sc_decrypting s"
  "sc_integrity_failed (client_do c a s) = sc_integrity_failed s"
  "sc_arrived (client_do c a s) = sc_arrived s"
  "hb_events (sc_hub (client_do c a s)) = hb_events (sc_hub s)"
  by (cases a; simp add: secure_send_def secure_close_def Let_def)+

lemma fold_client_frame [simp]:
  "sc_key (fold (client_do c) acts s) = sc_key s"
  "sc_ws (fold (client_do c) acts s) = sc_ws s"
  "sc_recv_seq (fold (client_do c) acts s) = sc_recv_seq s"
  "sc_recv_chain (fold (client_do c) acts s) = sc_recv_chain s"
  "sc_decrypting (fold (client_do c) acts s) = sc_decrypting s"
  "sc_integrity_failed (fold (client_do c) acts s) = sc_integrity_failed s"
  "sc_arrived (fold (client_do c) acts s) = sc_arrived s"
  "hb_events (sc_hub (fold (client_do c) acts s)) = hb_events (sc_hub s)"
  by (induction acts arbitrary: s) simp_all

lemma send_inv_fold: "send_inv c k s \<Longrightarrow> send_inv c k (fold (client_do c) acts s)"
  by (induction acts arbitrary: s) (simp_all add: send_inv_client)

lemma flush_queue_frame [simp]:
  "sc_key (flush_queue c q s) = sc_key s"
  "sc_ws (flush_queue c q s) = sc_ws s"
  "sc_hub (flush_queue c q s) = sc_hub s"
  "sc_recv_seq (flush_queue c q s) = sc_recv_seq s"
  "sc_recv_chain (flush_queue c q s) = sc_recv_chain s"
  "sc_decrypting (flush_queue c q s) = sc_decrypting s"
  "sc_integrity_failed (flush_queue c q s) = sc_integrity_failed s"
  "sc_arrived (flush_queue c q s) = sc_arrived s"
  by (induction q arbitrary: s) simp_all

lemma send_inv_queue: "send_inv c k (s\<lparr>sc_send_queue := q\<rparr>) = send_inv c k s"
  by (simp add: send_inv_def wire_def)

lemma send_inv_flush:
  "send_inv c k s \<Longrightarrow> sc_key s = Some k \<Longrightarrow> send_inv c k (flush_queue c q s)"
  by (induction q arbitrary: s) (simp_all add: send_inv_queue send_inv_encrypt_and_send)

lemma send_inv_on_open:
  assumes "send_inv c k s" and "sc_ws s = Ws_Connecting"
  shows "send_inv c k (on_open c acts s)"
proof -
  let ?s1 = "secure_dispatch Ev_Open (s\<lparr>sc_ws := Ws_Open, sc_ready := 1\<rparr>)"
  have k: "sc_key s = Some k"
    using assms by (simp add: send_inv_def)
  with assms have "send_inv c k ?s1"
    by (simp add: send_inv_def secure_dispatch_def wire_def)
  then have "send_inv c k (fold (client_do c) acts ?s1)"
    by (rule send_inv_fold)
  then show ?thesis
    by (simp add: on_open_def Let_def send_inv_flush k secure_dispatch_def)
qed

lemma send_inv_chain_send:
  assumes ok: "aead_ok c k" and inv: "send_inv c k s" and chain: "sc_send_chain s = (True, r) # rest"
  shows "send_inv c k (chain_send s)"
proof -
  have "r \<in> set (seal_all c k 0 0 (sc_sealed s))"
    using inv chain unfolding send_inv_def
    by (metis Un_iff list.set_intros(1) list.simps(9) set_append snd_conv)
  then obtain f where "r = Some f"
    using seal_all_Some [OF ok] by blast
  with inv chain show ?thesis
    by (simp add: send_inv_def chain_send_def wire_def)
qed

lemma send_inv_enc_settle: "send_inv c k s \<Longrightarrow> i < length (sc_send_chain s) \<Longrightarrow> send_inv c k (enc_settle i s)"
  by (simp add: send_inv_def enc_settle_def wire_def map_update) (metis list_update_id nth_map)

lemma send_inv_deliver:
  "send_inv c k s \<Longrightarrow> send_inv c k (deliver_start c s)"
  "send_inv c k s \<Longrightarrow> send_inv c k (deliver_settle s)"
  by (auto simp: send_inv_def deliver_start_def deliver_settle_def secure_decrypt_def secure_defs
      wire_def split: list.splits sum.splits option.splits)

lemma send_inv_step:
  assumes ok: "aead_ok c k" and inv: "send_inv c k s" and step: "sec_step c k s e s'"
  shows "send_inv c k s'"
  using step
proof cases
  case chain_send
  then show ?thesis using send_inv_chain_send [OF ok inv] by simp
qed (use inv in \<open>simp_all add: send_inv_on_open send_inv_client send_inv_enc_settle send_inv_deliver\<close>,
     auto simp: send_inv_def secure_defs wire_def)

interpretation sec_send: step_machine "sec_step c k" "\<lambda>s. s = secure_new"
    "\<lambda>s. aead_ok c k \<longrightarrow> send_inv c k s" for c k
  by unfold_locales (auto simp: send_inv_new intro: send_inv_step)

section \<open>The receiving side\<close>

text \<open>The frames handed to the client are an initial part \<open>fs\<close> of those that arrived; what follows
  in the arrival order is the frame being decrypted and then \<open>_recvChain\<close>.\<close>

definition recv_done :: "'k crypto \<Rightarrow> 'k \<Rightarrow> 'k secure \<Rightarrow> byte list list \<Rightarrow> bool" where
  "recv_done c k s fs \<longleftrightarrow> accept_stream c k 0 fs = delivered s \<and> length (delivered s) = length fs"

definition recv_live :: "'k crypto \<Rightarrow> 'k \<Rightarrow> 'k secure \<Rightarrow> byte list list \<Rightarrow> bool" where
  "recv_live c k s fs \<longleftrightarrow>
     (case sc_decrypting s of
        None \<Rightarrow> sc_arrived s = fs @ sc_recv_chain s \<and> sc_recv_seq s = word_of_nat (length fs)
      | Some r \<Rightarrow> \<exists>f p. sc_arrived s = fs @ f # sc_recv_chain s
                   \<and> sc_recv_seq s = word_of_nat (length fs) + 1
                   \<and> check_frame (word_of_nat (length fs)) f = Inr p \<and> r = open_frame c k p)"

definition recv_failed :: "'k crypto \<Rightarrow> 'k \<Rightarrow> 'k secure \<Rightarrow> byte list list \<Rightarrow> bool" where
  "recv_failed c k s fs \<longleftrightarrow>
     sc_decrypting s = None \<and>
     (\<exists>f rest. sc_arrived s = fs @ f # rest \<and> accept_stream c k (word_of_nat (length fs)) [f] = [])"

definition recv_inv :: "'k crypto \<Rightarrow> 'k \<Rightarrow> 'k secure \<Rightarrow> bool" where
  "recv_inv c k s \<longleftrightarrow>
     (sc_key s = None \<or> sc_key s = Some k) \<and>
     (sc_ws s \<noteq> Ws_None \<longrightarrow> sc_key s = Some k) \<and>
     (sc_key s = None \<longrightarrow> sc_arrived s = []) \<and>
     (\<exists>fs. recv_done c k s fs \<and> (if sc_integrity_failed s then recv_failed c k s fs else recv_live c k s fs))"

lemmas recv_defs = recv_inv_def recv_done_def recv_live_def recv_failed_def delivered_def

lemma recv_inv_new: "recv_inv c k secure_new"
  by (simp add: recv_defs secure_new_def)

text \<open>Only these fields matter to the invariant.\<close>

lemma recv_inv_cong:
  assumes "recv_inv c k s" and "sc_key s' = sc_key s" and "sc_ws s' \<noteq> Ws_None \<longrightarrow> sc_ws s \<noteq> Ws_None"
    and "sc_arrived s' = sc_arrived s" "sc_recv_chain s' = sc_recv_chain s"
    "sc_recv_seq s' = sc_recv_seq s" "sc_decrypting s' = sc_decrypting s"
    "sc_integrity_failed s' = sc_integrity_failed s" "delivered s' = delivered s"
  shows "recv_inv c k s'"
proof -
  have "recv_done c k s' = recv_done c k s" "recv_live c k s' = recv_live c k s"
    "recv_failed c k s' = recv_failed c k s"
    using assms
    by (simp_all add: fun_eq_iff recv_done_def recv_live_def recv_failed_def split: option.split)
  then show ?thesis
    using assms by (auto simp: recv_inv_def)
qed

lemma recv_inv_on_message:
  assumes "recv_inv c k s" and "sc_ws s = Ws_Open"
  shows "recv_inv c k (on_message d s)"
proof -
  obtain fs where fs: "recv_done c k s fs"
    "if sc_integrity_failed s then recv_failed c k s fs else recv_live c k s fs"
    using assms by (auto simp: recv_inv_def)
  then have "recv_done c k (on_message d s) fs"
    by (simp add: recv_defs on_message_def)
  moreover have "if sc_integrity_failed s then recv_failed c k (on_message d s) fs
      else recv_live c k (on_message d s) fs"
    using fs(2)
    by (auto simp: recv_live_def recv_failed_def on_message_def split: option.splits if_splits)
  ultimately show ?thesis
    using assms by (auto simp: recv_inv_def on_message_def)
qed

lemma recv_inv_deliver_start:
  assumes inv: "recv_inv c k s" and none: "sc_decrypting s = None" and ne: "sc_recv_chain s \<noteq> []"
  shows "recv_inv c k (deliver_start c s)"
proof -
  obtain d rest where chain: "sc_recv_chain s = d # rest"
    using ne by (cases "sc_recv_chain s") auto
  obtain fs where fs: "recv_done c k s fs"
    "if sc_integrity_failed s then recv_failed c k s fs else recv_live c k s fs"
    using inv by (auto simp: recv_inv_def)
  show ?thesis
  proof (cases "sc_integrity_failed s")
    case True
    with inv fs chain show ?thesis
      by (auto simp: recv_defs deliver_start_def)
  next
    case False
    with fs none chain have arr: "sc_arrived s = fs @ d # rest"
      and seq: "sc_recv_seq s = word_of_nat (length fs)"
      by (auto simp: recv_live_def)
    with inv have key: "sc_key s = Some k"
      by (auto simp: recv_inv_def)
    show ?thesis
    proof (cases "check_frame (word_of_nat (length fs)) d")
      case (Inl e)
      then have "recv_done c k (deliver_start c s) fs" "recv_failed c k (deliver_start c s) fs"
        "sc_integrity_failed (deliver_start c s)"
        using False chain seq arr fs(1) none
        by (auto simp: recv_defs deliver_start_def secure_decrypt_def secure_defs)
      moreover have "sc_key (deliver_start c s) = Some k"
        using False chain seq Inl key by (simp add: deliver_start_def secure_decrypt_def secure_defs)
      ultimately show ?thesis by (auto simp: recv_inv_def)
    next
      case (Inr p)
      then show ?thesis
        using False chain seq arr fs(1) key
        by (auto simp: recv_defs deliver_start_def secure_decrypt_def Let_def) (metis prod_cases3)
    qed
  qed
qed

lemma accept_stream_snoc:
  assumes "length (accept_stream c k seq fs) = length fs"
  shows "accept_stream c k seq (fs @ gs) =
    accept_stream c k seq fs @ accept_stream c k (seq + word_of_nat (length fs)) gs"
  using assms
proof (induction fs arbitrary: seq)
  case (Cons f fs)
  then show ?case by (auto split: sum.splits option.splits simp: algebra_simps)
qed simp

lemma recv_inv_deliver_settle:
  assumes inv: "recv_inv c k s" and dec: "sc_decrypting s = Some r"
  shows "recv_inv c k (deliver_settle s)"
proof -
  obtain fs where fs: "recv_done c k s fs"
    "if sc_integrity_failed s then recv_failed c k s fs else recv_live c k s fs"
    using inv by (auto simp: recv_inv_def)
  with dec have live: "\<not> sc_integrity_failed s" "recv_live c k s fs"
    by (auto simp: recv_failed_def split: if_splits)
  with dec obtain f p where arr: "sc_arrived s = fs @ f # sc_recv_chain s"
    and seq: "sc_recv_seq s = word_of_nat (length fs) + 1"
    and chk: "check_frame (word_of_nat (length fs)) f = Inr p" "r = open_frame c k p"
    by (auto simp: recv_live_def)
  have key: "sc_key s = Some k"
    using inv arr by (auto simp: recv_inv_def)
  show ?thesis
  proof (cases r)
    case None
    with dec live arr chk fs(1) have "recv_done c k (deliver_settle s) fs"
      "recv_failed c k (deliver_settle s) fs" "sc_integrity_failed (deliver_settle s)"
      "sc_key (deliver_settle s) = Some k"
      using key by (auto simp: recv_defs deliver_settle_def secure_defs)
    then show ?thesis by (auto simp: recv_inv_def)
  next
    case (Some pt)
    have "open_frame c k p = Some pt"
      using chk(2) Some by simp
    with chk(1) have "accept_stream c k (word_of_nat (length fs)) [f] = [pt]"
      by simp
    with fs(1) have "recv_done c k (deliver_settle s) (fs @ [f])"
      using dec Some by (simp add: recv_defs deliver_settle_def secure_dispatch_def accept_stream_snoc)
    moreover have "recv_live c k (deliver_settle s) (fs @ [f])"
      using dec Some arr seq by (simp add: recv_live_def deliver_settle_def secure_dispatch_def add.commute)
    moreover have "sc_key (deliver_settle s) = Some k" "\<not> sc_integrity_failed (deliver_settle s)"
      using dec Some key live by (simp_all add: deliver_settle_def secure_dispatch_def)
    ultimately show ?thesis by (auto simp: recv_inv_def)
  qed
qed

lemma recv_inv_step:
  assumes inv: "recv_inv c k s" and step: "sec_step c k s e s'"
  shows "recv_inv c k s'"
  using step
proof cases
  case key_ready
  with inv show ?thesis by (auto simp: recv_defs secure_defs split: option.splits if_splits)
next
  case key_bad_url
  with inv show ?thesis by (auto simp: recv_defs secure_defs split: option.splits if_splits)
next
  case key_rejected
  with inv show ?thesis
    by (intro recv_inv_cong [OF inv]) (simp_all add: secure_defs delivered_def)
next
  case (socket_open acts)
  with inv show ?thesis
    by (intro recv_inv_cong [OF inv]) (simp_all add: on_open_def secure_defs delivered_def)
next
  case (socket_closed code reason clean)
  with inv show ?thesis
    by (intro recv_inv_cong [OF inv]) (auto simp: secure_defs delivered_def)
next
  case socket_error
  with inv show ?thesis
    by (intro recv_inv_cong [OF inv]) (simp_all add: secure_defs delivered_def)
next
  case (deliver_settle)
  with inv show ?thesis by (auto intro: recv_inv_deliver_settle)
next
  case (enc_settle i)
  with inv show ?thesis
    by (intro recv_inv_cong [OF inv]) (simp_all add: enc_settle_def delivered_def)
next
  case (chain_send r rest)
  with inv show ?thesis
    by (intro recv_inv_cong [OF inv])
      (auto simp: chain_send_def delivered_def split: option.splits)
next
  case (client a)
  with inv show ?thesis
    by (intro recv_inv_cong [OF inv]) (simp_all add: delivered_def)
qed (use inv in \<open>simp_all add: recv_inv_on_message recv_inv_deliver_start\<close>)

interpretation sec_recv: step_machine "sec_step c k" "\<lambda>s. s = secure_new" "recv_inv c k" for c k
  by unfold_locales (auto simp: recv_inv_new intro: recv_inv_step)

section \<open>Facts on runs\<close>

lemma wire_sealed:
  assumes "aead_ok c k" and "send_inv c k s"
  shows "accept_stream c k 0 (wire s) = take (length (wire s)) (sc_sealed s)"
proof -
  let ?n = "length (wire s)"
  have eq: "map Some (wire s) @ map snd (sc_send_chain s) = seal_all c k 0 0 (sc_sealed s)"
    using assms(2) by (simp add: send_inv_def)
  then have "?n \<le> length (sc_sealed s)"
    by (metis le_add1 length_append length_map seal_all_length)
  then have "take ?n (seal_all c k 0 0 (sc_sealed s)) = seal_all c k 0 0 (take ?n (sc_sealed s))"
    using seal_all_append [of c k 0 0 "take ?n (sc_sealed s)" "drop ?n (sc_sealed s)"] by simp
  moreover have "take ?n (seal_all c k 0 0 (sc_sealed s)) = map Some (wire s)"
    using eq [symmetric] by simp
  ultimately have "map the (seal_all c k 0 0 (take ?n (sc_sealed s))) = map the (map Some (wire s))"
    by simp
  then have "wire s = map the (seal_all c k 0 0 (take ?n (sc_sealed s)))"
    by (simp add: comp_def)
  then show ?thesis
    using accept_seal_all [OF assms(1), of 0 0 "take ?n (sc_sealed s)"] by simp
qed

lemma delivered_accept:
  assumes "recv_inv c k s"
  shows "prefix (delivered s) (accept_stream c k 0 (sc_arrived s))"
    and "sc_integrity_failed s \<Longrightarrow> delivered s = accept_stream c k 0 (sc_arrived s)"
proof -
  obtain fs where fs: "recv_done c k s fs"
    "if sc_integrity_failed s then recv_failed c k s fs else recv_live c k s fs"
    using assms by (auto simp: recv_inv_def)
  then obtain gs where arr: "sc_arrived s = fs @ gs"
    by (auto simp: recv_live_def recv_failed_def split: if_splits option.splits)
  have split: "accept_stream c k 0 (fs @ gs) = delivered s @ accept_stream c k (word_of_nat (length fs)) gs"
    using fs(1) by (simp add: recv_done_def accept_stream_snoc)
  then show "prefix (delivered s) (accept_stream c k 0 (sc_arrived s))"
    by (simp add: arr)
  assume "sc_integrity_failed s"
  then obtain f rest where "gs = f # rest" "accept_stream c k (word_of_nat (length fs)) [f] = []"
    using fs(2) arr by (auto simp: recv_failed_def)
  then have "accept_stream c k (word_of_nat (length fs)) gs = []"
    by (auto split: sum.splits option.splits)
  with split show "delivered s = accept_stream c k 0 (sc_arrived s)"
    by (simp add: arr)
qed

text \<open>After a failed integrity check the socket stays failed, has asked for a close with code 4099,
  and hands nothing more to the client.\<close>

definition fail_inv :: "byte list list \<Rightarrow> 'k secure \<Rightarrow> bool" where
  "fail_inv ms s \<longleftrightarrow>
     sc_integrity_failed s \<and> sc_decrypting s = None \<and> delivered s = ms \<and>
     Ws_Close (Some 4099) (Some ''integrity_check_failed'') \<in> set (sc_ws_calls s)"

lemma client_calls_grow: "set (sc_ws_calls s) \<subseteq> set (sc_ws_calls (client_do c a s))"
  by (cases a) (auto simp: secure_send_def secure_close_def Let_def)

lemma fold_client_calls_grow: "set (sc_ws_calls s) \<subseteq> set (sc_ws_calls (fold (client_do c) acts s))"
proof (induction acts arbitrary: s)
  case (Cons a acts)
  then show ?case using client_calls_grow [of s c a] by fastforce
qed simp

lemma flush_queue_calls [simp]: "sc_ws_calls (flush_queue c q s) = sc_ws_calls s"
  by (induction q arbitrary: s) simp_all

lemma fail_inv_step:
  assumes inv: "fail_inv ms s" and step: "sec_step c k s e s'"
  shows "fail_inv ms s'"
  using step
proof cases
  case (socket_open acts)
  then show ?thesis
    using inv fold_client_calls_grow
    by (fastforce simp: fail_inv_def delivered_def on_open_def secure_dispatch_def Let_def)
next
  case (client a)
  then show ?thesis
    using inv client_calls_grow [of s c a] by (auto simp: fail_inv_def delivered_def)
next
  case deliver_start
  then show ?thesis
    using inv by (auto simp: fail_inv_def deliver_start_def delivered_def split: list.splits)
next
  case (chain_send r rest)
  then show ?thesis
    using inv by (cases r) (auto simp: fail_inv_def delivered_def chain_send_def)
qed (use inv in \<open>auto simp: fail_inv_def delivered_def secure_defs enc_settle_def\<close>)

definition closed_on_fail :: "'k secure \<Rightarrow> bool" where
  "closed_on_fail s \<longleftrightarrow> (sc_integrity_failed s \<longrightarrow> fail_inv (delivered s) s)"

lemma closed_on_fail_step:
  assumes inv: "closed_on_fail s" and step: "sec_step c k s e s'"
  shows "closed_on_fail s'"
proof (cases "sc_integrity_failed s")
  case True
  with inv have "fail_inv (delivered s) s'"
    using step by (auto simp: closed_on_fail_def intro: fail_inv_step)
  then show ?thesis by (simp add: closed_on_fail_def fail_inv_def)
next
  case False
  with step show ?thesis
  proof cases
    case (socket_open acts)
    with False show ?thesis
      by (simp add: closed_on_fail_def on_open_def secure_dispatch_def Let_def)
  next
    case (deliver_start)
    with False show ?thesis
      by (auto simp: closed_on_fail_def fail_inv_def deliver_start_def secure_decrypt_def secure_defs
          split: list.splits sum.splits)
  next
    case deliver_settle
    with False show ?thesis
      by (auto simp: closed_on_fail_def fail_inv_def deliver_settle_def secure_defs split: option.splits)
  next
    case (chain_send r rest)
    with False show ?thesis
      by (cases r) (auto simp: closed_on_fail_def chain_send_def)
  qed (auto simp: closed_on_fail_def secure_defs enc_settle_def)
qed

interpretation sec_fail: step_machine "sec_step c k" "\<lambda>s. s = secure_new" closed_on_fail for c k
  by unfold_locales (simp add: closed_on_fail_def secure_new_def, rule closed_on_fail_step)

interpretation sec_failed: step_machine "sec_step c k" "fail_inv ms" "fail_inv ms" for c k ms
  by unfold_locales (auto intro: fail_inv_step)

section \<open>Properties\<close>

lemma secure_run:
  "run_exec (sec_exec c k) s es = Some s' \<Longrightarrow> steps (sec_step c k) s es s'"
  by (rule steps_run_exec) (auto simp: sec_exec_step)



definition demo_sender :: "sec_event list" where
  "demo_sender = [Client (Send (P_Bytes [7])), Key_Ready, Socket_Open [], Client (Send (P_Bytes [8, 9])),
     Enc_Settle 1, Enc_Settle 0, Chain_Send, Chain_Send]"

definition demo_frames :: "byte list list" where
  "demo_frames = map the (seal_all null_cipher 5 0 0 [[7], [8, 9]])"


lemmas secure_eval = secure_new_def key_ready_def open_socket_def on_open_def secure_send_def
  secure_encrypt_and_send_def secure_encrypt_def Let_def enc_settle_def chain_send_def wire_def
  secure_dispatch_def on_message_def deliver_start_def deliver_settle_def secure_decrypt_def
  integrity_fail_def secure_close_def delivered_def

lemma demo_sender_run:
  "\<exists>s. run_exec (sec_exec null_cipher 5) secure_new demo_sender = Some s \<and>
     wire s = demo_frames \<and> sc_sealed s = [[7], [8, 9]]"
  by (simp add: demo_sender_def demo_frames_def secure_eval null_cipher_def seal_def)

lemma demo_frames_checked:
  obtains f g p q where "demo_frames = [f, g]" and "check_frame 0 f = Inr p" and "check_frame 1 g = Inr q"
    and "open_frame null_cipher 5 p = Some [7]" and "open_frame null_cipher 5 q = Some [8, 9]"
proof -
  obtain f p where f: "seal null_cipher 5 0 0 [7] = Some f" "check_frame 0 f = Inr p"
      "open_frame null_cipher 5 p = Some [7]"
    by (rule seal_Some [OF null_cipher_ok])
  obtain g q where g: "seal null_cipher 5 (Suc 0) 1 [8, 9] = Some g" "check_frame 1 g = Inr q"
      "open_frame null_cipher 5 q = Some [8, 9]"
    by (rule seal_Some [OF null_cipher_ok])
  show ?thesis
    by (rule that [of f g p q]) (use f g in \<open>simp_all add: demo_frames_def\<close>)
qed



text \<open>C2. Whatever order WebCrypto settles the encryptions in, the frames on the wire are exactly
  those of the first texts given to \<open>_encrypt\<close>, in call order: a receiver that checks every
  sequence number accepts all of them and gets those texts.\<close>

theorem secure_wire_in_order:
  assumes "aead_ok c k" and "steps (sec_step c k) secure_new es s"
  shows "accept_stream c k 0 (wire s) = take (length (wire s)) (sc_sealed s)"
  using wire_sealed sec_send.inv_run [OF refl assms(2)] assms(1) by simp

theorem secure_wire_in_order_witness:
  "\<exists>s. steps (sec_step null_cipher 5) secure_new demo_sender s \<and> length (wire s) = 2 \<and>
     accept_stream null_cipher 5 0 (wire s) = [[7], [8, 9]]"
proof -
  obtain s where s: "run_exec (sec_exec null_cipher 5) secure_new demo_sender = Some s" "wire s = demo_frames"
    "sc_sealed s = [[7], [8, 9]]"
    using demo_sender_run by blast
  with secure_wire_in_order [OF null_cipher_ok secure_run [OF s(1)]] secure_run [OF s(1)] show ?thesis
    by (auto simp: demo_frames_def)
qed

text \<open>C3. For any cipher and any frames an attacker makes arrive: what the client has been handed is
  an initial part of what checking the arrived frames one by one, in arrival order, accepts; and
  once an integrity failure is reported it is exactly that, so nothing after the first bad frame
  gets through.\<close>

theorem secure_delivery_sound:
  assumes "steps (sec_step c k) secure_new es s"
  shows "if sc_integrity_failed s then delivered s = accept_stream c k 0 (sc_arrived s)
    else prefix (delivered s) (accept_stream c k 0 (sc_arrived s))"
  using delivered_accept [OF sec_recv.inv_run [OF refl assms]] by simp

definition demo_tampered :: "sec_event list" where
  "demo_tampered = [Key_Ready, Socket_Open [], Socket_Message (hd demo_frames), Socket_Message (hd demo_frames),
     Deliver_Start, Deliver_Settle, Deliver_Start]"

lemma demo_tampered_run:
  "\<exists>r. run_exec (sec_exec null_cipher 5) secure_new demo_tampered = Some r \<and>
     sc_integrity_failed r \<and> sc_decrypting r = None \<and> sc_recv_chain r = [] \<and> sc_ws r = Ws_Open \<and>
     delivered r = [[7]]"
proof (rule demo_frames_checked)
  fix f g p q
  assume d: "demo_frames = [f, g]" and f: "check_frame 0 f = Inr p" "open_frame null_cipher 5 p = Some [7]"
  have "check_frame 1 f = Inl (Out_Of_Order 0 1)"
    by (rule check_frame_other [OF f(1)]) simp
  then show ?thesis
    unfolding demo_tampered_def d by (simp add: secure_eval f)
qed

theorem secure_delivery_sound_witness:
  "\<exists>s. steps (sec_step null_cipher 5) secure_new demo_tampered s \<and> sc_integrity_failed s \<and>
     accept_stream null_cipher 5 0 (sc_arrived s) = [[7]]"
proof -
  obtain s where s: "run_exec (sec_exec null_cipher 5) secure_new demo_tampered = Some s"
    "sc_integrity_failed s" "delivered s = [[7]]"
    using demo_tampered_run by blast
  with secure_delivery_sound [OF secure_run [OF s(1)]] secure_run [OF s(1)] show ?thesis by auto
qed

text \<open>C4. An integrity failure is final: the socket has asked the WebSocket to close with code 4099,
  and in every continuation it stays failed and hands the client no further message.\<close>

theorem secure_failure_final:
  assumes "steps (sec_step c k) secure_new es s" and "sc_integrity_failed s"
    and "steps (sec_step c k) s fs s'"
  shows "Ws_Close (Some 4099) (Some ''integrity_check_failed'') \<in> set (sc_ws_calls s) \<and>
    sc_integrity_failed s' \<and> delivered s' = delivered s"
proof -
  have "fail_inv (delivered s) s"
    using sec_fail.inv_run [OF refl assms(1)] assms(2) by (simp add: closed_on_fail_def)
  with sec_failed.inv_run [OF this assms(3)] show ?thesis by (simp add: fail_inv_def)
qed

theorem secure_failure_final_witness:
  "\<exists>s s'. sc_integrity_failed s \<and> steps (sec_step null_cipher 5) s [Socket_Message [1], Deliver_Start] s' \<and>
     sc_arrived s' = sc_arrived s @ [[1]] \<and> delivered s' = delivered s"
proof -
  obtain s where s: "run_exec (sec_exec null_cipher 5) secure_new demo_tampered = Some s"
    "sc_integrity_failed s" "sc_decrypting s = None" "sc_recv_chain s = []" "sc_ws s = Ws_Open"
    using demo_tampered_run by blast
  obtain s' where s': "run_exec (sec_exec null_cipher 5) s [Socket_Message [1], Deliver_Start] = Some s'"
      "sc_arrived s' = sc_arrived s @ [[1]]"
    using s by (simp add: secure_eval)
  from secure_failure_final [OF secure_run [OF s(1)] s(2) secure_run [OF s'(1)]] s(2) s'(2)
    secure_run [OF s'(1)] show ?thesis by blast
qed

lemma sealed_encrypt_and_send [simp]:
  "sc_sealed (secure_encrypt_and_send c p s) = sc_sealed s @ [p]"
  by (simp add: secure_encrypt_and_send_def secure_encrypt_def Let_def)

lemma ready_encrypt_and_send [simp]: "sc_ready (secure_encrypt_and_send c p s) = sc_ready s"
  by (simp add: secure_encrypt_and_send_def secure_encrypt_def Let_def)

lemma sealed_flush_queue: "sc_sealed (flush_queue c q s) = sc_sealed s @ q"
  by (induction q arbitrary: s) simp_all

lemma queue_flush_queue: "sc_send_queue (flush_queue c q s) = []"
  by (induction q arbitrary: s) simp_all

lemma sends_when_open:
  assumes "sc_ready s = 1" and "sc_key s \<noteq> None"
  shows "sc_sealed (fold (client_do c) (map Send ps) s) = sc_sealed s @ map to_u8 ps \<and>
    sc_send_queue (fold (client_do c) (map Send ps) s) = sc_send_queue s"
  using assms
proof (induction ps arbitrary: s)
  case (Cons p ps)
  then show ?case by (simp add: secure_send_def Let_def)
qed simp

text \<open>The WebSocket opens: every text queued while it was connecting is encrypted, in the order
  it was sent, and the queue is empty. Texts that the client's own \<open>open\<close> handlers send go out
  before the queued ones, although they were sent later: the handlers run before the flush.\<close>

theorem secure_open_flush:
  assumes "steps (sec_step c k) secure_new es s" and "sc_ws s = Ws_Connecting" and "aead_ok c k"
  shows "sc_sealed (on_open c (map Send ps) s) = sc_sealed s @ map to_u8 ps @ sc_send_queue s \<and>
    sc_send_queue (on_open c (map Send ps) s) = []"
proof -
  have "sc_key s = Some k"
    using sec_send.inv_run [OF refl assms(1)] assms(2,3) by (simp add: send_inv_def)
  then show ?thesis
    using sends_when_open [of "secure_dispatch Ev_Open (s\<lparr>sc_ws := Ws_Open, sc_ready := 1\<rparr>)" c ps]
    by (simp add: on_open_def Let_def sealed_flush_queue queue_flush_queue secure_dispatch_def)
qed

theorem secure_open_flush_witness:
  "\<exists>s. steps (sec_step null_cipher 5) secure_new [Client (Send (P_Bytes [7])), Key_Ready] s \<and>
     sc_sealed (on_open null_cipher (map Send [P_Bytes [9]]) s) = [[9], [7]]"
proof -
  obtain s where s: "run_exec (sec_exec null_cipher 5) secure_new [Client (Send (P_Bytes [7])), Key_Ready] = Some s"
    "sc_ws s = Ws_Connecting" "sc_sealed s = []" "sc_send_queue s = [[7]]"
    by (simp add: secure_eval)
  from secure_open_flush [OF secure_run [OF s(1)] s(2) null_cipher_ok, of "[P_Bytes [9]]"] s
    secure_run [OF s(1)] show ?thesis by auto
qed

text \<open>A \<open>close\<close> before the key import has settled is forgotten: there is no WebSocket to close
  yet, nothing records the request, and the socket opens and reports itself open anyway.\<close>

theorem secure_close_before_key:
  "\<exists>s. steps (sec_step c k) secure_new [Client (Close code reason), Key_Ready, Socket_Open []] s \<and>
     sc_ready s = 1 \<and> sc_ws s = Ws_Open \<and> sc_ws_calls s = [] \<and> hb_events (sc_hub s) = [Ev_Open]"
proof -
  have "\<exists>s. run_exec (sec_exec c k) secure_new [Client (Close code reason), Key_Ready, Socket_Open []] = Some s \<and>
     sc_ready s = 1 \<and> sc_ws s = Ws_Open \<and> sc_ws_calls s = [] \<and> hb_events (sc_hub s) = [Ev_Open]"
    by (simp add: secure_eval)
  then show ?thesis by (blast intro: secure_run)
qed

end
