(* ===== verification/Vnc_Polling.thy ===== *)
theory Vnc_Polling
  imports Vnc_Secure "HOL-Library.Multiset"
begin

text \<open>
  \<open>PollingVncSocket\<close> (web/src/vnc_secure_socket.js): the same socket surface over HTTPS POSTs.
  The record \<open>polling\<close> holds its fields; \<open>pl_loop\<close> says where the asynchronous code behind
  \<open>_open\<close> and \<open>_recvLoop\<close> is suspended, and \<open>pl_sends\<close> holds the \<open>send\<close> calls whose encryption
  has not settled. Each \<open>send\<close> runs on its own: nothing orders their POSTs.
\<close>

section \<open>State\<close>

text \<open>
  Where the code is suspended: not started; the \<open>open\<close> POST out; the \<open>open\<close> POST failed; the \<open>recv\<close> POST out; in the one
  second pause; awaiting the decryption of a chunk (its result, the chunks after it, the answer's
  \<open>closed\<close>); returned; ended by an exception nobody catches.
\<close>

datatype poll_loop =
    L_Idle
  | L_Opening
  | L_Open_Failed
  | L_Posting
  | L_Sleeping
  | L_Decrypting "byte list option" "string list" bool
  | L_Returned
  | L_Crashed

datatype post =
    Post_Open string "(string \<times> string) option"
  | Post_Recv string
  | Post_Send string string
  | Post_Close string

record 'k polling =
  pl_ready :: nat
  pl_hub :: hub
  pl_sid :: string
  pl_ticket :: "string option"
  pl_port :: "string option"
  pl_poll_id :: "string option"
  pl_closed :: bool
  pl_send_seq :: u32
  pl_recv_seq :: u32
  pl_key_pending :: bool
  pl_key :: "'k option"
  pl_loop :: poll_loop
  pl_sends :: "byte list option list"
  pl_posts :: "post list"
  pl_sealed :: "byte list list"
  pl_arrived :: "byte list list"

text \<open>An empty string is falsy: \<open>opts.pveTicket || null\<close>.\<close>

definition non_empty :: "string option \<Rightarrow> string option" where
  "non_empty v = (case v of Some [] \<Rightarrow> None | _ \<Rightarrow> v)"

definition polling_new :: "string \<Rightarrow> string option \<Rightarrow> string option \<Rightarrow> 'k polling" where
  "polling_new sid ticket port =
     \<lparr>pl_ready = 0, pl_hub = empty_hub, pl_sid = sid, pl_ticket = non_empty ticket,
      pl_port = non_empty port, pl_poll_id = None, pl_closed = False, pl_send_seq = 0,
      pl_recv_seq = 0, pl_key_pending = True, pl_key = None, pl_loop = L_Idle, pl_sends = [],
      pl_posts = [], pl_sealed = [], pl_arrived = []\<rparr>"

definition poll_dispatch :: "vnc_event \<Rightarrow> 'k polling \<Rightarrow> 'k polling" where
  "poll_dispatch ev s = s\<lparr>pl_hub := dispatch ev (pl_hub s)\<rparr>"

definition poll_post :: "post \<Rightarrow> 'k polling \<Rightarrow> 'k polling" where
  "poll_post p s = s\<lparr>pl_posts := pl_posts s @ [p]\<rparr>"

section \<open>Close\<close>

definition poll_close :: "nat option \<Rightarrow> string option \<Rightarrow> 'k polling \<Rightarrow> 'k polling" where
  "poll_close code reason s =
     (if pl_closed s then s
      else let s1 = s\<lparr>pl_closed := True, pl_ready := 2\<rparr>;
               s2 = (case pl_poll_id s1 of None \<Rightarrow> s1 | Some pid \<Rightarrow> poll_post (Post_Close pid) s1);
               c = (case code of None \<Rightarrow> 1000 | Some 0 \<Rightarrow> 1000 | Some n \<Rightarrow> n);
               r = (case reason of None \<Rightarrow> [] | Some t \<Rightarrow> t)
           in poll_dispatch (Ev_Close c r True) (s2\<lparr>pl_ready := 3\<rparr>))"

section \<open>Receiving\<close>

definition poll_decrypt :: "byte list \<Rightarrow> 'k polling \<Rightarrow>
    (frame_error + (byte list \<times> byte list \<times> byte list)) \<times> 'k polling" where
  "poll_decrypt d s =
     (case check_frame (pl_recv_seq s) d of
        Inl e \<Rightarrow> (Inl e, s)
      | Inr p \<Rightarrow> (Inr p, s\<lparr>pl_recv_seq := pl_recv_seq s + 1\<rparr>))"

text \<open>The \<open>catch\<close> in the chunk loop: report, close with 4099, return.\<close>

definition poll_integrity_fail :: "frame_error \<Rightarrow> 'k polling \<Rightarrow> 'k polling" where
  "poll_integrity_fail e s =
     poll_close (Some 4099) (Some ''integrity_check_failed'')
       (poll_dispatch (Ev_Integrity e) (s\<lparr>pl_loop := L_Returned\<rparr>))"

text \<open>After the \<open>while\<close> loop.\<close>

definition loop_end :: "'k polling \<Rightarrow> 'k polling" where
  "loop_end s =
     (if pl_closed s then s\<lparr>pl_loop := L_Returned\<rparr>
      else poll_dispatch (Ev_Close 1000 ''remote_closed'' True)
             (s\<lparr>pl_loop := L_Returned, pl_ready := 3, pl_closed := True\<rparr>))"

text \<open>The head of the \<open>while (!this._closed)\<close> loop: leave it, or POST \<open>recv\<close> and wait.\<close>

definition loop_head :: "'k polling \<Rightarrow> 'k polling" where
  "loop_head s =
     (if pl_closed s then loop_end s
      else poll_post (Post_Recv (case pl_poll_id s of None \<Rightarrow> [] | Some pid \<Rightarrow> pid)) (s\<lparr>pl_loop := L_Posting\<rparr>))"

text \<open>The \<open>for\<close> loop over the chunks from its next chunk on: decode (outside the \<open>try\<close>, so a chunk
  that is not base64 ends the loop with an uncaught exception), check, start the decryption. The
  loop does not look at \<open>_closed\<close>.\<close>

definition next_chunk :: "'k crypto \<Rightarrow> string list \<Rightarrow> bool \<Rightarrow> 'k polling \<Rightarrow> 'k polling" where
  "next_chunk c chunks closed s =
     (case chunks of
        [] \<Rightarrow> if closed then loop_end s else loop_head s
      | c64 # rest \<Rightarrow>
          (case b64ToU8 c64 of
             None \<Rightarrow> s\<lparr>pl_loop := L_Crashed\<rparr>
           | Some ct \<Rightarrow>
               (case poll_decrypt ct (s\<lparr>pl_arrived := pl_arrived s @ [ct]\<rparr>) of
                  (Inl e, s1) \<Rightarrow> poll_integrity_fail e s1
                | (Inr p, s1) \<Rightarrow>
                    s1\<lparr>pl_loop := L_Decrypting
                       (case pl_key s of None \<Rightarrow> None | Some k \<Rightarrow> open_frame c k p) rest closed\<rparr>)))"

text \<open>The answer to a \<open>recv\<close> POST, and the two ways it fails.\<close>

definition recv_answer :: "'k crypto \<Rightarrow> bool \<Rightarrow> string list \<Rightarrow> bool \<Rightarrow> 'k polling \<Rightarrow> 'k polling" where
  "recv_answer c ok chunks closed s = (if \<not> ok then loop_end s else next_chunk c chunks closed s)"

definition recv_error :: "'k polling \<Rightarrow> 'k polling" where
  "recv_error s = (if pl_closed s then s\<lparr>pl_loop := L_Returned\<rparr> else s\<lparr>pl_loop := L_Sleeping\<rparr>)"

definition chunk_settle :: "'k crypto \<Rightarrow> 'k polling \<Rightarrow> 'k polling" where
  "chunk_settle c s =
     (case pl_loop s of
        L_Decrypting (Some pt) rest closed \<Rightarrow> next_chunk c rest closed (poll_dispatch (Ev_Message pt) s)
      | L_Decrypting None rest closed \<Rightarrow> poll_integrity_fail Auth_Failed s
      | _ \<Rightarrow> s)"

section \<open>Opening\<close>

definition poll_open :: "'k polling \<Rightarrow> 'k polling" where
  "poll_open s =
     poll_post (Post_Open (pl_sid s)
        (case (pl_ticket s, pl_port s) of (Some t, Some p) \<Rightarrow> Some (t, p) | _ \<Rightarrow> None))
       (s\<lparr>pl_loop := L_Opening\<rparr>)"

definition poll_key_ready :: "'k \<Rightarrow> 'k polling \<Rightarrow> 'k polling" where
  "poll_key_ready k s = poll_open (s\<lparr>pl_key_pending := False, pl_key := Some k\<rparr>)"

text \<open>A rejected import has no handler here: nothing happens.\<close>

definition poll_key_rejected :: "'k polling \<Rightarrow> 'k polling" where
  "poll_key_rejected s = s\<lparr>pl_key_pending := False\<rparr>"

definition open_failed :: "'k polling \<Rightarrow> 'k polling" where
  "open_failed s =
     poll_dispatch (Ev_Close 1006 ''open_failed'' False)
       (poll_dispatch Ev_Error (s\<lparr>pl_loop := L_Open_Failed, pl_ready := 3\<rparr>))"

definition open_answer :: "bool \<Rightarrow> string \<Rightarrow> 'k polling \<Rightarrow> 'k polling" where
  "open_answer ok pid s =
     (if \<not> ok \<or> pid = [] then open_failed s
      else loop_head (poll_dispatch Ev_Open (s\<lparr>pl_poll_id := Some pid, pl_ready := 1\<rparr>)))"

section \<open>Sending\<close>

definition poll_encrypt :: "'k crypto \<Rightarrow> byte list \<Rightarrow> 'k polling \<Rightarrow> byte list option \<times> 'k polling" where
  "poll_encrypt c pt s =
     (let seq = pl_send_seq s; s' = s\<lparr>pl_send_seq := seq + 1, pl_sealed := pl_sealed s @ [pt]\<rparr>
      in (case pl_key s of None \<Rightarrow> None | Some k \<Rightarrow> seal c k (length (pl_sealed s)) seq pt, s'))"

definition poll_send :: "'k crypto \<Rightarrow> payload \<Rightarrow> 'k polling \<Rightarrow> 'k polling" where
  "poll_send c data s =
     (if pl_closed s \<or> pl_ready s \<noteq> 1 \<or> pl_key s = None \<or> pl_poll_id s = None then s
      else let (frame, s') = poll_encrypt c (to_u8 data) s in s'\<lparr>pl_sends := pl_sends s' @ [frame]\<rparr>)"

text \<open>One suspended \<open>send\<close> resumes: it POSTs its frame, or reports the error.\<close>

definition send_settle :: "nat \<Rightarrow> 'k polling \<Rightarrow> 'k polling" where
  "send_settle i s =
     (let s' = s\<lparr>pl_sends := take i (pl_sends s) @ drop (Suc i) (pl_sends s)\<rparr>
      in case pl_sends s ! i of
           None \<Rightarrow> poll_dispatch Ev_Error s'
         | Some f \<Rightarrow> poll_post (Post_Send (case pl_poll_id s of None \<Rightarrow> [] | Some pid \<Rightarrow> pid) (bufToB64 f)) s')"

fun poll_client :: "'k crypto \<Rightarrow> client_call \<Rightarrow> 'k polling \<Rightarrow> 'k polling" where
  "poll_client c (Send p) s = poll_send c p s"
| "poll_client c (Close code reason) s = poll_close code reason s"
| "poll_client c (Add_Listener t f) s = s\<lparr>pl_hub := add_listener t f (pl_hub s)\<rparr>"
| "poll_client c (Remove_Listener t f) s = s\<lparr>pl_hub := remove_listener t f (pl_hub s)\<rparr>"
| "poll_client c (Set_On t f) s = s\<lparr>pl_hub := set_on t f (pl_hub s)\<rparr>"

section \<open>One turn of the event loop\<close>

datatype poll_event =
    P_Key_Ready
  | P_Key_Rejected
  | P_Open_Answer bool string
  | P_Open_Error
  | P_Recv_Answer bool "string list" bool
  | P_Recv_Error
  | P_Wake
  | P_Chunk_Settle
  | P_Send_Settle nat
  | P_Send_Error
  | P_Client client_call

inductive poll_step :: "'k crypto \<Rightarrow> 'k \<Rightarrow> 'k polling \<Rightarrow> poll_event \<Rightarrow> 'k polling \<Rightarrow> bool" for c k where
  "pl_key_pending s \<Longrightarrow> poll_step c k s P_Key_Ready (poll_key_ready k s)"
| "pl_key_pending s \<Longrightarrow> poll_step c k s P_Key_Rejected (poll_key_rejected s)"
| "pl_loop s = L_Opening \<Longrightarrow> poll_step c k s (P_Open_Answer ok pid) (open_answer ok pid s)"
| "pl_loop s = L_Opening \<Longrightarrow> poll_step c k s P_Open_Error (open_failed s)"
| "pl_loop s = L_Posting \<Longrightarrow> poll_step c k s (P_Recv_Answer ok chunks closed) (recv_answer c ok chunks closed s)"
| "pl_loop s = L_Posting \<Longrightarrow> poll_step c k s P_Recv_Error (recv_error s)"
| "pl_loop s = L_Sleeping \<Longrightarrow> poll_step c k s P_Wake (loop_head s)"
| "pl_loop s = L_Decrypting r rest closed \<Longrightarrow> poll_step c k s P_Chunk_Settle (chunk_settle c s)"
| "i < length (pl_sends s) \<Longrightarrow> poll_step c k s (P_Send_Settle i) (send_settle i s)"
| "pl_posts s \<noteq> [] \<Longrightarrow> poll_step c k s P_Send_Error (poll_dispatch Ev_Error s)"
| "poll_step c k s (P_Client a) (poll_client c a s)"

inductive_cases poll_step_elim: "poll_step c k s e s'"

fun poll_exec :: "'k crypto \<Rightarrow> 'k \<Rightarrow> 'k polling \<Rightarrow> poll_event \<Rightarrow> 'k polling option" where
  "poll_exec c k s P_Key_Ready = (if pl_key_pending s then Some (poll_key_ready k s) else None)"
| "poll_exec c k s P_Key_Rejected = (if pl_key_pending s then Some (poll_key_rejected s) else None)"
| "poll_exec c k s (P_Open_Answer ok pid) =
     (if pl_loop s = L_Opening then Some (open_answer ok pid s) else None)"
| "poll_exec c k s P_Open_Error = (if pl_loop s = L_Opening then Some (open_failed s) else None)"
| "poll_exec c k s (P_Recv_Answer ok chunks closed) =
     (if pl_loop s = L_Posting then Some (recv_answer c ok chunks closed s) else None)"
| "poll_exec c k s P_Recv_Error = (if pl_loop s = L_Posting then Some (recv_error s) else None)"
| "poll_exec c k s P_Wake = (if pl_loop s = L_Sleeping then Some (loop_head s) else None)"
| "poll_exec c k s P_Chunk_Settle =
     (case pl_loop s of L_Decrypting r rest closed \<Rightarrow> Some (chunk_settle c s) | _ \<Rightarrow> None)"
| "poll_exec c k s (P_Send_Settle i) = (if i < length (pl_sends s) then Some (send_settle i s) else None)"
| "poll_exec c k s P_Send_Error = (if pl_posts s \<noteq> [] then Some (poll_dispatch Ev_Error s) else None)"
| "poll_exec c k s (P_Client a) = Some (poll_client c a s)"

lemma poll_exec_step: "poll_exec c k s e = Some s' \<longleftrightarrow> poll_step c k s e s'"
  by (cases e) (auto intro: poll_step.intros elim: poll_step_elim split: if_splits poll_loop.splits)

lemma poll_run: "run_exec (poll_exec c k) s es = Some s' \<Longrightarrow> steps (poll_step c k) s es s'"
  by (rule steps_run_exec) (auto simp: poll_exec_step)

definition poll_delivered :: "'k polling \<Rightarrow> byte list list" where
  "poll_delivered s = messages (hb_events (pl_hub s))"

fun close_count :: "vnc_event list \<Rightarrow> nat" where
  "close_count [] = 0"
| "close_count (Ev_Close a b c # es) = Suc (close_count es)"
| "close_count (_ # es) = close_count es"

lemma close_count_append [simp]: "close_count (xs @ ys) = close_count xs + close_count ys"
  by (induction xs rule: close_count.induct) auto

section \<open>Close events\<close>

definition close_inv :: "'k polling \<Rightarrow> bool" where
  "close_inv s \<longleftrightarrow>
     (pl_key_pending s \<longrightarrow> pl_loop s = L_Idle) \<and>
     close_count (hb_events (pl_hub s)) =
       (if pl_closed s then 1 else 0) + (if pl_loop s = L_Open_Failed then 1 else 0)"

lemmas poll_defs = poll_dispatch_def poll_post_def poll_close_def poll_integrity_fail_def loop_end_def
  loop_head_def recv_answer_def recv_error_def poll_open_def poll_key_ready_def poll_key_rejected_def
  open_failed_def open_answer_def poll_encrypt_def poll_send_def send_settle_def Let_def

lemma close_inv_new: "close_inv (polling_new sid ticket port)"
  by (simp add: close_inv_def polling_new_def)

lemma close_inv_next_chunk:
  "close_inv s \<Longrightarrow> pl_loop s \<noteq> L_Open_Failed \<Longrightarrow> \<not> pl_key_pending s \<Longrightarrow>
   close_inv (next_chunk c chunks closed s)"
  by (auto simp: close_inv_def next_chunk_def poll_decrypt_def poll_defs
      split: list.split option.split sum.split)

lemma close_inv_client: "close_inv s \<Longrightarrow> close_inv (poll_client c a s)"
  by (cases a) (auto simp: close_inv_def poll_defs split: option.split)

lemma close_inv_step:
  assumes inv: "close_inv s" and step: "poll_step c k s e s'"
  shows "close_inv s'"
  using step
proof cases
  case (5 ok chunks closed)
  then show ?thesis
    using inv close_inv_next_chunk [OF inv, of c chunks closed]
    by (auto simp: recv_answer_def) (auto simp: close_inv_def loop_end_def poll_dispatch_def)
next
  case (8 r rest closed)
  have "close_inv (poll_dispatch (Ev_Message pt) s)" for pt
    using inv by (simp add: close_inv_def poll_dispatch_def)
  with 8 inv show ?thesis
    using close_inv_next_chunk [of "poll_dispatch (Ev_Message (the r)) s" c rest closed]
    by (cases r) (auto simp: chunk_settle_def poll_dispatch_def,
      auto simp: close_inv_def poll_defs split: option.split)
next
  case (11 a)
  with inv show ?thesis by (simp add: close_inv_client)
qed (use inv in \<open>auto simp: close_inv_def poll_defs split: option.split\<close>)

interpretation poll_close: step_machine "poll_step c k" "\<lambda>s. \<exists>sid ticket port. s = polling_new sid ticket port"
    close_inv for c k
  by unfold_locales (auto simp: close_inv_new intro: close_inv_step)

section \<open>What reaches the client\<close>

definition chunk_state :: "'k crypto \<Rightarrow> 'k \<Rightarrow> poll_loop \<Rightarrow> byte list list \<Rightarrow> u32 \<Rightarrow> byte list list \<Rightarrow> bool" where
  "chunk_state c k l arrived seq fs \<longleftrightarrow>
     (case l of
        L_Decrypting r rest closed \<Rightarrow>
          \<exists>f p. arrived = fs @ [f] \<and> seq = word_of_nat (length fs) + 1 \<and>
            check_frame (word_of_nat (length fs)) f = Inr p \<and> r = open_frame c k p
      | _ \<Rightarrow>
          (arrived = fs \<and> seq = word_of_nat (length fs)) \<or>
          (l = L_Returned \<and>
            (\<exists>f. arrived = fs @ [f] \<and> accept_stream c k (word_of_nat (length fs)) [f] = [])))"

definition poll_recv_inv :: "'k crypto \<Rightarrow> 'k \<Rightarrow> 'k polling \<Rightarrow> bool" where
  "poll_recv_inv c k s \<longleftrightarrow>
     (pl_key_pending s \<longrightarrow> pl_loop s = L_Idle) \<and>
     (pl_loop s \<noteq> L_Idle \<longrightarrow> pl_key s = Some k) \<and>
     (\<exists>fs. accept_stream c k 0 fs = poll_delivered s \<and> length (poll_delivered s) = length fs \<and>
       chunk_state c k (pl_loop s) (pl_arrived s) (pl_recv_seq s) fs)"

text \<open>Between two chunks.\<close>

definition poll_ready_for :: "'k crypto \<Rightarrow> 'k \<Rightarrow> 'k polling \<Rightarrow> bool" where
  "poll_ready_for c k s \<longleftrightarrow>
     \<not> pl_key_pending s \<and> pl_key s = Some k \<and> accept_stream c k 0 (pl_arrived s) = poll_delivered s \<and>
     length (poll_delivered s) = length (pl_arrived s) \<and> pl_recv_seq s = word_of_nat (length (pl_arrived s))"

lemma poll_ready_for_head: "poll_ready_for c k s \<Longrightarrow> poll_recv_inv c k (loop_head s)"
  by (auto simp: poll_ready_for_def poll_recv_inv_def chunk_state_def poll_delivered_def poll_defs)

lemma poll_ready_for_end: "poll_ready_for c k s \<Longrightarrow> poll_recv_inv c k (loop_end s)"
  by (auto simp: poll_ready_for_def poll_recv_inv_def chunk_state_def poll_delivered_def poll_defs)

lemma poll_fail_events [simp]:
  "poll_delivered (poll_integrity_fail e s) = poll_delivered s"
  "pl_loop (poll_integrity_fail e s) = L_Returned" "pl_key (poll_integrity_fail e s) = pl_key s"
  "pl_arrived (poll_integrity_fail e s) = pl_arrived s"
  "pl_key_pending (poll_integrity_fail e s) = pl_key_pending s"
  by (auto simp: poll_delivered_def poll_defs split: option.split)

lemma poll_ready_for_next:
  assumes "poll_ready_for c k s"
  shows "poll_recv_inv c k (next_chunk c chunks closed s)"
proof (cases chunks)
  case Nil
  then show ?thesis
    using assms by (simp add: next_chunk_def poll_ready_for_head poll_ready_for_end)
next
  case (Cons c64 rest)
  let ?s = "\<lambda>ct. s\<lparr>pl_arrived := pl_arrived s @ [ct]\<rparr>"
  show ?thesis
  proof (cases "b64ToU8 c64")
    case None
    with Cons assms show ?thesis
      by (auto simp: next_chunk_def poll_ready_for_def poll_recv_inv_def chunk_state_def poll_delivered_def)
  next
    case (Some ct)
    show ?thesis
    proof (cases "check_frame (pl_recv_seq s) ct")
      case (Inl e)
      with Cons Some assms show ?thesis
        by (auto simp: next_chunk_def poll_decrypt_def poll_ready_for_def poll_recv_inv_def chunk_state_def)
          (auto simp: poll_delivered_def)
    next
      case (Inr p)
      with Cons Some assms show ?thesis
        by (auto simp: next_chunk_def poll_decrypt_def poll_ready_for_def poll_recv_inv_def chunk_state_def poll_delivered_def)
          (metis prod_cases3)
    qed
  qed
qed

lemma poll_posting_ready:
  "poll_recv_inv c k s \<Longrightarrow> pl_loop s \<in> {L_Opening, L_Posting, L_Sleeping} \<Longrightarrow> poll_ready_for c k s"
  by (auto simp: poll_recv_inv_def chunk_state_def poll_ready_for_def)

lemma poll_recv_inv_settle:
  assumes inv: "poll_recv_inv c k s" and loop: "pl_loop s = L_Decrypting r rest closed"
  shows "poll_recv_inv c k (chunk_settle c s)"
proof -
  obtain fs f p where fs: "accept_stream c k 0 fs = poll_delivered s" "length (poll_delivered s) = length fs"
    "pl_arrived s = fs @ [f]" "pl_recv_seq s = word_of_nat (length fs) + 1"
    "check_frame (word_of_nat (length fs)) f = Inr p" "r = open_frame c k p"
    and key: "pl_key s = Some k" "\<not> pl_key_pending s"
    using inv loop by (auto simp: poll_recv_inv_def chunk_state_def)
  show ?thesis
  proof (cases r)
    case None
    with fs have "accept_stream c k (word_of_nat (length fs)) [f] = []"
      by (cases p) auto
    with None loop fs key show ?thesis
      by (auto simp: chunk_settle_def poll_recv_inv_def chunk_state_def)
  next
    case (Some pt)
    with fs(5,6) have "accept_stream c k (word_of_nat (length fs)) [f] = [pt]"
      by (metis accept_stream.simps option.simps(5) sum.simps(6))
    with fs(1,2) have "accept_stream c k 0 (fs @ [f]) = poll_delivered s @ [pt]"
      by (simp add: accept_stream_snoc)
    with fs key have "poll_ready_for c k (poll_dispatch (Ev_Message pt) s)"
      by (simp add: poll_ready_for_def poll_dispatch_def poll_delivered_def add.commute)
    with Some loop show ?thesis
      by (simp add: chunk_settle_def poll_ready_for_next)
  qed
qed

text \<open>Steps that do not touch what the invariant reads.\<close>

lemma poll_recv_inv_cong:
  assumes "poll_recv_inv c k s" and "pl_key_pending s' \<longrightarrow> pl_key_pending s" and "pl_key s' = pl_key s"
    and "pl_loop s' = pl_loop s" "pl_arrived s' = pl_arrived s" "pl_recv_seq s' = pl_recv_seq s"
    and "poll_delivered s' = poll_delivered s"
  shows "poll_recv_inv c k s'"
  using assms by (simp add: poll_recv_inv_def)

lemma poll_client_frame:
  "pl_key_pending (poll_client c a s) = pl_key_pending s" "pl_key (poll_client c a s) = pl_key s"
  "pl_loop (poll_client c a s) = pl_loop s" "pl_arrived (poll_client c a s) = pl_arrived s"
  "pl_recv_seq (poll_client c a s) = pl_recv_seq s" "poll_delivered (poll_client c a s) = poll_delivered s"
  by (cases a; simp add: poll_delivered_def poll_defs split: option.split)+

lemma poll_recv_inv_step:
  assumes inv: "poll_recv_inv c k s" and step: "poll_step c k s e s'"
  shows "poll_recv_inv c k s'"
  using step
proof cases
  case 1
  with inv show ?thesis by (auto simp: poll_recv_inv_def chunk_state_def poll_delivered_def poll_defs split: poll_loop.splits)
next
  case 2
  with inv show ?thesis by (intro poll_recv_inv_cong [OF inv]) (auto simp: poll_defs poll_delivered_def)
next
  case (3 ok pid)
  then have "poll_ready_for c k s" using inv by (simp add: poll_posting_ready)
  then have "poll_ready_for c k (poll_dispatch Ev_Open (s\<lparr>pl_poll_id := Some pid, pl_ready := 1\<rparr>))"
    by (simp add: poll_ready_for_def poll_dispatch_def poll_delivered_def)
  with 3 inv show ?thesis
    by (auto simp: open_answer_def poll_ready_for_head)
      (auto simp: open_failed_def poll_recv_inv_def chunk_state_def poll_dispatch_def poll_delivered_def)
next
  case 4
  with inv show ?thesis by (auto simp: open_failed_def poll_recv_inv_def chunk_state_def poll_dispatch_def poll_delivered_def)
next
  case (5 ok chunks closed)
  with inv have "poll_ready_for c k s" by (simp add: poll_posting_ready)
  with 5 show ?thesis by (simp add: recv_answer_def poll_ready_for_next poll_ready_for_end)
next
  case 6
  with inv show ?thesis by (auto simp: recv_error_def poll_recv_inv_def chunk_state_def poll_delivered_def)
next
  case 7
  with inv show ?thesis by (simp add: poll_posting_ready poll_ready_for_head)
next
  case (8 r rest closed)
  with inv show ?thesis by (simp add: poll_recv_inv_settle)
next
  case (9 i)
  with inv show ?thesis
    by (intro poll_recv_inv_cong [OF inv]) (auto simp: poll_defs poll_delivered_def split: option.split)
next
  case 10
  with inv show ?thesis by (intro poll_recv_inv_cong [OF inv]) (auto simp: poll_defs poll_delivered_def)
next
  case (11 a)
  with inv show ?thesis by (intro poll_recv_inv_cong [OF inv]) (auto simp: poll_client_frame)
qed

lemma poll_recv_inv_new: "poll_recv_inv c k (polling_new sid ticket port)"
  by (simp add: poll_recv_inv_def chunk_state_def polling_new_def poll_delivered_def)

interpretation poll_recv: step_machine "poll_step c k" "\<lambda>s. \<exists>sid ticket port. s = polling_new sid ticket port"
    "poll_recv_inv c k" for c k
  by unfold_locales (auto simp: poll_recv_inv_new intro: poll_recv_inv_step)

section \<open>What is posted\<close>

fun posted_of :: "post list \<Rightarrow> byte list list" where
  "posted_of [] = []"
| "posted_of (Post_Send pid b64 # ps) = (case b64ToU8 b64 of None \<Rightarrow> posted_of ps | Some f \<Rightarrow> f # posted_of ps)"
| "posted_of (_ # ps) = posted_of ps"

definition posted :: "'k polling \<Rightarrow> byte list list" where
  "posted s = posted_of (pl_posts s)"

lemma posted_of_append [simp]: "posted_of (xs @ ys) = posted_of xs @ posted_of ys"
  by (induction xs rule: posted_of.induct) (auto split: option.split)

text \<open>Every text given to \<open>_encrypt\<close> is sealed once, under the next sequence number; its frame is
  posted or still being encrypted.\<close>

definition post_inv :: "'k crypto \<Rightarrow> 'k \<Rightarrow> 'k polling \<Rightarrow> bool" where
  "post_inv c k s \<longleftrightarrow>
     (pl_key s = None \<or> pl_key s = Some k) \<and>
     pl_send_seq s = word_of_nat (length (pl_sealed s)) \<and>
     mset (map Some (posted s) @ pl_sends s) = mset (seal_all c k 0 0 (pl_sealed s))"

lemma post_inv_cong:
  assumes "post_inv c k s" and "pl_key s' = pl_key s" and "pl_send_seq s' = pl_send_seq s"
    and "pl_sealed s' = pl_sealed s" and "posted s' = posted s" and "pl_sends s' = pl_sends s"
  shows "post_inv c k s'"
  using assms by (simp add: post_inv_def)

lemma posted_frame [simp]:
  "posted (poll_dispatch ev s) = posted s"
  "posted (poll_close code reason s) = posted s"
  "posted (poll_integrity_fail e s) = posted s"
  "posted (loop_end s) = posted s"
  "posted (loop_head s) = posted s"
  "posted (next_chunk c chunks closed s) = posted s"
  "posted (open_failed s) = posted s"
  "posted (poll_open s) = posted s"
  by (auto simp: posted_def next_chunk_def poll_decrypt_def poll_defs
      split: option.split list.split sum.split)

lemma send_frame [simp]:
  "pl_key (next_chunk c chunks closed s) = pl_key s"
  "pl_send_seq (next_chunk c chunks closed s) = pl_send_seq s"
  "pl_sealed (next_chunk c chunks closed s) = pl_sealed s"
  "pl_sends (next_chunk c chunks closed s) = pl_sends s"
  by (auto simp: next_chunk_def poll_decrypt_def poll_defs split: option.split list.split sum.split)

lemma loop_frame:
  "pl_key (loop_head s) = pl_key s" "pl_send_seq (loop_head s) = pl_send_seq s"
  "pl_sealed (loop_head s) = pl_sealed s" "pl_sends (loop_head s) = pl_sends s"
  "pl_key (loop_end s) = pl_key s" "pl_send_seq (loop_end s) = pl_send_seq s"
  "pl_sealed (loop_end s) = pl_sealed s" "pl_sends (loop_end s) = pl_sends s"
  by (simp_all add: poll_defs)

lemma answer_frame:
  "posted (open_answer ok pid s) = posted s" "pl_key (open_answer ok pid s) = pl_key s"
  "pl_send_seq (open_answer ok pid s) = pl_send_seq s" "pl_sealed (open_answer ok pid s) = pl_sealed s"
  "pl_sends (open_answer ok pid s) = pl_sends s"
  "posted (recv_answer c ok' chunks closed s) = posted s"
  "pl_key (recv_answer c ok' chunks closed s) = pl_key s"
  "pl_send_seq (recv_answer c ok' chunks closed s) = pl_send_seq s"
  "pl_sealed (recv_answer c ok' chunks closed s) = pl_sealed s"
  "pl_sends (recv_answer c ok' chunks closed s) = pl_sends s"
  by (simp_all add: open_answer_def recv_answer_def loop_frame)
    (simp_all add: open_failed_def poll_dispatch_def posted_def)

lemma chunk_settle_frame:
  "posted (chunk_settle c s) = posted s" "pl_key (chunk_settle c s) = pl_key s"
  "pl_send_seq (chunk_settle c s) = pl_send_seq s" "pl_sealed (chunk_settle c s) = pl_sealed s"
  "pl_sends (chunk_settle c s) = pl_sends s"
  by (auto simp: chunk_settle_def split: poll_loop.split option.split)
    (auto simp: poll_integrity_fail_def poll_close_def poll_dispatch_def poll_post_def Let_def
      split: option.split)

lemma post_inv_send:
  assumes "post_inv c k s"
  shows "post_inv c k (poll_send c p s)"
  using assms
  by (auto simp: poll_send_def poll_encrypt_def Let_def post_inv_def posted_def seal_all_append)

lemma mset_take_drop: "i < length xs \<Longrightarrow> mset xs = mset (take i xs @ drop (Suc i) xs) + {#xs ! i#}"
  by (metis add_mset_add_single id_take_nth_drop mset.simps(2) mset_append union_mset_add_mset_right)

lemma post_inv_settle:
  assumes ok: "aead_ok c k" and inv: "post_inv c k s" and i: "i < length (pl_sends s)"
  shows "post_inv c k (send_settle i s)"
proof -
  have "pl_sends s ! i \<in># mset (map Some (posted s) @ pl_sends s)"
    using i by simp
  then have "pl_sends s ! i \<in> set (seal_all c k 0 0 (pl_sealed s))"
    using inv by (metis post_inv_def set_mset_mset)
  then obtain f where f: "pl_sends s ! i = Some f"
    using seal_all_Some [OF ok] by blast
  have "posted (send_settle i s) = posted s @ [f]"
    by (simp add: send_settle_def f posted_def poll_post_def Let_def b64ToU8_bufToB64)
  moreover have "pl_sends (send_settle i s) = take i (pl_sends s) @ drop (Suc i) (pl_sends s)"
    by (simp add: send_settle_def f poll_post_def Let_def)
  ultimately show ?thesis
    using inv mset_take_drop [OF i] f
    by (simp add: post_inv_def send_settle_def poll_post_def Let_def)
qed

lemma post_inv_step:
  assumes ok: "aead_ok c k" and inv: "post_inv c k s" and step: "poll_step c k s e s'"
  shows "post_inv c k s'"
  using step
proof cases
  case (9 i)
  with post_inv_settle [OF ok inv] show ?thesis by simp
next
  case (11 a)
  then show ?thesis
    using inv post_inv_send [OF inv]
    by (cases a) (auto simp: post_inv_def poll_close_def poll_dispatch_def poll_post_def posted_def Let_def
        split: option.split)
next
  case 1
  with inv show ?thesis by (auto simp: post_inv_def poll_key_ready_def) (auto simp: posted_def poll_defs)
next
  case (8 r rest closed)
  with inv show ?thesis
    by (intro post_inv_cong [OF inv]) (simp_all add: chunk_settle_frame)
next
  case 2
  then show ?thesis by (intro post_inv_cong [OF inv]) (simp_all add: poll_key_rejected_def posted_def)
next
  case (3 ok pid)
  then show ?thesis by (intro post_inv_cong [OF inv]) (simp_all add: answer_frame)
next
  case 4
  then show ?thesis by (intro post_inv_cong [OF inv]) (simp_all add: open_failed_def poll_dispatch_def posted_def)
next
  case (5 ok chunks closed)
  then show ?thesis by (intro post_inv_cong [OF inv]) (simp_all add: answer_frame)
next
  case 6
  then show ?thesis by (intro post_inv_cong [OF inv]) (simp_all add: recv_error_def posted_def)
next
  case 7
  then show ?thesis by (intro post_inv_cong [OF inv]) (simp_all add: loop_frame)
next
  case 10
  then show ?thesis by (intro post_inv_cong [OF inv]) (simp_all add: poll_dispatch_def posted_def)
qed

interpretation poll_posts: step_machine "poll_step c k" "\<lambda>s. \<exists>sid ticket port. s = polling_new sid ticket port"
    "\<lambda>s. aead_ok c k \<longrightarrow> post_inv c k s" for c k
proof unfold_locales
  fix s :: "'a polling"
  assume "\<exists>sid ticket port. s = polling_new sid ticket port"
  then show "aead_ok c k \<longrightarrow> post_inv c k s"
    by (auto simp: post_inv_def polling_new_def posted_def)
qed (blast intro: post_inv_step)

section \<open>Properties\<close>

definition poll_awaiting :: "'k polling \<Rightarrow> bool" where
  "poll_awaiting s = (case pl_loop s of L_Decrypting r rest closed \<Rightarrow> True | _ \<Rightarrow> False)"

text \<open>C23. For any cipher, any answers of the server and any failures: the messages dispatched are an
  initial part of what checking the decoded chunks one by one accepts, and all of it whenever no
  decryption is awaited.\<close>

theorem poll_delivery_sound:
  assumes "steps (poll_step c k) (polling_new sid ticket port) es s"
  shows "if poll_awaiting s then prefix (poll_delivered s) (accept_stream c k 0 (pl_arrived s))
    else poll_delivered s = accept_stream c k 0 (pl_arrived s)"
proof -
  obtain fs where fs: "accept_stream c k 0 fs = poll_delivered s" "length (poll_delivered s) = length fs"
    "chunk_state c k (pl_loop s) (pl_arrived s) (pl_recv_seq s) fs"
    using poll_recv.inv_run [OF _ assms] by (auto simp: poll_recv_inv_def)
  show ?thesis
    using fs by (auto simp: poll_awaiting_def chunk_state_def accept_stream_snoc split: poll_loop.splits)
qed

lemmas poll_eval = polling_new_def poll_defs chunk_settle_def next_chunk_def poll_decrypt_def

definition demo_poll :: "poll_event list" where
  "demo_poll = [P_Key_Ready, P_Open_Answer True ''p1'', P_Client (Send (P_Bytes [7])),
     P_Client (Send (P_Bytes [8])), P_Send_Settle 0, P_Recv_Answer True [''AAAA''] False]"

lemma demo_poll_run:
  "\<exists>s. run_exec (poll_exec null_cipher 5) (polling_new ''sid'' None None) demo_poll = Some s \<and>
     pl_sealed s = [[7], [8]] \<and> length (pl_sends s) = 1 \<and> pl_closed s \<and> pl_loop s = L_Returned \<and>
     pl_arrived s = [[0, 0, 0]]"
proof -
  have b: "b64ToU8 ''AAAA'' = Some [0, 0, 0]"
    by (simp add: b64ToU8_def atob_def strip_pad_def ascii_ws_def b64_val_def b64_alphabet_def ends_with_def
        upt_rec)
  have chk: "check_frame 0 [0, 0, 0] = Inl (Frame_Too_Short 3)"
    by (simp add: check_frame_def)
  obtain f where f: "seal null_cipher 5 0 0 [7] = Some f"
    by (rule seal_Some [OF null_cipher_ok])
  obtain g where g: "seal null_cipher 5 (Suc 0) 1 [8] = Some g"
    by (rule seal_Some [OF null_cipher_ok])
  show ?thesis
    using f g by (simp add: demo_poll_def poll_eval b chk non_empty_def)
qed

theorem poll_delivery_sound_witness:
  "\<exists>s. steps (poll_step null_cipher 5) (polling_new ''sid'' None None) demo_poll s \<and> pl_arrived s = [[0, 0, 0]] \<and>
     \<not> poll_awaiting s \<and> poll_delivered s = accept_stream null_cipher 5 0 (pl_arrived s)"
proof -
  obtain s where s: "run_exec (poll_exec null_cipher 5) (polling_new ''sid'' None None) demo_poll = Some s"
    "pl_loop s = L_Returned" "pl_arrived s = [[0, 0, 0]]"
    using demo_poll_run by blast
  from poll_delivery_sound [OF poll_run [OF s(1)]] poll_run [OF s(1)] s(2,3) show ?thesis
    by (auto simp: poll_awaiting_def)
qed

text \<open>The client sees at most one \<open>close\<close> event, and exactly one once the socket is closed, unless
  the \<open>open\<close> POST failed: that path dispatches one more, whether or not the client had closed.\<close>

theorem poll_close_once:
  assumes "steps (poll_step c k) (polling_new sid ticket port) es s"
  shows "close_count (hb_events (pl_hub s)) =
    (if pl_closed s then 1 else 0) + (if pl_loop s = L_Open_Failed then 1 else 0)"
proof -
  have "\<exists>a b d. polling_new sid ticket port = polling_new a b d" by blast
  from poll_close.inv_run [OF this assms] show ?thesis by (auto simp: close_inv_def)
qed

theorem poll_close_once_witness:
  "\<exists>s. steps (poll_step null_cipher 5) (polling_new ''sid'' None None) demo_poll s \<and> pl_closed s \<and>
     close_count (hb_events (pl_hub s)) = 1"
proof -
  obtain s where s: "run_exec (poll_exec null_cipher 5) (polling_new ''sid'' None None) demo_poll = Some s"
    "pl_loop s = L_Returned" "pl_closed s"
    using demo_poll_run by blast
  from poll_close_once [OF poll_run [OF s(1)]] poll_run [OF s(1)] s(2,3) show ?thesis by auto
qed

text \<open>No text is lost, sent twice or sealed twice on the way out: the frames posted and those
  still being encrypted are, as a multiset, the frames of the accepted texts under sequence
  numbers 0, 1, 2, ... Only their order is left open.\<close>

theorem poll_posts_conserved:
  assumes "aead_ok c k" and "steps (poll_step c k) (polling_new sid ticket port) es s"
  shows "mset (map Some (posted s) @ pl_sends s) = mset (seal_all c k 0 0 (pl_sealed s))"
proof -
  have "\<exists>a b d. polling_new sid ticket port = polling_new a b d" by blast
  from poll_posts.inv_run [OF this assms(2)] assms(1) show ?thesis by (auto simp: post_inv_def)
qed

theorem poll_posts_conserved_witness:
  "\<exists>s. steps (poll_step null_cipher 5) (polling_new ''sid'' None None) demo_poll s \<and> length (posted s) = 1 \<and>
     mset (map Some (posted s) @ pl_sends s) = mset (seal_all null_cipher 5 0 0 [[7], [8]])"
proof -
  obtain s where s: "run_exec (poll_exec null_cipher 5) (polling_new ''sid'' None None) demo_poll = Some s"
    "pl_sealed s = [[7], [8]]" "length (pl_sends s) = 1"
    using demo_poll_run by blast
  have eq: "mset (map Some (posted s) @ pl_sends s) = mset (seal_all null_cipher 5 0 0 [[7], [8]])"
    using poll_posts_conserved [OF null_cipher_ok poll_run [OF s(1)]] s(2) by simp
  have "length (map Some (posted s) @ pl_sends s) = length (seal_all null_cipher 5 0 0 [[7], [8]])"
    by (rule mset_eq_length [OF eq])
  then have "length (posted s) = 1"
    using s(3) by simp
  with eq poll_run [OF s(1)] show ?thesis by blast
qed

text \<open>Nothing orders the POSTs of two sends: if the second encryption settles first, frame 1 is
  posted before frame 0, and a receiver that checks the sequence numbers accepts neither. This is
  what \<open>_sendChain\<close> prevents in \<open>SecureVncSocket\<close> (C2).\<close>

theorem poll_sends_reordered:
  assumes "aead_ok c k" and "pid \<noteq> []"
  shows "\<exists>s. steps (poll_step c k) (polling_new sid ticket port)
      [P_Key_Ready, P_Open_Answer True pid, P_Client (Send p), P_Client (Send q), P_Send_Settle 1, P_Send_Settle 0] s \<and>
    map Some (posted s) = rev (seal_all c k 0 0 [to_u8 p, to_u8 q]) \<and> accept_stream c k 0 (posted s) = []"
proof -
  obtain f where f: "seal c k 0 0 (to_u8 p) = Some f"
    by (rule seal_Some [OF assms(1)])
  obtain g pg where g: "seal c k (Suc 0) 1 (to_u8 q) = Some g" "check_frame 1 g = Inr pg"
    by (rule seal_Some [OF assms(1)])
  have "check_frame 0 g = Inl (Out_Of_Order 1 0)"
    by (rule check_frame_other [OF g(2)]) simp
  then have "\<exists>s. run_exec (poll_exec c k) (polling_new sid ticket port)
      [P_Key_Ready, P_Open_Answer True pid, P_Client (Send p), P_Client (Send q), P_Send_Settle 1, P_Send_Settle 0] = Some s \<and>
    map Some (posted s) = rev (seal_all c k 0 0 [to_u8 p, to_u8 q]) \<and> accept_stream c k 0 (posted s) = []"
    using f g(1) assms(2) by (simp add: poll_eval posted_def b64ToU8_bufToB64)
  then show ?thesis by (blast intro: poll_run)
qed

theorem poll_sends_reordered_witness:
  "\<exists>s. steps (poll_step null_cipher 5) (polling_new ''sid'' None None)
      [P_Key_Ready, P_Open_Answer True ''p1'', P_Client (Send (P_Bytes [7])), P_Client (Send (P_Bytes [8])),
       P_Send_Settle 1, P_Send_Settle 0] s \<and> accept_stream null_cipher 5 0 (posted s) = []"
  using poll_sends_reordered [OF null_cipher_ok, of "''p1''" 5 "''sid''" None None "P_Bytes [7]" "P_Bytes [8]"]
  by blast

text \<open>A \<open>close\<close> while the \<open>open\<close> POST is out is overtaken by its answer: the closed socket
  reports itself open, and the session the server has just made is never closed.\<close>

theorem poll_close_during_open:
  assumes "pid \<noteq> []"
  shows "\<exists>s. steps (poll_step c k) (polling_new sid None None)
      [P_Key_Ready, P_Client (Close None None), P_Open_Answer True pid] s \<and>
    hb_events (pl_hub s) = [Ev_Close 1000 [] True, Ev_Open] \<and> pl_ready s = 1 \<and> pl_closed s \<and>
    pl_posts s = [Post_Open sid None] \<and> pl_loop s = L_Returned"
proof -
  have "\<exists>s. run_exec (poll_exec c k) (polling_new sid None None)
      [P_Key_Ready, P_Client (Close None None), P_Open_Answer True pid] = Some s \<and>
    hb_events (pl_hub s) = [Ev_Close 1000 [] True, Ev_Open] \<and> pl_ready s = 1 \<and> pl_closed s \<and>
    pl_posts s = [Post_Open sid None] \<and> pl_loop s = L_Returned"
    using assms by (simp add: poll_eval non_empty_def)
  then show ?thesis by (blast intro: poll_run)
qed

theorem poll_close_during_open_witness:
  "\<exists>s. steps (poll_step null_cipher 5) (polling_new ''sid'' None None)
      [P_Key_Ready, P_Client (Close None None), P_Open_Answer True ''p1''] s \<and> pl_ready s = 1 \<and> pl_closed s"
  using poll_close_during_open [of "''p1''" null_cipher 5 "''sid''"] by auto

text \<open>The chunk loop does not look at \<open>_closed\<close>: a message can be dispatched after the \<open>close\<close>
  event.\<close>

theorem poll_message_after_close:
  assumes "aead_ok c k" and "pid \<noteq> []"
  shows "\<exists>s. steps (poll_step c k) (polling_new sid ticket port)
      [P_Key_Ready, P_Open_Answer True pid, P_Recv_Answer True [bufToB64 (the (seal c k 0 0 pt))] False,
       P_Client (Close None None), P_Chunk_Settle] s \<and>
    hb_events (pl_hub s) = [Ev_Open, Ev_Close 1000 [] True, Ev_Message pt]"
proof -
  obtain f p where f: "seal c k 0 0 pt = Some f" "check_frame 0 f = Inr p" "open_frame c k p = Some pt"
    by (rule seal_Some [OF assms(1)])
  then have "\<exists>s. run_exec (poll_exec c k) (polling_new sid ticket port)
      [P_Key_Ready, P_Open_Answer True pid, P_Recv_Answer True [bufToB64 (the (seal c k 0 0 pt))] False,
       P_Client (Close None None), P_Chunk_Settle] = Some s \<and>
    hb_events (pl_hub s) = [Ev_Open, Ev_Close 1000 [] True, Ev_Message pt]"
    using assms(2) by (simp add: poll_eval b64ToU8_bufToB64)
  then show ?thesis by (blast intro: poll_run)
qed

theorem poll_message_after_close_witness:
  "\<exists>es s. steps (poll_step null_cipher 5) (polling_new ''sid'' None None) es s \<and>
     hb_events (pl_hub s) = [Ev_Open, Ev_Close 1000 [] True, Ev_Message [7]]"
  using poll_message_after_close [OF null_cipher_ok, of "''p1''" 5 "''sid''" None None "[7]"] by blast

text \<open>A loop that died of an uncaught exception stays dead.\<close>

lemma crashed_step:
  assumes "poll_step c k s e s'" and "pl_loop s = L_Crashed" and "\<not> pl_key_pending s"
  shows "pl_loop s' = L_Crashed \<and> \<not> pl_key_pending s' \<and> poll_delivered s' = poll_delivered s"
  using assms(1)
proof cases
  case (11 a)
  with assms show ?thesis by (simp add: poll_client_frame)
qed (use assms in \<open>auto simp: send_settle_def poll_dispatch_def poll_post_def poll_delivered_def Let_def
    split: option.split\<close>)

interpretation poll_crashed: step_machine "poll_step c k"
    "\<lambda>s. pl_loop s = L_Crashed \<and> \<not> pl_key_pending s \<and> poll_delivered s = ms"
    "\<lambda>s. pl_loop s = L_Crashed \<and> \<not> pl_key_pending s \<and> poll_delivered s = ms" for c k ms
  by unfold_locales (auto dest: crashed_step)

text \<open>One chunk that is not base64 stops the socket without a word: no event is dispatched, the
  socket still reports itself open, and no continuation delivers another message.\<close>

theorem poll_bad_chunk_stalls:
  assumes "pid \<noteq> []" and "b64ToU8 bad = None"
  shows "\<exists>s. steps (poll_step c k) (polling_new sid ticket port)
      [P_Key_Ready, P_Open_Answer True pid, P_Recv_Answer True (bad # rest) closed] s \<and>
    pl_ready s = 1 \<and> \<not> pl_closed s \<and> hb_events (pl_hub s) = [Ev_Open] \<and>
    (\<forall>es s'. steps (poll_step c k) s es s' \<longrightarrow> poll_delivered s' = [])"
proof -
  have "\<exists>s. run_exec (poll_exec c k) (polling_new sid ticket port)
      [P_Key_Ready, P_Open_Answer True pid, P_Recv_Answer True (bad # rest) closed] = Some s \<and>
    pl_ready s = 1 \<and> \<not> pl_closed s \<and> hb_events (pl_hub s) = [Ev_Open] \<and>
    pl_loop s = L_Crashed \<and> \<not> pl_key_pending s \<and> poll_delivered s = []"
    using assms by (simp add: poll_eval poll_delivered_def)
  then obtain s where s: "run_exec (poll_exec c k) (polling_new sid ticket port)
      [P_Key_Ready, P_Open_Answer True pid, P_Recv_Answer True (bad # rest) closed] = Some s"
    "pl_ready s = 1" "\<not> pl_closed s" "hb_events (pl_hub s) = [Ev_Open]"
    and dead: "pl_loop s = L_Crashed \<and> \<not> pl_key_pending s \<and> poll_delivered s = []" by auto
  have "poll_delivered s' = []" if "steps (poll_step c k) s es s'" for es s'
    using poll_crashed.inv_run [OF dead that] by simp
  with poll_run [OF s(1)] s(2-4) show ?thesis by blast
qed

theorem poll_bad_chunk_stalls_witness:
  "\<exists>s. steps (poll_step null_cipher 5) (polling_new ''sid'' None None)
      [P_Key_Ready, P_Open_Answer True ''p1'', P_Recv_Answer True [''AAAAA''] False] s \<and> pl_ready s = 1"
proof -
  have "b64ToU8 ''AAAAA'' = None"
    by (simp add: b64ToU8_def atob_def strip_pad_def ascii_ws_def)
  from poll_bad_chunk_stalls [OF _ this, of "''p1''" null_cipher 5 "''sid''" None None "[]" False] show ?thesis
    by auto
qed

end
