(* ===== verification/Vnc_Connect.thy ===== *)
theory Vnc_Connect
  imports Vnc_Polling
begin

text \<open>
  \<open>connectVnc\<close> (web/src/vnc_secure_socket.js): try the WebSocket, fall back to polling, resolve
  with the first socket that commits. The record \<open>conn\<close> holds the variables of the promise
  executor and the sockets it made; a turn of a socket is a step of its own machine
  (\<open>Vnc_Secure\<close>, \<open>Vnc_Polling\<close>), followed by the listeners of \<open>connectVnc\<close> on the events it
  dispatched. The client gets a socket only once the promise is resolved with it.
\<close>

section \<open>State\<close>

datatype choice = Via_Ws | Via_Poll nat

datatype transport = Tr_Ws | Tr_Poll

text \<open>
  \<open>cn_can_fall_back\<close>: \<open>getPollHandle\<close> is a function. \<open>cn_asked\<close> counts its calls, \<open>cn_waiting\<close> those
  not settled. \<open>cn_resolves\<close> and \<open>cn_transports\<close> are the calls of \<open>resolve\<close> and \<open>onTransport\<close>.
  \<open>cn_thrown\<close>: the executor threw, so the promise is rejected.
\<close>

record 'k conn =
  cn_can_fall_back :: bool
  cn_committed :: bool
  cn_timer :: bool
  cn_thrown :: bool
  cn_ws :: "'k secure option"
  cn_polls :: "'k polling list"
  cn_asked :: nat
  cn_waiting :: nat
  cn_resolves :: "choice list"
  cn_transports :: "transport list"

record handle =
  h_key_b64 :: string
  h_session_id :: string
  h_pve_ticket :: "string option"
  h_pve_port :: "string option"

section \<open>The closures of the executor\<close>

definition commit :: "choice \<Rightarrow> transport \<Rightarrow> 'k conn \<Rightarrow> 'k conn" where
  "commit sock kind s =
     (if cn_committed s then s
      else s\<lparr>cn_committed := True, cn_transports := cn_transports s @ [kind],
             cn_resolves := cn_resolves s @ [sock]\<rparr>)"

text \<open>\<open>goPolling\<close> up to its \<open>await\<close>, and from there on; \<open>None\<close> is a rejected or falsy handle.\<close>

definition go_polling :: "'k conn \<Rightarrow> 'k conn" where
  "go_polling s =
     (if cn_committed s then s
      else if \<not> cn_can_fall_back s then s
      else s\<lparr>cn_asked := cn_asked s + 1, cn_waiting := cn_waiting s + 1\<rparr>)"

definition go_polling_resume :: "handle option \<Rightarrow> 'k conn \<Rightarrow> 'k conn" where
  "go_polling_resume h s =
     (let s' = s\<lparr>cn_waiting := cn_waiting s - 1\<rparr>
      in if cn_committed s then s'
         else case h of
                None \<Rightarrow> s'
              | Some hnd \<Rightarrow>
                  if h_key_b64 hnd = [] \<or> h_session_id hnd = [] then s'
                  else case b64ToU8 (h_key_b64 hnd) of
                         None \<Rightarrow> s'
                       | Some raw \<Rightarrow> s'\<lparr>cn_polls := cn_polls s @
                           [polling_new (h_session_id hnd) (h_pve_ticket hnd) (h_pve_port hnd)]\<rparr>)"

fun poll_listener :: "nat \<Rightarrow> vnc_event \<Rightarrow> 'k conn \<Rightarrow> 'k conn" where
  "poll_listener i Ev_Open s = commit (Via_Poll i) Tr_Poll s"
| "poll_listener i (Ev_Close code r w) s =
     (if \<not> cn_committed s then commit (Via_Poll i) Tr_Poll s else s)"
| "poll_listener i _ s = s"

fun ws_listener :: "vnc_event \<Rightarrow> 'k conn \<Rightarrow> 'k conn" where
  "ws_listener Ev_Open s = commit Via_Ws Tr_Ws (s\<lparr>cn_timer := False\<rparr>)"
| "ws_listener (Ev_Close code r w) s =
     (let s' = s\<lparr>cn_timer := False\<rparr> in if \<not> cn_committed s' then go_polling s' else s')"
| "ws_listener _ s = s"

text \<open>The callback of \<open>failTimer\<close>.\<close>

definition timer_fires :: "'k conn \<Rightarrow> 'k conn" where
  "timer_fires s = go_polling (s\<lparr>cn_timer := False,
     cn_ws := map_option (secure_close (Some 4090) (Some ''timeout_falling_back'')) (cn_ws s)\<rparr>)"

text \<open>The body of the executor.\<close>

definition connect_vnc :: "bool \<Rightarrow> bool \<Rightarrow> string \<Rightarrow> 'k conn" where
  "connect_vnc forcePolling canFallBack wsKey =
     (let s = \<lparr>cn_can_fall_back = canFallBack, cn_committed = False, cn_timer = False, cn_thrown = False,
               cn_ws = None, cn_polls = [], cn_asked = 0, cn_waiting = 0, cn_resolves = [], cn_transports = []\<rparr>
      in if forcePolling then go_polling s
         else case b64ToU8 wsKey of
                None \<Rightarrow> s\<lparr>cn_thrown := True\<rparr>
              | Some raw \<Rightarrow> s\<lparr>cn_ws := Some secure_new, cn_timer := True\<rparr>)"

section \<open>One turn of the event loop\<close>

datatype conn_event =
    On_Ws sec_event
  | On_Timer
  | On_Handle "handle option"
  | On_Poll nat poll_event

text \<open>Which turns of a socket may happen: no call of the client before it has the socket.\<close>

fun ws_turn :: "'k conn \<Rightarrow> sec_event \<Rightarrow> bool" where
  "ws_turn s (Client a) = (Via_Ws \<in> set (cn_resolves s))"
| "ws_turn s (Socket_Open acts) = (acts = [])"
| "ws_turn s _ = True"

fun poll_turn :: "'k conn \<Rightarrow> nat \<Rightarrow> poll_event \<Rightarrow> bool" where
  "poll_turn s i (P_Client a) = (Via_Poll i \<in> set (cn_resolves s))"
| "poll_turn s i _ = True"

definition ws_new_events :: "'k secure \<Rightarrow> 'k secure \<Rightarrow> vnc_event list" where
  "ws_new_events w w' = drop (length (hb_events (sc_hub w))) (hb_events (sc_hub w'))"

definition poll_new_events :: "'k polling \<Rightarrow> 'k polling \<Rightarrow> vnc_event list" where
  "poll_new_events p p' = drop (length (hb_events (pl_hub p))) (hb_events (pl_hub p'))"

definition after_ws :: "'k secure \<Rightarrow> 'k secure \<Rightarrow> 'k conn \<Rightarrow> 'k conn" where
  "after_ws w w' s = fold ws_listener (ws_new_events w w') (s\<lparr>cn_ws := Some w'\<rparr>)"

definition after_poll :: "nat \<Rightarrow> 'k polling \<Rightarrow> 'k conn \<Rightarrow> 'k conn" where
  "after_poll i p' s =
     fold (poll_listener i) (poll_new_events (cn_polls s ! i) p') (s\<lparr>cn_polls := (cn_polls s)[i := p']\<rparr>)"

inductive conn_step :: "'k crypto \<Rightarrow> 'k \<Rightarrow> 'k \<Rightarrow> 'k conn \<Rightarrow> conn_event \<Rightarrow> 'k conn \<Rightarrow> bool" for c kw kp where
  conn_ws: "cn_ws s = Some w \<Longrightarrow> ws_turn s e \<Longrightarrow> sec_step c kw w e w' \<Longrightarrow>
    conn_step c kw kp s (On_Ws e) (after_ws w w' s)"
| conn_timer: "cn_timer s \<Longrightarrow> conn_step c kw kp s On_Timer (timer_fires s)"
| conn_handle: "0 < cn_waiting s \<Longrightarrow> conn_step c kw kp s (On_Handle h) (go_polling_resume h s)"
| conn_poll: "i < length (cn_polls s) \<Longrightarrow> poll_turn s i e \<Longrightarrow> poll_step c kp (cn_polls s ! i) e p' \<Longrightarrow>
    conn_step c kw kp s (On_Poll i e) (after_poll i p' s)"

inductive_cases conn_step_elim: "conn_step c kw kp s e s'"

fun conn_exec :: "'k crypto \<Rightarrow> 'k \<Rightarrow> 'k \<Rightarrow> 'k conn \<Rightarrow> conn_event \<Rightarrow> 'k conn option" where
  "conn_exec c kw kp s (On_Ws e) =
     (case cn_ws s of
        None \<Rightarrow> None
      | Some w \<Rightarrow> if ws_turn s e then map_option (\<lambda>w'. after_ws w w' s) (sec_exec c kw w e) else None)"
| "conn_exec c kw kp s On_Timer = (if cn_timer s then Some (timer_fires s) else None)"
| "conn_exec c kw kp s (On_Handle h) = (if 0 < cn_waiting s then Some (go_polling_resume h s) else None)"
| "conn_exec c kw kp s (On_Poll i e) =
     (if i < length (cn_polls s) \<and> poll_turn s i e
      then map_option (\<lambda>p'. after_poll i p' s) (poll_exec c kp (cn_polls s ! i) e) else None)"

lemma conn_exec_step: "conn_exec c kw kp s e = Some s' \<longleftrightarrow> conn_step c kw kp s e s'"
  by (cases e)
    (auto simp: sec_exec_step poll_exec_step intro: conn_step.intros elim!: conn_step_elim
      split: if_splits option.splits)

lemma conn_run: "run_exec (conn_exec c kw kp) s es = Some s' \<Longrightarrow> steps (conn_step c kw kp) s es s'"
  by (rule steps_run_exec) (auto simp: conn_exec_step)

section \<open>What the listeners see\<close>

definition ws_sane :: "'k secure \<Rightarrow> bool" where
  "ws_sane w \<longleftrightarrow> (sc_key_pending w \<longrightarrow> sc_ws w = Ws_None)"

lemma client_do_key_pending [simp]: "sc_key_pending (client_do c a s) = sc_key_pending s"
  by (cases a) (auto simp: secure_send_def secure_encrypt_and_send_def secure_encrypt_def secure_close_def Let_def)

lemma fold_client_key_pending [simp]: "sc_key_pending (fold (client_do c) acts s) = sc_key_pending s"
  by (induction acts arbitrary: s) auto

lemma flush_queue_key_pending [simp]: "sc_key_pending (flush_queue c q s) = sc_key_pending s"
  by (induction q arbitrary: s) (auto simp: secure_encrypt_and_send_def secure_encrypt_def Let_def)

text \<open>A turn of the WebSocket side dispatches at most one event, and its \<open>close\<close> only once.\<close>

lemma ws_turn_event:
  assumes "sec_step c k w e w'" and "ws_sane w"
  obtains "ws_new_events w w' = []" "ws_sane w'" "sc_ws w = Ws_Gone \<Longrightarrow> sc_ws w' = Ws_Gone"
          "hb_events (sc_hub w') = hb_events (sc_hub w)"
    | ev where "ws_new_events w w' = [ev]" "ws_sane w'" "hb_events (sc_hub w') = hb_events (sc_hub w) @ [ev]"
        "sc_ws w = Ws_Gone \<Longrightarrow> sc_ws w' = Ws_Gone"
        "\<And>code r cl. ev = Ev_Close code r cl \<Longrightarrow> sc_ws w \<noteq> Ws_Gone \<and> sc_ws w' = Ws_Gone"
proof -
  have "\<exists>evs. hb_events (sc_hub w') = hb_events (sc_hub w) @ evs \<and> ws_sane w' \<and>
      (sc_ws w = Ws_Gone \<longrightarrow> sc_ws w' = Ws_Gone) \<and>
      (evs = [] \<or> (\<exists>ev. evs = [ev] \<and> ((\<exists>code r cl. ev = Ev_Close code r cl) \<longrightarrow> sc_ws w \<noteq> Ws_Gone \<and> sc_ws w' = Ws_Gone)))"
    using assms(1)
  proof cases
    case (socket_open acts)
    then show ?thesis using assms(2)
      by (auto simp: on_open_def secure_dispatch_def Let_def ws_sane_def)
  next
    case deliver_start
    then show ?thesis using assms(2)
      by (auto simp: deliver_start_def secure_decrypt_def secure_defs ws_sane_def split: list.split sum.split)
  next
    case deliver_settle
    then show ?thesis using assms(2)
      by (auto simp: deliver_settle_def secure_defs ws_sane_def split: option.split)
  next
    case (client a)
    then show ?thesis using assms(2) by (auto simp: ws_sane_def)
  next
    case (chain_send r rest)
    then show ?thesis using assms(2)
      by (auto simp: chain_send_def ws_sane_def split: option.split)
  qed (use assms(2) in \<open>auto simp: secure_defs ws_sane_def enc_settle_def\<close>)
  then show thesis
    using that by (auto simp: ws_new_events_def)
qed

lemma poll_events_grow:
  assumes "poll_step c k p e p'"
  shows "hb_events (pl_hub p') = hb_events (pl_hub p) @ poll_new_events p p'"
proof -
  have chunk: "\<exists>evs. hb_events (pl_hub (next_chunk c chunks closed q)) = hb_events (pl_hub q) @ evs" for chunks closed and q :: "'a polling"
    by (auto simp: next_chunk_def poll_decrypt_def poll_defs split: list.split option.split sum.split)
  have "\<exists>evs. hb_events (pl_hub p') = hb_events (pl_hub p) @ evs"
    using assms
  proof cases
    case (5 ok chunks closed)
    then show ?thesis using chunk [of chunks closed p]
      by (auto simp: recv_answer_def loop_end_def poll_dispatch_def)
  next
    case (8 r rest closed)
    then show ?thesis using chunk [of rest closed "poll_dispatch (Ev_Message (the r)) p"]
      by (cases r) (auto simp: chunk_settle_def poll_dispatch_def, auto simp: poll_defs split: option.split)
  next
    case (11 a)
    then show ?thesis by (cases a) (auto simp: poll_defs split: option.split)
  qed (auto simp: poll_defs split: option.split)
  then show ?thesis by (auto simp: poll_new_events_def)
qed

section \<open>The promise\<close>

text \<open>What a resolved choice rests on: the WebSocket opened, or the polling socket opened or ended.\<close>

definition settled_event :: "vnc_event \<Rightarrow> bool" where
  "settled_event ev \<longleftrightarrow> type_of ev \<in> {T_Open, T_Close}"

fun chosen_ok :: "'k conn \<Rightarrow> choice \<Rightarrow> bool" where
  "chosen_ok s Via_Ws = (case cn_ws s of None \<Rightarrow> False | Some w \<Rightarrow> Ev_Open \<in> set (hb_events (sc_hub w)))"
| "chosen_ok s (Via_Poll i) =
     (i < length (cn_polls s) \<and> list_ex settled_event (hb_events (pl_hub (cn_polls s ! i))))"

fun transport_of :: "choice \<Rightarrow> transport" where
  "transport_of Via_Ws = Tr_Ws"
| "transport_of (Via_Poll i) = Tr_Poll"

text \<open>How often \<open>getPollHandle\<close> may still be called.\<close>

definition asks_left :: "'k conn \<Rightarrow> nat" where
  "asks_left s = (if cn_timer s then 1 else 0) +
     (case cn_ws s of None \<Rightarrow> 0 | Some w \<Rightarrow> if sc_ws w = Ws_Gone then 0 else 1)"

definition conn_inv :: "nat \<Rightarrow> 'k conn \<Rightarrow> bool" where
  "conn_inv n s \<longleftrightarrow>
     length (cn_resolves s) = (if cn_committed s then 1 else 0) \<and>
     cn_transports s = map transport_of (cn_resolves s) \<and>
     list_all (chosen_ok s) (cn_resolves s) \<and>
     cn_asked s + asks_left s \<le> n \<and>
     (case cn_ws s of None \<Rightarrow> True | Some w \<Rightarrow> ws_sane w)"

lemma fold_poll_listener:
  "fold (poll_listener i) evs s = (if list_ex settled_event evs then commit (Via_Poll i) Tr_Poll s else s)"
proof (induction evs arbitrary: s)
  case (Cons ev evs)
  then show ?case by (cases ev) (auto simp: settled_event_def commit_def)
qed simp

lemma commit_fields [simp]:
  "cn_ws (commit ch t s) = cn_ws s" "cn_polls (commit ch t s) = cn_polls s" "cn_timer (commit ch t s) = cn_timer s"
  "cn_asked (commit ch t s) = cn_asked s" "cn_waiting (commit ch t s) = cn_waiting s"
  by (auto simp: commit_def)

lemma go_polling_fields [simp]:
  "cn_ws (go_polling s) = cn_ws s" "cn_polls (go_polling s) = cn_polls s" "cn_timer (go_polling s) = cn_timer s"
  "cn_resolves (go_polling s) = cn_resolves s" "cn_transports (go_polling s) = cn_transports s"
  "cn_committed (go_polling s) = cn_committed s"
  by (auto simp: go_polling_def)

lemma go_polling_asked: "cn_asked (go_polling s) \<le> Suc (cn_asked s)"
  by (simp add: go_polling_def)

lemma asks_left_fields:
  "cn_timer s = cn_timer s' \<Longrightarrow> cn_ws s = cn_ws s' \<Longrightarrow> asks_left s = asks_left s'"
  by (simp add: asks_left_def)

lemma chosen_ok_ws:
  assumes "chosen_ok s ch" and "cn_ws s = Some w" and "set (hb_events (sc_hub w)) \<subseteq> set (hb_events (sc_hub w'))"
    and "cn_ws s' = Some w'" and "cn_polls s' = cn_polls s"
  shows "chosen_ok s' ch"
  using assms by (cases ch) auto

lemma chosen_ok_polls:
  assumes "chosen_ok s ch" and "cn_ws s' = cn_ws s"
    and "\<And>i. i < length (cn_polls s) \<Longrightarrow> i < length (cn_polls s') \<and>
      set (hb_events (pl_hub (cn_polls s ! i))) \<subseteq> set (hb_events (pl_hub (cn_polls s' ! i)))"
  shows "chosen_ok s' ch"
  using assms by (cases ch) (auto simp: list_ex_iff)

lemma conn_inv_start: "conn_inv (if f then 1 else 2) (connect_vnc f g key)"
  by (auto simp: conn_inv_def connect_vnc_def asks_left_def go_polling_def secure_new_def ws_sane_def Let_def
      split: option.split)

lemma conn_inv_ws:
  assumes inv: "conn_inv n s" and w: "cn_ws s = Some w" and step: "sec_step c k w e w'"
  shows "conn_inv n (after_ws w w' s)"
proof -
  have sane: "ws_sane w" and len: "length (cn_resolves s) = (if cn_committed s then 1 else 0)"
    and tr: "cn_transports s = map transport_of (cn_resolves s)"
    and ok: "list_all (chosen_ok s) (cn_resolves s)" and left: "cn_asked s + asks_left s \<le> n"
    using inv w by (auto simp: conn_inv_def)
  from step sane show ?thesis
  proof (cases rule: ws_turn_event)
    case 1
    have "list_all (chosen_ok (s\<lparr>cn_ws := Some w'\<rparr>)) (cn_resolves s)"
      using ok chosen_ok_ws [OF _ w, of _ w' "s\<lparr>cn_ws := Some w'\<rparr>"] 1(4) by (auto simp: list_all_iff)
    moreover have "asks_left (s\<lparr>cn_ws := Some w'\<rparr>) \<le> asks_left s"
      using 1(3) w by (auto simp: asks_left_def)
    ultimately show ?thesis
      using len tr left 1(1,2) by (simp add: after_ws_def conn_inv_def)
  next
    case (2 ev)
    let ?s = "after_ws w w' s"
    have ws: "cn_ws ?s = Some w'" "cn_polls ?s = cn_polls s"
      using 2(1) by (cases ev; auto simp: after_ws_def Let_def)+
    have old: "chosen_ok ?s ch" if "ch \<in> set (cn_resolves s)" for ch
      using that ok chosen_ok_ws [OF _ w, of ch w' ?s] ws 2(3) by (auto simp: list_all_iff)
    have new: "chosen_ok ?s Via_Ws" if "ev = Ev_Open"
      using ws that 2(3) by simp
    have keep: "cn_asked s + asks_left (s\<lparr>cn_ws := Some w'\<rparr>) \<le> n"
      using left 2(4) w by (auto simp: asks_left_def split: if_splits)
    show ?thesis
    proof (cases ev)
      case Ev_Open
      then have "cn_resolves ?s = cn_resolves s @ (if cn_committed s then [] else [Via_Ws])"
          "cn_transports ?s = cn_transports s @ (if cn_committed s then [] else [Tr_Ws])"
          "cn_committed ?s" "\<not> cn_timer ?s" "cn_asked ?s = cn_asked s"
        using 2(1) by (auto simp: after_ws_def commit_def)
      with Ev_Open ws len tr left old new w 2(2,4) show ?thesis
        by (auto simp: conn_inv_def asks_left_def list_all_iff split: if_splits)
    next
      case (Ev_Close code r cl)
      then have "cn_resolves ?s = cn_resolves s" "cn_transports ?s = cn_transports s"
          "cn_committed ?s = cn_committed s" "\<not> cn_timer ?s" "cn_asked ?s \<le> Suc (cn_asked s)"
        using 2(1) go_polling_asked [of "s\<lparr>cn_ws := Some w', cn_timer := False\<rparr>"] by (auto simp: after_ws_def Let_def)
      with Ev_Close ws len tr left old w 2(2) 2(5) [OF Ev_Close] show ?thesis
        by (auto simp: conn_inv_def asks_left_def list_all_iff)
    next
      case (Ev_Message d)
      then have "?s = s\<lparr>cn_ws := Some w'\<rparr>" using 2(1) by (auto simp: after_ws_def)
      with len tr old 2(2) keep show ?thesis by (simp add: conn_inv_def list_all_iff)
    next
      case Ev_Error
      then have "?s = s\<lparr>cn_ws := Some w'\<rparr>" using 2(1) by (auto simp: after_ws_def)
      with len tr old 2(2) keep show ?thesis by (simp add: conn_inv_def list_all_iff)
    next
      case (Ev_Integrity x)
      then have "?s = s\<lparr>cn_ws := Some w'\<rparr>" using 2(1) by (auto simp: after_ws_def)
      with len tr old 2(2) keep show ?thesis by (simp add: conn_inv_def list_all_iff)
    qed
  qed
qed

lemma conn_inv_commit:
  assumes inv: "conn_inv n s" and ok: "chosen_ok s ch"
  shows "conn_inv n (commit ch (transport_of ch) s)"
proof (cases "cn_committed s")
  case True
  with inv show ?thesis by (simp add: commit_def)
next
  case False
  let ?s = "s\<lparr>cn_committed := True, cn_transports := cn_transports s @ [transport_of ch],
             cn_resolves := cn_resolves s @ [ch]\<rparr>"
  have "chosen_ok ?s = chosen_ok s"
  proof
    show "chosen_ok ?s x = chosen_ok s x" for x by (cases x) simp_all
  qed
  moreover have "asks_left ?s = asks_left s" by (simp add: asks_left_def)
  ultimately show ?thesis
    using False inv ok by (simp add: commit_def conn_inv_def)
qed

lemma conn_inv_poll:
  assumes inv: "conn_inv n s" and i: "i < length (cn_polls s)" and step: "poll_step c k (cn_polls s ! i) e p'"
  shows "conn_inv n (after_poll i p' s)"
proof -
  let ?s = "s\<lparr>cn_polls := (cn_polls s)[i := p']\<rparr>"
  have grow: "hb_events (pl_hub p') = hb_events (pl_hub (cn_polls s ! i)) @ poll_new_events (cn_polls s ! i) p'"
    by (rule poll_events_grow [OF step])
  have old: "chosen_ok ?s ch" if "ch \<in> set (cn_resolves s)" for ch
    by (rule chosen_ok_polls [of s]) (use inv i that grow in \<open>auto simp: conn_inv_def list_all_iff nth_list_update\<close>)
  have new: "chosen_ok ?s (Via_Poll i)" if "list_ex settled_event (poll_new_events (cn_polls s ! i) p')"
    using i that by (simp add: grow)
  have *: "conn_inv n ?s"
    using inv old by (auto simp: conn_inv_def list_all_iff asks_left_def)
  show ?thesis
    using * new conn_inv_commit [of n ?s "Via_Poll i"] by (auto simp: after_poll_def fold_poll_listener)
qed

lemma conn_inv_step:
  assumes inv: "conn_inv n s" and step: "conn_step c kw kp s e s'"
  shows "conn_inv n s'"
  using step
proof cases
  case conn_timer
  let ?t = "s\<lparr>cn_timer := False, cn_ws := map_option (secure_close (Some 4090) (Some ''timeout_falling_back'')) (cn_ws s)\<rparr>"
  have "chosen_ok (go_polling ?t) = chosen_ok s"
  proof
    show "chosen_ok (go_polling ?t) ch = chosen_ok s ch" for ch
      by (cases ch; cases "cn_ws s") (auto simp: secure_close_def Let_def)
  qed
  moreover have "asks_left s = Suc (asks_left (go_polling ?t))"
    using conn_timer by (cases "cn_ws s") (auto simp: asks_left_def secure_close_def Let_def)
  moreover have "case cn_ws (go_polling ?t) of None \<Rightarrow> True | Some w \<Rightarrow> ws_sane w"
    using inv by (cases "cn_ws s") (auto simp: conn_inv_def ws_sane_def secure_close_def Let_def)
  ultimately show ?thesis
    using inv conn_timer go_polling_asked [of ?t] by (auto simp: conn_inv_def timer_fires_def)
next
  case (conn_handle h)
  have "cn_resolves s' = cn_resolves s \<and> cn_transports s' = cn_transports s \<and> cn_committed s' = cn_committed s \<and>
      cn_ws s' = cn_ws s \<and> cn_asked s' = cn_asked s \<and> cn_timer s' = cn_timer s \<and> (\<exists>ps. cn_polls s' = cn_polls s @ ps)"
    using conn_handle by (auto simp: go_polling_resume_def Let_def split: option.split)
  then show ?thesis
    using inv asks_left_fields [of s s']
    by (auto simp: conn_inv_def list_all_iff nth_append intro: chosen_ok_polls [of s _ s'])
qed (use inv in \<open>auto intro: conn_inv_ws conn_inv_poll\<close>)

interpretation conn: step_machine "conn_step c kw kp" "\<lambda>s. \<exists>g key. s = connect_vnc f g key"
    "conn_inv (if f then 1 else 2)" for c kw kp f
proof unfold_locales
  show "conn_inv (if f then 1 else 2) s" if "\<exists>g key. s = connect_vnc f g key" for s :: "'a conn"
    using that conn_inv_start [of f] by (elim exE) (simp only:)
qed (rule conn_inv_step)

section \<open>Properties\<close>

text \<open>C24. Whatever the sockets, the timer and \<open>getPollHandle\<close> do: the promise is resolved at most
  once, \<open>onTransport\<close> is told the same transport, and the socket it is resolved with is one that
  opened (or, for polling, one that opened or ended).\<close>

theorem connect_resolves_once:
  assumes "steps (conn_step c kw kp) (connect_vnc f g key) es s"
  shows "length (cn_resolves s) = (if cn_committed s then 1 else 0) \<and>
    cn_transports s = map transport_of (cn_resolves s) \<and> list_all (chosen_ok s) (cn_resolves s)"
proof -
  have "\<exists>g' key'. connect_vnc f g key = connect_vnc f g' key'" by blast
  from conn.inv_run [OF this assms] show ?thesis by (simp add: conn_inv_def)
qed

definition demo_connect :: "conn_event list" where
  "demo_connect = [On_Ws Key_Ready, On_Ws (Socket_Open []), On_Ws (Client (Close None None))]"

lemma demo_key: "b64ToU8 ''AAAA'' = Some [0, 0, 0]"
  by (simp add: b64ToU8_def atob_def strip_pad_def ascii_ws_def b64_val_def b64_alphabet_def ends_with_def upt_rec)

lemmas connect_eval = connect_vnc_def after_ws_def after_poll_def ws_new_events_def poll_new_events_def commit_def
  go_polling_def go_polling_resume_def timer_fires_def secure_new_def secure_defs on_open_def

lemma demo_connect_run:
  "\<exists>s. run_exec (conn_exec null_cipher 5 6) (connect_vnc False True ''AAAA'') demo_connect = Some s \<and>
     cn_resolves s = [Via_Ws] \<and> cn_asked s = 0"
  by (simp add: demo_connect_def connect_eval demo_key)

theorem connect_resolves_once_witness:
  "\<exists>s. steps (conn_step null_cipher 5 6) (connect_vnc False True ''AAAA'') demo_connect s \<and>
     cn_transports s = [Tr_Ws]"
proof -
  obtain s where s: "run_exec (conn_exec null_cipher 5 6) (connect_vnc False True ''AAAA'') demo_connect = Some s"
    "cn_resolves s = [Via_Ws]"
    using demo_connect_run by blast
  from connect_resolves_once [OF conn_run [OF s(1)]] conn_run [OF s(1)] s(2) show ?thesis by auto
qed

text \<open>\<open>getPollHandle\<close>, each call of which opens a console session on the hypervisor, is called at
  most once under \<open>forcePolling\<close> and at most twice otherwise.\<close>

theorem connect_asks_bounded:
  assumes "steps (conn_step c kw kp) (connect_vnc f g key) es s"
  shows "cn_asked s \<le> (if f then 1 else 2)"
proof -
  have "\<exists>g' key'. connect_vnc f g key = connect_vnc f g' key'" by blast
  from conn.inv_run [OF this assms] show ?thesis by (simp add: conn_inv_def)
qed

theorem connect_asks_bounded_witness:
  "\<exists>s. steps (conn_step null_cipher 5 6) (connect_vnc False True ''AAAA'') demo_connect s \<and> cn_asked s \<le> 2"
proof -
  obtain s where s: "run_exec (conn_exec null_cipher 5 6) (connect_vnc False True ''AAAA'') demo_connect = Some s"
    using demo_connect_run by blast
  from connect_asks_bounded [OF conn_run [OF s]] conn_run [OF s] show ?thesis by auto
qed

lemma two_handles:
  assumes "b64ToU8 (h_key_b64 h1) = Some r1" and "h_key_b64 h1 \<noteq> []" and "h_session_id h1 \<noteq> []"
    and "b64ToU8 (h_key_b64 h2) = Some r2" and "h_key_b64 h2 \<noteq> []" and "h_session_id h2 \<noteq> []"
    and "h_pve_ticket h1 = None" and "h_pve_ticket h2 = None"
    and "\<not> cn_committed s" and "cn_waiting s = 2" and "cn_polls s = []"
  shows "\<exists>s'. run_exec (conn_exec c kw kp) s
      [On_Handle (Some h1), On_Handle (Some h2), On_Poll 0 P_Key_Ready, On_Poll 1 P_Key_Ready] = Some s' \<and>
    cn_asked s' = cn_asked s \<and>
    map pl_posts (cn_polls s') = [[Post_Open (h_session_id h1) None], [Post_Open (h_session_id h2) None]]"
proof -
  let ?p = "\<lambda>h. polling_new (h_session_id h) None (h_pve_port h) :: 'a polling"
  have r1: "go_polling_resume (Some h1) s = s\<lparr>cn_waiting := Suc 0, cn_polls := [?p h1]\<rparr>"
    using assms by (simp add: go_polling_resume_def)
  have r2: "go_polling_resume (Some h2) (s\<lparr>cn_waiting := Suc 0, cn_polls := [?p h1]\<rparr>) =
      s\<lparr>cn_waiting := 0, cn_polls := [?p h1, ?p h2]\<rparr>"
    using assms by (simp add: go_polling_resume_def)
  have open_posts: "pl_posts (poll_key_ready kp (?p h)) = [Post_Open (h_session_id h) None]"
    "poll_new_events (?p h) (poll_key_ready kp (?p h)) = []" "pl_key_pending (?p h)" for h
    by (simp_all add: poll_key_ready_def poll_open_def poll_post_def polling_new_def non_empty_def poll_new_events_def)
  show ?thesis
    using assms(10) by (simp add: r1 r2 after_poll_def open_posts)
qed

text \<open>Two calls do happen: the timer closes the WebSocket and falls back, and the \<open>close\<close> event
  that answers it falls back again. Both handles are used: two polling sockets open two console
  sessions on the same guest, which the lazy \<open>getPollHandle\<close> is there to avoid.\<close>

theorem connect_two_consoles:
  assumes "b64ToU8 (h_key_b64 h1) = Some r1" and "h_key_b64 h1 \<noteq> []" and "h_session_id h1 \<noteq> []"
    and "b64ToU8 (h_key_b64 h2) = Some r2" and "h_key_b64 h2 \<noteq> []" and "h_session_id h2 \<noteq> []"
    and "h_pve_ticket h1 = None" and "h_pve_ticket h2 = None" and "b64ToU8 key = Some r"
  shows "\<exists>s. steps (conn_step c kw kp) (connect_vnc False True key)
      [On_Ws Key_Ready, On_Timer, On_Ws (Socket_Closed 1006 [] False), On_Handle (Some h1), On_Handle (Some h2),
       On_Poll 0 P_Key_Ready, On_Poll 1 P_Key_Ready] s \<and>
    cn_asked s = 2 \<and> map pl_posts (cn_polls s) = [[Post_Open (h_session_id h1) None], [Post_Open (h_session_id h2) None]]"
proof -
  have "\<exists>s. run_exec (conn_exec c kw kp) (connect_vnc False True key)
      [On_Ws Key_Ready, On_Timer, On_Ws (Socket_Closed 1006 [] False)] = Some s \<and>
    \<not> cn_committed s \<and> cn_asked s = 2 \<and> cn_waiting s = 2 \<and> cn_polls s = []"
    using assms(9) by (simp add: connect_eval)
  then obtain s where s: "run_exec (conn_exec c kw kp) (connect_vnc False True key)
      [On_Ws Key_Ready, On_Timer, On_Ws (Socket_Closed 1006 [] False)] = Some s"
    "\<not> cn_committed s" "cn_asked s = 2" "cn_waiting s = 2" "cn_polls s = []" by blast
  from two_handles [OF assms(1-8) s(2,4,5), of c kw kp] obtain s'
    where s': "run_exec (conn_exec c kw kp) s
      [On_Handle (Some h1), On_Handle (Some h2), On_Poll 0 P_Key_Ready, On_Poll 1 P_Key_Ready] = Some s'"
      "cn_asked s' = cn_asked s"
      "map pl_posts (cn_polls s') = [[Post_Open (h_session_id h1) None], [Post_Open (h_session_id h2) None]]"
    by (elim exE conjE)
  have "steps (conn_step c kw kp) (connect_vnc False True key)
      ([On_Ws Key_Ready, On_Timer, On_Ws (Socket_Closed 1006 [] False)] @
       [On_Handle (Some h1), On_Handle (Some h2), On_Poll 0 P_Key_Ready, On_Poll 1 P_Key_Ready]) s'"
    unfolding steps_append using conn_run [OF s(1)] conn_run [OF s'(1)] by blast
  then have run: "steps (conn_step c kw kp) (connect_vnc False True key)
      [On_Ws Key_Ready, On_Timer, On_Ws (Socket_Closed 1006 [] False), On_Handle (Some h1), On_Handle (Some h2),
       On_Poll 0 P_Key_Ready, On_Poll 1 P_Key_Ready] s'"
    by (simp only: append.simps)
  show ?thesis
    by (rule exI [of _ s'], intro conjI, rule run, simp only: s'(2) s(3), rule s'(3))
qed

definition demo_handle :: "string \<Rightarrow> handle" where
  "demo_handle sid = \<lparr>h_key_b64 = ''AAAA'', h_session_id = sid, h_pve_ticket = None, h_pve_port = None\<rparr>"

theorem connect_two_consoles_witness:
  "\<exists>es s. steps (conn_step null_cipher 5 6) (connect_vnc False True ''AAAA'') es s \<and>
     map pl_posts (cn_polls s) = [[Post_Open ''s1'' None], [Post_Open ''s2'' None]]"
proof -
  have "b64ToU8 (h_key_b64 (demo_handle sid)) = Some [0, 0, 0]" "h_key_b64 (demo_handle sid) \<noteq> []"
    "h_session_id (demo_handle sid) = sid" "h_pve_ticket (demo_handle sid) = None" for sid
    by (simp_all add: demo_handle_def demo_key)
  note h = this
  have ne: "h_session_id (demo_handle ''s1'') \<noteq> []" "h_session_id (demo_handle ''s2'') \<noteq> []"
    by (simp_all add: h(3))
  from connect_two_consoles [OF h(1,2) ne(1) h(1,2) ne(2) h(4) h(4) demo_key, of null_cipher 5 6]
  show ?thesis unfolding h(3) by (elim exE conjE) (rule exI, rule exI, rule conjI)
qed

text \<open>Once the WebSocket is gone with no fallback to wait for, nothing is left to settle the promise.\<close>

definition stranded :: "'k conn \<Rightarrow> bool" where
  "stranded s \<longleftrightarrow> \<not> cn_committed s \<and> cn_resolves s = [] \<and> \<not> cn_timer s \<and> cn_waiting s = 0 \<and> cn_polls s = [] \<and>
     \<not> cn_thrown s \<and> \<not> cn_can_fall_back s \<and>
     (case cn_ws s of None \<Rightarrow> True | Some w \<Rightarrow> ws_sane w \<and> sc_ws w = Ws_Gone \<and> \<not> sc_key_pending w)"

lemma gone_stays:
  assumes "sec_step c k w e w'" and "sc_ws w = Ws_Gone" and "\<not> sc_key_pending w"
  shows "\<not> sc_key_pending w' \<and> Ev_Open \<notin> set (ws_new_events w w')"
  using assms(1)
proof cases
  case deliver_start
  then show ?thesis using assms(2,3)
    by (auto simp: deliver_start_def secure_decrypt_def secure_defs ws_new_events_def split: list.split sum.split)
next
  case deliver_settle
  then show ?thesis using assms(2,3)
    by (auto simp: deliver_settle_def secure_defs ws_new_events_def split: option.split)
next
  case (chain_send r rest)
  then show ?thesis using assms(2,3) by (auto simp: chain_send_def ws_new_events_def split: option.split)
qed (use assms(2,3) in \<open>auto simp: secure_defs enc_settle_def ws_new_events_def\<close>)

lemma stranded_step:
  assumes "conn_step c kw kp s e s'" and "stranded s"
  shows "stranded s'"
  using assms(1)
proof cases
  case (conn_ws w ev w')
  have w: "ws_sane w" "sc_ws w = Ws_Gone" "\<not> sc_key_pending w"
    using assms(2) conn_ws by (auto simp: stranded_def)
  note keep = gone_stays [OF conn_ws(5) w(2,3)]
  from conn_ws(5) w(1) show ?thesis
  proof (cases rule: ws_turn_event)
    case 1
    with keep w assms(2) conn_ws(2) show ?thesis by (auto simp: stranded_def after_ws_def)
  next
    case (2 x)
    with keep w assms(2) conn_ws(2) show ?thesis
      by (cases x) (auto simp: stranded_def after_ws_def Let_def)
  qed
qed (use assms(2) in \<open>auto simp: stranded_def\<close>)

interpretation conn_stranded: step_machine "conn_step c kw kp" stranded stranded for c kw kp
  by unfold_locales (auto intro: stranded_step)

text \<open>Without \<open>getPollHandle\<close>, a WebSocket that closes before it opens leaves the promise pending
  for ever: no continuation resolves or rejects it.\<close>

theorem connect_never_settles:
  assumes "b64ToU8 key = Some raw"
  shows "\<exists>s. steps (conn_step c kw kp) (connect_vnc False False key)
      [On_Ws Key_Ready, On_Ws (Socket_Closed code reason clean)] s \<and>
    (\<forall>es s'. steps (conn_step c kw kp) s es s' \<longrightarrow> cn_resolves s' = [] \<and> \<not> cn_thrown s')"
proof -
  have "\<exists>s. run_exec (conn_exec c kw kp) (connect_vnc False False key)
      [On_Ws Key_Ready, On_Ws (Socket_Closed code reason clean)] = Some s \<and> stranded s"
    using assms by (simp add: connect_eval stranded_def ws_sane_def)
  then obtain s where s: "run_exec (conn_exec c kw kp) (connect_vnc False False key)
      [On_Ws Key_Ready, On_Ws (Socket_Closed code reason clean)] = Some s" "stranded s" by blast
  have "cn_resolves s' = [] \<and> \<not> cn_thrown s'" if "steps (conn_step c kw kp) s es s'" for es s'
    using conn_stranded.inv_run [OF s(2) that] by (simp add: stranded_def)
  with conn_run [OF s(1)] show ?thesis by blast
qed

theorem connect_never_settles_witness:
  "\<exists>s. steps (conn_step null_cipher 5 6) (connect_vnc False False ''AAAA'')
      [On_Ws Key_Ready, On_Ws (Socket_Closed 1006 [] False)] s \<and> cn_resolves s = []"
  using connect_never_settles [OF demo_key, of null_cipher 5 6 1006 "[]" False] by (blast intro: steps.intros)

end
