(* ===== verification/Vm_Device_Strings.thy ===== *)
theory Vm_Device_Strings
  imports Js_Prelude
begin

text \<open>
  The device strings of a VM (web/src/vm_config.js): Proxmox keeps the VirtIO RNG and the virtiofs
  shares as \<open>key=value,key=value\<close> texts. Each has a parser, a printer and a check of the form the
  user edits. The locale \<open>param_codec\<close> is what the two printer/parser pairs have in common.
\<close>

section \<open>Comma separated parameters\<close>

locale param_codec =
  fixes item :: "'r \<Rightarrow> string \<Rightarrow> 'r"
    and blank :: 'r
    and items :: "'f \<Rightarrow> string list"
    and stored :: "'f \<Rightarrow> 'r"
    and valid :: "'f \<Rightarrow> bool"
  assumes items_ok: "valid f \<Longrightarrow> items f \<noteq> [] \<and> (\<forall>w \<in> set (items f). CHR '','' \<notin> set w)"
    and items_read: "valid f \<Longrightarrow> foldl item blank (items f) = stored f"
begin

lemma parse_print:
  "valid f \<Longrightarrow> foldl item blank (split_on (CHR '','') (join '','' (items f))) = stored f"
  using items_ok items_read by (simp add: split_on_join)

end

text \<open>A part \<open>key=value\<close>, cut at its first \<open>=\<close>.\<close>

definition cut_eq :: "string \<Rightarrow> (string \<times> string) option" where
  "cut_eq part = (case index_of (CHR ''='') part of None \<Rightarrow> None | Some i \<Rightarrow> Some (take i part, drop (Suc i) part))"

lemma cut_eq_pair: "CHR ''='' \<notin> set k \<Longrightarrow> cut_eq (k @ CHR ''='' # v) = Some (k, v)"
  by (simp add: cut_eq_def index_of_append)

lemma cut_eq_plain: "CHR ''='' \<notin> set w \<Longrightarrow> cut_eq w = None"
  by (simp add: cut_eq_def flip: index_of_None)

lemma trim_Nil: "trim s = [] \<longleftrightarrow> list_all is_space s"
proof
  assume "trim s = []"
  then have all: "\<forall>c \<in> set (dropWhile is_space s). is_space c"
    by (auto simp: trim_def trim_end_def trim_start_def)
  have "dropWhile is_space s = []"
  proof (rule ccontr)
    assume ne: "dropWhile is_space s \<noteq> []"
    then show False using all hd_dropWhile [OF ne] hd_in_set [OF ne] by blast
  qed
  then show "list_all is_space s" by (simp add: list_all_iff)
next
  assume "list_all is_space s"
  then have "dropWhile is_space s = []" by (simp only: list_all_iff dropWhile_eq_Nil_conv)
  then show "trim s = []" by (simp only: trim_def trim_end_def trim_start_def rev.simps dropWhile.simps)
qed

lemma trim_solid: "c \<in> set s \<Longrightarrow> \<not> is_space c \<Longrightarrow> trim s \<noteq> []"
  by (auto simp: trim_Nil list_all_iff)

text \<open>\<open>a > b\<close> on strings: code unit order.\<close>

fun str_gt :: "string \<Rightarrow> string \<Rightarrow> bool" where
  "str_gt [] b = False"
| "str_gt (a # as) [] = True"
| "str_gt (a # as) (b # bs) = (code_of a > code_of b \<or> (a = b \<and> str_gt as bs))"

lemma nat_of_digits_Cons: "nat_of_digits (c # s) = digit_val c * 10 ^ length s + nat_of_digits s"
proof (induction s rule: rev_induct)
  case Nil
  then show ?case by (simp add: nat_of_digits_def)
next
  case (snoc d s)
  have "nat_of_digits (c # s @ [d]) = 10 * nat_of_digits (c # s) + digit_val d"
    using nat_of_digits_snoc [of "c # s" d] by simp
  with snoc show ?case by (simp add: algebra_simps)
qed

lemma digit_val_bound: "is_digit c \<Longrightarrow> digit_val c \<le> 9"
  by (auto simp: is_digit_def digit_val_def)

lemma digit_val_inj: "is_digit c \<Longrightarrow> is_digit d \<Longrightarrow> digit_val c = digit_val d \<Longrightarrow> c = d"
  by (simp add: is_digit_def digit_val_def) (metis le_add_diff_inverse of_char_eq_iff)

lemma nat_of_digits_bound: "list_all is_digit s \<Longrightarrow> nat_of_digits s < 10 ^ length s"
proof (induction s)
  case (Cons c s)
  then have "digit_val c * 10 ^ length s \<le> 9 * 10 ^ length s" by (simp add: digit_val_bound)
  moreover have "nat_of_digits s < 10 ^ length s" using Cons by simp
  ultimately have "digit_val c * 10 ^ length s + nat_of_digits s < 9 * 10 ^ length s + 10 ^ length s" by linarith
  then show ?case by (simp add: nat_of_digits_Cons)
qed simp

text \<open>On digit strings of one length the string comparison is the numeric one.\<close>

lemma str_gt_digits:
  "length a = length b \<Longrightarrow> list_all is_digit a \<Longrightarrow> list_all is_digit b \<Longrightarrow>
   str_gt a b \<longleftrightarrow> nat_of_digits b < nat_of_digits a"
proof (induction a b rule: str_gt.induct)
  case (3 x as y bs)
  have bounds: "nat_of_digits as < 10 ^ length bs" "nat_of_digits bs < 10 ^ length bs"
    using nat_of_digits_bound [of as] nat_of_digits_bound [of bs] 3(2-4) by simp_all
  consider "digit_val x = digit_val y" | "digit_val x < digit_val y" | "digit_val y < digit_val x" by linarith
  then show ?case
  proof cases
    case 1
    with 3 have "x = y" by (auto intro: digit_val_inj)
    with 3 show ?thesis by (simp add: nat_of_digits_Cons)
  next
    case 2
    then have "digit_val y * 10 ^ length bs \<ge> (digit_val x + 1) * 10 ^ length bs" by (intro mult_le_mono) auto
    with bounds have "nat_of_digits (x # as) < nat_of_digits (y # bs)"
      using 3(2) by (simp add: nat_of_digits_Cons)
    with 2 3 show ?thesis by (auto simp: is_digit_def digit_val_def)
  next
    case c: 3
    then have "digit_val x * 10 ^ length bs \<ge> (digit_val y + 1) * 10 ^ length bs" by (intro mult_le_mono) auto
    with bounds have "nat_of_digits (y # bs) < nat_of_digits (x # as)"
      using 3(2) by (simp add: nat_of_digits_Cons)
    with c 3 show ?thesis by (auto simp: is_digit_def digit_val_def)
  qed
qed auto

section \<open>VirtIO RNG\<close>

record rng =
  source :: string
  max_bytes :: string
  period :: string

definition RNG_SOURCES :: "string list" where
  "RNG_SOURCES = [''/dev/urandom'', ''/dev/random'', ''/dev/hwrng'']"

definition RNG_MAX_BYTES_TOP :: string where
  "RNG_MAX_BYTES_TOP = ''9223372036854775807''"

definition no_rng :: rng where
  "no_rng = \<lparr>source = [], max_bytes = [], period = []\<rparr>"

text \<open>The body of the \<open>forEach\<close>.\<close>

definition rng_part :: "rng \<Rightarrow> string \<Rightarrow> rng" where
  "rng_part out part =
     (if trim part = [] then out
      else case cut_eq part of
             None \<Rightarrow> out\<lparr>source := part\<rparr>
           | Some (key, v) \<Rightarrow>
               if key = ''source'' then out\<lparr>source := v\<rparr>
               else if key = ''max_bytes'' then out\<lparr>max_bytes := v\<rparr>
               else if key = ''period'' then out\<lparr>period := v\<rparr>
               else out)"

definition parseRng :: "string \<Rightarrow> rng" where
  "parseRng v = foldl rng_part no_rng (split_on (CHR '','') v)"

text \<open>\<open>/^0+(?=[0-9])/\<close>: leading zeros go while a digit follows.\<close>

fun rngDigits :: "string \<Rightarrow> string" where
  "rngDigits (c # d # r) = (if c = CHR ''0'' \<and> is_digit d then rngDigits (d # r) else c # d # r)"
| "rngDigits s = s"

definition digits_between :: "nat \<Rightarrow> nat \<Rightarrow> string \<Rightarrow> bool" where
  "digits_between lo hi s \<longleftrightarrow> lo \<le> length s \<and> length s \<le> hi \<and> list_all is_digit s"

definition rngProblem :: "rng \<Rightarrow> string" where
  "rngProblem form =
     (if source form \<notin> set RNG_SOURCES then ''rngBadSource''
      else let bytes = rngDigits (max_bytes form)
           in if \<not> digits_between 1 19 bytes \<or> (length bytes = 19 \<and> str_gt bytes RNG_MAX_BYTES_TOP) then ''rngBadMaxBytes''
              else if bytes = ''0'' then []
              else let per = rngDigits (period form)
                   in if \<not> digits_between 1 10 per \<or> nat_of_digits per < 1 \<or> nat_of_digits per > 4294967295
                      then ''rngBadPeriod'' else [])"

definition rng_items :: "rng \<Rightarrow> string list" where
  "rng_items form =
     (let bytes = rngDigits (max_bytes form)
      in [''source='' @ source form, ''max_bytes='' @ bytes] @
         (if bytes \<noteq> ''0'' then [''period='' @ rngDigits (period form)] else []))"

definition rngValue :: "rng \<Rightarrow> string" where
  "rngValue form = join '','' (rng_items form)"

lemma rngDigits_digits: "list_all is_digit (rngDigits s) \<longleftrightarrow> list_all is_digit s"
  by (induction s rule: rngDigits.induct) (auto simp: is_digit_def)

lemma rngDigits_Nil: "rngDigits s = [] \<longleftrightarrow> s = []"
  by (induction s rule: rngDigits.induct) auto

lemma rngDigits_value: "nat_of_digits (rngDigits s) = nat_of_digits s"
proof (induction s rule: rngDigits.induct)
  case (1 c d r)
  then show ?case by (simp add: nat_of_digits_Cons digit_val_def)
qed simp_all

lemma digit_val_zero: "is_digit c \<Longrightarrow> digit_val c = 0 \<longleftrightarrow> c = CHR ''0''"
  using digit_val_inj [of c "CHR ''0''"] by (auto simp: digit_val_def is_digit_def)

lemma rngDigits_zero: "list_all is_digit s \<Longrightarrow> rngDigits s = ''0'' \<longleftrightarrow> s \<noteq> [] \<and> nat_of_digits s = 0"
proof (induction s rule: rngDigits.induct [case_names long none single])
  case (long c d r)
  then show ?case by (auto simp: nat_of_digits_Cons digit_val_zero)
next
  case (single c)
  then show ?case by (simp add: nat_of_digits_Cons digit_val_zero)
qed simp

text \<open>A stripped digit string of \<open>n\<close> digits is at least \<open>10 ^ (n - 1)\<close>.\<close>

lemma rngDigits_length:
  assumes "list_all is_digit s" and "rngDigits s \<noteq> ''0''" and "s \<noteq> []"
  shows "10 ^ (length (rngDigits s) - 1) \<le> nat_of_digits s"
  using assms
proof (induction s rule: rngDigits.induct [case_names long none single])
  case (long c d r)
  show ?case
  proof (cases "c = CHR ''0''")
    case True
    with long show ?thesis by (simp add: nat_of_digits_Cons digit_val_def)
  next
    case False
    then have "0 < digit_val c" using long(2) digit_val_zero [of c] by auto
    then have "10 ^ Suc (length r) \<le> digit_val c * 10 ^ Suc (length r)" by simp
    then have "10 ^ Suc (length r) \<le> nat_of_digits (c # d # r)" unfolding nat_of_digits_Cons [of c]
      by (simp only: list.size add_Suc_right add_0_right trans_le_add1)
    with False show ?thesis by simp
  qed
next
  case (single c)
  then have "0 < digit_val c" using digit_val_zero [of c] by auto
  then show ?case by (simp add: nat_of_digits_Cons)
qed simp

text \<open>What the two range checks on strings say of the numbers.\<close>

lemma max_bytes_ok:
  "digits_between 1 19 (rngDigits s) \<and> \<not> (length (rngDigits s) = 19 \<and> str_gt (rngDigits s) RNG_MAX_BYTES_TOP) \<longleftrightarrow>
   s \<noteq> [] \<and> list_all is_digit s \<and> nat_of_digits s \<le> 9223372036854775807"
proof -
  let ?b = "rngDigits s"
  have top: "length RNG_MAX_BYTES_TOP = 19" "list_all is_digit RNG_MAX_BYTES_TOP"
    "nat_of_digits RNG_MAX_BYTES_TOP = 9223372036854775807"
    by (simp_all add: RNG_MAX_BYTES_TOP_def is_digit_def nat_of_digits_def digit_val_def)
  show ?thesis
  proof (cases "s \<noteq> [] \<and> list_all is_digit s")
    case True
    then have digits: "list_all is_digit ?b" "?b \<noteq> []" by (simp_all add: rngDigits_digits rngDigits_Nil)
    have gt: "length ?b = 19 \<Longrightarrow> str_gt ?b RNG_MAX_BYTES_TOP \<longleftrightarrow> 9223372036854775807 < nat_of_digits s"
      using str_gt_digits [of ?b RNG_MAX_BYTES_TOP] top digits by (simp add: rngDigits_value)
    consider "length ?b < 19" | "length ?b = 19" | "length ?b > 19" by linarith
    then show ?thesis
    proof cases
      case 1
      have "nat_of_digits s < 10 ^ length ?b"
        using nat_of_digits_bound [OF digits(1)] by (simp add: rngDigits_value)
      also have "(10 :: nat) ^ length ?b \<le> 10 ^ 18" using 1 by (intro power_increasing) auto
      finally have "nat_of_digits s \<le> 9223372036854775807" by simp
      with 1 True digits show ?thesis by (auto simp: digits_between_def Suc_le_eq)
    next
      case 2
      with True digits gt show ?thesis by (auto simp: digits_between_def not_less)
    next
      case 3
      then have "?b \<noteq> ''0''" by auto
      then have "10 ^ (length ?b - 1) \<le> nat_of_digits s" using True by (intro rngDigits_length) auto
      moreover have "(10 :: nat) ^ 19 \<le> 10 ^ (length ?b - 1)" using 3 by (intro power_increasing) auto
      ultimately have "\<not> nat_of_digits s \<le> 9223372036854775807" by simp
      with 3 show ?thesis by (auto simp: digits_between_def)
    qed
  next
    case False
    then show ?thesis by (auto simp: digits_between_def rngDigits_digits rngDigits_Nil Suc_le_eq)
  qed
qed

lemma period_ok:
  "digits_between 1 10 (rngDigits s) \<and> \<not> nat_of_digits (rngDigits s) < 1 \<and> \<not> nat_of_digits (rngDigits s) > 4294967295 \<longleftrightarrow>
   list_all is_digit s \<and> 1 \<le> nat_of_digits s \<and> nat_of_digits s \<le> 4294967295"
proof (cases "list_all is_digit s \<and> 1 \<le> nat_of_digits s")
  case True
  then have "s \<noteq> []" "rngDigits s \<noteq> ''0''" using rngDigits_zero [of s] by auto
  then have len: "10 ^ (length (rngDigits s) - 1) \<le> nat_of_digits s" "rngDigits s \<noteq> []"
    using True by (auto intro!: rngDigits_length [simplified] simp: rngDigits_Nil)
  have "length (rngDigits s) \<le> 10" if "nat_of_digits s \<le> 4294967295"
  proof (rule ccontr)
    assume "\<not> length (rngDigits s) \<le> 10"
    then have "(10 :: nat) ^ 10 \<le> 10 ^ (length (rngDigits s) - 1)" by (intro power_increasing) auto
    with len that show False by simp
  qed
  with True len show ?thesis
    by (auto simp: digits_between_def rngDigits_digits rngDigits_value Suc_le_eq)
next
  case False
  then show ?thesis by (auto simp: digits_between_def rngDigits_digits rngDigits_value)
qed

definition rng_ok :: "rng \<Rightarrow> bool" where
  "rng_ok form \<longleftrightarrow>
     source form \<in> set RNG_SOURCES \<and>
     max_bytes form \<noteq> [] \<and> list_all is_digit (max_bytes form) \<and> nat_of_digits (max_bytes form) \<le> 9223372036854775807 \<and>
     (nat_of_digits (max_bytes form) = 0 \<or>
      list_all is_digit (period form) \<and> 1 \<le> nat_of_digits (period form) \<and> nat_of_digits (period form) \<le> 4294967295)"

lemma rng_problem_ok: "rngProblem form = [] \<longleftrightarrow> rng_ok form"
proof -
  have step: "rngProblem form = [] \<longleftrightarrow> source form \<in> set RNG_SOURCES \<and>
      (digits_between 1 19 (rngDigits (max_bytes form)) \<and>
       \<not> (length (rngDigits (max_bytes form)) = 19 \<and> str_gt (rngDigits (max_bytes form)) RNG_MAX_BYTES_TOP)) \<and>
      (rngDigits (max_bytes form) = ''0'' \<or>
       (digits_between 1 10 (rngDigits (period form)) \<and> \<not> nat_of_digits (rngDigits (period form)) < 1 \<and>
        \<not> nat_of_digits (rngDigits (period form)) > 4294967295))"
    by (auto simp: rngProblem_def Let_def)
  show ?thesis
    unfolding step max_bytes_ok period_ok rng_ok_def using rngDigits_zero [of "max_bytes form"] by blast
qed

lemma digits_no_sep: "list_all is_digit s \<Longrightarrow> CHR '','' \<notin> set s \<and> CHR ''='' \<notin> set s"
  by (auto simp: list_all_iff is_digit_def)

lemma sources_plain: "src \<in> set RNG_SOURCES \<Longrightarrow> CHR '','' \<notin> set src"
  by (auto simp: RNG_SOURCES_def)

text \<open>The form as Proxmox gives it back: numbers without leading zeros, no period without a limit.\<close>

definition rng_stored :: "rng \<Rightarrow> rng" where
  "rng_stored form =
     \<lparr>source = source form, max_bytes = rngDigits (max_bytes form),
      period = (if rngDigits (max_bytes form) \<noteq> ''0'' then rngDigits (period form) else [])\<rparr>"

lemma rng_part_key:
  "CHR ''='' \<notin> set k \<Longrightarrow> trim (k @ CHR ''='' # v) \<noteq> [] \<and> cut_eq (k @ CHR ''='' # v) = Some (k, v)"
  using trim_solid [of "CHR ''=''" "k @ CHR ''='' # v"] by (auto simp: cut_eq_pair is_space_def)

lemma rng_parts:
  "rng_part out (''source='' @ v) = out\<lparr>source := v\<rparr>"
  "rng_part out (''max_bytes='' @ v) = out\<lparr>max_bytes := v\<rparr>"
  "rng_part out (''period='' @ v) = out\<lparr>period := v\<rparr>"
  using rng_part_key [of "''source''" v] rng_part_key [of "''max_bytes''" v] rng_part_key [of "''period''" v]
  by (simp_all add: rng_part_def)

lemma rng_ok_digits:
  "rng_ok form \<Longrightarrow> list_all is_digit (rngDigits (max_bytes form)) \<and>
     (rngDigits (max_bytes form) \<noteq> ''0'' \<longrightarrow> list_all is_digit (rngDigits (period form)))"
  by (auto simp: rng_ok_def rngDigits_digits rngDigits_zero)

interpretation rng_codec: param_codec rng_part no_rng rng_items rng_stored rng_ok
proof
  show "rng_items form \<noteq> [] \<and> (\<forall>w \<in> set (rng_items form). CHR '','' \<notin> set w)" if "rng_ok form" for form
    using rng_ok_digits [OF that] that
    by (auto simp: rng_items_def Let_def rng_ok_def digits_no_sep sources_plain)
  show "foldl rng_part no_rng (rng_items form) = rng_stored form" for form
  proof (cases "rngDigits (max_bytes form) = ''0''")
    case True
    then have "rng_items form = [''source='' @ source form, ''max_bytes='' @ rngDigits (max_bytes form)]"
      by (simp add: rng_items_def)
    with True show ?thesis by (simp only: foldl.simps rng_parts) (simp add: rng_stored_def no_rng_def)
  next
    case False
    then have "rng_items form = [''source='' @ source form, ''max_bytes='' @ rngDigits (max_bytes form),
        ''period='' @ rngDigits (period form)]"
      by (simp add: rng_items_def)
    with False show ?thesis by (simp only: foldl.simps rng_parts) (simp add: rng_stored_def no_rng_def)
  qed
qed

text \<open>The string checks of \<open>rngProblem\<close> (digit counts, a lexicographic comparison with the text of
  \<open>2^63 - 1\<close>, numbers with leading zeros) say exactly that the numbers are in range.\<close>

theorem rngProblem_iff:
  "rngProblem form = [] \<longleftrightarrow>
     source form \<in> set RNG_SOURCES \<and>
     max_bytes form \<noteq> [] \<and> list_all is_digit (max_bytes form) \<and> nat_of_digits (max_bytes form) \<le> 2 ^ 63 - 1 \<and>
     (nat_of_digits (max_bytes form) = 0 \<or>
      list_all is_digit (period form) \<and> 1 \<le> nat_of_digits (period form) \<and> nat_of_digits (period form) \<le> 2 ^ 32 - 1)"
  by (simp add: rng_problem_ok rng_ok_def)

text \<open>A form without a problem, printed by \<open>rngValue\<close> and read back by \<open>parseRng\<close>, is the same form
  with its numbers in canonical decimal, and without a period when there is no limit.\<close>

theorem rng_roundtrip:
  assumes "rngProblem form = []"
  shows "parseRng (rngValue form) =
    \<lparr>source = source form, max_bytes = rngDigits (max_bytes form),
     period = (if nat_of_digits (max_bytes form) = 0 then [] else rngDigits (period form))\<rparr>"
proof -
  have ok: "rng_ok form" using assms by (simp add: rng_problem_ok)
  then have "rngDigits (max_bytes form) = ''0'' \<longleftrightarrow> nat_of_digits (max_bytes form) = 0"
    by (simp add: rngDigits_zero rng_ok_def)
  then show ?thesis
    using rng_codec.parse_print [OF ok] by (simp add: parseRng_def rngValue_def rng_stored_def)
qed

definition demo_rng :: rng where
  "demo_rng = \<lparr>source = ''/dev/urandom'', max_bytes = ''01024'', period = ''1000''\<rparr>"

theorem rng_roundtrip_witness:
  "rngProblem demo_rng = [] \<and>
   parseRng (rngValue demo_rng) = \<lparr>source = ''/dev/urandom'', max_bytes = ''1024'', period = ''1000''\<rparr>"
proof -
  have p: "rngProblem demo_rng = []"
    by (simp add: rng_problem_ok rng_ok_def demo_rng_def RNG_SOURCES_def is_digit_def nat_of_digits_def digit_val_def)
  from rng_roundtrip [OF this] p show ?thesis
    by (simp add: demo_rng_def is_digit_def nat_of_digits_def digit_val_def)
qed

section \<open>virtiofs\<close>

record virtiofs =
  dirid :: string
  cache :: string
  direct_io :: bool
  expose_xattr :: bool
  expose_acl :: bool

definition VFS_CACHE :: "string list" where
  "VFS_CACHE = [''auto'', ''always'', ''metadata'', ''never'']"

definition VFS_FLAGS :: "string list" where
  "VFS_FLAGS = [''direct-io'', ''expose-xattr'', ''expose-acl'']"

definition vfsOn :: "string \<Rightarrow> bool" where
  "vfsOn v = (to_lower v \<in> {''1'', ''on'', ''yes'', ''true''})"

definition vfsWindows :: "string \<Rightarrow> bool" where
  "vfsWindows ostype =
     (ostype \<in> {''wxp'', ''w2k'', ''w2k3'', ''w2k8'', ''wvista''} \<or>
      (starts_with ostype ''win'' \<and> drop 3 ostype \<noteq> [] \<and> list_all is_digit (drop 3 ostype)))"

definition no_virtiofs :: virtiofs where
  "no_virtiofs = \<lparr>dirid = [], cache = [], direct_io = False, expose_xattr = False, expose_acl = False\<rparr>"

definition vfs_flag :: "virtiofs \<Rightarrow> string \<Rightarrow> bool" where
  "vfs_flag p f = (if f = ''direct-io'' then direct_io p else if f = ''expose-xattr'' then expose_xattr p
     else f = ''expose-acl'' \<and> expose_acl p)"

definition set_vfs_flag :: "string \<Rightarrow> bool \<Rightarrow> virtiofs \<Rightarrow> virtiofs" where
  "set_vfs_flag f b p = (if f = ''direct-io'' then p\<lparr>direct_io := b\<rparr> else if f = ''expose-xattr'' then p\<lparr>expose_xattr := b\<rparr>
     else if f = ''expose-acl'' then p\<lparr>expose_acl := b\<rparr> else p)"

text \<open>The body of the \<open>forEach\<close>.\<close>

definition vfs_part :: "virtiofs \<Rightarrow> string \<Rightarrow> virtiofs" where
  "vfs_part out part =
     (if trim part = [] then out
      else case cut_eq part of
             None \<Rightarrow> out\<lparr>dirid := part\<rparr>
           | Some (key, v) \<Rightarrow>
               if key = ''dirid'' then out\<lparr>dirid := v\<rparr>
               else if key = ''cache'' then out\<lparr>cache := v\<rparr>
               else if key \<in> set VFS_FLAGS then set_vfs_flag key (vfsOn v) out
               else out)"

definition parseVirtiofs :: "string \<Rightarrow> virtiofs" where
  "parseVirtiofs v = foldl vfs_part no_virtiofs (split_on (CHR '','') v)"

definition vfsKeys :: "(string \<Rightarrow> string option) option \<Rightarrow> string list" where
  "vfsKeys raw = filter (\<lambda>k. case raw of None \<Rightarrow> False | Some m \<Rightarrow> (case m k of None \<Rightarrow> False | Some v \<Rightarrow> v \<noteq> []))
     (map (\<lambda>i. ''virtiofs'' @ show_nat i) [0..<10])"

definition vfs_items :: "virtiofs \<Rightarrow> string list" where
  "vfs_items form =
     [dirid form] @ (if cache form \<noteq> [] \<and> cache form \<noteq> ''auto'' then [''cache='' @ cache form] else []) @
     concat (map (\<lambda>f. if vfs_flag form f then [f @ ''=1''] else []) [''direct-io'', ''expose-acl'', ''expose-xattr''])"

definition virtiofsValue :: "virtiofs \<Rightarrow> string" where
  "virtiofsValue form = join '','' (vfs_items form)"

definition is_mapping_id :: "string \<Rightarrow> bool" where
  "is_mapping_id s =
     (case s of [] \<Rightarrow> False
      | c # r \<Rightarrow> is_alpha c \<and> 1 \<le> length r \<and> length r \<le> 63 \<and> list_all (\<lambda>d. is_alnum d \<or> d = CHR ''_'' \<or> d = CHR ''-'') r)"

definition vfsProblem :: "virtiofs \<Rightarrow> string \<Rightarrow> string" where
  "vfsProblem form ostype =
     (if \<not> is_mapping_id (dirid form) then ''vfsPickMapping''
      else if cache form \<noteq> [] \<and> cache form \<notin> set VFS_CACHE then ''vfsBadCache''
      else if expose_acl form \<and> vfsWindows ostype then ''vfsAclWindows''
      else [])"

definition vfsOptionsText :: "virtiofs \<Rightarrow> string" where
  "vfsOptionsText p = join '', '' ((''cache='' @ (if cache p = [] then ''auto'' else cache p)) # filter (vfs_flag p) VFS_FLAGS)"

text \<open>The flags of a container.\<close>

record lxc_mount =
  m_nfs :: bool
  m_cifs :: bool

record lxc_features =
  f_nesting :: bool
  f_keyctl :: bool
  f_fuse :: bool
  f_mknod :: bool
  f_mount :: "lxc_mount option"

definition lxcFeatureFlags :: "lxc_features option \<Rightarrow> string \<Rightarrow> bool" where
  "lxcFeatureFlags f k =
     (let m = (case f of None \<Rightarrow> \<lparr>m_nfs = False, m_cifs = False\<rparr>
               | Some r \<Rightarrow> (case f_mount r of None \<Rightarrow> \<lparr>m_nfs = False, m_cifs = False\<rparr> | Some mt \<Rightarrow> mt))
      in case f of
           None \<Rightarrow> if k = ''nfs'' then m_nfs m else k = ''cifs'' \<and> m_cifs m
         | Some r \<Rightarrow>
             if k = ''nesting'' then f_nesting r else if k = ''keyctl'' then f_keyctl r
             else if k = ''fuse'' then f_fuse r else if k = ''mknod'' then f_mknod r
             else if k = ''nfs'' then m_nfs m else k = ''cifs'' \<and> m_cifs m)"

lemma mapping_id_chars: "is_mapping_id s \<Longrightarrow> c \<in> set s \<Longrightarrow> is_alnum c \<or> c = CHR ''_'' \<or> c = CHR ''-''"
  by (cases s) (auto simp: is_mapping_id_def is_alnum_def list_all_iff)

lemma mapping_id_plain:
  assumes "is_mapping_id s"
  shows "CHR '','' \<notin> set s" "CHR ''='' \<notin> set s" "trim s \<noteq> []"
proof -
  have no: "c \<notin> set s" if "\<not> is_alnum c" "c \<noteq> CHR ''_''" "c \<noteq> CHR ''-''" for c
    using mapping_id_chars [OF assms] that by blast
  show "CHR '','' \<notin> set s" "CHR ''='' \<notin> set s"
    by (rule no; simp add: is_alnum_def is_alpha_def is_upper_def is_lower_def is_digit_def)+
  obtain c r where "s = c # r" "is_alpha c"
    using assms by (auto simp: is_mapping_id_def split: list.splits)
  then show "trim s \<noteq> []"
    by (intro trim_solid [of c]) (auto simp: is_alpha_def is_upper_def is_lower_def is_space_def)
qed

definition vfs_stored :: "virtiofs \<Rightarrow> virtiofs" where
  "vfs_stored form = form\<lparr>cache := (if cache form = ''auto'' then [] else cache form)\<rparr>"

definition vfs_ok :: "virtiofs \<Rightarrow> bool" where
  "vfs_ok form \<longleftrightarrow> is_mapping_id (dirid form) \<and> (cache form = [] \<or> cache form \<in> set VFS_CACHE)"

lemma vfs_parts:
  "is_mapping_id d \<Longrightarrow> vfs_part out d = out\<lparr>dirid := d\<rparr>"
  "vfs_part out (''cache='' @ v) = out\<lparr>cache := v\<rparr>"
  "vfs_part out (''direct-io'' @ ''=1'') = out\<lparr>direct_io := True\<rparr>"
  "vfs_part out (''expose-acl'' @ ''=1'') = out\<lparr>expose_acl := True\<rparr>"
  "vfs_part out (''expose-xattr'' @ ''=1'') = out\<lparr>expose_xattr := True\<rparr>"
proof -
  show "vfs_part out d = out\<lparr>dirid := d\<rparr>" if "is_mapping_id d"
    using mapping_id_plain [OF that] by (simp add: vfs_part_def cut_eq_plain)
  have on: "vfsOn ''1''" by (simp add: vfsOn_def lower_char_def is_upper_def)
  show "vfs_part out (''cache='' @ v) = out\<lparr>cache := v\<rparr>"
    using rng_part_key [of "''cache''" v] by (simp add: vfs_part_def)
  show "vfs_part out (''direct-io'' @ ''=1'') = out\<lparr>direct_io := True\<rparr>"
    using rng_part_key [of "''direct-io''" "''1''"] on by (simp add: vfs_part_def VFS_FLAGS_def set_vfs_flag_def)
  show "vfs_part out (''expose-acl'' @ ''=1'') = out\<lparr>expose_acl := True\<rparr>"
    using rng_part_key [of "''expose-acl''" "''1''"] on by (simp add: vfs_part_def VFS_FLAGS_def set_vfs_flag_def)
  show "vfs_part out (''expose-xattr'' @ ''=1'') = out\<lparr>expose_xattr := True\<rparr>"
    using rng_part_key [of "''expose-xattr''" "''1''"] on by (simp add: vfs_part_def VFS_FLAGS_def set_vfs_flag_def)
qed

lemma cache_plain: "w \<in> set VFS_CACHE \<Longrightarrow> CHR '','' \<notin> set w"
  by (auto simp: VFS_CACHE_def)

interpretation vfs_codec: param_codec vfs_part no_virtiofs vfs_items vfs_stored vfs_ok
proof
  fix form assume ok: "vfs_ok form"
  then have id: "is_mapping_id (dirid form)" by (simp add: vfs_ok_def)
  show "vfs_items form \<noteq> [] \<and> (\<forall>w \<in> set (vfs_items form). CHR '','' \<notin> set w)"
    using ok mapping_id_plain [OF id] cache_plain [of "cache form"] by (auto simp: vfs_items_def vfs_ok_def)
  have flags: "foldl vfs_part out (concat (map (\<lambda>f. if vfs_flag form f then [f @ ''=1''] else [])
      [''direct-io'', ''expose-acl'', ''expose-xattr''])) =
      out\<lparr>direct_io := direct_io out \<or> direct_io form, expose_acl := expose_acl out \<or> expose_acl form,
        expose_xattr := expose_xattr out \<or> expose_xattr form\<rparr>" for out
    by (cases "direct_io form"; cases "expose_acl form"; cases "expose_xattr form")
      (simp only: list.map concat.simps foldl_append foldl.simps append.simps if_True if_False vfs_flag_def vfs_parts; simp add: vfs_parts [simplified])+
  show "foldl vfs_part no_virtiofs (vfs_items form) = vfs_stored form"
    unfolding vfs_items_def foldl_append flags
    by (simp only: foldl.simps vfs_parts id) (simp add: vfs_parts(2) [simplified] vfs_stored_def no_virtiofs_def)
qed

text \<open>A virtiofs form without a problem, printed by \<open>virtiofsValue\<close> and read back by
  \<open>parseVirtiofs\<close>, is the same form, with the default cache mode left out.\<close>

theorem virtiofs_roundtrip:
  assumes "vfsProblem form ostype = []"
  shows "parseVirtiofs (virtiofsValue form) = form\<lparr>cache := (if cache form = ''auto'' then [] else cache form)\<rparr>"
proof -
  have "vfs_ok form" using assms by (auto simp: vfsProblem_def vfs_ok_def split: if_splits)
  from vfs_codec.parse_print [OF this] show ?thesis
    by (simp add: parseVirtiofs_def virtiofsValue_def vfs_stored_def)
qed

definition demo_virtiofs :: virtiofs where
  "demo_virtiofs = \<lparr>dirid = ''share-1'', cache = ''auto'', direct_io = True, expose_xattr = False, expose_acl = True\<rparr>"

theorem virtiofs_roundtrip_witness:
  "vfsProblem demo_virtiofs ''l26'' = [] \<and> parseVirtiofs (virtiofsValue demo_virtiofs) = demo_virtiofs\<lparr>cache := []\<rparr>"
proof -
  have p: "vfsProblem demo_virtiofs ''l26'' = []"
    by (simp add: vfsProblem_def demo_virtiofs_def VFS_CACHE_def vfsWindows_def is_mapping_id_def is_alnum_def is_alpha_def
        is_lower_def is_upper_def is_digit_def)
  from virtiofs_roundtrip [OF this] p show ?thesis by (simp add: demo_virtiofs_def)
qed

end
