(* ===== verification/Js_Values.thy ===== *)
theory Js_Values
  imports Js_Prelude "HOL-Library.AList" "HOL-Library.Multiset"
begin

text \<open>
  JavaScript values as the client handles the answers of the server and the fields of its forms:
  strings, whole numbers, NaN, booleans, objects (key/value lists in insertion order) and the missing value. With them
  truthiness, \<open>||\<close>, property access, the text of a value in a template, \<open>parseInt\<close> and what \<open>Number\<close>
  accepts. Fractional numbers do not occur in the parts modelled.
\<close>

datatype jval =
    Undef
  | NaN
  | Bool bool
  | Num int
  | Str string
  | Obj "(string \<times> jval) list"

fun truthy :: "jval \<Rightarrow> bool" where
  "truthy Undef = False"
| "truthy NaN = False"
| "truthy (Bool b) = b"
| "truthy (Num i) = (i \<noteq> 0)"
| "truthy (Str s) = (s \<noteq> [])"
| "truthy (Obj kvs) = True"

text \<open>The fields of an object in their order.\<close>

type_synonym obj = "(string \<times> jval) list"

text \<open>\<open>a || b\<close>.\<close>

definition or_else :: "jval \<Rightarrow> jval \<Rightarrow> jval" where
  "or_else a b = (if truthy a then a else b)"

definition prop_of :: "(string \<times> jval) list \<Rightarrow> string \<Rightarrow> jval" where
  "prop_of kvs k = (case map_of kvs k of None \<Rightarrow> Undef | Some v \<Rightarrow> v)"

definition show_int :: "int \<Rightarrow> string" where
  "show_int i = (if i < 0 then CHR ''-'' # show_nat (nat (- i)) else show_nat (nat i))"

text \<open>\<open>`${v}`\<close> and \<open>String(v)\<close>.\<close>

fun to_str :: "jval \<Rightarrow> string" where
  "to_str Undef = ''undefined''"
| "to_str NaN = ''NaN''"
| "to_str (Bool b) = (if b then ''true'' else ''false'')"
| "to_str (Num i) = show_int i"
| "to_str (Str s) = s"
| "to_str (Obj kvs) = ''[object Object]''"

text \<open>\<open>parseInt(s, 10)\<close>: white space, a sign, the digits that follow; \<open>None\<close> is NaN.\<close>

definition parse_int10 :: "string \<Rightarrow> int option" where
  "parse_int10 s =
     (let s' = trim_start s;
          (neg, r) = (case s' of c # cs \<Rightarrow> if c = CHR ''-'' then (True, cs) else if c = CHR ''+'' then (False, cs) else (False, s')
                      | [] \<Rightarrow> (False, []));
          ds = takeWhile is_digit r
      in if ds = [] then None else Some (if neg then - int (nat_of_digits ds) else int (nat_of_digits ds)))"

definition hex_val :: "char \<Rightarrow> nat" where
  "hex_val c = (if is_digit c then code_of c - 48 else if code_of c \<le> 70 then code_of c - 55 else code_of c - 87)"

definition nat_of_hex :: "string \<Rightarrow> nat" where
  "nat_of_hex s = foldl (\<lambda>n c. 16 * n + hex_val c) 0 s"

text \<open>\<open>parseInt(s)\<close>: as above, and \<open>0x\<close> switches to hexadecimal.\<close>

definition parse_int :: "string \<Rightarrow> int option" where
  "parse_int s =
     (let s' = trim_start s;
          (neg, r) = (case s' of c # cs \<Rightarrow> if c = CHR ''-'' then (True, cs) else if c = CHR ''+'' then (False, cs) else (False, s')
                      | [] \<Rightarrow> (False, []))
      in if starts_with r ''0x'' \<or> starts_with r ''0X''
         then (let ds = takeWhile is_hex (drop 2 r)
               in if ds = [] then None else Some (if neg then - int (nat_of_hex ds) else int (nat_of_hex ds)))
         else parse_int10 s)"

text \<open>\<open>parseInt\<close> of any value: of its text.\<close>

definition parse_int10_val :: "jval \<Rightarrow> int option" where
  "parse_int10_val v = parse_int10 (to_str v)"

definition parse_int_val :: "jval \<Rightarrow> int option" where
  "parse_int_val v = parse_int (to_str v)"

text \<open>The texts \<open>Number\<close> does not turn into NaN: blank, a decimal literal, a hexadecimal, octal or
  binary one, \<open>Infinity\<close>.\<close>

definition unsigned_decimal :: "string \<Rightarrow> bool" where
  "unsigned_decimal s =
     (let ip = takeWhile is_digit s;
          r1 = dropWhile is_digit s;
          (fp, r2) = (case r1 of c # cs \<Rightarrow> if c = CHR ''.'' then (takeWhile is_digit cs, dropWhile is_digit cs) else ([], r1)
                      | [] \<Rightarrow> ([], []));
          tail_ok = (case r2 of [] \<Rightarrow> True
                     | c # cs \<Rightarrow> (c = CHR ''e'' \<or> c = CHR ''E'') \<and>
                         (let ds = (case cs of d # dr \<Rightarrow> if d = CHR ''+'' \<or> d = CHR ''-'' then dr else cs | [] \<Rightarrow> [])
                          in ds \<noteq> [] \<and> list_all is_digit ds))
      in (ip \<noteq> [] \<or> fp \<noteq> []) \<and> tail_ok)"

definition radix_literal :: "string \<Rightarrow> bool" where
  "radix_literal s =
     (case s of z # x # r \<Rightarrow>
        z = CHR ''0'' \<and> r \<noteq> [] \<and>
        ((x = CHR ''x'' \<or> x = CHR ''X'') \<and> list_all is_hex r \<or>
         (x = CHR ''o'' \<or> x = CHR ''O'') \<and> list_all (\<lambda>c. is_digit c \<and> code_of c \<le> 55) r \<or>
         (x = CHR ''b'' \<or> x = CHR ''B'') \<and> list_all (\<lambda>c. c = CHR ''0'' \<or> c = CHR ''1'') r)
      | _ \<Rightarrow> False)"

definition numeric_text :: "string \<Rightarrow> bool" where
  "numeric_text s =
     (let u = trim s;
          v = (case u of c # cs \<Rightarrow> if c = CHR ''+'' \<or> c = CHR ''-'' then cs else u | [] \<Rightarrow> [])
      in u = [] \<or> radix_literal u \<or> v = ''Infinity'' \<or> unsigned_decimal v)"

fun is_nan :: "jval \<Rightarrow> bool" where
  "is_nan Undef = True"
| "is_nan NaN = True"
| "is_nan (Bool b) = False"
| "is_nan (Num i) = False"
| "is_nan (Str s) = (\<not> numeric_text s)"
| "is_nan (Obj kvs) = True"

section \<open>Facts\<close>

lemma takeWhile_digits_all: "list_all is_digit s \<Longrightarrow> takeWhile is_digit s = s"
  by (simp add: list_all_iff takeWhile_eq_all_conv)

lemma show_nat_all_digits [simp]: "list_all is_digit (show_nat n)"
  by (auto simp: list_all_iff show_nat_digits)

lemma digits_head:
  assumes "list_all is_digit s" and "s \<noteq> []"
  shows "trim_start s = s" "hd s \<noteq> CHR ''-''" "hd s \<noteq> CHR ''+''"
  using assms by (cases s; auto simp: trim_start_def is_space_def is_digit_def)+

lemma parse_int10_digits:
  assumes "list_all is_digit s" and "s \<noteq> []"
  shows "parse_int10 s = Some (int (nat_of_digits s))"
  using digits_head [OF assms] assms
  by (cases s) (auto simp: parse_int10_def Let_def takeWhile_digits_all)

lemma parse_int_digits:
  assumes "list_all is_digit s" and "s \<noteq> []"
  shows "parse_int s = Some (int (nat_of_digits s))"
proof -
  have "\<not> starts_with s ''0x'' \<and> \<not> starts_with s ''0X''"
    using assms(1) by (auto simp: starts_with_iff prefix_def is_digit_def)
  then show ?thesis
    using digits_head [OF assms] assms parse_int10_digits [OF assms]
    by (cases s) (auto simp: parse_int_def Let_def)
qed

lemma parse_int10_show [simp]: "parse_int10 (show_nat n) = Some (int n)"
  by (simp add: parse_int10_digits)

lemma parse_int_show [simp]: "parse_int (show_nat n) = Some (int n)"
  by (simp add: parse_int_digits)

lemma show_int_nat [simp]: "show_int (int n) = show_nat n"
  by (simp add: show_int_def)

lemma digits_no_punct: "list_all is_digit s \<Longrightarrow> \<not> is_digit c \<Longrightarrow> c \<notin> set s"
  by (auto simp: list_all_iff)

lemma includes_char: "js_includes s [c] \<longleftrightarrow> c \<in> set s"
  by (induction s) auto

section \<open>Objects and sorting\<close>

text \<open>\<open>{ ...a, ...b }\<close>: the keys of \<open>a\<close> in their order with the values of \<open>b\<close>, then the new keys.\<close>

definition spread :: "('k \<times> 'v) list \<Rightarrow> ('k \<times> 'v) list \<Rightarrow> ('k \<times> 'v) list" where
  "spread a b = foldl (\<lambda>acc (k, v). AList.update k v acc) a b"

lemma map_of_spread: "map_of (spread a b) k = (case map_of (rev b) k of None \<Rightarrow> map_of a k | Some v \<Rightarrow> Some v)"
  unfolding spread_def
proof (induction b arbitrary: a)
  case (Cons e b)
  show ?case
    using Cons.IH [of "AList.update (fst e) (snd e) a"]
    by (cases e) (simp add: update_conv' map_add_def split: option.split)
qed simp

lemma map_of_rev: "distinct (map fst b) \<Longrightarrow> map_of (rev b) = map_of b"
  by (subst map_of_inject_set) (simp_all add: rev_map [symmetric])

lemma prop_of_spread:
  assumes "distinct (map fst b)"
  shows "prop_of (spread a b) k = (if k \<in> fst ` set b then prop_of b k else prop_of a k)"
proof (cases "map_of b k")
  case None
  then show ?thesis
    using assms map_of_eq_None_iff [of b k] by (simp add: prop_of_def map_of_spread map_of_rev)
next
  case (Some v)
  moreover from this have "k \<in> fst ` set b" by (force dest: map_of_SomeD)
  ultimately show ?thesis using assms by (simp add: prop_of_def map_of_spread map_of_rev)
qed

lemma prop_of_update: "prop_of (AList.update k v kvs) l = (if l = k then v else prop_of kvs l)"
  by (simp add: prop_of_def update_conv')

lemma set_alist_update: "set (AList.update k v kvs) \<subseteq> insert (k, v) (set kvs)"
  by (induction kvs) auto

text \<open>\<open>Array.prototype.sort\<close> with a comparator: a stable insertion sort.\<close>

fun insert_cmp :: "('a \<Rightarrow> 'a \<Rightarrow> int) \<Rightarrow> 'a \<Rightarrow> 'a list \<Rightarrow> 'a list" where
  "insert_cmp cmp x [] = [x]"
| "insert_cmp cmp x (y # ys) = (if cmp x y \<le> 0 then x # y # ys else y # insert_cmp cmp x ys)"

definition js_sort :: "('a \<Rightarrow> 'a \<Rightarrow> int) \<Rightarrow> 'a list \<Rightarrow> 'a list" where
  "js_sort cmp xs = foldr (insert_cmp cmp) xs []"

lemma mset_insert_cmp: "mset (insert_cmp cmp x ys) = add_mset x (mset ys)"
  by (induction ys) auto

lemma mset_js_sort [simp]: "mset (js_sort cmp xs) = mset xs"
  unfolding js_sort_def by (induction xs) (auto simp: mset_insert_cmp)

lemma set_js_sort [simp]: "set (js_sort cmp xs) = set xs"
  by (rule mset_eq_setD) simp

lemma length_js_sort [simp]: "length (js_sort cmp xs) = length xs"
  by (rule mset_eq_length) simp

lemma distinct_map_js_sort: "distinct (map f (js_sort cmp xs)) \<longleftrightarrow> distinct (map f xs)"
  by (metis mset_eq_imp_distinct_iff mset_js_sort mset_map)

text \<open>A comparator that decides by a key first leaves the list sorted by that key.\<close>

lemma sorted_insert_cmp:
  assumes "\<And>a b. key a < (key b :: int) \<Longrightarrow> cmp a b < 0" and "\<And>a b. key b < key a \<Longrightarrow> 0 < cmp a b"
    and "sorted (map key ys)"
  shows "sorted (map key (insert_cmp cmp x ys))"
  using assms(3)
proof (induction ys)
  case (Cons y ys)
  have "key x \<le> key y" if "cmp x y \<le> 0" using assms(2) [of y x] that by force
  moreover have "key y \<le> key x" if "\<not> cmp x y \<le> 0" using assms(1) [of x y] that by force
  moreover have "set (insert_cmp cmp x ys) = insert x (set ys)"
    by (metis mset_insert_cmp set_mset_add_mset_insert set_mset_mset)
  ultimately show ?case using Cons by (auto intro: order_trans)
qed simp

lemma sorted_js_sort:
  assumes "\<And>a b. key a < (key b :: int) \<Longrightarrow> cmp a b < 0" and "\<And>a b. key b < key a \<Longrightarrow> 0 < cmp a b"
  shows "sorted (map key (js_sort cmp xs))"
  unfolding js_sort_def by (induction xs) (auto intro: sorted_insert_cmp [OF assms])

text \<open>\<open>s.replace(p, r)\<close>: the first occurrence.\<close>

fun replace_first :: "string \<Rightarrow> string \<Rightarrow> string \<Rightarrow> string" where
  "replace_first [] p r = (if p = [] then r else [])"
| "replace_first (c # cs) p r = (if starts_with (c # cs) p then r @ drop (length p) (c # cs) else c # replace_first cs p r)"

text \<open>\<open>encodeURIComponent\<close> of a text of code units up to 255.\<close>

definition uri_plain :: "char \<Rightarrow> bool" where
  "uri_plain c \<longleftrightarrow> is_alnum c \<or> c \<in> set ''-_.!~*'' \<or> code_of c \<in> {39, 40, 41}"

definition hex_digit :: "nat \<Rightarrow> char" where
  "hex_digit n = (if n < 10 then char_of (48 + n) else char_of (55 + n))"

definition percent :: "nat \<Rightarrow> string" where
  "percent n = [CHR ''%'', hex_digit (n div 16), hex_digit (n mod 16)]"

definition encode_char :: "char \<Rightarrow> string" where
  "encode_char c =
     (if uri_plain c then [c]
      else if code_of c < 128 then percent (code_of c)
      else percent (192 + code_of c div 64) @ percent (128 + code_of c mod 64))"

definition encodeURIComponent :: "string \<Rightarrow> string" where
  "encodeURIComponent s = concat (map encode_char s)"

text \<open>\<open>s.split(/[...]+/)\<close> but for the empty pieces, which the callers drop.\<close>

fun split_where :: "(char \<Rightarrow> bool) \<Rightarrow> string \<Rightarrow> string list" where
  "split_where p [] = [[]]"
| "split_where p (c # cs) = (if p c then [] # split_where p cs else (case split_where p cs of [] \<Rightarrow> [[c]] | w # ws \<Rightarrow> (c # w) # ws))"

text \<open>\<open>findIndex\<close>.\<close>

fun find_index :: "('a \<Rightarrow> bool) \<Rightarrow> 'a list \<Rightarrow> nat option" where
  "find_index p [] = None"
| "find_index p (x # xs) = (if p x then Some 0 else map_option Suc (find_index p xs))"

lemma find_index_Some: "find_index p xs = Some i \<Longrightarrow> i < length xs \<and> p (xs ! i)"
proof (induction xs arbitrary: i)
  case (Cons x xs)
  then show ?case by (cases i) (auto split: if_splits)
qed simp

text \<open>A list without one of its entries: a request that is answered.\<close>

definition drop_nth :: "nat \<Rightarrow> 'a list \<Rightarrow> 'a list" where
  "drop_nth i xs = take i xs @ drop (Suc i) xs"

lemma length_drop_nth: "i < length xs \<Longrightarrow> length (drop_nth i xs) = length xs - 1"
  by (auto simp: drop_nth_def)

lemma set_drop_nth: "set (drop_nth i xs) \<subseteq> set xs"
  by (auto simp: drop_nth_def dest: in_set_takeD in_set_dropD)

lemma filter_drop_nth:
  "i < length xs \<Longrightarrow> length (filter p xs) = of_bool (p (xs ! i)) + length (filter p (drop_nth i xs))"
proof -
  assume "i < length xs"
  then have "filter p xs = filter p (take i xs @ xs ! i # drop (Suc i) xs)" by (simp add: id_take_nth_drop [symmetric])
  then show ?thesis by (simp add: drop_nth_def)
qed

text \<open>The number a value counts as after \<open>|| 0\<close>.\<close>

definition as_num :: "jval \<Rightarrow> int" where
  "as_num v = (case v of Num i \<Rightarrow> i | _ \<Rightarrow> 0)"

end
