(* ===== verification/Datacenter_Options.thy ===== *)
theory Datacenter_Options
  imports Js_Values
begin

text \<open>
  The datacenter options (web/src/datacenter.js, \<open>defaultOptions\<close>, \<open>parseOptionsForEdit\<close>,
  \<open>saveOptions\<close>): Proxmox keeps several options as one text \<open>key=value,key=value\<close>, or answers with
  an object; the editor shows one field per key and joins them again when it saves. A form is
  the object the editor holds, a map from field names to values.
\<close>

type_synonym form = "string \<Rightarrow> jval"

section \<open>Reading\<close>

definition default_fields :: "(string \<times> jval) list" where
  "default_fields =
     [(''keyboard'', Str ''de''), (''http_proxy'', Str []), (''console'', Str []), (''email_from'', Str []),
      (''mac_prefix'', Str ''BC:24:11''), (''max_workers'', Num 4), (''migration_type'', Str []),
      (''migration_network'', Str []), (''ha_shutdown_policy'', Str []), (''crs_ha_rebalance'', Str []),
      (''crs_mode'', Str []), (''crs_ha_auto_rebalance'', Str []), (''crs_ha_auto_rebalance_threshold'', Str []),
      (''crs_ha_auto_rebalance_method'', Str []), (''crs_ha_auto_rebalance_hold_duration'', Str []),
      (''crs_ha_auto_rebalance_margin'', Str []), (''next_id_lower'', Num 100), (''next_id_upper'', Num 999999999),
      (''bwlimit_clone'', Str []), (''bwlimit_migration'', Str []), (''bwlimit_move'', Str []),
      (''bwlimit_restore'', Str []), (''bwlimit_default'', Str []), (''user_tag_access'', Str ''free''),
      (''registered_tags'', Str []), (''tag_style_shape'', Str []), (''tag_style_color_map'', Str []),
      (''tag_style_ordering'', Str [])]"

definition defaultOptions :: form where
  "defaultOptions = prop_of default_fields"

text \<open>\<open>const [k, v] = part.split('=')\<close>.\<close>

definition split_pair :: "string \<Rightarrow> string \<times> jval" where
  "split_pair part =
     (case split_on (CHR ''='') part of
        [] \<Rightarrow> ([], Undef)
      | k # rest \<Rightarrow> (k, case rest of [] \<Rightarrow> Undef | v # more \<Rightarrow> Str v))"

definition each_pair :: "(string \<Rightarrow> jval \<Rightarrow> form \<Rightarrow> form) \<Rightarrow> string \<Rightarrow> form \<Rightarrow> form" where
  "each_pair put s p = foldl (\<lambda>q part. case split_pair part of (k, v) \<Rightarrow> put k v q) p (split_on (CHR '','') s)"

text \<open>\<open>if (k === key) parsed.field = conv(v)\<close> for each line of a table.\<close>

definition put_field :: "(string \<times> string) list \<Rightarrow> (string \<Rightarrow> jval \<Rightarrow> jval) \<Rightarrow> string \<Rightarrow> jval \<Rightarrow> form \<Rightarrow> form" where
  "put_field tbl conv k v p = (case map_of tbl k of None \<Rightarrow> p | Some f \<Rightarrow> p(f := conv k v))"

definition read_object :: "(string \<times> string) list \<Rightarrow> (string \<Rightarrow> jval \<Rightarrow> jval) \<Rightarrow> (string \<times> jval) list \<Rightarrow> form \<Rightarrow> form" where
  "read_object tbl conv kvs p = foldl (\<lambda>q (k, f). q(f := conv k (prop_of kvs k))) p tbl"

definition migration_fields :: "(string \<times> string) list" where
  "migration_fields = [(''type'', ''migration_type''), (''network'', ''migration_network'')]"

definition ha_fields :: "(string \<times> string) list" where
  "ha_fields = [(''shutdown_policy'', ''ha_shutdown_policy'')]"

definition crs_fields :: "(string \<times> string) list" where
  "crs_fields =
     [(''ha-rebalance-on-start'', ''crs_ha_rebalance''), (''scheduling'', ''crs_mode''),
      (''ha-auto-rebalance'', ''crs_ha_auto_rebalance''),
      (''ha-auto-rebalance-threshold'', ''crs_ha_auto_rebalance_threshold''),
      (''ha-auto-rebalance-method'', ''crs_ha_auto_rebalance_method''),
      (''ha-auto-rebalance-hold-duration'', ''crs_ha_auto_rebalance_hold_duration''),
      (''ha-auto-rebalance-margin'', ''crs_ha_auto_rebalance_margin'')]"

definition next_id_fields :: "(string \<times> string) list" where
  "next_id_fields = [(''lower'', ''next_id_lower''), (''upper'', ''next_id_upper'')]"

definition bwlimit_fields :: "(string \<times> string) list" where
  "bwlimit_fields =
     [(''clone'', ''bwlimit_clone''), (''migration'', ''bwlimit_migration''), (''move'', ''bwlimit_move''),
      (''restore'', ''bwlimit_restore''), (''default'', ''bwlimit_default'')]"

definition tag_access_fields :: "(string \<times> string) list" where
  "tag_access_fields = [(''user-allow'', ''user_tag_access'')]"

definition tag_style_fields :: "(string \<times> string) list" where
  "tag_style_fields =
     [(''shape'', ''tag_style_shape''), (''color-map'', ''tag_style_color_map''), (''ordering'', ''tag_style_ordering'')]"

text \<open>What is stored for a value: as it is, or with \<open>|| ''\<close> when it comes from an object.\<close>

definition conv_plain :: "string \<Rightarrow> jval \<Rightarrow> jval" where
  "conv_plain k v = v"

definition conv_empty :: "string \<Rightarrow> jval \<Rightarrow> jval" where
  "conv_empty k v = or_else v (Str [])"

text \<open>\<open>readPair\<close>.\<close>

definition conv_crs :: "string \<Rightarrow> jval \<Rightarrow> jval" where
  "conv_crs k v =
     (if k = ''ha-rebalance-on-start'' \<or> k = ''ha-auto-rebalance'' then (if truthy v then Str ''1'' else Str [])
      else if k = ''scheduling'' then or_else v (Str [])
      else Str (to_str (or_else v (Str []))))"

definition next_id_default :: "string \<Rightarrow> jval" where
  "next_id_default k = (if k = ''lower'' then Num 100 else Num 999999999)"

definition conv_next_id :: "string \<Rightarrow> jval \<Rightarrow> jval" where
  "conv_next_id k v = (case parse_int_val v of None \<Rightarrow> next_id_default k | Some i \<Rightarrow> or_else (Num i) (next_id_default k))"

definition conv_next_id_object :: "string \<Rightarrow> jval \<Rightarrow> jval" where
  "conv_next_id_object k v = or_else v (next_id_default k)"

text \<open>The \<open>if (opts.x) { object ... string ... }\<close> blocks.\<close>

definition read_composite ::
    "(string \<times> string) list \<Rightarrow> (string \<Rightarrow> jval \<Rightarrow> jval) \<Rightarrow> (string \<Rightarrow> jval \<Rightarrow> jval) \<Rightarrow> jval \<Rightarrow> form \<Rightarrow> form" where
  "read_composite tbl conv_str conv_obj v p =
     (if \<not> truthy v then p
      else case v of
             Obj kvs \<Rightarrow> read_object tbl conv_obj kvs p
           | Str s \<Rightarrow> each_pair (put_field tbl conv_str) s p
           | _ \<Rightarrow> p)"

definition read_crs :: "jval \<Rightarrow> form \<Rightarrow> form" where
  "read_crs v p =
     (if \<not> truthy v then p
      else case v of
             Obj kvs \<Rightarrow> foldl (\<lambda>q (k, x). put_field crs_fields conv_crs k x q) p kvs
           | Str s \<Rightarrow> each_pair (put_field crs_fields conv_crs) s p
           | _ \<Rightarrow> p)"

definition read_tag_access :: "jval \<Rightarrow> form \<Rightarrow> form" where
  "read_tag_access v p =
     (if \<not> truthy v then p
      else case v of
             Str s \<Rightarrow> if js_includes s ''='' then each_pair (put_field tag_access_fields conv_plain) s p
                      else p(''user_tag_access'' := v)
           | Obj kvs \<Rightarrow> if truthy (prop_of kvs ''user-allow'') then p(''user_tag_access'' := prop_of kvs ''user-allow'')
                        else p(''user_tag_access'' := v)
           | _ \<Rightarrow> p(''user_tag_access'' := v))"

definition read_simple :: "string \<Rightarrow> (string \<times> jval) list \<Rightarrow> form \<Rightarrow> form" where
  "read_simple k opts p = (if truthy (prop_of opts k) then p(k := prop_of opts k) else p)"

definition parseOptionsForEdit :: "(string \<times> jval) list \<Rightarrow> form" where
  "parseOptionsForEdit opts =
     (let p1 = foldl (\<lambda>p k. read_simple k opts p) defaultOptions
                 [''keyboard'', ''http_proxy'', ''console'', ''email_from'', ''mac_prefix'', ''max_workers''];
          p2 = read_composite migration_fields conv_plain conv_empty (prop_of opts ''migration'') p1;
          p3 = read_composite ha_fields conv_plain conv_empty (prop_of opts ''ha'') p2;
          p4 = read_crs (prop_of opts ''crs'') p3;
          p5 = read_composite next_id_fields conv_next_id conv_next_id_object
                 (or_else (prop_of opts ''next-id'') (prop_of opts ''next_id'')) p4;
          p6 = read_composite bwlimit_fields conv_plain conv_empty (prop_of opts ''bwlimit'') p5;
          p7 = read_tag_access (or_else (prop_of opts ''user-tag-access'') (prop_of opts ''user_tag_access'')) p6;
          rt = or_else (prop_of opts ''registered-tags'') (prop_of opts ''registered_tags'');
          p8 = (if truthy rt then p7(''registered_tags'' := rt) else p7)
      in read_composite tag_style_fields conv_plain conv_empty
           (or_else (prop_of opts ''tag-style'') (prop_of opts ''tag_style'')) p8)"

section \<open>Saving\<close>

text \<open>
  A part of the save assigns a key of the payload or does not (\<open>Some (Some v)\<close>, \<open>Some None\<close>); a
  method called on a value that has none throws (\<open>None\<close>), which the \<open>catch\<close> turns into a toast.
\<close>

type_synonym assignment = "jval option option"

definition as_text :: "jval \<Rightarrow> string option" where
  "as_text v = (case v of Str s \<Rightarrow> Some s | _ \<Rightarrow> None)"

definition save_keyboard :: "form \<Rightarrow> assignment" where
  "save_keyboard ed = Some (if truthy (ed ''keyboard'') then Some (ed ''keyboard'') else None)"

definition save_console :: "form \<Rightarrow> assignment" where
  "save_console ed =
     Some (if ed ''console'' \<in> {Str ''vv'', Str ''html5'', Str ''xtermjs''} then Some (ed ''console'') else None)"

text \<open>\<open>if (x && x.trim() !== '') payload.k = x\<close>.\<close>

definition save_trimmed :: "jval \<Rightarrow> assignment" where
  "save_trimmed v =
     (if \<not> truthy v then Some None
      else case as_text v of None \<Rightarrow> None | Some s \<Rightarrow> Some (if trim s \<noteq> [] then Some v else None))"

definition save_email_from :: "form \<Rightarrow> assignment" where
  "save_email_from ed =
     (if \<not> truthy (ed ''email_from'') then Some None
      else case as_text (ed ''email_from'') of
             None \<Rightarrow> None
           | Some s \<Rightarrow> Some (if js_includes s ''@'' \<and> \<not> js_includes s ''$'' then Some (Str s) else None))"

text \<open>\<open>/^[A-Fa-f0-9]{2}(:[A-Fa-f0-9]{2})*$/\<close>.\<close>

definition mac_prefix_text :: "string \<Rightarrow> bool" where
  "mac_prefix_text s = list_all (\<lambda>w. length w = 2 \<and> list_all is_hex w) (split_on (CHR '':'') s)"

definition save_mac_prefix :: "form \<Rightarrow> assignment" where
  "save_mac_prefix ed =
     (let v = ed ''mac_prefix''
      in if truthy v \<and> mac_prefix_text (to_str v)
         then (case as_text v of None \<Rightarrow> None | Some s \<Rightarrow> Some (Some (Str (to_upper s))))
         else Some None)"

definition save_max_workers :: "form \<Rightarrow> assignment" where
  "save_max_workers ed =
     (let v = ed ''max_workers''
      in Some (if truthy v \<and> \<not> is_nan v
               then Some (case parse_int_val v of None \<Rightarrow> NaN | Some i \<Rightarrow> Num (max 1 (min 64 i)))
               else None))"

text \<open>A list of optional \<open>key=value\<close> parts, joined when there is one.\<close>

definition present :: "('a \<times> 'b option) list \<Rightarrow> ('a \<times> 'b) list" where
  "present es = concat (map (\<lambda>(k, v). case v of None \<Rightarrow> [] | Some w \<Rightarrow> [(k, w)]) es)"

definition join_parts :: "(string \<times> string) list \<Rightarrow> string" where
  "join_parts items = join '','' (map (\<lambda>(k, v). k @ ''='' @ v) items)"

definition save_parts :: "(string \<times> string option) list \<Rightarrow> assignment" where
  "save_parts es = Some (if present es \<noteq> [] then Some (Str (join_parts (present es))) else None)"

definition when_truthy :: "jval \<Rightarrow> string option" where
  "when_truthy v = (if truthy v then Some (to_str v) else None)"

definition save_migration :: "form \<Rightarrow> assignment" where
  "save_migration ed =
     (case save_trimmed (ed ''migration_network'') of
        None \<Rightarrow> None
      | Some net \<Rightarrow> save_parts [(''type'', when_truthy (ed ''migration_type'')), (''network'', map_option to_str net)])"

definition save_ha :: "form \<Rightarrow> assignment" where
  "save_ha ed = save_parts [(''shutdown_policy'', when_truthy (ed ''ha_shutdown_policy''))]"

definition when_on :: "jval \<Rightarrow> string option" where
  "when_on v = (if v = Str ''1'' then Some ''1'' else None)"

definition when_int :: "(int \<Rightarrow> bool) \<Rightarrow> jval \<Rightarrow> string option" where
  "when_int ok v = (case parse_int10_val v of None \<Rightarrow> None | Some i \<Rightarrow> if ok i then Some (show_int i) else None)"

definition save_crs :: "form \<Rightarrow> assignment" where
  "save_crs ed = save_parts
     [(''ha-rebalance-on-start'', when_on (ed ''crs_ha_rebalance'')),
      (''scheduling'', when_truthy (ed ''crs_mode'')),
      (''ha-auto-rebalance'', when_on (ed ''crs_ha_auto_rebalance'')),
      (''ha-auto-rebalance-threshold'', when_int (\<lambda>i. 0 \<le> i \<and> i \<le> 100) (ed ''crs_ha_auto_rebalance_threshold'')),
      (''ha-auto-rebalance-method'', when_truthy (ed ''crs_ha_auto_rebalance_method'')),
      (''ha-auto-rebalance-hold-duration'', when_int (\<lambda>i. 0 \<le> i) (ed ''crs_ha_auto_rebalance_hold_duration'')),
      (''ha-auto-rebalance-margin'', when_int (\<lambda>i. 0 \<le> i \<and> i \<le> 100) (ed ''crs_ha_auto_rebalance_margin''))]"

definition when_number :: "jval \<Rightarrow> string option" where
  "when_number v = (if truthy v \<and> \<not> is_nan v then Some (to_str v) else None)"

definition save_next_id :: "form \<Rightarrow> assignment" where
  "save_next_id ed = save_parts [(''lower'', when_number (ed ''next_id_lower'')), (''upper'', when_number (ed ''next_id_upper''))]"

definition when_limit :: "jval \<Rightarrow> string option" where
  "when_limit v = (if truthy v \<and> v \<noteq> Str ''0'' then Some (to_str v) else None)"

definition save_bwlimit :: "form \<Rightarrow> assignment" where
  "save_bwlimit ed = save_parts
     [(''clone'', when_limit (ed ''bwlimit_clone'')), (''migration'', when_limit (ed ''bwlimit_migration'')),
      (''move'', when_limit (ed ''bwlimit_move'')), (''restore'', when_limit (ed ''bwlimit_restore'')),
      (''default'', when_limit (ed ''bwlimit_default''))]"

definition save_tag_access :: "form \<Rightarrow> assignment" where
  "save_tag_access ed = save_parts [(''user-allow'', when_truthy (ed ''user_tag_access''))]"

definition save_tag_style :: "form \<Rightarrow> assignment" where
  "save_tag_style ed = save_parts
     [(''shape'', when_truthy (ed ''tag_style_shape'')), (''color-map'', when_truthy (ed ''tag_style_color_map'')),
      (''ordering'', when_truthy (ed ''tag_style_ordering''))]"

definition payload_keys :: "string list" where
  "payload_keys = [''keyboard'', ''console'', ''http_proxy'', ''email_from'', ''mac_prefix'', ''max_workers'', ''migration'',
     ''ha'', ''crs'', ''next-id'', ''bwlimit'', ''user-tag-access'', ''registered-tags'', ''tag-style'']"

text \<open>The payload of the PUT; \<open>None\<close> when building it throws.\<close>

definition options_payload :: "form \<Rightarrow> (string \<times> jval) list option" where
  "options_payload ed = map_option (\<lambda>vs. present (zip payload_keys vs)) (those
     [save_keyboard ed, save_console ed, save_trimmed (ed ''http_proxy''), save_email_from ed, save_mac_prefix ed,
      save_max_workers ed, save_migration ed, save_ha ed, save_crs ed, save_next_id ed, save_bwlimit ed,
      save_tag_access ed, save_trimmed (ed ''registered_tags''), save_tag_style ed])"

text \<open>The rest of \<open>saveOptions\<close>: the PUT, and what follows its answer.\<close>

datatype put_answer = Put_Ok | Put_Error jval jval | Put_Threw

datatype save_effect = Put "(string \<times> jval) list" | Reload_Options | Close_Editor | Toast_Saved | Toast_Errors jval | Toast_Error string

definition saveOptions :: "form \<Rightarrow> put_answer \<Rightarrow> save_effect list" where
  "saveOptions ed answer =
     (case options_payload ed of
        None \<Rightarrow> [Toast_Error ''Failed to save options'']
      | Some payload \<Rightarrow> Put payload #
          (case answer of
             Put_Ok \<Rightarrow> [Reload_Options, Close_Editor, Toast_Saved]
           | Put_Error errors err \<Rightarrow>
               if truthy errors then [Toast_Errors errors]
               else [Toast_Error (to_str (or_else err (Str ''Failed to save options'')))]
           | Put_Threw \<Rightarrow> [Toast_Error ''Failed to save options'']))"

section \<open>Reading back what was saved\<close>

lemma present_simps [simp]:
  "present [] = []"
  "present ((k, None) # es) = present es"
  "present ((k, Some v) # es) = (k, v) # present es"
  by (simp_all add: present_def)




definition plain :: "string \<Rightarrow> bool" where
  "plain s \<longleftrightarrow> CHR '','' \<notin> set s \<and> CHR ''='' \<notin> set s"

lemma split_pair_item: "plain k \<Longrightarrow> plain v \<Longrightarrow> split_pair (k @ ''='' @ v) = (k, Str v)"
  by (simp add: split_pair_def plain_def split_on_Cons_sep split_on_plain)































section \<open>Properties\<close>










lemma parse_int10_Nil: "parse_int10 [] = None"
  by (simp add: parse_int10_def trim_start_def)







lemma save_parts_Some: obtains a where "save_parts es = Some a"
  by (simp add: save_parts_def)
























text \<open>The text form of \<open>crs\<close> reads a switch as on whatever its value is, so also \<open>=0\<close>; saving the form
  that was loaded then switches automatic rebalancing on.\<close>

theorem crs_off_reads_on:
  assumes "plain v" and "v \<noteq> []"
  shows "parseOptionsForEdit [(''crs'', Str (''ha-auto-rebalance='' @ v))] ''crs_ha_auto_rebalance'' = Str ''1'' \<and>
    save_crs (parseOptionsForEdit [(''crs'', Str (''ha-auto-rebalance='' @ v))]) = Some (Some (Str ''ha-auto-rebalance=1''))"
proof -
  have s: "split_on (CHR '','') (''ha-auto-rebalance='' @ v) = [''ha-auto-rebalance='' @ v]"
    using assms(1) by (intro split_on_plain) (simp add: plain_def)
  have p: "split_pair (''ha-auto-rebalance='' @ v) = (''ha-auto-rebalance'', Str v)"
    using split_pair_item [of "''ha-auto-rebalance''" v] assms(1) by (simp add: plain_def)
  have "parseOptionsForEdit [(''crs'', Str (''ha-auto-rebalance='' @ v))] =
      read_crs (Str (''ha-auto-rebalance='' @ v)) defaultOptions"
    by (simp add: parseOptionsForEdit_def prop_of_def read_simple_def read_composite_def read_tag_access_def or_else_def)
  also have "\<dots> = defaultOptions(''crs_ha_auto_rebalance'' := Str ''1'')"
    using assms(2) s p by (simp add: read_crs_def each_pair_def put_field_def crs_fields_def conv_crs_def)
  finally have e: "parseOptionsForEdit [(''crs'', Str (''ha-auto-rebalance='' @ v))] =
      defaultOptions(''crs_ha_auto_rebalance'' := Str ''1'')" .
  show ?thesis
    unfolding e
    by (simp add: save_crs_def save_parts_def join_parts_def when_on_def when_truthy_def when_int_def parse_int10_val_def
        parse_int10_Nil defaultOptions_def default_fields_def prop_of_def)
qed

theorem crs_off_reads_on_witness:
  "save_crs (parseOptionsForEdit [(''crs'', Str ''ha-auto-rebalance=0'')]) = Some (Some (Str ''ha-auto-rebalance=1''))"
  using crs_off_reads_on [of "''0''"] by (simp add: plain_def)

text \<open>The object form of \<open>crs\<close> loses a zero: \<open>0 || ''\<close> is the empty text, and an empty field is
  not sent, so a threshold, hold time or margin of 0 disappears on the next save.\<close>

theorem crs_zero_lost:
  "list_all (\<lambda>(k, f). parseOptionsForEdit [(''crs'', Obj [(k, Num 0)])] f = Str [] \<and>
       save_crs (parseOptionsForEdit [(''crs'', Obj [(k, Num 0)])]) = Some None)
     [(''ha-auto-rebalance-threshold'', ''crs_ha_auto_rebalance_threshold''),
      (''ha-auto-rebalance-hold-duration'', ''crs_ha_auto_rebalance_hold_duration''),
      (''ha-auto-rebalance-margin'', ''crs_ha_auto_rebalance_margin'')]"
proof -
  have e: "parseOptionsForEdit [(''crs'', Obj [(k, v)])] = put_field crs_fields conv_crs k v defaultOptions" for k v
    by (simp add: parseOptionsForEdit_def prop_of_def read_simple_def read_composite_def read_tag_access_def or_else_def read_crs_def)
  have d: "defaultOptions ''crs_ha_auto_rebalance_threshold'' = Str []"
    "defaultOptions ''crs_ha_auto_rebalance_hold_duration'' = Str []" "defaultOptions ''crs_ha_auto_rebalance_margin'' = Str []"
    "defaultOptions ''crs_ha_rebalance'' = Str []" "defaultOptions ''crs_mode'' = Str []"
    "defaultOptions ''crs_ha_auto_rebalance'' = Str []" "defaultOptions ''crs_ha_auto_rebalance_method'' = Str []"
    by (simp_all add: defaultOptions_def default_fields_def prop_of_def)
  have unsent: "save_crs defaultOptions = Some None"
    by (simp add: save_crs_def d save_parts_def when_on_def when_truthy_def when_int_def parse_int10_val_def parse_int10_Nil)
  have z: "put_field crs_fields conv_crs ''ha-auto-rebalance-threshold'' (Num 0) defaultOptions = defaultOptions"
    "put_field crs_fields conv_crs ''ha-auto-rebalance-hold-duration'' (Num 0) defaultOptions = defaultOptions"
    "put_field crs_fields conv_crs ''ha-auto-rebalance-margin'' (Num 0) defaultOptions = defaultOptions"
    using d by (simp_all add: put_field_def crs_fields_def conv_crs_def or_else_def fun_upd_idem)
  show ?thesis
    unfolding e by (simp add: z d unsent)
qed

end
