(* ===== verification/Datacenter_Nodes.thy ===== *)
theory Datacenter_Nodes
  imports Js_Prelude "HOL-Library.Char_ord" "HOL-Library.List_Lexorder"
begin

text \<open>
  Two parts of web/src/datacenter.js: the form of a directory mapping (\<open>dmPathOk\<close>, \<open>dmSystemDir\<close>,
  \<open>dmProblem\<close>, the node list of a device mapping, the edits of \<open>DirMappingDialog\<close>), and the CPU
  level of a node (\<open>detectCpuGeneration\<close>) with the level recommended for a cluster
  (\<open>calculateRecommendedCpu\<close>).
\<close>

section \<open>Directory mappings\<close>

definition DM_SYSTEM_DIRS :: "string list" where
  "DM_SYSTEM_DIRS = [''/bin'', ''/boot'', ''/dev'', ''/etc'', ''/lib'', ''/lib64'', ''/proc'', ''/root'', ''/run'', ''/sbin'',
     ''/sys'', ''/usr'']"

text \<open>\<open>/[;,=()\\u0000-\\u001f\\u007f]/\<close>.\<close>

definition dm_bad_char :: "char \<Rightarrow> bool" where
  "dm_bad_char c \<longleftrightarrow> c \<in> set '';,=()'' \<or> code_of c \<le> 31 \<or> code_of c = 127"

definition dmPathOk :: "string \<Rightarrow> bool" where
  "dmPathOk p \<longleftrightarrow>
     starts_with p ''/'' \<and> filter (\<lambda>c. c \<noteq> CHR ''/'') p \<noteq> [] \<and> length p \<le> 4096 \<and>
     \<not> list_ex dm_bad_char p \<and> p = trim_end p \<and> ''..'' \<notin> set (split_on (CHR ''/'') p)"

text \<open>\<open>replace(/\\/+$/, '')\<close>.\<close>

definition drop_slashes :: "string \<Rightarrow> string" where
  "drop_slashes s = rev (dropWhile (\<lambda>c. c = CHR ''/'') (rev s))"

definition dmSystemDir :: "string \<Rightarrow> bool" where
  "dmSystemDir path =
     (let p = drop_slashes path
      in p \<in> {''/var'', ''/var/lib''} \<or> list_ex (\<lambda>d. p = d \<or> starts_with p (d @ ''/'')) DM_SYSTEM_DIRS)"

record dm_entry =
  e_node :: string
  e_path :: string

record dm_form =
  dm_id :: string
  dm_description :: string
  dm_entries :: "dm_entry list"

definition dm_id_ok :: "string \<Rightarrow> bool" where
  "dm_id_ok s =
     (case s of [] \<Rightarrow> False
      | c # r \<Rightarrow> is_alpha c \<and> 1 \<le> length r \<and> length r \<le> 63 \<and> list_all (\<lambda>d. is_alnum d \<or> d = CHR ''_'' \<or> d = CHR ''-'') r)"

definition dmProblem :: "dm_form \<Rightarrow> bool \<Rightarrow> string" where
  "dmProblem form isNew =
     (if isNew \<and> \<not> dm_id_ok (dm_id form) then ''dmBadId''
      else if dm_entries form = [] then ''dmNoEntries''
      else if list_ex (\<lambda>e. e_node e = []) (dm_entries form) then ''dmNoNode''
      else if card (set (map e_node (dm_entries form))) \<noteq> length (dm_entries form) then ''dmNodeTwice''
      else if list_ex (\<lambda>e. \<not> dmPathOk (e_path e)) (dm_entries form) then ''dmBadPath''
      else [])"

text \<open>\<open>String(x).match(/(?:^|,)node=([^,]+)/)[1]\<close>: the first comma separated part that names a node.\<close>

definition map_node :: "string \<Rightarrow> string option" where
  "map_node x =
     (case filter (\<lambda>w. starts_with w ''node='' \<and> drop 5 w \<noteq> []) (split_on (CHR '','') x) of
        [] \<Rightarrow> None
      | w # ws \<Rightarrow> Some (drop 5 w))"

definition rmNodesOf :: "string list \<Rightarrow> string list" where
  "rmNodesOf entries = sort (remdups (List.map_filter map_node entries))"

text \<open>The state of \<open>DirMappingDialog\<close>: its first value and its edits.\<close>

definition dm_open :: "dm_form option \<Rightarrow> string list \<Rightarrow> dm_form" where
  "dm_open mapping nodes =
     (case mapping of
        None \<Rightarrow> \<lparr>dm_id = [], dm_description = [],
                  dm_entries = [\<lparr>e_node = (case nodes of [] \<Rightarrow> [] | n # ns \<Rightarrow> n), e_path = []\<rparr>]\<rparr>
      | Some m \<Rightarrow> m)"

definition setEntry :: "nat \<Rightarrow> (dm_entry \<Rightarrow> dm_entry) \<Rightarrow> dm_form \<Rightarrow> dm_form" where
  "setEntry i change form =
     form\<lparr>dm_entries := map (\<lambda>(j, e). if j = i then change e else e) (zip [0..<length (dm_entries form)] (dm_entries form))\<rparr>"

definition addEntry :: "string list \<Rightarrow> dm_form \<Rightarrow> dm_form" where
  "addEntry nodes form =
     form\<lparr>dm_entries := dm_entries form @
       [\<lparr>e_node = (case find (\<lambda>n. \<not> list_ex (\<lambda>e. e_node e = n) (dm_entries form)) nodes of None \<Rightarrow> [] | Some n \<Rightarrow> n),
         e_path = (if dm_entries form = [] then [] else e_path (last (dm_entries form)))\<rparr>]\<rparr>"

section \<open>CPU levels\<close>

record cpu_level =
  level :: string
  generation :: string

text \<open>A regular expression that is a sequence of character classes, searched anywhere.\<close>

fun match_classes :: "(char \<Rightarrow> bool) list \<Rightarrow> string \<Rightarrow> bool" where
  "match_classes [] s = True"
| "match_classes (p # ps) [] = False"
| "match_classes (p # ps) (c # cs) = (p c \<and> match_classes ps cs)"

fun search_classes :: "(char \<Rightarrow> bool) list \<Rightarrow> string \<Rightarrow> bool" where
  "search_classes ps [] = match_classes ps []"
| "search_classes ps (c # cs) = (match_classes ps (c # cs) \<or> search_classes ps cs)"

definition one :: "char \<Rightarrow> char \<Rightarrow> bool" where
  "one c d \<longleftrightarrow> d = c"

definition has :: "string \<Rightarrow> string list \<Rightarrow> bool" where
  "has model ws = list_ex (js_includes model) ws"

definition xeon_level :: "string \<Rightarrow> cpu_level" where
  "xeon_level model =
     (if has model [''sapphire'', ''emerald''] \<or>
         search_classes [\<lambda>c. c = CHR ''w'' \<or> is_digit c, one (CHR ''-''), \<lambda>c. c = CHR ''3'' \<or> c = CHR ''4'', is_digit, is_digit, is_digit] model
      then \<lparr>level = ''v4'', generation = ''Intel Xeon Scalable 4th/5th Gen''\<rparr>
      else if has model [''ice'', ''cascade'', ''platinum'', ''gold'', ''silver'', ''bronze'']
      then \<lparr>level = ''v3'', generation = ''Intel Xeon Scalable''\<rparr>
      else if js_includes model ''v4'' then \<lparr>level = ''v3'', generation = ''Intel Xeon E5/E7 v4 (Broadwell)''\<rparr>
      else if js_includes model ''v3'' then \<lparr>level = ''v3'', generation = ''Intel Xeon E5/E7 v3 (Haswell)''\<rparr>
      else if js_includes model ''v2'' then \<lparr>level = ''v2-AES'', generation = ''Intel Xeon E5/E7 v2 (Ivy Bridge)''\<rparr>
      else if has model [''e5-'', ''e7-''] then \<lparr>level = ''v2-AES'', generation = ''Intel Xeon E5/E7 (Sandy Bridge)''\<rparr>
      else \<lparr>level = ''v2-AES'', generation = ''Intel Xeon (Legacy)''\<rparr>)"

definition core_level :: "string \<Rightarrow> cpu_level" where
  "core_level model =
     (if has model [''13th'', ''14th'', ''i9-13'', ''i9-14'', ''i7-13'', ''i7-14'']
      then \<lparr>level = ''v4'', generation = ''Intel Core 13th/14th Gen''\<rparr>
      else if has model [''11th'', ''12th'', ''i9-12'', ''i7-12'', ''i9-11'', ''i7-11'']
      then \<lparr>level = ''v3'', generation = ''Intel Core 11th/12th Gen''\<rparr>
      else if has model [''10th'', ''i9-10'', ''i7-10'', ''i5-10'']
      then \<lparr>level = ''v3'', generation = ''Intel Core 10th Gen''\<rparr>
      else if has model [''8th'', ''9th'', ''i7-8'', ''i7-9'', ''i5-8'', ''i5-9'']
      then \<lparr>level = ''v3'', generation = ''Intel Core 8th/9th Gen''\<rparr>
      else if has model [''6th'', ''7th'', ''i7-6'', ''i7-7'', ''i5-6'', ''i5-7'']
      then \<lparr>level = ''v3'', generation = ''Intel Core 6th/7th Gen (Skylake/Kaby Lake)''\<rparr>
      else if has model [''4th'', ''5th'', ''i7-4'', ''i7-5'', ''i5-4'', ''i5-5'']
      then \<lparr>level = ''v3'', generation = ''Intel Core 4th/5th Gen (Haswell/Broadwell)''\<rparr>
      else if has model [''3rd'', ''2nd'', ''i7-3'', ''i7-2'', ''i5-3'', ''i5-2'']
      then \<lparr>level = ''v2-AES'', generation = ''Intel Core 2nd/3rd Gen (Sandy/Ivy Bridge)''\<rparr>
      else \<lparr>level = ''v2-AES'', generation = ''Intel Core (Legacy)''\<rparr>)"

definition epyc_level :: "string \<Rightarrow> cpu_level" where
  "epyc_level model =
     (if search_classes [one (CHR ''9''), is_digit, is_digit, is_digit] model \<or> js_includes model ''genoa''
      then \<lparr>level = ''v4'', generation = ''AMD EPYC Genoa (Zen 4)''\<rparr>
      else if search_classes [one (CHR ''7''), is_digit, is_digit, one (CHR ''3'')] model \<or>
        search_classes [one (CHR ''7''), one (CHR ''7''), is_digit, is_digit] model \<or> js_includes model ''milan''
      then \<lparr>level = ''v3'', generation = ''AMD EPYC Milan (Zen 3)''\<rparr>
      else if search_classes [one (CHR ''7''), is_digit, is_digit, one (CHR ''2'')] model \<or> js_includes model ''rome''
      then \<lparr>level = ''v3'', generation = ''AMD EPYC Rome (Zen 2)''\<rparr>
      else if search_classes [one (CHR ''7''), is_digit, is_digit, one (CHR ''1'')] model \<or> js_includes model ''naples''
      then \<lparr>level = ''v2-AES'', generation = ''AMD EPYC Naples (Zen 1)''\<rparr>
      else \<lparr>level = ''v2-AES'', generation = ''AMD EPYC''\<rparr>)"

text \<open>\<open>/\\d{1}-Dddd/\<close>.\<close>

definition dash_series :: "char \<Rightarrow> string \<Rightarrow> bool" where
  "dash_series d model = search_classes [is_digit, one (CHR ''-''), one d, is_digit, is_digit, is_digit] model"

definition ryzen_level :: "string \<Rightarrow> cpu_level" where
  "ryzen_level model =
     (if has model [''7000'', ''9000''] \<or> dash_series (CHR ''7'') model \<or> dash_series (CHR ''9'') model
      then \<lparr>level = ''v4'', generation = ''AMD Ryzen 7000/9000 (Zen 4)''\<rparr>
      else if has model [''5000'', ''6000''] \<or> dash_series (CHR ''5'') model \<or> dash_series (CHR ''6'') model
      then \<lparr>level = ''v3'', generation = ''AMD Ryzen 5000/6000 (Zen 3)''\<rparr>
      else if has model [''3000'', ''4000''] \<or> dash_series (CHR ''3'') model \<or> dash_series (CHR ''4'') model
      then \<lparr>level = ''v3'', generation = ''AMD Ryzen 3000/4000 (Zen 2)''\<rparr>
      else if has model [''1000'', ''2000''] \<or> dash_series (CHR ''1'') model \<or> dash_series (CHR ''2'') model
      then \<lparr>level = ''v2-AES'', generation = ''AMD Ryzen 1000/2000 (Zen/Zen+)''\<rparr>
      else \<lparr>level = ''v2-AES'', generation = ''AMD Ryzen''\<rparr>)"

definition detectCpuGeneration :: "string \<Rightarrow> cpu_level" where
  "detectCpuGeneration cpuModel =
     (if cpuModel = [] then \<lparr>level = ''v2-AES'', generation = ''Unknown''\<rparr>
      else let model = to_lower cpuModel
           in if js_includes model ''xeon'' then xeon_level model
              else if js_includes model ''core'' then core_level model
              else if js_includes model ''epyc'' then epyc_level model
              else if js_includes model ''ryzen'' \<or> js_includes model ''threadripper'' then ryzen_level model
              else if js_includes model ''amd'' then \<lparr>level = ''v2-AES'', generation = ''AMD (Unknown)''\<rparr>
              else if js_includes model ''intel'' then \<lparr>level = ''v2-AES'', generation = ''Intel (Unknown)''\<rparr>
              else \<lparr>level = ''v2-AES'', generation = ''Unknown CPU''\<rparr>)"

definition levelOrder :: "string list" where
  "levelOrder = [''v2-AES'', ''v3'', ''v4'']"

definition level_index :: "string \<Rightarrow> nat option" where
  "level_index l = (if l = ''v2-AES'' then Some 0 else if l = ''v3'' then Some 1 else if l = ''v4'' then Some 2 else None)"

text \<open>The loop over the levels; an unknown level has index -1 and is skipped.\<close>

fun lowest_index :: "string list \<Rightarrow> nat \<Rightarrow> nat" where
  "lowest_index [] low = low"
| "lowest_index (l # ls) low =
     (case level_index l of None \<Rightarrow> lowest_index ls low | Some i \<Rightarrow> lowest_index ls (if i < low then i else low))"

definition calculateRecommendedCpu :: "string list \<Rightarrow> string" where
  "calculateRecommendedCpu detected =
     (if detected = [] then ''x86-64-v2-AES''
      else ''x86-64-'' @ levelOrder ! lowest_index detected (length levelOrder - 1))"

text \<open>The CPU scan of the cluster page: the nodes that are not offline, each from its summary or from
  the answer of a fetch (\<open>None\<close>: it failed).\<close>

record cpu_summary =
  cs_model :: "string option"
  cs_cores :: nat
  cs_sockets :: "nat option"

record cluster_node =
  cn_name :: string
  cn_online :: "int option"
  cn_summary :: "cpu_summary option"

record cpu_info =
  ci_node :: string
  ci_model :: string
  ci_cores :: nat
  ci_sockets :: nat
  ci_detectedLevel :: string
  ci_generation :: string

definition cpu_info_of :: "string \<Rightarrow> cpu_summary \<Rightarrow> cpu_info" where
  "cpu_info_of name s =
     (let cpuModel = (case cs_model s of None \<Rightarrow> ''Unknown'' | Some [] \<Rightarrow> ''Unknown'' | Some m \<Rightarrow> m);
          detected = detectCpuGeneration cpuModel
      in \<lparr>ci_node = name, ci_model = cpuModel, ci_cores = cs_cores s,
          ci_sockets = (case cs_sockets s of None \<Rightarrow> 1 | Some 0 \<Rightarrow> 1 | Some n \<Rightarrow> n),
          ci_detectedLevel = level detected, ci_generation = generation detected\<rparr>)"

definition scan_node :: "(string \<Rightarrow> cpu_summary option) \<Rightarrow> cluster_node \<Rightarrow> cpu_info option" where
  "scan_node fetched n =
     map_option (cpu_info_of (cn_name n)) (case cn_summary n of None \<Rightarrow> fetched (cn_name n) | Some s \<Rightarrow> Some s)"

definition cpu_scan :: "(string \<Rightarrow> cpu_summary option) \<Rightarrow> cluster_node list \<Rightarrow> cpu_info list \<times> string" where
  "cpu_scan fetched nodes =
     (let cpuResults = List.map_filter (scan_node fetched) (filter (\<lambda>n. cn_online n \<noteq> Some 0) nodes)
      in (cpuResults, calculateRecommendedCpu (map ci_detectedLevel cpuResults)))"

section \<open>Facts\<close>

lemma detected_level_known: "level (detectCpuGeneration m) \<in> set levelOrder"
proof -
  have "level (xeon_level m) \<in> set levelOrder" "level (core_level m) \<in> set levelOrder"
    "level (epyc_level m) \<in> set levelOrder" "level (ryzen_level m) \<in> set levelOrder" for m
    by (simp_all only: xeon_level_def core_level_def epyc_level_def ryzen_level_def levelOrder_def split: if_split) simp_all
  then show ?thesis
    by (simp only: detectCpuGeneration_def Let_def split: if_split) (simp add: levelOrder_def)
qed

lemma split_on_slash_dots: "''..'' \<in> set (split_on (CHR ''/'') (CHR ''/'' # s)) \<longleftrightarrow> ''..'' \<in> set (split_on (CHR ''/'') s)"
  by simp

lemma lowest_index_Min:
  "set ls \<subseteq> set levelOrder \<Longrightarrow> lowest_index ls low = Min (insert low (set (List.map_filter level_index ls)))"
proof (induction ls arbitrary: low)
  case (Cons l ls)
  then obtain i where i: "level_index l = Some i" by (auto simp: levelOrder_def level_index_def)
  have "Min (insert (if i < low then i else low) (set (List.map_filter level_index ls))) =
      Min (insert low (insert i (set (List.map_filter level_index ls))))"
    by (cases "set (List.map_filter level_index ls) = {}") (auto simp: min_def)
  with Cons i show ?case by (simp add: map_filter_simps)
qed (simp add: map_filter_simps)

lemma set_map_filter: "y \<in> set (List.map_filter f xs) \<longleftrightarrow> (\<exists>x \<in> set xs. f x = Some y)"
  by (induction xs) (auto simp: map_filter_simps split: option.split)

lemma level_index_nth: "level_index l = Some i \<Longrightarrow> levelOrder ! i = l \<and> i < 3"
  by (auto simp: level_index_def levelOrder_def split: if_splits)

lemma addEntry_fresh:
  assumes "distinct (map e_node (dm_entries form))" and "n \<in> set nodes" and "n \<notin> set (map e_node (dm_entries form))"
  shows "distinct (map e_node (dm_entries (addEntry nodes form)))"
proof -
  have "find (\<lambda>n. \<not> list_ex (\<lambda>e. e_node e = n) (dm_entries form)) nodes \<noteq> None"
    using assms(2,3) by (auto simp: find_None_iff list_ex_iff)
  then obtain m where "find (\<lambda>n. \<not> list_ex (\<lambda>e. e_node e = n) (dm_entries form)) nodes = Some m" by blast
  moreover from this have "m \<notin> set (map e_node (dm_entries form))"
    by (auto simp: find_Some_iff list_ex_iff)
  ultimately show ?thesis using assms(1) by (simp add: addEntry_def)
qed

lemma rmNodesOf_sorted: "sorted (rmNodesOf entries)" "distinct (rmNodesOf entries)"
  by (simp_all add: rmNodesOf_def)

lemma recommended_lowest:
  assumes "detected \<noteq> []" and "set detected \<subseteq> set levelOrder"
  shows "\<exists>l \<in> set detected. calculateRecommendedCpu detected = ''x86-64-'' @ l \<and>
    (\<forall>m \<in> set detected. the (level_index l) \<le> the (level_index m))"
proof -
  let ?is = "set (List.map_filter level_index detected)"
  have known: "\<exists>i. level_index m = Some i" if "m \<in> set detected" for m
    using that assms(2) by (auto simp: levelOrder_def level_index_def)
  then have mem: "the (level_index m) \<in> ?is" if "m \<in> set detected" for m
    using that by (force simp: set_map_filter)
  have bound: "i < 3" if "i \<in> ?is" for i
    using that level_index_nth by (auto simp: set_map_filter)
  have ne: "?is \<noteq> {}" using mem [OF hd_in_set [OF assms(1)]] by (metis empty_iff)
  then have in_is: "Min ?is \<in> ?is" by (intro Min_in) auto
  have "Min (insert 2 ?is) = min 2 (Min ?is)" using ne by (intro Min_insert) auto
  then have min: "Min (insert 2 ?is) = Min ?is" using bound [OF in_is] by linarith
  with in_is obtain l where l: "l \<in> set detected" "level_index l = Some (Min (insert 2 ?is))"
    by (auto simp: set_map_filter)
  have "lowest_index detected (length levelOrder - 1) = Min (insert 2 ?is)"
    using lowest_index_Min [OF assms(2), of "length levelOrder - 1"] by (simp add: levelOrder_def numeral_2_eq_2)
  then have "calculateRecommendedCpu detected = ''x86-64-'' @ l"
    using assms(1) level_index_nth [OF l(2)] by (simp add: calculateRecommendedCpu_def)
  moreover have "the (level_index l) \<le> the (level_index m)" if "m \<in> set detected" for m
    using mem [OF that] l(2) by simp
  ultimately show ?thesis using l(1) by blast
qed

section \<open>Properties\<close>

text \<open>The CPU type recommended after a scan is the level of one of the scanned nodes, and no
  scanned node is below it.\<close>

theorem recommended_cpu_lowest:
  assumes "cpu_scan fetched nodes = (results, rec)" and "results \<noteq> []"
  shows "\<exists>r \<in> set results. rec = ''x86-64-'' @ ci_detectedLevel r \<and>
    (\<forall>q \<in> set results. the (level_index (ci_detectedLevel r)) \<le> the (level_index (ci_detectedLevel q)))"
proof -
  have "ci_detectedLevel r \<in> set levelOrder" if "r \<in> set results" for r
    using that assms(1) detected_level_known
    by (auto simp: cpu_scan_def Let_def set_map_filter scan_node_def cpu_info_of_def)
  then have "set (map ci_detectedLevel results) \<subseteq> set levelOrder" by auto
  from recommended_lowest [OF _ this] assms show ?thesis
    by (fastforce simp: cpu_scan_def Let_def)
qed

definition demo_node :: "string \<Rightarrow> string \<Rightarrow> cluster_node" where
  "demo_node name model = \<lparr>cn_name = name, cn_online = Some 1, cn_summary = Some \<lparr>cs_model = Some model, cs_cores = 8, cs_sockets = None\<rparr>\<rparr>"

theorem recommended_cpu_lowest_witness:
  "\<exists>results rec. cpu_scan (\<lambda>_. None) [demo_node ''n1'' ''xeon gold'', demo_node ''n2'' ''xeon e5-''] = (results, rec) \<and>
     rec = ''x86-64-v2-AES''"
proof -
  obtain results rec where scan: "cpu_scan (\<lambda>_. None) [demo_node ''n1'' ''xeon gold'', demo_node ''n2'' ''xeon e5-''] = (results, rec)"
    by (cases "cpu_scan (\<lambda>_. None) [demo_node ''n1'' ''xeon gold'', demo_node ''n2'' ''xeon e5-'']")
  have lower: "to_lower ''xeon gold'' = ''xeon gold''" "to_lower ''xeon e5-'' = ''xeon e5-''"
    by (simp_all add: lower_char_def is_upper_def)
  have "level (xeon_level ''xeon gold'') = ''v3''" "level (xeon_level ''xeon e5-'') = ''v2-AES''"
    by (simp_all add: xeon_level_def has_def is_digit_def one_def)
  then have "level (detectCpuGeneration ''xeon gold'') = ''v3''" "level (detectCpuGeneration ''xeon e5-'') = ''v2-AES''"
    unfolding detectCpuGeneration_def Let_def lower by simp_all
  then have levels: "map ci_detectedLevel results = [''v3'', ''v2-AES'']"
    using scan by (auto simp: cpu_scan_def Let_def demo_node_def map_filter_simps scan_node_def cpu_info_of_def)
  then have "results \<noteq> []" by auto
  from recommended_cpu_lowest [OF scan this] obtain r where r: "r \<in> set results" "rec = ''x86-64-'' @ ci_detectedLevel r"
    "\<forall>q \<in> set results. the (level_index (ci_detectedLevel r)) \<le> the (level_index (ci_detectedLevel q))" by blast
  have "ci_detectedLevel r \<in> {''v3'', ''v2-AES''}" using r(1) levels by (metis image_eqI list.set_map list.simps(15) set_empty2)
  moreover obtain q where "q \<in> set results" "ci_detectedLevel q = ''v2-AES''"
    using levels by (cases results; cases "tl results") auto
  ultimately have "ci_detectedLevel r = ''v2-AES''" using r(3) by (fastforce simp: level_index_def)
  with scan r(2) show ?thesis by simp
qed

text \<open>Every model text that contains the word \<open>core\<close> and not \<open>xeon\<close> is classified as an Intel Core, so
  the EPYC and Ryzen rules never see the texts AMD processors report (\<open>64-Core Processor\<close>).\<close>

theorem core_shadows_amd:
  assumes "js_includes (to_lower model) ''core''" and "\<not> js_includes (to_lower model) ''xeon''"
  shows "starts_with (generation (detectCpuGeneration model)) ''Intel Core''"
proof -
  have "model \<noteq> []" using assms(1) by auto
  then have "detectCpuGeneration model = core_level (to_lower model)"
    using assms by (simp add: detectCpuGeneration_def Let_def)
  moreover have "starts_with (generation (core_level m)) ''Intel Core''" for m
    by (simp add: core_level_def)
  ultimately show ?thesis by simp
qed

lemma epyc_text: "to_lower ''AMD EPYC 7763 64-Core Processor'' = ''amd epyc 7763 64-core processor''"
  by code_simp

theorem core_shadows_amd_witness:
  "starts_with (generation (detectCpuGeneration ''AMD EPYC 7763 64-Core Processor'')) ''Intel Core'' \<and>
   level (detectCpuGeneration ''AMD EPYC 7763 64-Core Processor'') = ''v2-AES'' \<and>
   level (epyc_level ''amd epyc 7763 64-core processor'') = ''v3''"
proof -
  have t: "js_includes (to_lower ''AMD EPYC 7763 64-Core Processor'') ''core''"
    "\<not> js_includes (to_lower ''AMD EPYC 7763 64-Core Processor'') ''xeon''"
    by (simp_all only: epyc_text) simp_all
  have "detectCpuGeneration ''AMD EPYC 7763 64-Core Processor'' = core_level ''amd epyc 7763 64-core processor''"
    using t unfolding detectCpuGeneration_def Let_def epyc_text by (simp only: if_True if_False) simp
  moreover have "level (core_level ''amd epyc 7763 64-core processor'') = ''v2-AES''"
    by (simp add: core_level_def has_def)
  moreover have "level (epyc_level ''amd epyc 7763 64-core processor'') = ''v3''"
    by (simp add: epyc_level_def one_def is_digit_def)
  ultimately show ?thesis using core_shadows_amd [OF t] by simp
qed

text \<open>The warning for system directories compares texts: a doubled slash in front hides every
  one of them from \<open>dmSystemDir\<close>, while \<open>dmPathOk\<close> accepts the path.\<close>

theorem system_dir_hidden:
  "list_all (\<lambda>d. dmSystemDir d \<and> dmPathOk (CHR ''/'' # d) \<and> \<not> dmSystemDir (CHR ''/'' # d)) DM_SYSTEM_DIRS"
  by (simp add: DM_SYSTEM_DIRS_def dmSystemDir_def dmPathOk_def drop_slashes_def trim_end_def dm_bad_char_def is_space_def)

end
