(* ===== verification/Live_Tasks.thy ===== *)
theory Live_Tasks
  imports Js_Values
begin

text \<open>
  The task bar (web/src/dashboard.js): \<open>fetchTasks\<close>, the \<open>tasks\<close> frames of the event stream,
  \<open>addTask\<close>, \<open>clearCompletedTasks\<close>, \<open>cancelTask\<close> and the effects that reset the list when another
  cluster or a Hyper-V host is selected. The record \<open>task_bar\<close> holds the state and the refs they share;
  the requests under way are part of the state, so answers may come in any order. \<open>lc\<close> stands for
  \<open>localeCompare\<close>.
\<close>

type_synonym task = "(string \<times> jval) list"

definition upid_of :: "task \<Rightarrow> jval" where
  "upid_of t = prop_of t ''upid''"

definition has_upid :: "task \<Rightarrow> bool" where
  "has_upid t \<longleftrightarrow> truthy (upid_of t)"

definition starttime_of :: "task \<Rightarrow> int" where
  "starttime_of t = as_num (prop_of t ''starttime'')"

definition task_cmp :: "(string \<Rightarrow> string \<Rightarrow> int) \<Rightarrow> task \<Rightarrow> task \<Rightarrow> int" where
  "task_cmp lc a b =
     (let d = starttime_of b - starttime_of a
      in if d \<noteq> 0 then d
         else lc (to_str (or_else (upid_of a) (Str []))) (to_str (or_else (upid_of b) (Str []))))"

definition sort_tasks :: "(string \<Rightarrow> string \<Rightarrow> int) \<Rightarrow> nat \<Rightarrow> task list \<Rightarrow> task list" where
  "sort_tasks lc n ts = take n (js_sort (task_cmp lc) ts)"

section \<open>The merges\<close>

type_synonym task_map = "(jval \<times> task) list"

definition put_task :: "task_map \<Rightarrow> task \<Rightarrow> task_map" where
  "put_task m t = (if has_upid t then AList.update (upid_of t) t m else m)"

definition map_tasks :: "task list \<Rightarrow> task_map" where
  "map_tasks ts = foldl put_task [] ts"

definition put_spread :: "task_map \<Rightarrow> task \<Rightarrow> task_map" where
  "put_spread m t =
     (if has_upid t
      then AList.update (upid_of t) (case map_of m (upid_of t) of None \<Rightarrow> t | Some e \<Rightarrow> spread e t) m
      else m)"

text \<open>The updater of \<open>fetchTasks\<close>, and that of a frame of the selected cluster.\<close>

definition merge_fetched :: "(string \<Rightarrow> string \<Rightarrow> int) \<Rightarrow> task list \<Rightarrow> task list \<Rightarrow> task list" where
  "merge_fetched lc prev data =
     (if data = [] then prev else sort_tasks lc 50 (map snd (foldl put_spread (map_tasks prev) data)))"

definition merge_frame :: "(string \<Rightarrow> string \<Rightarrow> int) \<Rightarrow> task list \<Rightarrow> task list \<Rightarrow> task list" where
  "merge_frame lc prev data = sort_tasks lc 50 (map snd (foldl put_task (map_tasks prev) data))"

text \<open>The updater of a frame in the view of all clusters.\<close>

definition tag_cluster :: "jval \<Rightarrow> task \<Rightarrow> task" where
  "tag_cluster cid t = AList.update ''cluster_id'' cid t"

definition all_clusters_map :: "jval \<Rightarrow> task list \<Rightarrow> task list \<Rightarrow> task_map" where
  "all_clusters_map cid prev data =
     (let m = foldl (\<lambda>acc t. if has_upid t then AList.update (upid_of t) (tag_cluster cid t) acc else acc) (map_tasks prev) data;
          reported = filter truthy (map upid_of data)
      in filter (\<lambda>(u, t). \<not> (prop_of t ''cluster_id'' = cid \<and> u \<notin> set reported)) m)"

definition same_rows :: "task list \<Rightarrow> task list \<Rightarrow> bool" where
  "same_rows xs ys \<longleftrightarrow> length xs = length ys \<and>
     list_all2 (\<lambda>x y. upid_of x = upid_of y \<and> prop_of x ''status'' = prop_of y ''status'') xs ys"

definition merge_all_clusters :: "(string \<Rightarrow> string \<Rightarrow> int) \<Rightarrow> jval \<Rightarrow> task list \<Rightarrow> task list \<Rightarrow> task list" where
  "merge_all_clusters lc cid prev data =
     (if data = [] then prev
      else let sorted = sort_tasks lc 100 (map snd (all_clusters_map cid prev data))
           in if same_rows sorted prev then prev else sorted)"

text \<open>\<open>addTask\<close>'s updater.\<close>

definition add_task_to :: "(string \<Rightarrow> string \<Rightarrow> int) \<Rightarrow> task \<Rightarrow> task list \<Rightarrow> task list" where
  "add_task_to lc t prev =
     (if list_ex (\<lambda>i. upid_of i = upid_of t) prev
      then (let k = length (takeWhile (\<lambda>i. upid_of i \<noteq> upid_of t) prev) in prev[k := spread (prev ! k) t])
      else sort_tasks lc 50 (t # prev))"

section \<open>State and handlers\<close>

record fetch_call =
  fc_cluster :: string
  fc_start :: nat
  fc_initial :: bool
  fc_gen :: nat

record task_bar =
  tb_selected :: "string option"
  tb_tasks :: "task list"
  tb_stamp :: nat
  tb_initial :: bool
  tb_gen :: nat
  tb_calls :: "fetch_call list"

definition task_bar_new :: task_bar where
  "task_bar_new = \<lparr>tb_selected = None, tb_tasks = [], tb_stamp = 0, tb_initial = False, tb_gen = 0, tb_calls = []\<rparr>"

text \<open>\<open>fetchTasks\<close> up to its \<open>await\<close>, and from the answer on (\<open>None\<close>: not ok, not a list, or thrown).\<close>

definition fetch_start :: "string \<Rightarrow> nat \<Rightarrow> task_bar \<Rightarrow> task_bar" where
  "fetch_start c now s = s\<lparr>tb_calls := tb_calls s @
     [\<lparr>fc_cluster = c, fc_start = now, fc_initial = tb_initial s, fc_gen = tb_gen s\<rparr>]\<rparr>"

definition fetch_answer :: "(string \<Rightarrow> string \<Rightarrow> int) \<Rightarrow> fetch_call \<Rightarrow> task list option \<Rightarrow> nat \<Rightarrow> task_bar \<Rightarrow> task_bar" where
  "fetch_answer lc call answer now s =
     (case answer of
        None \<Rightarrow> s
      | Some data \<Rightarrow>
          if fc_gen call \<noteq> tb_gen s \<or> tb_selected s \<noteq> Some (fc_cluster call) then s
          else if \<not> fc_initial call \<and> fc_start call < tb_stamp s then s
          else s\<lparr>tb_initial := (if fc_initial call then False else tb_initial s), tb_stamp := now,
                 tb_tasks := merge_fetched lc (tb_tasks s) data\<rparr>)"

text \<open>Selecting a cluster or none: the two effects that depend on \<open>selectedCluster?.id\<close>.\<close>

definition select_cluster :: "string option \<Rightarrow> nat \<Rightarrow> task_bar \<Rightarrow> task_bar" where
  "select_cluster sel now s =
     (if sel = tb_selected s then s
      else let s1 = s\<lparr>tb_selected := sel, tb_gen := tb_gen s + 1, tb_tasks := []\<rparr>
           in case sel of
                None \<Rightarrow> s1
              | Some c \<Rightarrow> fetch_start c now ((fetch_start c now (s1\<lparr>tb_stamp := 0, tb_initial := True\<rparr>))\<lparr>tb_tasks := []\<rparr>))"

text \<open>Selecting a Hyper-V host while no cluster is selected.\<close>

definition select_hyperv :: "string \<Rightarrow> nat \<Rightarrow> task_bar \<Rightarrow> task_bar" where
  "select_hyperv host now s =
     (if tb_selected s \<noteq> None then s
      else fetch_start host now (s\<lparr>tb_stamp := 0, tb_initial := True, tb_tasks := []\<rparr>))"

text \<open>The two polling intervals.\<close>

definition poll_tasks :: "string \<Rightarrow> nat \<Rightarrow> task_bar \<Rightarrow> task_bar" where
  "poll_tasks c now s = (if now < tb_stamp s + 3000 then s else fetch_start c now s)"

text \<open>A \<open>tasks\<close> frame.\<close>

definition tasks_frame :: "(string \<Rightarrow> string \<Rightarrow> int) \<Rightarrow> string \<Rightarrow> task list \<Rightarrow> nat \<Rightarrow> task_bar \<Rightarrow> task_bar" where
  "tasks_frame lc cid data now s =
     (case tb_selected s of
        Some c \<Rightarrow>
          if cid = c then s\<lparr>tb_stamp := now, tb_tasks := merge_frame lc (tb_tasks s) data\<rparr> else s
      | None \<Rightarrow>
          let ts = merge_all_clusters lc (Str cid) (tb_tasks s) data
          in if ts = tb_tasks s then s else s\<lparr>tb_stamp := now, tb_tasks := ts\<rparr>)"

definition addTask :: "(string \<Rightarrow> string \<Rightarrow> int) \<Rightarrow> task \<Rightarrow> nat \<Rightarrow> task_bar \<Rightarrow> task_bar" where
  "addTask lc t now s = s\<lparr>tb_stamp := now, tb_tasks := add_task_to lc t (tb_tasks s)\<rparr>"

definition clearCompletedTasks :: "nat \<Rightarrow> task_bar \<Rightarrow> task_bar" where
  "clearCompletedTasks now s = s\<lparr>tb_stamp := now,
     tb_tasks := filter (\<lambda>t. prop_of t ''status'' \<in> {Str ''running'', Str ''queued''}) (tb_tasks s)\<rparr>"

definition cancel_row :: "jval \<Rightarrow> task \<Rightarrow> task" where
  "cancel_row upid t = (if upid_of t = upid then AList.update ''status'' (Str ''cancelled'') t else t)"

definition cancel_answer :: "jval \<Rightarrow> task_bar \<Rightarrow> task_bar" where
  "cancel_answer upid s = s\<lparr>tb_tasks := map (cancel_row upid) (tb_tasks s)\<rparr>"

datatype task_event =
    Select "string option" nat
  | Select_Hyperv string nat
  | Poll string nat
  | Answer nat "task list option" nat
  | Frame string "task list" nat
  | Add task nat
  | Clear nat
  | Cancelled jval

text \<open>The state changes as a relation. \<open>from c t\<close> says that task \<open>t\<close> is one of cluster \<open>c\<close>: the server answers a
  request, and sends a frame, for a cluster with tasks of that cluster, and \<open>addTask\<close> is called
  with a task of the selected one. Objects have distinct keys.\<close>

definition tasks_from :: "(jval \<Rightarrow> string) \<Rightarrow> string \<Rightarrow> task list \<Rightarrow> bool" where
  "tasks_from owner c ts \<longleftrightarrow> list_all (\<lambda>t. distinct (map fst t) \<and> (has_upid t \<longrightarrow> owner (upid_of t) = c)) ts"

inductive task_step :: "(string \<Rightarrow> string \<Rightarrow> int) \<Rightarrow> (jval \<Rightarrow> string) \<Rightarrow> task_bar \<Rightarrow> task_event \<Rightarrow> task_bar \<Rightarrow> bool"
  for lc owner where
  select: "task_step lc owner s (Select sel now) (select_cluster sel now s)"
| hyperv: "task_step lc owner s (Select_Hyperv host now) (select_hyperv host now s)"
| poll: "task_step lc owner s (Poll c now) (poll_tasks c now s)"
| answer: "i < length (tb_calls s) \<Longrightarrow> call = tb_calls s ! i \<Longrightarrow>
    (\<And>data. a = Some data \<Longrightarrow> tasks_from owner (fc_cluster call) data) \<Longrightarrow>
    task_step lc owner s (Answer i a now)
      (fetch_answer lc call a now (s\<lparr>tb_calls := take i (tb_calls s) @ drop (Suc i) (tb_calls s)\<rparr>))"
| frame: "tasks_from owner c data \<Longrightarrow> task_step lc owner s (Frame c data now) (tasks_frame lc c data now s)"
| add: "has_upid t \<Longrightarrow> distinct (map fst t) \<Longrightarrow> (\<And>c. tb_selected s = Some c \<Longrightarrow> owner (upid_of t) = c) \<Longrightarrow>
    task_step lc owner s (Add t now) (addTask lc t now s)"
| clear: "task_step lc owner s (Clear now) (clearCompletedTasks now s)"
| cancelled: "task_step lc owner s (Cancelled upid) (cancel_answer upid s)"

section \<open>The maps\<close>

definition map_ok :: "task_map \<Rightarrow> bool" where
  "map_ok m \<longleftrightarrow> distinct (map fst m) \<and> (\<forall>(u, t) \<in> set m. upid_of t = u \<and> truthy u \<and> distinct (map fst t))"

definition rows_ok :: "task list \<Rightarrow> bool" where
  "rows_ok ts \<longleftrightarrow> distinct (map upid_of ts) \<and> (\<forall>t \<in> set ts. has_upid t \<and> distinct (map fst t))"

lemma distinct_spread: "distinct (map fst a) \<Longrightarrow> distinct (map fst (spread a b))"
  unfolding spread_def by (induction b arbitrary: a) (auto simp: distinct_update)

lemma upid_spread:
  assumes "distinct (map fst b)" and "has_upid b"
  shows "upid_of (spread a b) = upid_of b"
proof -
  have "''upid'' \<in> fst ` set b"
  proof (rule ccontr)
    assume "''upid'' \<notin> fst ` set b"
    then have "map_of b ''upid'' = None" by (simp add: map_of_eq_None_iff)
    with assms(2) show False by (simp add: has_upid_def upid_of_def prop_of_def)
  qed
  with assms(1) show ?thesis by (simp add: upid_of_def prop_of_spread)
qed

lemma map_ok_update:
  assumes "map_ok m" and "has_upid t" and "upid_of t' = upid_of t" and "distinct (map fst t')"
  shows "map_ok (AList.update (upid_of t) t' m)"
proof -
  have "set (AList.update k v m) \<subseteq> insert (k, v) (set m)" for k :: jval and v
    by (induction m) auto
  with assms show ?thesis
    by (fastforce simp: map_ok_def distinct_update has_upid_def)
qed

lemma map_ok_put: "map_ok m \<Longrightarrow> distinct (map fst t) \<Longrightarrow> map_ok (put_task m t)"
  by (simp add: put_task_def map_ok_update)

lemma map_ok_map_tasks: "\<forall>t \<in> set ts. distinct (map fst t) \<Longrightarrow> map_ok m \<Longrightarrow> map_ok (foldl put_task m ts)"
  by (induction ts arbitrary: m) (auto simp: map_ok_put)

lemma map_ok_put_spread:
  assumes "map_ok m" and "distinct (map fst t)"
  shows "map_ok (put_spread m t)"
proof (cases "has_upid t \<and> map_of m (upid_of t) \<noteq> None")
  case True
  then obtain e where e: "map_of m (upid_of t) = Some e" by blast
  then have "distinct (map fst e)" using assms(1) by (force simp: map_ok_def dest: map_of_SomeD)
  then show ?thesis
    using True e assms by (auto simp: put_spread_def intro!: map_ok_update upid_spread distinct_spread)
next
  case False
  then show ?thesis using assms by (auto simp: put_spread_def intro!: map_ok_update)
qed

lemma map_ok_fold_spread: "\<forall>t \<in> set ts. distinct (map fst t) \<Longrightarrow> map_ok m \<Longrightarrow> map_ok (foldl put_spread m ts)"
  by (induction ts arbitrary: m) (auto simp: map_ok_put_spread)

lemma map_ok_rows: "map_ok m \<Longrightarrow> rows_ok (map snd m)"
proof (induction m)
  case (Cons e m)
  then have "upid_of (snd e) \<notin> upid_of ` snd ` set m" by (force simp: map_ok_def)
  with Cons show ?case by (auto simp: map_ok_def rows_ok_def has_upid_def)
qed (simp add: rows_ok_def)

lemma map_ok_Nil [simp]: "map_ok []"
  by (simp add: map_ok_def)

lemma set_sort_tasks: "set (sort_tasks lc n ts) \<subseteq> set ts"
  using set_take_subset [of n "js_sort (task_cmp lc) ts"] by (simp add: sort_tasks_def)

lemma rows_ok_sort: "rows_ok ts \<Longrightarrow> rows_ok (sort_tasks lc n ts)"
  using set_sort_tasks [of lc n ts]
  by (auto simp: rows_ok_def sort_tasks_def take_map [symmetric] distinct_map_js_sort intro: distinct_take)

lemma length_sort_tasks: "length (sort_tasks lc n ts) \<le> n"
  by (simp add: sort_tasks_def)

lemma sort_tasks_all: "length ts \<le> n \<Longrightarrow> set (sort_tasks lc n ts) = set ts"
  by (simp add: sort_tasks_def)

text \<open>Most recent first.\<close>

lemma sorted_sort_tasks: "sorted (map (\<lambda>t. - starttime_of t) (sort_tasks lc n ts))"
proof -
  have "sorted (map (\<lambda>t. - starttime_of t) (js_sort (task_cmp lc) ts))"
    by (rule sorted_js_sort) (auto simp: task_cmp_def Let_def)
  then show ?thesis unfolding sort_tasks_def take_map [symmetric] by (rule sorted_wrt_take)
qed

section \<open>Where the tasks of a map come from\<close>

lemma put_task_upids: "fst ` set (put_task m t) \<subseteq> fst ` set m \<union> (if has_upid t then {upid_of t} else {})"
  by (auto simp: put_task_def dom_update)

lemma fold_put_upids: "fst ` set (foldl put_task m ts) \<subseteq> fst ` set m \<union> upid_of ` {t \<in> set ts. has_upid t}"
proof (induction ts arbitrary: m)
  case (Cons t ts)
  then show ?case using put_task_upids [of m t] by (force split: if_splits)
qed simp

lemma fold_spread_upids: "fst ` set (foldl put_spread m ts) \<subseteq> fst ` set m \<union> upid_of ` {t \<in> set ts. has_upid t}"
proof (induction ts arbitrary: m)
  case (Cons t ts)
  have "fst ` set (put_spread m t) \<subseteq> fst ` set m \<union> (if has_upid t then {upid_of t} else {})"
    by (auto simp: put_spread_def dom_update)
  with Cons show ?case by (force split: if_splits)
qed simp

lemma map_ok_upids: "map_ok m \<Longrightarrow> upid_of ` snd ` set m = fst ` set m"
  by (force simp: map_ok_def image_iff)

lemma map_tasks_upids: "fst ` set (map_tasks prev) \<subseteq> upid_of ` set prev"
  using fold_put_upids [of "[]" prev] by (auto simp: map_tasks_def)

lemma map_ok_prev: "rows_ok prev \<Longrightarrow> map_ok (map_tasks prev)"
  unfolding map_tasks_def by (intro map_ok_map_tasks) (auto simp: rows_ok_def)

lemma sorted_map_rows:
  assumes "map_ok m"
  shows "rows_ok (sort_tasks lc n (map snd m))" and "upid_of ` set (sort_tasks lc n (map snd m)) \<subseteq> fst ` set m"
proof -
  show "rows_ok (sort_tasks lc n (map snd m))" using assms by (simp add: rows_ok_sort map_ok_rows)
  have "upid_of ` set (sort_tasks lc n (map snd m)) \<subseteq> upid_of ` snd ` set m"
    using set_sort_tasks [of lc n "map snd m"] by auto
  then show "upid_of ` set (sort_tasks lc n (map snd m)) \<subseteq> fst ` set m" by (simp only: map_ok_upids [OF assms])
qed

lemma merge_fetched_rows:
  assumes "rows_ok prev" and "\<forall>t \<in> set data. distinct (map fst t)"
  shows "rows_ok (merge_fetched lc prev data)"
    and "upid_of ` set (merge_fetched lc prev data) \<subseteq> upid_of ` set prev \<union> upid_of ` {t \<in> set data. has_upid t}"
proof -
  have ok: "map_ok (foldl put_spread (map_tasks prev) data)"
    by (rule map_ok_fold_spread [OF assms(2) map_ok_prev [OF assms(1)]])
  show "rows_ok (merge_fetched lc prev data)"
    using assms(1) sorted_map_rows(1) [OF ok] by (simp add: merge_fetched_def)
  have "fst ` set (foldl put_spread (map_tasks prev) data) \<subseteq> upid_of ` set prev \<union> upid_of ` {t \<in> set data. has_upid t}"
    using fold_spread_upids [of "map_tasks prev" data] map_tasks_upids [of prev] by blast
  with sorted_map_rows(2) [OF ok, of lc 50]
  show "upid_of ` set (merge_fetched lc prev data) \<subseteq> upid_of ` set prev \<union> upid_of ` {t \<in> set data. has_upid t}"
    unfolding merge_fetched_def by (cases "data = []") (simp_all only: if_True if_False refl, blast+)
qed

lemma merge_frame_rows:
  assumes "rows_ok prev" and "\<forall>t \<in> set data. distinct (map fst t)"
  shows "rows_ok (merge_frame lc prev data)"
    and "upid_of ` set (merge_frame lc prev data) \<subseteq> upid_of ` set prev \<union> upid_of ` {t \<in> set data. has_upid t}"
proof -
  have ok: "map_ok (foldl put_task (map_tasks prev) data)"
    by (rule map_ok_map_tasks [OF assms(2) map_ok_prev [OF assms(1)]])
  show "rows_ok (merge_frame lc prev data)" using sorted_map_rows(1) [OF ok] by (simp add: merge_frame_def)
  have "fst ` set (foldl put_task (map_tasks prev) data) \<subseteq> upid_of ` set prev \<union> upid_of ` {t \<in> set data. has_upid t}"
    using fold_put_upids [of "map_tasks prev" data] map_tasks_upids [of prev] by blast
  with sorted_map_rows(2) [OF ok, of lc 50]
  show "upid_of ` set (merge_frame lc prev data) \<subseteq> upid_of ` set prev \<union> upid_of ` {t \<in> set data. has_upid t}"
    unfolding merge_frame_def by (rule subset_trans)
qed

lemma upid_tag: "upid_of (tag_cluster cid t) = upid_of t"
  by (simp add: upid_of_def tag_cluster_def prop_of_update)

lemma distinct_tag: "distinct (map fst t) \<Longrightarrow> distinct (map fst (tag_cluster cid t))"
  by (simp add: tag_cluster_def distinct_update)

lemma all_clusters_map_ok:
  assumes "rows_ok prev" and "\<forall>t \<in> set data. distinct (map fst t)"
  shows "map_ok (all_clusters_map cid prev data)"
proof -
  have "map_ok (foldl (\<lambda>acc t. if has_upid t then AList.update (upid_of t) (tag_cluster cid t) acc else acc) m data)"
    if "map_ok m" for m
    using that assms(2)
  proof (induction data arbitrary: m)
    case (Cons t ts)
    have "map_ok (AList.update (upid_of t) (tag_cluster cid t) m)" if "has_upid t"
      using that Cons.prems by (intro map_ok_update) (auto simp: upid_tag distinct_tag)
    with Cons show ?case by simp
  qed simp
  moreover have "map_ok (map_tasks prev)" by (rule map_ok_prev [OF assms(1)])
  moreover have "map_ok (filter P m)" if "map_ok m" for P m
    using that by (auto simp: map_ok_def distinct_map_filter)
  ultimately show ?thesis by (simp add: all_clusters_map_def Let_def)
qed

lemma merge_all_rows:
  assumes "rows_ok prev" and "\<forall>t \<in> set data. distinct (map fst t)"
  shows "rows_ok (merge_all_clusters lc cid prev data)"
  using assms by (simp add: merge_all_clusters_def Let_def rows_ok_sort map_ok_rows all_clusters_map_ok)

lemma first_match:
  assumes "list_ex P xs"
  shows "length (takeWhile (\<lambda>x. \<not> P x) xs) < length xs"
  using assms by (induction xs) auto

lemma add_task_rows:
  assumes "rows_ok prev" and "has_upid t" and "distinct (map fst t)"
  shows "rows_ok (add_task_to lc t prev)"
    and "upid_of ` set (add_task_to lc t prev) \<subseteq> insert (upid_of t) (upid_of ` set prev)"
proof -
  let ?k = "length (takeWhile (\<lambda>i. upid_of i \<noteq> upid_of t) prev)"
  have keep: "map upid_of (prev[?k := spread (prev ! ?k) t]) = map upid_of prev" if "list_ex (\<lambda>i. upid_of i = upid_of t) prev"
  proof -
    have k: "?k < length prev" using first_match [OF that] .
    then have "upid_of (prev ! ?k) = upid_of t" using nth_length_takeWhile [OF k] by simp
    then show ?thesis
      using k assms(2,3) by (simp add: map_update upid_spread list_update_same_conv)
  qed
  have "rows_ok (prev[?k := spread (prev ! ?k) t])" if "list_ex (\<lambda>i. upid_of i = upid_of t) prev"
  proof -
    have k: "?k < length prev" using first_match [OF that] .
    have "prev ! ?k \<in> set prev" using k by simp
    then have "distinct (map fst (spread (prev ! ?k) t))" "has_upid (spread (prev ! ?k) t)"
      using assms by (auto simp: rows_ok_def distinct_spread has_upid_def upid_spread)
    then have "\<forall>x \<in> insert (spread (prev ! ?k) t) (set prev). has_upid x \<and> distinct (map fst x)"
      using assms(1) by (simp add: rows_ok_def)
    then have "\<forall>x \<in> set (prev[?k := spread (prev ! ?k) t]). has_upid x \<and> distinct (map fst x)"
      by (blast dest: subsetD [OF set_update_subset_insert])
    moreover have "distinct (map upid_of (prev[?k := spread (prev ! ?k) t]))"
      unfolding keep [OF that] using assms(1) by (simp add: rows_ok_def)
    ultimately show ?thesis by (simp only: rows_ok_def)
  qed
  moreover have "rows_ok (t # prev)" if "\<not> list_ex (\<lambda>i. upid_of i = upid_of t) prev"
    using that assms by (auto simp: rows_ok_def list_ex_iff)
  ultimately show "rows_ok (add_task_to lc t prev)"
    by (simp add: add_task_to_def Let_def rows_ok_sort)
  show "upid_of ` set (add_task_to lc t prev) \<subseteq> insert (upid_of t) (upid_of ` set prev)"
  proof (cases "list_ex (\<lambda>i. upid_of i = upid_of t) prev")
    case True
    then have "add_task_to lc t prev = prev[?k := spread (prev ! ?k) t]" by (simp add: add_task_to_def Let_def)
    with keep [OF True] show ?thesis by (metis list.set_map subset_insertI)
  next
    case False
    then have "set (add_task_to lc t prev) \<subseteq> insert t (set prev)"
      using set_sort_tasks [of lc 50 "t # prev"] by (simp add: add_task_to_def)
    then show ?thesis by auto
  qed
qed

section \<open>Invariants\<close>

definition task_inv :: "(jval \<Rightarrow> string) \<Rightarrow> task_bar \<Rightarrow> bool" where
  "task_inv owner s \<longleftrightarrow> rows_ok (tb_tasks s) \<and>
     (case tb_selected s of
        None \<Rightarrow> length (tb_tasks s) \<le> 100
      | Some c \<Rightarrow> length (tb_tasks s) \<le> 50 \<and> (\<forall>t \<in> set (tb_tasks s). owner (upid_of t) = c))"

lemma length_add_task: "length (add_task_to lc t prev) \<le> max 50 (length prev)"
  using length_sort_tasks [of lc 50 "t # prev"] by (auto simp: add_task_to_def Let_def)

lemma length_merges:
  "length (merge_fetched lc prev data) \<le> max 50 (length prev)" "length (merge_frame lc prev data) \<le> 50"
  "length (merge_all_clusters lc cid prev data) \<le> max 100 (length prev)"
  using length_sort_tasks by (auto simp: merge_fetched_def merge_frame_def merge_all_clusters_def Let_def le_max_iff_disj)

lemma tasks_fromD: "tasks_from owner c ts \<Longrightarrow> (\<forall>t \<in> set ts. distinct (map fst t)) \<and> (\<forall>t \<in> set ts. has_upid t \<longrightarrow> owner (upid_of t) = c)"
  by (auto simp: tasks_from_def list_all_iff)

lemma owner_subset:
  assumes "upid_of ` set new \<subseteq> upid_of ` set prev \<union> upid_of ` {t \<in> set data. has_upid t}"
    and "\<forall>t \<in> set prev. owner (upid_of t) = c" and "tasks_from owner c data"
  shows "\<forall>t \<in> set new. owner (upid_of t) = c"
proof
  fix t assume "t \<in> set new"
  then have "upid_of t \<in> upid_of ` set prev \<union> upid_of ` {t \<in> set data. has_upid t}" using assms(1) by blast
  with assms(2) tasks_fromD [OF assms(3)] show "owner (upid_of t) = c" by auto
qed

lemma task_inv_answer:
  assumes inv: "task_inv owner s" and data: "\<And>data. a = Some data \<Longrightarrow> tasks_from owner (fc_cluster call) data"
  shows "task_inv owner (fetch_answer lc call a now s)"
proof (cases "\<exists>data. a = Some data \<and> tb_selected s = Some (fc_cluster call)")
  case True
  then obtain data where a: "a = Some data" and sel: "tb_selected s = Some (fc_cluster call)" by blast
  note d = data [OF a]
  have rows: "rows_ok (tb_tasks s)" and own: "\<forall>t \<in> set (tb_tasks s). owner (upid_of t) = fc_cluster call"
    and len: "length (tb_tasks s) \<le> 50" using inv sel by (auto simp: task_inv_def)
  note m = merge_fetched_rows [OF rows conjunct1 [OF tasks_fromD [OF d]], of lc]
  have "length (merge_fetched lc (tb_tasks s) data) \<le> 50" using length_merges(1) [of lc "tb_tasks s" data] len by simp
  with m(1) owner_subset [OF m(2) own d] inv sel show ?thesis
    by (simp add: fetch_answer_def a task_inv_def)
next
  case False
  then show ?thesis using inv by (auto simp: fetch_answer_def split: option.split)
qed

lemma task_inv_frame:
  assumes inv: "task_inv owner s" and d: "tasks_from owner c data"
  shows "task_inv owner (tasks_frame lc c data now s)"
proof (cases "tb_selected s")
  case None
  have rows: "rows_ok (tb_tasks s)" and len: "length (tb_tasks s) \<le> 100" using inv None by (auto simp: task_inv_def)
  have "rows_ok (merge_all_clusters lc (Str c) (tb_tasks s) data)"
    by (rule merge_all_rows [OF rows conjunct1 [OF tasks_fromD [OF d]]])
  moreover have "length (merge_all_clusters lc (Str c) (tb_tasks s) data) \<le> 100"
    using length_merges(3) [of lc "Str c" "tb_tasks s" data] len by simp
  ultimately show ?thesis using inv None by (simp add: tasks_frame_def task_inv_def Let_def)
next
  case (Some sel)
  have rows: "rows_ok (tb_tasks s)" and own: "\<forall>t \<in> set (tb_tasks s). owner (upid_of t) = sel"
    using inv Some by (auto simp: task_inv_def)
  note m = merge_frame_rows [OF rows conjunct1 [OF tasks_fromD [OF d]], of lc]
  show ?thesis
  proof (cases "c = sel")
    case True
    have "length (merge_frame lc (tb_tasks s) data) \<le> 50" by (rule length_merges)
    with m(1) owner_subset [OF m(2) own [folded True] d] inv Some True show ?thesis
      by (simp add: tasks_frame_def task_inv_def)
  next
    case False
    then show ?thesis using inv Some by (simp add: tasks_frame_def)
  qed
qed

lemma task_inv_add:
  assumes inv: "task_inv owner s" and t: "has_upid t" "distinct (map fst t)" and own: "\<And>c. tb_selected s = Some c \<Longrightarrow> owner (upid_of t) = c"
  shows "task_inv owner (addTask lc t now s)"
proof -
  have rows: "rows_ok (tb_tasks s)" using inv by (simp add: task_inv_def)
  note a = add_task_rows [OF rows t, of lc]
  have "owner (upid_of x) = c" if "tb_selected s = Some c" "x \<in> set (add_task_to lc t (tb_tasks s))" for x c
  proof -
    have "upid_of x \<in> insert (upid_of t) (upid_of ` set (tb_tasks s))" using a(2) that(2) by blast
    then show ?thesis using inv own that(1) by (auto simp: task_inv_def)
  qed
  then show ?thesis
    using a(1) inv length_add_task [of lc t "tb_tasks s"] by (auto simp: addTask_def task_inv_def split: option.splits)
qed

lemma rows_ok_filter: "rows_ok ts \<Longrightarrow> rows_ok (filter P ts)"
  by (auto simp: rows_ok_def distinct_map_filter)

lemma cancel_row:
  "upid_of (cancel_row u t) = upid_of t" "has_upid (cancel_row u t) = has_upid t"
  "distinct (map fst t) \<Longrightarrow> distinct (map fst (cancel_row u t))"
  by (simp_all add: cancel_row_def upid_of_def has_upid_def prop_of_update distinct_update)

lemma rows_ok_cancel: "rows_ok ts \<Longrightarrow> rows_ok (map (cancel_row u) ts)"
  by (simp add: rows_ok_def comp_def cancel_row)

lemma task_inv_cancel: "task_inv owner s \<Longrightarrow> task_inv owner (cancel_answer u s)"
  by (auto simp: cancel_answer_def task_inv_def rows_ok_cancel cancel_row split: option.splits)

lemma task_inv_step:
  assumes inv: "task_inv owner s" and step: "task_step lc owner s e s'"
  shows "task_inv owner s'"
  using step
proof cases
  case (select sel now)
  then show ?thesis using inv
    by (auto simp: select_cluster_def fetch_start_def task_inv_def rows_ok_def Let_def split: option.splits)
next
  case (hyperv host now)
  then show ?thesis using inv
    by (auto simp: select_hyperv_def fetch_start_def task_inv_def rows_ok_def split: option.splits)
next
  case (poll c now)
  have "task_inv owner (fetch_start c now s)" using inv by (simp add: fetch_start_def task_inv_def split: option.splits)
  with poll inv show ?thesis by (simp add: poll_tasks_def)
next
  case (answer i call a now)
  have "task_inv owner (s\<lparr>tb_calls := take i (tb_calls s) @ drop (Suc i) (tb_calls s)\<rparr>)"
    using inv by (simp add: task_inv_def split: option.splits)
  with answer show ?thesis by (auto intro: task_inv_answer)
next
  case (clear now)
  then show ?thesis using inv
    by (auto simp: clearCompletedTasks_def task_inv_def rows_ok_filter split: option.splits intro: le_trans [OF length_filter_le])
qed (use inv in \<open>auto intro: task_inv_frame task_inv_add task_inv_cancel\<close>)

lemma task_inv_new: "task_inv owner task_bar_new"
  by (simp add: task_inv_def task_bar_new_def rows_ok_def)

interpretation task_bar: step_machine "task_step lc owner" "\<lambda>s. s = task_bar_new" "task_inv owner" for lc owner
  by unfold_locales (auto simp: task_inv_new intro: task_inv_step)

section \<open>Properties\<close>

text \<open>C25. Whatever order the answers of \<open>fetchTasks\<close>, the frames and the clicks come in: while a cluster is
  selected every task shown is one of that cluster, no task is shown twice, and at most 50 (in the
  view of all clusters 100) are shown.\<close>

theorem tasks_of_selected:
  assumes "steps (task_step lc owner) task_bar_new es s"
  shows "distinct (map upid_of (tb_tasks s)) \<and>
    length (tb_tasks s) \<le> (if tb_selected s = None then 100 else 50) \<and>
    list_all (\<lambda>t. case tb_selected s of None \<Rightarrow> True | Some c \<Rightarrow> owner (upid_of t) = c) (tb_tasks s)"
proof -
  have "task_inv owner s" by (rule task_bar.inv_run [OF _ assms]) simp
  then show ?thesis by (auto simp: task_inv_def rows_ok_def list_all_iff split: option.splits)
qed

definition demo_task :: "string \<Rightarrow> int \<Rightarrow> task" where
  "demo_task u start = [(''upid'', Str u), (''starttime'', Num start), (''status'', Str ''running'')]"

definition demo_owner :: "jval \<Rightarrow> string" where
  "demo_owner u = (if u = Str ''a1'' then ''A'' else ''B'')"

text \<open>The answer for the cluster left behind arrives after the switch and is dropped.\<close>

definition demo_switch :: "task_event list" where
  "demo_switch = [Select (Some ''A'') 10, Select (Some ''B'') 20, Answer 0 (Some [demo_task ''a1'' 5]) 30,
     Frame ''B'' [demo_task ''b1'' 7] 40]"

lemma demo_switch_run:
  "\<exists>s. steps (task_step (\<lambda>_ _. 0) demo_owner) task_bar_new demo_switch s \<and> map upid_of (tb_tasks s) = [Str ''b1''] \<and>
     tb_selected s = Some ''B''"
proof -
  let ?s1 = "select_cluster (Some ''A'') 10 task_bar_new"
  let ?s2 = "select_cluster (Some ''B'') 20 ?s1"
  have calls: "map fc_cluster (tb_calls ?s2) = [''A'', ''A'', ''B'', ''B'']" "map fc_gen (tb_calls ?s2) = [1, 1, 2, 2]" "tb_gen ?s2 = 2"
    "tb_tasks ?s2 = []" "tb_selected ?s2 = Some ''B''"
    by (simp_all add: select_cluster_def task_bar_new_def fetch_start_def Let_def)
  let ?c = "tb_calls ?s2 ! 0"
  have c: "fc_cluster ?c = ''A''" "0 < length (tb_calls ?s2)"
    using calls(1) by (auto simp: nth_map [of 0 "tb_calls ?s2" fc_cluster, symmetric])
  have f: "tasks_from demo_owner ''A'' [demo_task ''a1'' 5]" "tasks_from demo_owner ''B'' [demo_task ''b1'' 7]"
    by (simp_all add: tasks_from_def demo_task_def demo_owner_def upid_of_def prop_of_def)
  let ?s3 = "fetch_answer (\<lambda>_ _. 0) ?c (Some [demo_task ''a1'' 5]) 30 (?s2\<lparr>tb_calls := take 0 (tb_calls ?s2) @ drop (Suc 0) (tb_calls ?s2)\<rparr>)"
  have s3: "tb_selected ?s3 = Some ''B''" "tb_tasks ?s3 = []"
    using c calls by (simp_all add: fetch_answer_def)
  let ?s4 = "tasks_frame (\<lambda>_ _. 0) ''B'' [demo_task ''b1'' 7] 40 ?s3"
  have t4: "tb_tasks ?s4 = [demo_task ''b1'' 7]" "tb_selected ?s4 = Some ''B''"
    using s3 by (simp_all add: tasks_frame_def merge_frame_def map_tasks_def put_task_def has_upid_def upid_of_def
        demo_task_def prop_of_def sort_tasks_def js_sort_def)
  have run: "steps (task_step (\<lambda>_ _. 0) demo_owner) task_bar_new demo_switch ?s4"
  proof -
    have 1: "task_step (\<lambda>_ _. 0) demo_owner task_bar_new (Select (Some ''A'') 10) ?s1"
      and 2: "task_step (\<lambda>_ _. 0) demo_owner ?s1 (Select (Some ''B'') 20) ?s2"
      by (rule task_step.select)+
    have 3: "task_step (\<lambda>_ _. 0) demo_owner ?s2 (Answer 0 (Some [demo_task ''a1'' 5]) 30) ?s3"
      by (rule task_step.answer [OF c(2) refl]) (simp add: c(1) f(1))
    have 4: "task_step (\<lambda>_ _. 0) demo_owner ?s3 (Frame ''B'' [demo_task ''b1'' 7] 40) ?s4"
      by (rule task_step.frame [OF f(2)])
    show ?thesis
      unfolding demo_switch_def
      by (rule steps_cons, rule 1, rule steps_cons, rule 2, rule steps_cons, rule 3, rule steps_cons, rule 4, rule steps_nil)
  qed
  have "map upid_of [demo_task ''b1'' 7] = [Str ''b1'']"
    by (simp add: demo_task_def upid_of_def prop_of_def)
  then have "map upid_of (tb_tasks ?s4) = [Str ''b1'']" unfolding t4(1) .
  with run t4(2) show ?thesis by (intro exI [of _ ?s4] conjI)
qed

theorem tasks_of_selected_witness:
  "\<exists>s. steps (task_step (\<lambda>_ _. 0) demo_owner) task_bar_new demo_switch s \<and> map upid_of (tb_tasks s) = [Str ''b1''] \<and>
     list_all (\<lambda>t. demo_owner (upid_of t) = ''B'') (tb_tasks s)"
proof -
  obtain s where s: "steps (task_step (\<lambda>_ _. 0) demo_owner) task_bar_new demo_switch s"
    "map upid_of (tb_tasks s) = [Str ''b1'']" "tb_selected s = Some ''B''"
    using demo_switch_run by (elim exE conjE)
  have "list_all (\<lambda>t. demo_owner (upid_of t) = ''B'') (tb_tasks s)"
    using tasks_of_selected [OF s(1)] unfolding s(3) by simp
  with s(1,2) show ?thesis by (intro exI [of _ s] conjI)
qed

text \<open>\<open>fetchTasks\<close> drops the answer unless the cluster it asked for is the selected one, and a Hyper-V host is selected
  with no cluster selected: the initial read and the poll of its task list never show a task.\<close>

definition hyperv_only :: "task_event \<Rightarrow> bool" where
  "hyperv_only e = (case e of Select_Hyperv h n \<Rightarrow> True | Poll c n \<Rightarrow> True | Answer i a n \<Rightarrow> True | Clear n \<Rightarrow> True | _ \<Rightarrow> False)"

theorem hyperv_tasks_never_fetched:
  assumes "steps (task_step lc owner) s es s'" and "list_all hyperv_only es" and "tb_selected s = None" and "tb_tasks s = []"
  shows "tb_tasks s' = [] \<and> tb_selected s' = None"
  using assms
proof (induction rule: steps.induct)
  case (steps_cons s e s' es s'')
  from steps_cons.hyps(1) steps_cons.prems have "tb_selected s' = None \<and> tb_tasks s' = []"
    by cases (auto simp: hyperv_only_def select_hyperv_def poll_tasks_def fetch_start_def fetch_answer_def
        clearCompletedTasks_def split: option.split)
  with steps_cons show ?case by simp
qed simp

theorem hyperv_tasks_never_fetched_witness:
  "\<exists>s. steps (task_step (\<lambda>_ _. 0) (\<lambda>_. ''hv'')) task_bar_new [Select_Hyperv ''hv'' 10, Answer 0 (Some [demo_task ''h1'' 5]) 20] s \<and>
     tb_tasks s = []"
proof -
  let ?s1 = "select_hyperv ''hv'' 10 task_bar_new"
  have c: "0 < length (tb_calls ?s1)" by (simp add: select_hyperv_def task_bar_new_def fetch_start_def)
  have f: "tasks_from (\<lambda>_. ''hv'') (fc_cluster (tb_calls ?s1 ! 0)) [demo_task ''h1'' 5]"
    by (simp add: tasks_from_def demo_task_def select_hyperv_def task_bar_new_def fetch_start_def)
  have 1: "task_step (\<lambda>_ _. 0) (\<lambda>_. ''hv'') task_bar_new (Select_Hyperv ''hv'' 10) ?s1"
    by (rule task_step.hyperv)
  obtain s where 2: "task_step (\<lambda>_ _. 0) (\<lambda>_. ''hv'') ?s1 (Answer 0 (Some [demo_task ''h1'' 5]) 20) s"
    using task_step.answer [OF c refl, of "Some [demo_task ''h1'' 5]"] f by (metis option.inject)
  have s: "steps (task_step (\<lambda>_ _. 0) (\<lambda>_. ''hv'')) task_bar_new
      [Select_Hyperv ''hv'' 10, Answer 0 (Some [demo_task ''h1'' 5]) 20] s"
    by (rule steps_cons, rule 1, rule steps_cons, rule 2, rule steps_nil)
  from hyperv_tasks_never_fetched [OF s] have "tb_tasks s = []"
    by (simp add: hyperv_only_def task_bar_new_def)
  with s show ?thesis by (intro exI [of _ s] conjI)
qed

lemma prop_tag: "prop_of (tag_cluster cid t) ''cluster_id'' = cid"
  by (simp add: tag_cluster_def prop_of_update)

lemma update_mem: "(k, v) \<in> set (AList.update k v m)" "(l, w) \<in> set m \<Longrightarrow> l \<noteq> k \<Longrightarrow> (l, w) \<in> set (AList.update k v m)"
  by (induction m) auto

lemma all_clusters_sent:
  assumes "d \<in> set data" and "\<forall>t \<in> set data. has_upid t"
  shows "\<exists>t. (upid_of d, t) \<in> set (foldl (\<lambda>acc t. if has_upid t then AList.update (upid_of t) (tag_cluster cid t) acc else acc) m data) \<and>
    prop_of t ''cluster_id'' = cid"
  using assms
proof (induction data rule: rev_induct)
  case (snoc x xs)
  show ?case
  proof (cases "upid_of x = upid_of d")
    case True
    then show ?thesis using snoc.prems prop_tag by (auto intro: update_mem)
  next
    case False
    then have "d \<in> set xs" "\<forall>t \<in> set xs. has_upid t" using snoc.prems by auto
    from snoc.IH [OF this] obtain t where t: "prop_of t ''cluster_id'' = cid"
      "(upid_of d, t) \<in> set (foldl (\<lambda>acc t. if has_upid t then AList.update (upid_of t) (tag_cluster cid t) acc else acc) m xs)"
      by blast
    show ?thesis using t(1) update_mem(2) [OF t(2), of "upid_of x"] t(2) False by auto
  qed
qed simp

lemma all_clusters_kept:
  assumes "(u, t) \<in> set m" and "u \<notin> upid_of ` set data"
  shows "(u, t) \<in> set (foldl (\<lambda>acc t. if has_upid t then AList.update (upid_of t) (tag_cluster cid t) acc else acc) m data)"
  using assms by (induction data arbitrary: m) (auto intro: update_mem)

lemma map_tasks_mem:
  assumes "rows_ok prev" and "t \<in> set prev"
  shows "(upid_of t, t) \<in> set (map_tasks prev)"
  using assms
proof (induction prev rule: rev_induct)
  case (snoc x xs)
  show ?case
  proof (cases "t = x")
    case True
    with snoc.prems show ?thesis by (auto simp: map_tasks_def put_task_def rows_ok_def intro: update_mem)
  next
    case False
    have t: "t \<in> set xs" "rows_ok xs" using False snoc.prems by (auto simp: rows_ok_def)
    have "upid_of x \<notin> upid_of ` set xs" using snoc.prems(1) by (simp add: rows_ok_def)
    with t(1) have t3: "upid_of t \<noteq> upid_of x" by (metis imageI)
    from update_mem(2) [OF snoc.IH [OF t(2,1)] t3] snoc.prems(1) show ?thesis
      by (simp add: map_tasks_def put_task_def rows_ok_def)
  qed
qed simp

text \<open>In the view of all clusters a frame is authoritative for its cluster: the tasks shown for it
  are exactly the ones reported, and the tasks of the others stay.\<close>

theorem all_clusters_frame_exact:
  assumes "rows_ok prev" and "\<forall>t \<in> set data. distinct (map fst t) \<and> has_upid t" and "length (all_clusters_map cid prev data) \<le> 100"
    and "\<not> same_rows (merge_all_clusters lc cid prev data) prev"
  shows "upid_of ` {t \<in> set (merge_all_clusters lc cid prev data). prop_of t ''cluster_id'' = cid} = upid_of ` set data \<and>
    {t \<in> set prev. prop_of t ''cluster_id'' \<noteq> cid \<and> upid_of t \<notin> upid_of ` set data} \<subseteq> set (merge_all_clusters lc cid prev data)"
proof -
  let ?put = "\<lambda>acc t. if has_upid t then AList.update (upid_of t) (tag_cluster cid t) acc else acc"
  let ?m1 = "foldl ?put (map_tasks prev) data" and ?m = "all_clusters_map cid prev data"
  have ok: "map_ok ?m" using assms(1,2) by (intro all_clusters_map_ok) auto
  have m: "(u, t) \<in> set ?m \<longleftrightarrow> (u, t) \<in> set ?m1 \<and> \<not> (prop_of t ''cluster_id'' = cid \<and> u \<notin> upid_of ` set data)" for u t
    using assms(2) by (auto simp: all_clusters_map_def Let_def has_upid_def)
  have "data \<noteq> []"
  proof
    assume "data = []"
    then have "merge_all_clusters lc cid prev data = prev" by (simp add: merge_all_clusters_def)
    with assms(4) show False by (simp add: same_rows_def list_all2_same)
  qed
  then have res: "set (merge_all_clusters lc cid prev data) = snd ` set ?m"
    using assms(3,4) by (auto simp: merge_all_clusters_def Let_def same_rows_def list_all2_same sort_tasks_all split: if_splits)
  have sent: "\<exists>t. (upid_of d, t) \<in> set ?m1 \<and> prop_of t ''cluster_id'' = cid" if "d \<in> set data" for d
    using all_clusters_sent [OF that, of cid "map_tasks prev"] assms(2) by simp
  have kept: "(upid_of t, t) \<in> set ?m1" if "t \<in> set prev" "upid_of t \<notin> upid_of ` set data" for t
    using that assms(1) by (intro all_clusters_kept map_tasks_mem)
  have "upid_of ` {t \<in> set (merge_all_clusters lc cid prev data). prop_of t ''cluster_id'' = cid} \<subseteq> upid_of ` set data"
  proof
    fix u assume "u \<in> upid_of ` {t \<in> set (merge_all_clusters lc cid prev data). prop_of t ''cluster_id'' = cid}"
    then obtain t k where t: "u = upid_of t" "(k, t) \<in> set ?m" "prop_of t ''cluster_id'' = cid" by (auto simp: res)
    moreover have "upid_of t = k" using ok t(2) by (auto simp: map_ok_def)
    ultimately show "u \<in> upid_of ` set data" using m [of k t] by simp
  qed
  moreover have "upid_of ` set data \<subseteq> upid_of ` {t \<in> set (merge_all_clusters lc cid prev data). prop_of t ''cluster_id'' = cid}"
  proof
    fix u assume "u \<in> upid_of ` set data"
    then obtain d t where d: "d \<in> set data" "u = upid_of d" "(u, t) \<in> set ?m1" "prop_of t ''cluster_id'' = cid" using sent by blast
    then have "(u, t) \<in> set ?m" by (auto simp: m)
    then have "upid_of t = u" "t \<in> set (merge_all_clusters lc cid prev data)" using ok by (force simp: map_ok_def res)+
    with d(4) show "u \<in> upid_of ` {t \<in> set (merge_all_clusters lc cid prev data). prop_of t ''cluster_id'' = cid}" by blast
  qed
  moreover have "t \<in> set (merge_all_clusters lc cid prev data)"
    if "t \<in> set prev" "prop_of t ''cluster_id'' \<noteq> cid" "upid_of t \<notin> upid_of ` set data" for t
  proof -
    have "(upid_of t, t) \<in> set ?m" using kept [OF that(1,3)] that(2) by (simp only: m simp_thms)
    then show ?thesis unfolding res by (force intro: image_eqI [of _ _ "(upid_of t, t)"])
  qed
  ultimately show ?thesis by blast
qed

theorem all_clusters_frame_exact_witness:
  "upid_of ` {t \<in> set (merge_all_clusters (\<lambda>_ _. 0) (Str ''B'') [tag_cluster (Str ''A'') (demo_task ''a1'' 5), tag_cluster (Str ''B'') (demo_task ''b1'' 4)]
     [demo_task ''b2'' 7]). prop_of t ''cluster_id'' = Str ''B''} = {Str ''b2''}"
proof -
  let ?prev = "[tag_cluster (Str ''A'') (demo_task ''a1'' 5), tag_cluster (Str ''B'') (demo_task ''b1'' 4)]"
  let ?data = "[demo_task ''b2'' 7]"
  have 1: "rows_ok ?prev" by code_simp
  have 2: "\<forall>t \<in> set ?data. distinct (map fst t) \<and> has_upid t" by code_simp
  have 3: "length (all_clusters_map (Str ''B'') ?prev ?data) \<le> 100" by code_simp
  have 4: "\<not> same_rows (merge_all_clusters (\<lambda>_ _. 0) (Str ''B'') ?prev ?data) ?prev" by code_simp
  have "upid_of ` set ?data = {Str ''b2''}" by (simp add: upid_of_def demo_task_def prop_of_def)
  then show ?thesis using conjunct1 [OF all_clusters_frame_exact [OF 1 2 3 4]] by (simp only:)
qed

end
