(* ===== verification/Sse_Connection.thy ===== *)
theory Sse_Connection
  imports Js_Prelude
begin

text \<open>
  The live connection of the dashboard (web/src/dashboard.js): the effect that opens the event
  stream. \<open>sse\<close> holds the variables of its closure together with what the browser keeps for them: the
  event sources made so far, the timers armed and the calls suspended in \<open>await getSseToken()\<close>. One
  function per callback; \<open>sse_exec\<close> says when the browser can run it.
\<close>

datatype ready_state = Connecting | Opened | Closed

record event_source =
  es_token :: string
  es_clusters :: "string list"
  es_state :: ready_state

text \<open>Where a call waits for the token: in \<open>connectSSE\<close>, in the reconnect timer, in the refresh.\<close>

datatype waiter = In_Connect | In_Reconnect | In_Refresh

record sse =
  ss_closing :: bool
  ss_sources :: "event_source list"
  ss_current :: "nat option"
  ss_token :: string
  ss_attempts :: nat
  ss_timers :: "(nat \<times> int) list"
  ss_timer_ref :: "nat option"
  ss_next_timer :: nat
  ss_waiting :: "waiter list"
  ss_delayed :: nat
  ss_refresh :: bool
  ss_health :: bool
  ss_connected :: bool
  ss_last :: int

definition sse_new :: "int \<Rightarrow> sse" where
  "sse_new t0 = \<lparr>ss_closing = False, ss_sources = [], ss_current = None, ss_token = [], ss_attempts = 0,
     ss_timers = [], ss_timer_ref = None, ss_next_timer = 0, ss_waiting = [], ss_delayed = 0,
     ss_refresh = False, ss_health = False, ss_connected = False, ss_last = t0\<rparr>"

text \<open>What the refs say when the URL is built: the selected cluster, the selected Hyper-V host, the
  sidebar entries with their expansion.\<close>

record sse_view =
  vw_cluster :: "string option"
  vw_hyperv :: "string option"
  vw_expanded :: "(string \<times> bool) list"

definition active_clusters :: "sse_view \<Rightarrow> string list" where
  "active_clusters v =
     rev (remdups (rev ((case vw_cluster v of None \<Rightarrow> [] | Some c \<Rightarrow> [c]) @
       (case vw_hyperv v of None \<Rightarrow> [] | Some h \<Rightarrow> [h]) @ map fst (filter snd (vw_expanded v)))))"

definition close_current :: "sse \<Rightarrow> sse" where
  "close_current s =
     (case ss_current s of
        None \<Rightarrow> s
      | Some i \<Rightarrow> s\<lparr>ss_sources := (ss_sources s)[i := (ss_sources s ! i)\<lparr>es_state := Closed\<rparr>]\<rparr>)"

text \<open>\<open>connectSSE\<close> up to its \<open>await\<close>.\<close>

definition connectSSE :: "sse \<Rightarrow> sse" where
  "connectSSE s = (if ss_closing s then s else s\<lparr>ss_waiting := ss_waiting s @ [In_Connect]\<rparr>)"

definition sse_mount :: "bool \<Rightarrow> sse \<Rightarrow> sse" where
  "sse_mount signed_in s = (if signed_in then (connectSSE s)\<lparr>ss_health := True\<rparr> else s)"

text \<open>\<open>connectSSE\<close> from the token on.\<close>

definition open_source :: "sse_view \<Rightarrow> sse \<Rightarrow> sse" where
  "open_source v s =
     (if ss_token s = [] then s
      else s\<lparr>ss_sources := ss_sources s @ [\<lparr>es_token = ss_token s, es_clusters = active_clusters v, es_state = Connecting\<rparr>],
             ss_current := Some (length (ss_sources s))\<rparr>)"

text \<open>The refresh once the token is there.\<close>

definition refresh_done :: "bool \<Rightarrow> sse \<Rightarrow> sse" where
  "refresh_done got s =
     (if got
      then (let was = ss_closing s;
                s1 = close_current (s\<lparr>ss_closing := True\<rparr>)
            in s1\<lparr>ss_closing := was, ss_delayed := ss_delayed s + 1\<rparr>)
      else s)"

text \<open>\<open>getSseToken\<close> returns: \<open>None\<close> when the request failed, else the token.\<close>

definition token_answer :: "waiter \<Rightarrow> string option \<Rightarrow> sse_view \<Rightarrow> sse \<Rightarrow> sse" where
  "token_answer w a v s =
     (let s1 = (case a of None \<Rightarrow> s | Some t \<Rightarrow> s\<lparr>ss_token := t\<rparr>)
      in case w of
           In_Connect \<Rightarrow> open_source v s1
         | In_Reconnect \<Rightarrow> connectSSE s1
         | In_Refresh \<Rightarrow> refresh_done (a \<noteq> None) s1)"

definition set_state :: "nat \<Rightarrow> ready_state \<Rightarrow> sse \<Rightarrow> sse" where
  "set_state i r s = s\<lparr>ss_sources := (ss_sources s)[i := (ss_sources s ! i)\<lparr>es_state := r\<rparr>]\<rparr>"

definition sse_onopen :: "nat \<Rightarrow> sse \<Rightarrow> sse" where
  "sse_onopen i s = (set_state i Opened s)\<lparr>ss_attempts := 0, ss_connected := True, ss_refresh := True\<rparr>"

definition sse_onmessage :: "int \<Rightarrow> sse \<Rightarrow> sse" where
  "sse_onmessage now s = s\<lparr>ss_last := now\<rparr>"

definition reconnect_delay :: "nat \<Rightarrow> int" where
  "reconnect_delay attempts = min (1000 * 2 ^ attempts) 30000"

definition sse_onerror :: "nat \<Rightarrow> bool \<Rightarrow> sse \<Rightarrow> sse" where
  "sse_onerror i fatal s =
     (let s1 = close_current ((set_state i (if fatal then Closed else Connecting) s)\<lparr>ss_connected := False\<rparr>)
      in if ss_closing s1 then s1
         else s1\<lparr>ss_attempts := ss_attempts s + 1,
                 ss_timers := ss_timers s @ [(ss_next_timer s, reconnect_delay (ss_attempts s))],
                 ss_timer_ref := Some (ss_next_timer s), ss_next_timer := ss_next_timer s + 1\<rparr>)"

definition reconnect_fires :: "nat \<Rightarrow> sse \<Rightarrow> sse" where
  "reconnect_fires k s = s\<lparr>ss_timers := take k (ss_timers s) @ drop (Suc k) (ss_timers s),
     ss_waiting := ss_waiting s @ [In_Reconnect]\<rparr>"

definition refresh_tick :: "sse \<Rightarrow> sse" where
  "refresh_tick s = s\<lparr>ss_waiting := ss_waiting s @ [In_Refresh]\<rparr>"

definition looks_closed :: "sse \<Rightarrow> bool" where
  "looks_closed s = (case ss_current s of None \<Rightarrow> False | Some i \<Rightarrow> es_state (ss_sources s ! i) = Closed)"

definition sse_wedged :: "int \<Rightarrow> sse \<Rightarrow> bool" where
  "sse_wedged now s \<longleftrightarrow> 0 < ss_last s \<and> ss_last s + 30000 < now"

definition health_check :: "int \<Rightarrow> sse \<Rightarrow> sse" where
  "health_check now s =
     (if ss_closing s then s
      else if looks_closed s \<or> sse_wedged now s then connectSSE (close_current (s\<lparr>ss_attempts := 0\<rparr>))
      else s)"

definition sse_unmount :: "sse \<Rightarrow> sse" where
  "sse_unmount s = close_current (s\<lparr>ss_closing := True,
     ss_timers := (case ss_timer_ref s of None \<Rightarrow> ss_timers s | Some k \<Rightarrow> filter (\<lambda>(i, _). i \<noteq> k) (ss_timers s)),
     ss_refresh := False, ss_health := False\<rparr>)"

datatype sse_event =
    Mount bool
  | Token nat "string option" sse_view
  | Source_Open nat
  | Source_Message nat int
  | Source_Error nat bool
  | Timer nat
  | Delayed
  | Refresh
  | Health int
  | Unmount

definition source_in :: "sse \<Rightarrow> nat \<Rightarrow> ready_state list \<Rightarrow> bool" where
  "source_in s i rs \<longleftrightarrow> i < length (ss_sources s) \<and> es_state (ss_sources s ! i) \<in> set rs"

text \<open>What the browser can run next. A closed source fires no events; a source that is not closed may
  open, deliver and fail, whether or not \<open>eventSource\<close> still points to it.\<close>

definition sse_exec :: "sse \<Rightarrow> sse_event \<Rightarrow> sse option" where
  "sse_exec s e =
     (case e of
        Mount signed_in \<Rightarrow> if ss_closing s \<or> ss_health s then None else Some (sse_mount signed_in s)
      | Token k a v \<Rightarrow>
          if k < length (ss_waiting s)
          then Some (token_answer (ss_waiting s ! k) a v (s\<lparr>ss_waiting := take k (ss_waiting s) @ drop (Suc k) (ss_waiting s)\<rparr>))
          else None
      | Source_Open i \<Rightarrow> if source_in s i [Connecting] then Some (sse_onopen i s) else None
      | Source_Message i now \<Rightarrow> if source_in s i [Opened] then Some (sse_onmessage now s) else None
      | Source_Error i fatal \<Rightarrow> if source_in s i [Connecting, Opened] then Some (sse_onerror i fatal s) else None
      | Timer k \<Rightarrow> if k < length (ss_timers s) then Some (reconnect_fires k s) else None
      | Delayed \<Rightarrow> if 0 < ss_delayed s then Some (connectSSE (s\<lparr>ss_delayed := ss_delayed s - 1\<rparr>)) else None
      | Refresh \<Rightarrow> if ss_refresh s then Some (refresh_tick s) else None
      | Health now \<Rightarrow> if ss_health s then Some (health_check now s) else None
      | Unmount \<Rightarrow> if ss_health s then Some (sse_unmount s) else None)"

definition sse_step :: "sse \<Rightarrow> sse_event \<Rightarrow> sse \<Rightarrow> bool" where
  "sse_step s e s' \<longleftrightarrow> sse_exec s e = Some s'"

section \<open>One connection at a time\<close>

text \<open>Reconnections under way. A run is calm when an error, a refresh or a health check comes only
  while none is.\<close>

definition sse_pending :: "sse \<Rightarrow> nat" where
  "sse_pending s = length (ss_waiting s) + length (ss_timers s) + ss_delayed s"

definition disturbs :: "sse_event \<Rightarrow> bool" where
  "disturbs e = (case e of Source_Error i f \<Rightarrow> True | Refresh \<Rightarrow> True | Health n \<Rightarrow> True | _ \<Rightarrow> False)"

definition calm_step :: "sse \<Rightarrow> sse_event \<Rightarrow> sse \<Rightarrow> bool" where
  "calm_step s e s' \<longleftrightarrow> sse_step s e s' \<and> (disturbs e \<longrightarrow> sse_pending s = 0)"

definition all_closed :: "sse \<Rightarrow> bool" where
  "all_closed s \<longleftrightarrow> (\<forall>x \<in> set (ss_sources s). es_state x = Closed)"

definition only_current :: "sse \<Rightarrow> bool" where
  "only_current s \<longleftrightarrow> (\<forall>i < length (ss_sources s). es_state (ss_sources s ! i) \<noteq> Closed \<longrightarrow> ss_current s = Some i)"

definition sse_inv :: "sse \<Rightarrow> bool" where
  "sse_inv s \<longleftrightarrow> (ss_current s = None \<longrightarrow> ss_sources s = []) \<and> (\<forall>i. ss_current s = Some i \<longrightarrow> i < length (ss_sources s)) \<and>
     list_all (\<lambda>x. es_token x \<noteq> []) (ss_sources s) \<and> list_all (\<lambda>(k, d). 1000 \<le> d \<and> d \<le> 30000) (ss_timers s)"

definition calm_inv :: "sse \<Rightarrow> bool" where
  "calm_inv s \<longleftrightarrow> sse_inv s \<and> only_current s \<and> sse_pending s \<le> 1 \<and>
     (sse_pending s = 1 \<longrightarrow> ss_waiting s = [In_Refresh] \<or> all_closed s) \<and>
     (\<not> ss_health s \<and> \<not> ss_closing s \<longrightarrow> sse_pending s = 0 \<and> ss_sources s = [] \<and> \<not> ss_refresh s)"

lemma all_closed_only: "all_closed s \<Longrightarrow> only_current s"
  by (auto simp: all_closed_def only_current_def)

lemma close_current_closes:
  assumes "sse_inv s" and "only_current s"
  shows "all_closed (close_current s)"
proof (cases "ss_current s")
  case None
  with assms(1) show ?thesis by (simp add: close_current_def all_closed_def sse_inv_def)
next
  case (Some i)
  with assms(1) have i: "i < length (ss_sources s)" by (simp add: sse_inv_def)
  have "es_state ((ss_sources s)[i := (ss_sources s ! i)\<lparr>es_state := Closed\<rparr>] ! j) = Closed" if "j < length (ss_sources s)" for j
  proof (cases "j = i")
    case False
    then have "ss_current s \<noteq> Some j" using Some by simp
    then have "es_state (ss_sources s ! j) = Closed" using assms(2) that by (auto simp: only_current_def)
    with False show ?thesis by simp
  qed (use i in simp)
  then show ?thesis by (simp add: Some close_current_def all_closed_def all_set_conv_all_nth)
qed

lemma close_current_frame [simp]:
  "ss_waiting (close_current s) = ss_waiting s" "ss_timers (close_current s) = ss_timers s"
  "ss_delayed (close_current s) = ss_delayed s" "ss_closing (close_current s) = ss_closing s"
  "ss_health (close_current s) = ss_health s" "ss_current (close_current s) = ss_current s"
  "length (ss_sources (close_current s)) = length (ss_sources s)"
  by (simp_all add: close_current_def split: option.split)

lemma tokens_update:
  assumes "list_all (\<lambda>x. es_token x \<noteq> []) xs" and "i < length xs"
  shows "list_all (\<lambda>x. es_token x \<noteq> []) (xs[i := (xs ! i)\<lparr>es_state := r\<rparr>])"
proof -
  have "es_token (xs ! i) \<noteq> []" using assms by (simp add: list_all_length)
  then show ?thesis using assms by (simp add: list_all_length nth_list_update)
qed

lemma sse_inv_set_state:
  assumes "sse_inv s" and "i < length (ss_sources s)"
  shows "sse_inv (set_state i r s)"
proof -
  have "ss_sources s \<noteq> []" using assms(2) by auto
  with assms tokens_update [of "ss_sources s" i r] show ?thesis by (simp add: sse_inv_def set_state_def)
qed

lemma close_current_set_state: "ss_current s = Some i \<Longrightarrow> close_current s = set_state i Closed s"
  by (simp add: close_current_def set_state_def)

lemma sse_inv_close:
  assumes "sse_inv s"
  shows "sse_inv (close_current s)"
proof (cases "ss_current s")
  case (Some i)
  with assms have "i < length (ss_sources s)" by (simp add: sse_inv_def)
  from sse_inv_set_state [OF assms this] show ?thesis by (simp add: close_current_set_state [OF Some])
qed (use assms in \<open>simp add: close_current_def\<close>)

lemma delay_bounds: "1000 \<le> reconnect_delay n \<and> reconnect_delay n \<le> 30000"
proof -
  have "1 \<le> (2::int) ^ n" by simp
  then show ?thesis unfolding reconnect_delay_def by linarith
qed

lemma sse_inv_cong:
  "ss_current s' = ss_current s \<Longrightarrow> ss_sources s' = ss_sources s \<Longrightarrow> set (ss_timers s') \<subseteq> set (ss_timers s) \<Longrightarrow> sse_inv s \<Longrightarrow> sse_inv s'"
  by (auto simp: sse_inv_def list_all_iff)

lemma sse_inv_connect: "sse_inv s \<Longrightarrow> sse_inv (connectSSE s)"
  by (simp add: connectSSE_def sse_inv_def)

lemma sse_inv_token: "sse_inv s \<Longrightarrow> sse_inv (token_answer w a v s)"
proof -
  assume inv: "sse_inv s"
  let ?s1 = "case a of None \<Rightarrow> s | Some t \<Rightarrow> s\<lparr>ss_token := t\<rparr>"
  have 1: "sse_inv ?s1" using inv by (cases a) (simp_all add: sse_inv_def)
  have "sse_inv (open_source v ?s1)" using 1 by (auto simp: open_source_def sse_inv_def)
  moreover have "sse_inv (refresh_done g ?s1)" for g
  proof -
    have "sse_inv (close_current (?s1\<lparr>ss_closing := True\<rparr>))" using 1 by (intro sse_inv_close) (simp add: sse_inv_def)
    with 1 show ?thesis by (simp add: refresh_done_def sse_inv_def Let_def)
  qed
  ultimately show ?thesis using sse_inv_connect [OF 1] by (cases w) (simp_all add: token_answer_def)
qed

lemma sse_inv_error:
  assumes "sse_inv s" and "i < length (ss_sources s)"
  shows "sse_inv (sse_onerror i fatal s)"
proof -
  let ?s1 = "close_current ((set_state i (if fatal then Closed else Connecting) s)\<lparr>ss_connected := False\<rparr>)"
  have "sse_inv ?s1" using sse_inv_set_state [OF assms] by (intro sse_inv_close) (simp add: sse_inv_def)
  moreover have "ss_timers (set_state i r s) = ss_timers s" for r by (simp add: set_state_def)
  ultimately show ?thesis
    using delay_bounds assms(1) by (auto simp: sse_onerror_def Let_def sse_inv_def)
qed

lemma sse_inv_step:
  assumes inv: "sse_inv s" and step: "sse_step s e s'"
  shows "sse_inv s'"
proof (cases e)
  case (Token k a v)
  have "sse_inv (s\<lparr>ss_waiting := take k (ss_waiting s) @ drop (Suc k) (ss_waiting s)\<rparr>)" using inv by (simp add: sse_inv_def)
  with Token step show ?thesis by (auto simp: sse_step_def sse_exec_def sse_inv_token split: if_splits)
next
  case (Source_Error i fatal)
  with inv step show ?thesis by (auto simp: sse_step_def sse_exec_def source_in_def sse_inv_error split: if_splits)
next
  case (Source_Open i)
  with step have s': "s' = sse_onopen i s" "i < length (ss_sources s)"
    by (auto simp: sse_step_def sse_exec_def source_in_def split: if_splits)
  with sse_inv_set_state [OF inv s'(2), of Opened] show ?thesis by (simp add: sse_onopen_def sse_inv_def)
next
  case (Timer k)
  with inv step show ?thesis
    by (auto simp: sse_step_def sse_exec_def reconnect_fires_def split: if_splits dest: in_set_takeD in_set_dropD
        intro!: sse_inv_cong [OF _ _ _ inv])
next
  case Delayed
  have "sse_inv (s\<lparr>ss_delayed := ss_delayed s - 1\<rparr>)" using inv by (simp add: sse_inv_def)
  with Delayed step show ?thesis by (auto simp: sse_step_def sse_exec_def sse_inv_connect split: if_splits)
next
  case (Health now)
  have "sse_inv (close_current (s\<lparr>ss_attempts := 0\<rparr>))" using inv by (intro sse_inv_close) (simp add: sse_inv_def)
  with Health inv step show ?thesis
    by (auto simp: sse_step_def sse_exec_def health_check_def sse_inv_connect split: if_splits)
next
  case Unmount
  with step have s': "s' = sse_unmount s" by (auto simp: sse_step_def sse_exec_def split: if_splits)
  show ?thesis unfolding s' sse_unmount_def
    by (rule sse_inv_close) (auto intro!: sse_inv_cong [OF _ _ _ inv] split: option.split)
qed (use inv step in \<open>auto simp: sse_step_def sse_exec_def sse_mount_def connectSSE_def refresh_tick_def sse_onmessage_def sse_inv_def split: if_splits\<close>)

lemma all_closed_cong: "ss_sources s' = ss_sources s \<Longrightarrow> all_closed s' = all_closed s"
  by (simp add: all_closed_def)

lemma only_current_cong: "ss_sources s' = ss_sources s \<Longrightarrow> ss_current s' = ss_current s \<Longrightarrow> only_current s' = only_current s"
  by (simp add: only_current_def)

lemma only_current_set_state:
  assumes "only_current s" and "es_state (ss_sources s ! i) \<noteq> Closed" and "i < length (ss_sources s)"
  shows "only_current (set_state i r s)"
proof -
  have "ss_current s = Some j" if "j < length (ss_sources s)" "j = i \<or> es_state (ss_sources s ! j) \<noteq> Closed" for j
    using assms that unfolding only_current_def by blast
  moreover have "j = i \<or> es_state (ss_sources s ! j) \<noteq> Closed"
    if "es_state (ss_sources (set_state i r s) ! j) \<noteq> Closed" for j
    using that by (cases "j = i") (simp_all add: set_state_def)
  ultimately show ?thesis by (simp add: only_current_def set_state_def)
qed

lemma only_current_open: "all_closed s \<Longrightarrow> only_current (open_source v s)"
  by (auto simp: only_current_def open_source_def all_closed_def nth_append less_Suc_eq)

lemma connectSSE_frame [simp]:
  "ss_sources (connectSSE s) = ss_sources s" "ss_current (connectSSE s) = ss_current s"
  "ss_timers (connectSSE s) = ss_timers s" "ss_delayed (connectSSE s) = ss_delayed s"
  "ss_closing (connectSSE s) = ss_closing s" "ss_health (connectSSE s) = ss_health s"
  "ss_waiting (connectSSE s) = ss_waiting s @ (if ss_closing s then [] else [In_Connect])"
  by (simp_all add: connectSSE_def)

text \<open>A reconnection that starts once everything is closed keeps the invariant.\<close>

lemma calm_closed:
  assumes "sse_inv s" and "all_closed s" and "sse_pending s \<le> 1" and "ss_health s \<or> ss_closing s"
  shows "calm_inv s"
  using assms by (auto simp: calm_inv_def all_closed_only)

lemma one_waiting: "sse_pending s \<le> 1 \<Longrightarrow> k < length (ss_waiting s) \<Longrightarrow>
    k = 0 \<and> length (ss_waiting s) = 1 \<and> ss_timers s = [] \<and> ss_delayed s = 0"
  by (cases "ss_waiting s") (auto simp: sse_pending_def)

lemma calm_token:
  assumes inv: "calm_inv s" and k: "k < length (ss_waiting s)"
  shows "calm_inv (token_answer (ss_waiting s ! k) a v (s\<lparr>ss_waiting := take k (ss_waiting s) @ drop (Suc k) (ss_waiting s)\<rparr>))"
    (is "calm_inv ?s'")
proof -
  from inv have i: "sse_inv s" "only_current s" "sse_pending s \<le> 1" "sse_pending s = 1 \<longrightarrow> ss_waiting s = [In_Refresh] \<or> all_closed s"
    by (simp_all add: calm_inv_def)
  from one_waiting [OF i(3) k] obtain w where w: "k = 0" "ss_waiting s = [w]" "ss_timers s = []" "ss_delayed s = 0"
    by (auto simp: length_Suc_conv)
  have live: "ss_health s \<or> ss_closing s" using inv w by (auto simp: calm_inv_def sse_pending_def)
  have inv': "sse_inv ?s'"
    using i(1) by (intro sse_inv_token) (simp add: sse_inv_def)
  let ?s1 = "case a of None \<Rightarrow> s\<lparr>ss_waiting := []\<rparr> | Some t \<Rightarrow> s\<lparr>ss_waiting := [], ss_token := t\<rparr>"
  have s1: "ss_sources ?s1 = ss_sources s" "ss_current ?s1 = ss_current s" "ss_timers ?s1 = []" "ss_delayed ?s1 = 0"
    "ss_waiting ?s1 = []" "ss_closing ?s1 = ss_closing s" "ss_health ?s1 = ss_health s"
    using w by (simp_all split: option.split)
  have s': "?s' = (case w of In_Connect \<Rightarrow> open_source v ?s1 | In_Reconnect \<Rightarrow> connectSSE ?s1 | In_Refresh \<Rightarrow> refresh_done (a \<noteq> None) ?s1)"
    using w by (cases a; cases w) (simp_all add: token_answer_def)
  have closed: "all_closed ?s1" if "w \<noteq> In_Refresh"
    using i(4) w that by (simp add: sse_pending_def all_closed_cong [OF s1(1)])
  have pend: "sse_pending ?s1 = 0" using s1 by (simp add: sse_pending_def)
  show ?thesis
  proof (cases w)
    case In_Connect
    have "only_current (open_source v ?s1)" using closed In_Connect by (intro only_current_open) simp
    moreover have "sse_pending (open_source v ?s1) = 0" using s1 by (simp add: sse_pending_def open_source_def)
    moreover have "ss_health (open_source v ?s1) = ss_health s" "ss_closing (open_source v ?s1) = ss_closing s"
      using s1 by (simp_all add: open_source_def)
    ultimately show ?thesis using inv' live unfolding s' by (auto simp: In_Connect calm_inv_def)
  next
    case In_Reconnect
    have "all_closed (connectSSE ?s1)" using closed In_Reconnect by (simp add: all_closed_def)
    then show ?thesis using inv' live s1 unfolding s' by (intro calm_closed) (simp_all add: In_Reconnect sse_pending_def)
  next
    case In_Refresh
    show ?thesis
    proof (cases a)
      case None
      have "?s' = ?s1" unfolding s' by (simp add: None In_Refresh refresh_done_def)
      then show ?thesis using inv' i(2) pend live s1 by (auto simp: calm_inv_def only_current_cong [OF s1(1,2)])
    next
      case (Some t)
      let ?c = "close_current (?s1\<lparr>ss_closing := True\<rparr>)"
      have "sse_inv (?s1\<lparr>ss_closing := True\<rparr>)" using i(1) w(3) s1 by (simp add: sse_inv_def)
      moreover have "only_current (?s1\<lparr>ss_closing := True\<rparr>)" using i(2) s1 by (simp add: only_current_def)
      ultimately have c: "all_closed ?c" by (rule close_current_closes)
      have "?s' = ?c\<lparr>ss_closing := ss_closing s, ss_delayed := 1\<rparr>"
        unfolding s' using s1 by (simp add: Some In_Refresh refresh_done_def Let_def)
      then show ?thesis using inv' c live s1 by (intro calm_closed) (simp_all add: all_closed_def sse_pending_def)
    qed
  qed
qed

lemma calm_error:
  assumes inv: "calm_inv s" and src: "i < length (ss_sources s)" "es_state (ss_sources s ! i) \<noteq> Closed" and p: "sse_pending s = 0"
  shows "calm_inv (sse_onerror i fatal s)"
proof -
  from inv have i: "sse_inv s" "only_current s" "ss_health s \<or> ss_closing s" using src(1) by (auto simp: calm_inv_def)
  let ?s0 = "(set_state i (if fatal then Closed else Connecting) s)\<lparr>ss_connected := False\<rparr>"
  have "sse_inv ?s0" using sse_inv_set_state [OF i(1) src(1)] by (simp add: sse_inv_def)
  moreover have "only_current ?s0" using only_current_set_state [OF i(2) src(2,1)] by (simp add: only_current_def)
  ultimately have "all_closed (close_current ?s0)" by (rule close_current_closes)
  then have "all_closed (sse_onerror i fatal s)" by (simp add: sse_onerror_def Let_def all_closed_def)
  moreover have "sse_pending (sse_onerror i fatal s) \<le> 1" using p by (simp add: sse_onerror_def Let_def sse_pending_def set_state_def)
  moreover have "ss_health (sse_onerror i fatal s) = ss_health s" "ss_closing (sse_onerror i fatal s) = ss_closing s"
    by (simp_all add: sse_onerror_def Let_def set_state_def)
  ultimately show ?thesis using sse_inv_error [OF i(1) src(1)] i(3) by (intro calm_closed) simp_all
qed

lemma calm_health:
  assumes inv: "calm_inv s" and p: "sse_pending s = 0" and h: "ss_health s"
  shows "calm_inv (health_check now s)"
proof -
  from inv have i: "sse_inv s" "only_current s" by (auto simp: calm_inv_def)
  let ?s0 = "close_current (s\<lparr>ss_attempts := 0\<rparr>)"
  have "sse_inv (s\<lparr>ss_attempts := 0\<rparr>)" using i(1) by (simp add: sse_inv_def)
  moreover have "only_current (s\<lparr>ss_attempts := 0\<rparr>)" using i(2) by (simp add: only_current_def)
  ultimately have c: "all_closed ?s0" by (rule close_current_closes)
  have "calm_inv (connectSSE ?s0)"
  proof (rule calm_closed)
    show "sse_inv (connectSSE ?s0)" using i(1) by (intro sse_inv_connect sse_inv_close) (simp add: sse_inv_def)
    show "all_closed (connectSSE ?s0)" using c by (simp add: all_closed_def)
    show "sse_pending (connectSSE ?s0) \<le> 1" using p by (simp add: sse_pending_def)
  qed (simp add: h)
  with inv show ?thesis by (simp add: health_check_def)
qed

lemma calm_unmount:
  assumes inv: "calm_inv s"
  shows "calm_inv (sse_unmount s)"
proof -
  from inv have i: "sse_inv s" "only_current s" "sse_pending s \<le> 1" by (auto simp: calm_inv_def)
  let ?ts = "case ss_timer_ref s of None \<Rightarrow> ss_timers s | Some k \<Rightarrow> filter (\<lambda>(i, _). i \<noteq> k) (ss_timers s)"
  let ?s0 = "s\<lparr>ss_closing := True, ss_timers := ?ts, ss_refresh := False, ss_health := False\<rparr>"
  have "sse_inv ?s0" by (rule sse_inv_cong [OF _ _ _ i(1)]) (auto split: option.splits)
  moreover have "only_current ?s0" using i(2) by (simp add: only_current_def)
  ultimately have "all_closed (sse_unmount s)" "sse_inv (sse_unmount s)"
    unfolding sse_unmount_def by (rule close_current_closes, intro sse_inv_close)
  moreover have "length ?ts \<le> length (ss_timers s)" by (simp split: option.split)
  then have "sse_pending (sse_unmount s) \<le> 1" using i(3) by (simp add: sse_pending_def sse_unmount_def)
  ultimately show ?thesis by (intro calm_closed) (simp_all add: sse_unmount_def)
qed

lemma calm_inv_step:
  assumes inv: "calm_inv s" and step: "calm_step s e s'"
  shows "calm_inv s'"
proof -
  from inv have i: "sse_inv s" "only_current s" "sse_pending s \<le> 1" by (simp_all add: calm_inv_def)
  have step': "sse_exec s e = Some s'" and inv': "sse_inv s'"
    using step i(1) sse_inv_step by (auto simp: calm_step_def sse_step_def)
  show ?thesis
  proof (cases e)
    case (Mount signed_in)
    with step' have m: "\<not> ss_closing s" "\<not> ss_health s" "s' = sse_mount signed_in s" by (simp_all add: sse_exec_def split: if_splits)
    with inv have "sse_pending s = 0" "ss_sources s = []" by (auto simp: calm_inv_def)
    then show ?thesis using inv m inv'
      by (cases signed_in) (auto simp: sse_mount_def calm_inv_def only_current_def sse_pending_def all_closed_def)
  next
    case (Token k a v)
    with step' inv show ?thesis by (auto simp: sse_exec_def calm_token split: if_splits)
  next
    case (Source_Open j)
    with step' have o: "s' = sse_onopen j s" "j < length (ss_sources s)" "es_state (ss_sources s ! j) \<noteq> Closed"
      by (auto simp: sse_exec_def source_in_def split: if_splits)
    have "\<not> all_closed s" using o(2,3) by (auto simp: all_closed_def)
    moreover have "only_current s'" using only_current_set_state [OF i(2) o(3,2)] by (simp add: o(1) sse_onopen_def only_current_def)
    ultimately show ?thesis using inv inv' o
      by (auto simp: calm_inv_def sse_onopen_def set_state_def sse_pending_def)
  next
    case (Source_Message j now)
    with step' have "s' = sse_onmessage now s" by (simp add: sse_exec_def split: if_splits)
    then show ?thesis using inv inv' by (simp add: calm_inv_def sse_onmessage_def only_current_def sse_pending_def all_closed_def)
  next
    case (Source_Error j fatal)
    with step' step have "s' = sse_onerror j fatal s" "j < length (ss_sources s)" "es_state (ss_sources s ! j) \<noteq> Closed" "sse_pending s = 0"
      by (auto simp: sse_exec_def source_in_def calm_step_def disturbs_def split: if_splits)
    then show ?thesis using calm_error [OF inv] by simp
  next
    case (Timer k)
    with step' have k: "k < length (ss_timers s)" "s' = reconnect_fires k s" by (simp_all add: sse_exec_def split: if_splits)
    have one: "ss_waiting s = []" "length (ss_timers s) = 1" "ss_delayed s = 0"
      using i(3) k(1) by (cases "ss_waiting s"; cases "ss_timers s"; simp add: sse_pending_def)+
    then have "sse_pending s' = sse_pending s" "sse_pending s = 1"
      using k by (auto simp: sse_pending_def reconnect_fires_def)
    with inv k inv' one show ?thesis by (auto simp: calm_inv_def reconnect_fires_def all_closed_def intro!: all_closed_only)
  next
    case Delayed
    with step' have d: "0 < ss_delayed s" "s' = connectSSE (s\<lparr>ss_delayed := ss_delayed s - 1\<rparr>)" by (simp_all add: sse_exec_def split: if_splits)
    have w: "ss_waiting s = []" using i(3) d(1) by (cases "ss_waiting s"; simp add: sse_pending_def)
    then have "sse_pending s' \<le> sse_pending s" "sse_pending s = 1"
      using d i(3) by (auto simp: sse_pending_def)
    moreover have "all_closed s" "ss_health s \<or> ss_closing s" using inv w calculation by (auto simp: calm_inv_def)
    moreover have "all_closed s' = all_closed s" using d by (intro all_closed_cong) simp
    moreover have "ss_health s' = ss_health s" "ss_closing s' = ss_closing s" using d by simp_all
    ultimately show ?thesis using inv' by (intro calm_closed) simp_all
  next
    case Refresh
    with step' step have r: "s' = refresh_tick s" "sse_pending s = 0" "ss_refresh s"
      by (auto simp: sse_exec_def calm_step_def disturbs_def split: if_splits)
    then show ?thesis using inv inv' by (auto simp: calm_inv_def refresh_tick_def sse_pending_def only_current_def)
  next
    case (Health now)
    with step' step have "s' = health_check now s" "sse_pending s = 0" "ss_health s"
      by (auto simp: sse_exec_def calm_step_def disturbs_def split: if_splits)
    then show ?thesis using calm_health [OF inv] by simp
  next
    case Unmount
    with step' inv show ?thesis by (auto simp: sse_exec_def calm_unmount split: if_splits)
  qed
qed

lemma sse_new_inv: "sse_inv (sse_new t0)" "calm_inv (sse_new t0)"
  by (simp_all add: sse_inv_def calm_inv_def sse_new_def only_current_def sse_pending_def)

interpretation sse_any: step_machine sse_step "\<lambda>s. \<exists>t. s = sse_new t" sse_inv
  by unfold_locales (auto simp: sse_new_inv intro: sse_inv_step)

interpretation sse_calm: step_machine calm_step "\<lambda>s. \<exists>t. s = sse_new t" calm_inv
  by unfold_locales (auto simp: sse_new_inv intro: calm_inv_step)

section \<open>Properties\<close>

text \<open>In every run no event source is made without a token and every reconnect waits between one and thirty
  seconds; and while no error, refresh or health check comes in the middle of a reconnection, no
  source but the one \<open>eventSource\<close> points to is live, and at most one reconnection is under way.\<close>

theorem sse_single_connection:
  assumes "steps sse_step (sse_new t0) es s"
  shows "list_all (\<lambda>x. es_token x \<noteq> []) (ss_sources s) \<and> list_all (\<lambda>(k, d). 1000 \<le> d \<and> d \<le> 30000) (ss_timers s) \<and>
    (steps calm_step (sse_new t0) es s \<longrightarrow> only_current s \<and> sse_pending s \<le> 1)"
proof -
  have "sse_inv s" by (rule sse_any.inv_run [OF _ assms]) blast
  moreover have "calm_inv s" if "steps calm_step (sse_new t0) es s" by (rule sse_calm.inv_run [OF _ that]) blast
  ultimately show ?thesis by (simp add: sse_inv_def calm_inv_def)
qed

lemma sse_run: "run_exec sse_exec s es = Some s' \<Longrightarrow> steps sse_step s es s'"
  by (rule steps_run_exec) (simp_all add: sse_step_def)

fun calm_run :: "sse \<Rightarrow> sse_event list \<Rightarrow> bool" where
  "calm_run s [] = True"
| "calm_run s (e # es) = ((disturbs e \<longrightarrow> sse_pending s = 0) \<and>
     (case sse_exec s e of None \<Rightarrow> False | Some s' \<Rightarrow> calm_run s' es))"

lemma calm_steps: "run_exec sse_exec s es = Some s' \<Longrightarrow> calm_run s es \<Longrightarrow> steps calm_step s es s'"
  by (induction es arbitrary: s) (auto simp: calm_step_def sse_step_def split: option.splits)

definition no_view :: sse_view where
  "no_view = \<lparr>vw_cluster = Some ''c1'', vw_hyperv = None, vw_expanded = [(''c2'', True), (''c1'', True), (''c3'', False)]\<rparr>"

text \<open>Connect, lose the connection, reconnect.\<close>

definition demo_reconnect :: "sse_event list" where
  "demo_reconnect = [Mount True, Token 0 (Some ''t1'') no_view, Source_Open 0, Source_Message 0 1000,
     Source_Error 0 True, Timer 0, Token 0 (Some ''t2'') no_view, Token 0 (Some ''t3'') no_view, Source_Open 1]"

theorem sse_single_connection_witness:
  "run_ends sse_exec (sse_new 0) demo_reconnect (\<lambda>s. only_current s \<and> map es_token (ss_sources s) = [''t1'', ''t3''] \<and>
     map es_clusters (ss_sources s) = [[''c1'', ''c2''], [''c1'', ''c2'']])"
proof -
  have "run_ends sse_exec (sse_new 0) demo_reconnect (\<lambda>s. map es_token (ss_sources s) = [''t1'', ''t3''] \<and>
     map es_clusters (ss_sources s) = [[''c1'', ''c2''], [''c1'', ''c2'']])"
    by code_simp
  then obtain s where s: "run_exec sse_exec (sse_new 0) demo_reconnect = Some s" "map es_token (ss_sources s) = [''t1'', ''t3'']"
      "map es_clusters (ss_sources s) = [[''c1'', ''c2''], [''c1'', ''c2'']]"
    unfolding run_ends_iff by (elim exE conjE)
  have "calm_run (sse_new 0) demo_reconnect" by code_simp
  with sse_single_connection [OF sse_run [OF s(1)]] calm_steps [OF s(1)] have "only_current s" by simp
  with s show ?thesis unfolding run_ends_iff by (intro exI [of _ s] conjI)
qed







text \<open>The health check looks only at \<open>eventSource\<close>: it reconnects although a reconnect timer is armed, and when
  both reach the server two sources are live. The first is never closed again, not by leaving the page's
  session either, since \<open>eventSource\<close> points to the second.\<close>

definition demo_doubled :: "sse_event list" where
  "demo_doubled = [Mount True, Token 0 (Some ''t1'') no_view, Source_Open 0, Source_Error 0 True, Health 10000, Timer 0,
     Token 0 (Some ''t2'') no_view, Token 0 (Some ''t3'') no_view, Token 0 (Some ''t4'') no_view, Source_Open 1, Source_Open 2, Unmount]"

theorem health_check_doubles:
  "run_ends sse_exec (sse_new 0) demo_doubled (\<lambda>s. ss_closing s \<and> ss_waiting s = [] \<and>
     map es_state (ss_sources s) = [Closed, Opened, Closed])"
  by code_simp

end
