(* ===== verification/Live_Cluster.thy ===== *)
theory Live_Cluster
  imports Js_Values
begin

text \<open>
  The data of the selected cluster and of the sidebar tree (web/src/dashboard.js): the requests
  \<open>fetchClusterResources\<close>, \<open>fetchClusterMetrics\<close>, \<open>fetchClusterPools\<close>, \<open>fetchClusterDatastores\<close>,
  \<open>fetchClusterNetworks\<close>, \<open>fetchSidebarClusterData\<close>, \<open>fetchVmsBackupStatus\<close>, \<open>fetchMigrationLogs\<close>, the frames of the event stream that
  carry cluster data, the effect that runs when another cluster is selected, and \<open>handleVmAction\<close>
  with its optimistic status. Requests under way are part of the state; \<open>selectedClusterRef\<close> and
  \<open>selectedCluster\<close> agree between events. Percentages are whole numbers: only their floor is read. The symbols in front of
  the texts of toasts are left out.
\<close>

section \<open>Signatures of rows\<close>

definition text_or_empty :: "obj \<Rightarrow> string \<Rightarrow> string" where
  "text_or_empty r k = to_str (or_else (prop_of r k) (Str []))"

definition bar_sep :: "string list \<Rightarrow> string" where
  "bar_sep ws = join ''|'' ws"

definition res_sig :: "obj \<Rightarrow> string" where
  "res_sig r = bar_sep [to_str (prop_of r ''vmid''), text_or_empty r ''status'', text_or_empty r ''node'', text_or_empty r ''name'',
     show_int (as_num (prop_of r ''cpu_percent'') div 5), show_int (as_num (prop_of r ''mem_percent'') div 2),
     text_or_empty r ''ip'', text_or_empty r ''tags'',
     (if prop_of r ''agent_running'' = Undef then [] else to_str (prop_of r ''agent_running''))]"

text \<open>\<open>areResourcesEqual(a, b)\<close> with an array \<open>b\<close>; \<open>None\<close> is a missing \<open>a\<close>.\<close>

definition areResourcesEqual :: "obj list option \<Rightarrow> obj list \<Rightarrow> bool" where
  "areResourcesEqual a b = (case a of None \<Rightarrow> False | Some xs \<Rightarrow> map res_sig xs = map res_sig b)"

section \<open>State\<close>

record node_info =
  ni_status :: string
  ni_seen :: "int option"
  ni_offline_since :: "int option"
  ni_metrics :: jval
  ni_resource :: "obj option"

record sidebar_entry =
  sb_metrics :: "obj option"
  sb_resources :: "obj list option"
  sb_pools :: "obj list option"
  sb_stores :: "obj option"
  sb_networks :: "obj list option"

definition empty_entry :: sidebar_entry where
  "empty_entry = \<lparr>sb_metrics = None, sb_resources = None, sb_pools = None, sb_stores = None, sb_networks = None\<rparr>"

datatype call_kind = Metrics | Resources | Backup | Pools | Datastores | Networks | Logs | Sidebar

record data_call =
  dc_kind :: call_kind
  dc_cluster :: string

datatype toast = Toast string string

record cluster_view =
  cv_selected :: "string option"
  cv_metrics :: obj
  cv_known :: "(string \<times> node_info) list"
  cv_resources :: "obj list"
  cv_vm_list :: "obj list option"
  cv_sidebar :: "(string \<times> sidebar_entry) list"
  cv_side_loading :: "string list"
  cv_pools :: "obj list"
  cv_stores :: obj
  cv_networks :: "obj list"
  cv_nets_loading :: bool
  cv_logs :: "obj list"
  cv_backup :: "(jval \<times> obj) list"
  cv_alerts :: "(string \<times> obj) list"
  cv_health :: "(string \<times> obj) list"
  cv_events :: "obj list"
  cv_reconnected :: "(string \<times> int) list"
  cv_configs :: "(string \<times> obj) list"
  cv_announced :: "(string \<times> obj list) list"
  cv_toasts :: "toast list"
  cv_calls :: "data_call list"

definition default_stores :: obj where
  "default_stores = [(''shared'', Obj []), (''local'', Obj [])]"

definition cluster_view_new :: cluster_view where
  "cluster_view_new = \<lparr>cv_selected = None, cv_metrics = [], cv_known = [], cv_resources = [], cv_vm_list = None, cv_sidebar = [],
     cv_side_loading = [], cv_pools = [], cv_stores = default_stores, cv_networks = [], cv_nets_loading = False, cv_logs = [],
     cv_backup = [], cv_alerts = [], cv_health = [], cv_events = [], cv_reconnected = [], cv_configs = [], cv_announced = [],
     cv_toasts = [], cv_calls = []\<rparr>"

section \<open>Requests and selection\<close>

definition ask :: "call_kind \<Rightarrow> string \<Rightarrow> cluster_view \<Rightarrow> cluster_view" where
  "ask k c s = s\<lparr>cv_calls := cv_calls s @ [\<lparr>dc_kind = k, dc_cluster = c\<rparr>]\<rparr>"

definition fetchClusterResources :: "string \<Rightarrow> cluster_view \<Rightarrow> cluster_view" where
  "fetchClusterResources c s = ask Resources c (ask Backup c s)"

definition fetchClusterNetworks :: "string \<Rightarrow> cluster_view \<Rightarrow> cluster_view" where
  "fetchClusterNetworks c s = ask Networks c (s\<lparr>cv_nets_loading := True\<rparr>)"

definition fetchSidebarClusterData :: "string \<Rightarrow> cluster_view \<Rightarrow> cluster_view" where
  "fetchSidebarClusterData c s = ask Sidebar c (s\<lparr>cv_side_loading := List.insert c (cv_side_loading s)\<rparr>)"

definition poll_cluster :: "string \<Rightarrow> cluster_view \<Rightarrow> cluster_view" where
  "poll_cluster c s = ask Datastores c (ask Pools c (fetchClusterResources c (ask Metrics c s)))"

text \<open>The effect of \<open>selectedCluster?.id\<close>: what the sidebar knows of the cluster, then the requests.\<close>

definition side :: "cluster_view \<Rightarrow> string \<Rightarrow> sidebar_entry" where
  "side s c = (case map_of (cv_sidebar s) c of None \<Rightarrow> empty_entry | Some e \<Rightarrow> e)"

definition or_default :: "'a option \<Rightarrow> 'a \<Rightarrow> 'a" where
  "or_default x d = (case x of None \<Rightarrow> d | Some v \<Rightarrow> v)"

definition seed_from :: "sidebar_entry \<Rightarrow> cluster_view \<Rightarrow> cluster_view" where
  "seed_from e s = s\<lparr>cv_metrics := or_default (sb_metrics e) [], cv_resources := or_default (sb_resources e) [],
     cv_vm_list := Some (or_default (sb_resources e) []), cv_known := [], cv_alerts := [],
     cv_pools := or_default (sb_pools e) [], cv_stores := or_default (sb_stores e) default_stores,
     cv_networks := or_default (sb_networks e) [],
     cv_nets_loading := (if or_default (sb_networks e) [] = [] then True else cv_nets_loading s)\<rparr>"

definition select_view :: "string option \<Rightarrow> cluster_view \<Rightarrow> cluster_view" where
  "select_view sel s =
     (if sel = cv_selected s then s
      else case sel of
             None \<Rightarrow> seed_from empty_entry (s\<lparr>cv_selected := None\<rparr>)
           | Some c \<Rightarrow> ask Logs c (fetchClusterNetworks c (poll_cluster c (seed_from (side s c) (s\<lparr>cv_selected := Some c\<rparr>)))))"

section \<open>Answers\<close>

definition put_side :: "string \<Rightarrow> (sidebar_entry \<Rightarrow> sidebar_entry) \<Rightarrow> cluster_view \<Rightarrow> cluster_view" where
  "put_side c f s = s\<lparr>cv_sidebar := AList.update c (f (side s c)) (cv_sidebar s)\<rparr>"

definition online_node :: "int \<Rightarrow> jval \<Rightarrow> node_info" where
  "online_node now m = \<lparr>ni_status = ''online'', ni_seen = Some now, ni_offline_since = None, ni_metrics = m, ni_resource = None\<rparr>"

definition nodes_online :: "int \<Rightarrow> obj \<Rightarrow> (string \<times> node_info) list \<Rightarrow> (string \<times> node_info) list" where
  "nodes_online now data known = foldl (\<lambda>acc (n, m). AList.update n (online_node now m) acc) known data"

definition metrics_answer :: "string \<Rightarrow> obj \<Rightarrow> int \<Rightarrow> cluster_view \<Rightarrow> cluster_view" where
  "metrics_answer c data now s =
     (if truthy (prop_of data ''error'') then s
      else let s1 = put_side c (\<lambda>e. e\<lparr>sb_metrics := Some data\<rparr>) s
           in if cv_selected s1 \<noteq> Some c then s1
              else s1\<lparr>cv_metrics := data,
                      cv_known := nodes_online now (filter (\<lambda>(n, _). n \<noteq> ''error'' \<and> n \<noteq> ''offline'') data) (cv_known s1)\<rparr>)"

definition node_text :: "obj \<Rightarrow> string \<Rightarrow> string" where
  "node_text r k = to_str (prop_of r k)"

definition track_node :: "int \<Rightarrow> (string \<times> node_info) list \<Rightarrow> obj \<Rightarrow> (string \<times> node_info) list" where
  "track_node now known r =
     (let n = node_text r ''node''; old = map_of known n
      in if prop_of r ''status'' = Str ''online''
         then AList.update n \<lparr>ni_status = ''online'', ni_seen = Some now, ni_offline_since = None, ni_metrics = Undef, ni_resource = Some r\<rparr> known
         else case old of
                None \<Rightarrow> AList.update n \<lparr>ni_status = ''offline'', ni_seen = None, ni_offline_since = Some now, ni_metrics = Undef, ni_resource = Some r\<rparr> known
              | Some i \<Rightarrow> if ni_status i = ''online''
                         then AList.update n (i\<lparr>ni_status := ''offline'', ni_offline_since := Some (or_default (ni_seen i) now), ni_resource := Some r\<rparr>) known
                         else known)"

text \<open>\<open>setClusterResources\<close> behind the comparison with \<open>window.pegaproxVmList\<close>.\<close>

definition swap_resources :: "obj list \<Rightarrow> cluster_view \<Rightarrow> cluster_view" where
  "swap_resources data s =
     (if areResourcesEqual (cv_vm_list s) data then s else s\<lparr>cv_resources := data, cv_vm_list := Some data\<rparr>)"

definition announce :: "string \<Rightarrow> obj list \<Rightarrow> cluster_view \<Rightarrow> cluster_view" where
  "announce c data s = s\<lparr>cv_announced := cv_announced s @ [(c, data)]\<rparr>"

definition resources_answer :: "string \<Rightarrow> obj list \<Rightarrow> int \<Rightarrow> cluster_view \<Rightarrow> cluster_view" where
  "resources_answer c data now s =
     (let s1 = (if areResourcesEqual (sb_resources (side s c)) data then s else put_side c (\<lambda>e. e\<lparr>sb_resources := Some data\<rparr>) s)
      in if cv_selected s1 \<noteq> Some c then s1
         else let s2 = swap_resources data (announce c data s1)
              in s2\<lparr>cv_known := foldl (track_node now) (cv_known s2) (filter (\<lambda>r. prop_of r ''type'' = Str ''node'') data)\<rparr>)"

definition backup_answer :: "string \<Rightarrow> obj list \<Rightarrow> cluster_view \<Rightarrow> cluster_view" where
  "backup_answer c rows s =
     (if cv_selected s \<noteq> Some c then s else s\<lparr>cv_backup := foldl (\<lambda>m x. AList.update (prop_of x ''vmid'') x m) [] rows\<rparr>)"

definition pools_answer :: "string \<Rightarrow> obj list \<Rightarrow> cluster_view \<Rightarrow> cluster_view" where
  "pools_answer c rows s =
     (let s1 = put_side c (\<lambda>e. e\<lparr>sb_pools := Some rows\<rparr>) s in if cv_selected s1 \<noteq> Some c then s1 else s1\<lparr>cv_pools := rows\<rparr>)"

definition stores_answer :: "string \<Rightarrow> obj \<Rightarrow> cluster_view \<Rightarrow> cluster_view" where
  "stores_answer c d s =
     (let s1 = put_side c (\<lambda>e. e\<lparr>sb_stores := Some d\<rparr>) s in if cv_selected s1 \<noteq> Some c then s1 else s1\<lparr>cv_stores := d\<rparr>)"

definition networks_answer :: "string \<Rightarrow> obj list option \<Rightarrow> cluster_view \<Rightarrow> cluster_view" where
  "networks_answer c a s =
     (let s1 = (case a of
                  None \<Rightarrow> s
                | Some nets \<Rightarrow>
                    let s2 = put_side c (\<lambda>e. e\<lparr>sb_networks := Some nets\<rparr>) s
                    in if cv_selected s2 \<noteq> Some c then s2 else s2\<lparr>cv_networks := nets\<rparr>)
      in s1\<lparr>cv_nets_loading := False\<rparr>)"

definition logs_answer :: "obj list \<Rightarrow> cluster_view \<Rightarrow> cluster_view" where
  "logs_answer rows s = s\<lparr>cv_logs := rows\<rparr>"

text \<open>The five answers of \<open>fetchSidebarClusterData\<close>; an answer that is not ok counts as empty.\<close>

record side_answers =
  sa_metrics :: "obj option"
  sa_resources :: "obj list option"
  sa_pools :: "obj list option"
  sa_stores :: "obj option"
  sa_networks :: "obj list option"

definition sidebar_answer :: "string \<Rightarrow> side_answers option \<Rightarrow> cluster_view \<Rightarrow> cluster_view" where
  "sidebar_answer c a s =
     (let s1 = (case a of
                  None \<Rightarrow> s
                | Some r \<Rightarrow> put_side c (\<lambda>_. \<lparr>sb_metrics = Some (or_default (sa_metrics r) []), sb_resources = Some (or_default (sa_resources r) []),
                     sb_pools = Some (or_default (sa_pools r) []), sb_stores = Some (or_default (sa_stores r) default_stores),
                     sb_networks = Some (or_default (sa_networks r) [])\<rparr>) s)
      in s1\<lparr>cv_side_loading := removeAll c (cv_side_loading s1)\<rparr>)"

datatype data_answer = No_Answer | Answer_Obj obj | Answer_Rows "obj list" | Answer_Side side_answers

definition rows_of :: "data_answer \<Rightarrow> obj list option" where
  "rows_of a = (case a of Answer_Rows r \<Rightarrow> Some r | _ \<Rightarrow> None)"

definition obj_of :: "data_answer \<Rightarrow> obj option" where
  "obj_of a = (case a of Answer_Obj d \<Rightarrow> Some d | _ \<Rightarrow> None)"

definition side_of :: "data_answer \<Rightarrow> side_answers option" where
  "side_of a = (case a of Answer_Side r \<Rightarrow> Some r | _ \<Rightarrow> None)"

definition on_answer :: "'a option \<Rightarrow> ('a \<Rightarrow> cluster_view \<Rightarrow> cluster_view) \<Rightarrow> cluster_view \<Rightarrow> cluster_view" where
  "on_answer a f s = (case a of None \<Rightarrow> s | Some d \<Rightarrow> f d s)"

definition settle_call :: "data_call \<Rightarrow> data_answer \<Rightarrow> int \<Rightarrow> cluster_view \<Rightarrow> cluster_view" where
  "settle_call call a now s =
     (let c = dc_cluster call
      in case dc_kind call of
           Metrics \<Rightarrow> on_answer (obj_of a) (\<lambda>d. metrics_answer c d now) s
         | Resources \<Rightarrow> on_answer (rows_of a) (\<lambda>d. resources_answer c d now) s
         | Backup \<Rightarrow> on_answer (rows_of a) (backup_answer c) s
         | Pools \<Rightarrow> on_answer (rows_of a) (pools_answer c) s
         | Datastores \<Rightarrow> on_answer (obj_of a) (stores_answer c) s
         | Networks \<Rightarrow> networks_answer c (rows_of a) s
         | Logs \<Rightarrow> on_answer (rows_of a) logs_answer s
         | Sidebar \<Rightarrow> sidebar_answer c (side_of a) s)"

section \<open>Frames\<close>

definition elsewhere :: "string \<Rightarrow> cluster_view \<Rightarrow> bool" where
  "elsewhere c s \<longleftrightarrow> c \<noteq> [] \<and> cv_selected s \<noteq> Some c"

definition touch_side :: "string \<Rightarrow> (sidebar_entry \<Rightarrow> sidebar_entry) \<Rightarrow> cluster_view \<Rightarrow> cluster_view" where
  "touch_side c f s = (if map_of (cv_sidebar s) c = None then s else put_side c f s)"

definition metrics_frame :: "string \<Rightarrow> obj \<Rightarrow> int \<Rightarrow> cluster_view \<Rightarrow> cluster_view" where
  "metrics_frame c data now s =
     (let s1 = (if cv_selected s = Some c then s\<lparr>cv_metrics := data, cv_known := nodes_online now data (cv_known s)\<rparr> else s)
      in if elsewhere c s1 then touch_side c (\<lambda>e. e\<lparr>sb_metrics := Some data\<rparr>) s1 else s1)"

definition health_frame :: "string \<Rightarrow> obj \<Rightarrow> int \<Rightarrow> cluster_view \<Rightarrow> cluster_view" where
  "health_frame c data now s =
     (if c = [] then s else s\<lparr>cv_health := AList.update c (AList.update ''_receivedAt'' (Num now) data) (cv_health s)\<rparr>)"

definition resources_frame :: "string \<Rightarrow> obj list \<Rightarrow> cluster_view \<Rightarrow> cluster_view" where
  "resources_frame c data s =
     (let s1 = (if cv_selected s = Some c then swap_resources data (announce c data s) else s)
      in if elsewhere c s1 \<and> \<not> areResourcesEqual (sb_resources (side s1 c)) data
         then touch_side c (\<lambda>e. e\<lparr>sb_resources := Some data\<rparr>) s1 else s1)"

definition vm_config_frame :: "string \<Rightarrow> obj \<Rightarrow> cluster_view \<Rightarrow> cluster_view" where
  "vm_config_frame c cfg s =
     (if cv_selected s = Some c
      then s\<lparr>cv_configs := cv_configs s @ [(c, map (\<lambda>k. (k, prop_of cfg k)) [''vmid'', ''node'', ''vm_type'', ''config''])]\<rparr>
      else s)"

text \<open>What an action does to the status shown: nothing, a new status, or the row goes.\<close>

datatype status_change = No_Change | New_Status string | Gone

definition action_change :: "string \<Rightarrow> status_change" where
  "action_change a =
     (if a = ''start'' \<or> a = ''reboot'' then New_Status ''running''
      else if a = ''stop'' \<or> a = ''shutdown'' then New_Status ''stopped''
      else if a = ''delete'' then Gone else No_Change)"

definition action_vmid :: "obj \<Rightarrow> int option" where
  "action_vmid act =
     (let rid = prop_of act ''resource_id''
      in if truthy rid then (case parse_int_val rid of None \<Rightarrow> None | Some i \<Rightarrow> if i = 0 then None else Some i) else None)"

definition change_of :: "obj \<Rightarrow> status_change" where
  "change_of act = (case action_vmid act of None \<Rightarrow> No_Change | Some _ \<Rightarrow> action_change (to_str (prop_of act ''action'')))"

definition set_status :: "string \<Rightarrow> obj \<Rightarrow> obj" where
  "set_status st r = AList.update ''status'' (Str st) r"

definition apply_change :: "status_change \<Rightarrow> jval \<Rightarrow> obj list \<Rightarrow> obj list" where
  "apply_change ch vmid rows =
     (case ch of
        No_Change \<Rightarrow> rows
      | New_Status st \<Rightarrow> map (\<lambda>r. if prop_of r ''vmid'' = vmid then set_status st r else r) rows
      | Gone \<Rightarrow> filter (\<lambda>r. prop_of r ''vmid'' \<noteq> vmid) rows)"

definition guest_word :: "obj \<Rightarrow> string" where
  "guest_word act = (if prop_of act ''resource_type'' = Str ''qemu'' then ''VM'' else ''CT'')"

definition action_name :: "(string \<Rightarrow> string) \<Rightarrow> string \<Rightarrow> string" where
  "action_name tr a =
     (case map_of [(''start'', ''started''), (''stop'', ''stopped''), (''shutdown'', ''stopped''), (''reboot'', ''restarted''),
        (''delete'', ''deleted''), (''create'', ''created'')] a of None \<Rightarrow> a | Some k \<Rightarrow> (if tr k = [] then a else tr k))"

definition action_toast :: "(string \<Rightarrow> string) \<Rightarrow> jval \<Rightarrow> obj \<Rightarrow> toast list" where
  "action_toast tr me act =
     (let u = prop_of act ''user''
      in if truthy u \<and> u \<noteq> me
         then [Toast ''info'' (to_str u @ '': '' @ guest_word act @ '' '' @ to_str (prop_of act ''resource_id'') @ '' '' @
                 action_name tr (to_str (prop_of act ''action'')))]
         else [])"

definition log_event :: "obj \<Rightarrow> cluster_view \<Rightarrow> cluster_view" where
  "log_event e s = s\<lparr>cv_events := take 10 (e # cv_events s)\<rparr>"

definition action_event :: "int \<Rightarrow> obj \<Rightarrow> obj" where
  "action_event now act =
     [(''id'', Num now), (''time'', Num now), (''type'', Str ''action''),
      (''msg'', Str (guest_word act @ '' '' @ to_str (prop_of act ''resource_id'') @ '': '' @ to_str (prop_of act ''action''))),
      (''user'', prop_of act ''user'')]"

definition change_shown :: "status_change \<Rightarrow> jval \<Rightarrow> string \<Rightarrow> cluster_view \<Rightarrow> cluster_view" where
  "change_shown ch vmid c s =
     (if cv_selected s = Some c \<and> ch \<noteq> No_Change then s\<lparr>cv_resources := apply_change ch vmid (cv_resources s)\<rparr> else s)"

definition change_side :: "status_change \<Rightarrow> jval \<Rightarrow> string \<Rightarrow> cluster_view \<Rightarrow> cluster_view" where
  "change_side ch vmid c s =
     (if elsewhere c s \<and> ch \<noteq> No_Change
      then (case sb_resources (side s c) of
              None \<Rightarrow> s
            | Some rows \<Rightarrow> put_side c (\<lambda>e. e\<lparr>sb_resources := Some (apply_change ch vmid rows)\<rparr>) s)
      else s)"

definition action_frame :: "(string \<Rightarrow> string) \<Rightarrow> jval \<Rightarrow> string \<Rightarrow> obj \<Rightarrow> int \<Rightarrow> cluster_view \<Rightarrow> cluster_view" where
  "action_frame tr me c act now s =
     (let ch = change_of act;
          vmid = (case action_vmid act of None \<Rightarrow> Undef | Some i \<Rightarrow> Num i);
          s1 = change_side ch vmid c (change_shown ch vmid c s)
      in log_event (action_event now act) (s1\<lparr>cv_toasts := cv_toasts s1 @ action_toast tr me act\<rparr>))"

definition node_event :: "int \<Rightarrow> obj \<Rightarrow> obj" where
  "node_event now ev =
     [(''id'', Num now), (''time'', Num now),
      (''type'', Str (if prop_of ev ''event'' = Str ''node_offline'' then ''error'' else ''success'')),
      (''msg'', or_else (prop_of ev ''message'') (Str (to_str (prop_of ev ''node'') @ '': '' @ to_str (prop_of ev ''event''))))]"

definition node_alert :: "int \<Rightarrow> obj \<Rightarrow> obj" where
  "node_alert now ev =
     [(''status'', Str ''offline''), (''message'', prop_of ev ''message''), (''timestamp'', Num now),
      (''severity'', Str ''critical''), (''cluster_id'', prop_of ev ''cluster_id'')]"

definition show_toast :: "string \<Rightarrow> string \<Rightarrow> cluster_view \<Rightarrow> cluster_view" where
  "show_toast k m s = s\<lparr>cv_toasts := cv_toasts s @ [Toast k m]\<rparr>"

definition reconnect_due :: "string \<Rightarrow> int \<Rightarrow> cluster_view \<Rightarrow> bool" where
  "reconnect_due c now s = (case map_of (cv_reconnected s) c of None \<Rightarrow> True | Some t \<Rightarrow> t = 0 \<or> now - t > 60000)"

definition node_status_frame :: "obj \<Rightarrow> int \<Rightarrow> cluster_view \<Rightarrow> cluster_view" where
  "node_status_frame ev now s =
     (let s1 = log_event (node_event now ev) s;
          e = prop_of ev ''event''; c = to_str (prop_of ev ''cluster_id''); n = to_str (prop_of ev ''node''); m = to_str (prop_of ev ''message'')
      in if e = Str ''cluster_reconnected''
         then (if reconnect_due c now s1
               then show_toast ''success'' m (s1\<lparr>cv_reconnected := AList.update c now (cv_reconnected s1)\<rparr>) else s1)
         else if cv_selected s1 = Some c
         then (if e = Str ''node_offline''
               then (show_toast ''error'' (''CRITICAL: '' @ m) s1)\<lparr>cv_alerts := AList.update n (node_alert now ev) (cv_alerts s1)\<rparr>
               else if e = Str ''node_online''
               then (show_toast ''success'' m s1)\<lparr>cv_alerts := filter (\<lambda>(k, _). k \<noteq> n) (cv_alerts s1)\<rparr>
               else s1)
         else s1)"

section \<open>Power actions of the user\<close>

definition expected_status :: "string \<Rightarrow> string option" where
  "expected_status a = map_of [(''start'', ''running''), (''stop'', ''stopped''), (''shutdown'', ''stopped''), (''reboot'', ''running''),
     (''reset'', ''running''), (''suspend'', ''suspended''), (''resume'', ''running'')] a"

record power_action =
  pa_row :: obj
  pa_action :: string
  pa_read_only :: bool

definition same_guest :: "obj \<Rightarrow> obj \<Rightarrow> bool" where
  "same_guest g r \<longleftrightarrow> prop_of r ''vmid'' = prop_of g ''vmid'' \<and> prop_of r ''node'' = prop_of g ''node''"

definition flip_row :: "obj \<Rightarrow> string \<Rightarrow> obj \<Rightarrow> obj" where
  "flip_row g st r = (if same_guest g r then AList.update ''_optimistic'' (Bool True) (set_status st r) else r)"

definition unflip_row :: "obj \<Rightarrow> obj \<Rightarrow> obj" where
  "unflip_row g r =
     (if same_guest g r \<and> truthy (prop_of r ''_optimistic'')
      then AList.update ''_optimistic'' (Bool False) (AList.update ''status'' (prop_of g ''status'') r) else r)"

definition flipped_to :: "power_action \<Rightarrow> string option" where
  "flipped_to p = (if pa_read_only p then None else expected_status (pa_action p))"

definition action_cluster :: "obj \<Rightarrow> cluster_view \<Rightarrow> string option" where
  "action_cluster g s = (if truthy (prop_of g ''_clusterId'') then Some (to_str (prop_of g ''_clusterId'')) else cv_selected s)"

text \<open>\<open>handleVmAction\<close> up to its request (the confirmation was given), and from the answer on.\<close>

definition vm_action :: "power_action \<Rightarrow> cluster_view \<Rightarrow> cluster_view" where
  "vm_action p s =
     (case action_cluster (pa_row p) s of
        None \<Rightarrow> s
      | Some _ \<Rightarrow>
          (case flipped_to p of
             None \<Rightarrow> s
           | Some st \<Rightarrow> s\<lparr>cv_resources := map (flip_row (pa_row p) st) (cv_resources s)\<rparr>))"

text \<open>\<open>sel\<close> is the cluster that was selected when the action began: the closure keeps it.\<close>

definition vm_action_failed :: "power_action \<Rightarrow> string \<Rightarrow> string \<Rightarrow> cluster_view \<Rightarrow> cluster_view" where
  "vm_action_failed p msg sel s =
     (let s1 = (if flipped_to p = None then s else s\<lparr>cv_resources := map (unflip_row (pa_row p)) (cv_resources s)\<rparr>)
      in fetchClusterResources sel (show_toast ''error'' msg s1))"

section \<open>Steps\<close>

datatype view_event =
    View_Select "string option"
  | View_Poll string
  | View_Expand string
  | Settle nat data_call data_answer int
  | Metrics_Frame string obj int
  | Health_Frame string obj int
  | Resources_Frame string "obj list"
  | Config_Frame string obj
  | Action_Frame string obj int
  | Node_Frame obj int
  | Power power_action
  | Power_Failed power_action string "string option"

text \<open>A failed action of a guest of the tree without a selected cluster: reading \<open>selectedCluster.id\<close> throws
  after the error was shown, and the handler of that exception shows a second one.\<close>

definition power_failed :: "power_action \<Rightarrow> string \<Rightarrow> string option \<Rightarrow> string \<Rightarrow> cluster_view \<Rightarrow> cluster_view" where
  "power_failed p msg sel conn s =
     (case sel of
        Some c \<Rightarrow> vm_action_failed p msg c s
      | None \<Rightarrow>
          show_toast ''error'' conn (show_toast ''error'' msg
            (if flipped_to p = None then s else s\<lparr>cv_resources := map (unflip_row (pa_row p)) (cv_resources s)\<rparr>)))"

definition view_do :: "(string \<Rightarrow> string) \<Rightarrow> jval \<Rightarrow> view_event \<Rightarrow> cluster_view \<Rightarrow> cluster_view" where
  "view_do tr me e s =
     (case e of
        View_Select sel \<Rightarrow> select_view sel s
      | View_Poll c \<Rightarrow> poll_cluster c s
      | View_Expand c \<Rightarrow> fetchSidebarClusterData c s
      | Settle i call a now \<Rightarrow> settle_call call a now (s\<lparr>cv_calls := take i (cv_calls s) @ drop (Suc i) (cv_calls s)\<rparr>)
      | Metrics_Frame c d now \<Rightarrow> metrics_frame c d now s
      | Health_Frame c d now \<Rightarrow> health_frame c d now s
      | Resources_Frame c rows \<Rightarrow> resources_frame c rows s
      | Config_Frame c d \<Rightarrow> vm_config_frame c d s
      | Action_Frame c d now \<Rightarrow> action_frame tr me c d now s
      | Node_Frame d now \<Rightarrow> node_status_frame d now s
      | Power p \<Rightarrow> vm_action p s
      | Power_Failed p msg sel \<Rightarrow> power_failed p msg sel (tr ''connectionError'') s)"

definition answers_pending :: "view_event \<Rightarrow> cluster_view \<Rightarrow> bool" where
  "answers_pending e s = (case e of Settle i call a now \<Rightarrow> i < length (cv_calls s) \<and> cv_calls s ! i = call | _ \<Rightarrow> True)"

definition view_exec :: "(string \<Rightarrow> string) \<Rightarrow> jval \<Rightarrow> cluster_view \<Rightarrow> view_event \<Rightarrow> cluster_view option" where
  "view_exec tr me s e = (if answers_pending e s then Some (view_do tr me e s) else None)"





definition entry_from :: "(obj \<Rightarrow> bool) \<Rightarrow> sidebar_entry \<Rightarrow> bool" where
  "entry_from own e \<longleftrightarrow> pred_option own (sb_metrics e) \<and> pred_option (list_all own) (sb_resources e) \<and>
     pred_option (list_all own) (sb_pools e) \<and> pred_option own (sb_stores e) \<and> pred_option (list_all own) (sb_networks e)"

definition shown_from :: "(obj \<Rightarrow> bool) \<Rightarrow> cluster_view \<Rightarrow> bool" where
  "shown_from own s \<longleftrightarrow> own (cv_metrics s) \<and> list_all own (cv_resources s) \<and> list_all own (cv_pools s) \<and>
     own (cv_stores s) \<and> list_all own (cv_networks s)"

definition side_inv :: "(string \<Rightarrow> obj \<Rightarrow> bool) \<Rightarrow> cluster_view \<Rightarrow> bool" where
  "side_inv belongs s \<longleftrightarrow> (\<forall>c. entry_from (belongs c) (side s c))"

definition view_inv :: "(string \<Rightarrow> obj \<Rightarrow> bool) \<Rightarrow> cluster_view \<Rightarrow> bool" where
  "view_inv belongs s \<longleftrightarrow> side_inv belongs s \<and> (\<forall>c. cv_selected s = Some c \<longrightarrow> shown_from (belongs c) s)"

section \<open>Facts\<close>

lemma side_put_side: "side (put_side c f s) d = (if d = c then f (side s c) else side s d)"
  by (simp add: put_side_def side_def update_conv')

lemma put_side_frame [simp]:
  "cv_selected (put_side c f s) = cv_selected s" "cv_metrics (put_side c f s) = cv_metrics s"
  "cv_resources (put_side c f s) = cv_resources s" "cv_pools (put_side c f s) = cv_pools s"
  "cv_stores (put_side c f s) = cv_stores s" "cv_networks (put_side c f s) = cv_networks s"
  "cv_vm_list (put_side c f s) = cv_vm_list s" "cv_known (put_side c f s) = cv_known s"
  by (simp_all add: put_side_def)

lemma side_inv_put: "side_inv b s \<Longrightarrow> entry_from (b c) (f (side s c)) \<Longrightarrow> side_inv b (put_side c f s)"
  by (simp add: side_inv_def side_put_side)

lemma side_inv_touch: "side_inv b s \<Longrightarrow> entry_from (b c) (f (side s c)) \<Longrightarrow> side_inv b (touch_side c f s)"
  by (simp add: touch_side_def side_inv_put)




lemma entry_from_empty [simp]: "entry_from own empty_entry"
  by (simp add: entry_from_def empty_entry_def)


lemma view_inv_side_actions [simp]:
  "view_inv b (log_event e s) = view_inv b s" "view_inv b (show_toast k m s) = view_inv b s"
  "view_inv b (s\<lparr>cv_toasts := t\<rparr>) = view_inv b s" "view_inv b (s\<lparr>cv_alerts := a\<rparr>) = view_inv b s"
  "view_inv b (s\<lparr>cv_reconnected := r\<rparr>) = view_inv b s" "view_inv b (s\<lparr>cv_health := h\<rparr>) = view_inv b s"
  "view_inv b (s\<lparr>cv_configs := x\<rparr>) = view_inv b s" "view_inv b (s\<lparr>cv_calls := k'\<rparr>) = view_inv b s"
  "view_inv b (s\<lparr>cv_nets_loading := l\<rparr>) = view_inv b s" "view_inv b (s\<lparr>cv_side_loading := l'\<rparr>) = view_inv b s"
  "view_inv b (s\<lparr>cv_logs := g\<rparr>) = view_inv b s" "view_inv b (s\<lparr>cv_backup := u\<rparr>) = view_inv b s"
  "view_inv b (s\<lparr>cv_known := w\<rparr>) = view_inv b s" "view_inv b (s\<lparr>cv_announced := n\<rparr>) = view_inv b s"
  by (simp_all add: log_event_def show_toast_def view_inv_def side_inv_def side_def shown_from_def)


text \<open>Requests change nothing that is shown.\<close>

lemma ask_frame [simp]:
  "view_inv b (ask k c s) = view_inv b s" "view_inv b (fetchClusterResources c s) = view_inv b s"
  "view_inv b (fetchClusterNetworks c s) = view_inv b s" "view_inv b (fetchSidebarClusterData c s) = view_inv b s"
  "view_inv b (poll_cluster c s) = view_inv b s"
  by (simp_all add: ask_def fetchClusterResources_def fetchClusterNetworks_def fetchSidebarClusterData_def poll_cluster_def
      view_inv_def side_inv_def side_def shown_from_def)









lemma list_all_map_own: "list_all P xs \<Longrightarrow> (\<And>x. P x \<Longrightarrow> P (f x)) \<Longrightarrow> list_all P (map f xs)"
  by (simp add: list_all_iff)
















section \<open>What is shown is what was sent\<close>

text \<open>The display without the comparison of signatures: every list for the selected cluster is stored.\<close>

record shown =
  sh_selected :: "string option"
  sh_sigs :: "string list"
  sh_side :: "string \<Rightarrow> string list option"
  sh_known :: "string \<Rightarrow> bool"

definition abs_view :: "cluster_view \<Rightarrow> shown" where
  "abs_view s = \<lparr>sh_selected = cv_selected s, sh_sigs = map res_sig (cv_resources s),
     sh_side = (\<lambda>c. map_option (map res_sig) (sb_resources (side s c))), sh_known = (\<lambda>c. map_of (cv_sidebar s) c \<noteq> None)\<rparr>"

definition store_side :: "string \<Rightarrow> obj list \<Rightarrow> shown \<Rightarrow> shown" where
  "store_side c rows v = v\<lparr>sh_side := (sh_side v)(c := Some (map res_sig rows)), sh_known := (sh_known v)(c := True)\<rparr>"

definition store_shown :: "string \<Rightarrow> obj list \<Rightarrow> shown \<Rightarrow> shown" where
  "store_shown c rows v = (if sh_selected v = Some c then v\<lparr>sh_sigs := map res_sig rows\<rparr> else v)"

definition enter_side :: "string \<Rightarrow> shown \<Rightarrow> shown" where
  "enter_side c v = v\<lparr>sh_known := (sh_known v)(c := True)\<rparr>"

definition store_answer :: "data_call \<Rightarrow> data_answer \<Rightarrow> shown \<Rightarrow> shown" where
  "store_answer call a v =
     (let c = dc_cluster call
      in case (dc_kind call, a) of
           (Metrics, Answer_Obj d) \<Rightarrow> if truthy (prop_of d ''error'') then v else enter_side c v
         | (Resources, Answer_Rows rows) \<Rightarrow> store_shown c rows (store_side c rows v)
         | (Pools, Answer_Rows rows) \<Rightarrow> enter_side c v
         | (Datastores, Answer_Obj d) \<Rightarrow> enter_side c v
         | (Networks, Answer_Rows rows) \<Rightarrow> enter_side c v
         | (Sidebar, Answer_Side r) \<Rightarrow> store_side c (or_default (sa_resources r) []) v
         | _ \<Rightarrow> v)"

definition store_step :: "view_event \<Rightarrow> shown \<Rightarrow> shown" where
  "store_step e v =
     (case e of
        View_Select sel \<Rightarrow>
          if sel = sh_selected v then v
          else v\<lparr>sh_selected := sel, sh_sigs := (case sel of None \<Rightarrow> [] | Some c \<Rightarrow> or_default (sh_side v c) [])\<rparr>
      | Settle i call a now \<Rightarrow> store_answer call a v
      | Resources_Frame c rows \<Rightarrow>
          if sh_selected v = Some c then store_shown c rows v
          else if c \<noteq> [] \<and> sh_known v c then store_side c rows v else v
      | _ \<Rightarrow> v)"

definition optimistic :: "view_event \<Rightarrow> bool" where
  "optimistic e = (case e of Action_Frame c d now \<Rightarrow> True | Power p \<Rightarrow> True | Power_Failed p m sel \<Rightarrow> True | _ \<Rightarrow> False)"

text \<open>Before the first selection there is no list in \<open>window\<close>; then its signatures are those shown.\<close>

definition in_sync :: "cluster_view \<Rightarrow> bool" where
  "in_sync s \<longleftrightarrow> (\<forall>xs. cv_vm_list s = Some xs \<longrightarrow> map res_sig xs = map res_sig (cv_resources s))"

lemma abs_selected [simp]: "sh_selected (abs_view s) = cv_selected s"
  by (simp add: abs_view_def)

lemma abs_put_side:
  "sb_resources (f (side s c)) = sb_resources (side s c) \<Longrightarrow> abs_view (put_side c f s) = enter_side c (abs_view s)"
  "sb_resources (f (side s c)) = Some rows \<Longrightarrow> abs_view (put_side c f s) = store_side c rows (abs_view s)"
  by (auto simp: abs_view_def enter_side_def store_side_def side_put_side fun_eq_iff)
     (simp_all add: put_side_def update_conv')

lemma abs_touch_side:
  "sb_resources (f (side s c)) = sb_resources (side s c) \<Longrightarrow> abs_view (touch_side c f s) = abs_view s"
  "sb_resources (f (side s c)) = Some rows \<Longrightarrow> abs_view (touch_side c f s) =
     (if sh_known (abs_view s) c then store_side c rows (abs_view s) else abs_view s)"
proof -
  have known: "sh_known (abs_view s) c \<longleftrightarrow> map_of (cv_sidebar s) c \<noteq> None" by (simp add: abs_view_def)
  then have "enter_side c (abs_view s) = abs_view s" if "map_of (cv_sidebar s) c \<noteq> None"
    using that by (simp add: enter_side_def fun_upd_idem)
  then show "sb_resources (f (side s c)) = sb_resources (side s c) \<Longrightarrow> abs_view (touch_side c f s) = abs_view s"
    by (simp add: touch_side_def abs_put_side(1))
  show "sb_resources (f (side s c)) = Some rows \<Longrightarrow> abs_view (touch_side c f s) =
     (if sh_known (abs_view s) c then store_side c rows (abs_view s) else abs_view s)"
    using known by (simp add: touch_side_def abs_put_side(2))
qed

lemma equal_side:
  assumes "areResourcesEqual (sb_resources (side s c)) rows"
  shows "store_side c rows (abs_view s) = abs_view s"
proof -
  obtain xs where xs: "sb_resources (side s c) = Some xs" "map res_sig xs = map res_sig rows"
    using assms by (auto simp: areResourcesEqual_def split: option.splits)
  then have "map_of (cv_sidebar s) c \<noteq> None" by (auto simp: side_def empty_entry_def split: option.splits)
  with xs show ?thesis by (simp add: store_side_def abs_view_def fun_upd_idem)
qed

lemma abs_swap:
  assumes "in_sync s" and "cv_selected s = Some c"
  shows "abs_view (swap_resources rows s) = store_shown c rows (abs_view s)" "in_sync (swap_resources rows s)"
proof -
  have "map res_sig (cv_resources s) = map res_sig rows" if "areResourcesEqual (cv_vm_list s) rows"
    using assms(1) that by (auto simp: areResourcesEqual_def in_sync_def split: option.splits)
  then show "abs_view (swap_resources rows s) = store_shown c rows (abs_view s)"
    using assms(2) by (auto simp: swap_resources_def abs_view_def store_shown_def side_def)
  show "in_sync (swap_resources rows s)" using assms(1) by (simp add: swap_resources_def in_sync_def)
qed

text \<open>Everything that touches neither the selection nor a list of guests.\<close>

lemma abs_other [simp]:
  "abs_view (s\<lparr>cv_metrics := d\<rparr>) = abs_view s" "abs_view (s\<lparr>cv_known := w\<rparr>) = abs_view s" "abs_view (s\<lparr>cv_pools := p\<rparr>) = abs_view s"
  "abs_view (s\<lparr>cv_stores := d\<rparr>) = abs_view s" "abs_view (s\<lparr>cv_networks := p\<rparr>) = abs_view s" "abs_view (s\<lparr>cv_nets_loading := l\<rparr>) = abs_view s"
  "abs_view (s\<lparr>cv_logs := p\<rparr>) = abs_view s" "abs_view (s\<lparr>cv_backup := u\<rparr>) = abs_view s" "abs_view (s\<lparr>cv_side_loading := l'\<rparr>) = abs_view s"
  "abs_view (s\<lparr>cv_calls := k\<rparr>) = abs_view s" "abs_view (s\<lparr>cv_health := h\<rparr>) = abs_view s" "abs_view (s\<lparr>cv_configs := x\<rparr>) = abs_view s"
  "abs_view (announce c rows s) = abs_view s" "abs_view (ask kk c s) = abs_view s"
  "abs_view (node_status_frame ev now s) = abs_view s"
  by (simp_all add: abs_view_def side_def announce_def ask_def node_status_frame_def Let_def show_toast_def log_event_def)

lemma sync_other [simp]:
  "in_sync (s\<lparr>cv_metrics := d\<rparr>) = in_sync s" "in_sync (s\<lparr>cv_known := w\<rparr>) = in_sync s" "in_sync (s\<lparr>cv_pools := p\<rparr>) = in_sync s"
  "in_sync (s\<lparr>cv_stores := d\<rparr>) = in_sync s" "in_sync (s\<lparr>cv_networks := p\<rparr>) = in_sync s" "in_sync (s\<lparr>cv_nets_loading := l\<rparr>) = in_sync s"
  "in_sync (s\<lparr>cv_logs := p\<rparr>) = in_sync s" "in_sync (s\<lparr>cv_backup := u\<rparr>) = in_sync s" "in_sync (s\<lparr>cv_side_loading := l'\<rparr>) = in_sync s"
  "in_sync (s\<lparr>cv_calls := k\<rparr>) = in_sync s" "in_sync (s\<lparr>cv_health := h\<rparr>) = in_sync s" "in_sync (s\<lparr>cv_configs := x\<rparr>) = in_sync s"
  "in_sync (announce c rows s) = in_sync s" "in_sync (ask kk c s) = in_sync s" "in_sync (put_side c f s) = in_sync s"
  "in_sync (touch_side c f s) = in_sync s" "in_sync (node_status_frame ev now s) = in_sync s" "in_sync (seed_from e s)"
  by (simp_all add: in_sync_def announce_def ask_def node_status_frame_def Let_def show_toast_def log_event_def touch_side_def seed_from_def)

lemma selected_other [simp]:
  "cv_selected (announce c rows s) = cv_selected s" "cv_selected (swap_resources rows s) = cv_selected s"
  "cv_selected (touch_side c f s) = cv_selected s"
  by (simp_all add: announce_def swap_resources_def touch_side_def)

lemma abs_resources_answer:
  assumes sync: "in_sync s"
  shows "abs_view (resources_answer c rows now s) = store_shown c rows (store_side c rows (abs_view s)) \<and>
    in_sync (resources_answer c rows now s)"
proof -
  let ?s1 = "if areResourcesEqual (sb_resources (side s c)) rows then s else put_side c (\<lambda>e. e\<lparr>sb_resources := Some rows\<rparr>) s"
  have 1: "abs_view ?s1 = store_side c rows (abs_view s)" "in_sync ?s1" "cv_selected ?s1 = cv_selected s"
    using sync by (simp_all add: equal_side abs_put_side(2))
  show ?thesis
  proof (cases "cv_selected s = Some c")
    case True
    with 1 have "in_sync (announce c rows ?s1)" "cv_selected (announce c rows ?s1) = Some c" by simp_all
    from abs_swap [OF this, of rows] 1 True show ?thesis by (simp add: resources_answer_def Let_def)
  next
    case False
    then have "store_shown c rows (store_side c rows (abs_view s)) = store_side c rows (abs_view s)"
      by (simp add: store_shown_def store_side_def abs_view_def)
    with 1 False show ?thesis by (simp add: resources_answer_def Let_def)
  qed
qed

lemma abs_resources_frame:
  assumes sync: "in_sync s"
  shows "abs_view (resources_frame c rows s) = store_step (Resources_Frame c rows) (abs_view s) \<and> in_sync (resources_frame c rows s)"
proof (cases "cv_selected s = Some c")
  case True
  then have "in_sync (announce c rows s)" "cv_selected (announce c rows s) = Some c" using sync by simp_all
  from abs_swap [OF this, of rows] True show ?thesis
    by (simp add: resources_frame_def elsewhere_def store_step_def)
next
  case False
  with sync show ?thesis
    by (auto simp: resources_frame_def elsewhere_def store_step_def abs_touch_side(2) equal_side Let_def)
qed

lemma abs_settle:
  assumes sync: "in_sync s"
  shows "abs_view (settle_call call a now s) = store_answer call a (abs_view s) \<and> in_sync (settle_call call a now s)"
proof (cases "dc_kind call")
  case Metrics
  with sync show ?thesis
    by (cases a) (simp_all add: settle_call_def store_answer_def on_answer_def obj_of_def metrics_answer_def Let_def abs_put_side(1))
next
  case Resources
  with sync abs_resources_answer [OF sync] show ?thesis
    by (cases a) (simp_all add: settle_call_def store_answer_def on_answer_def rows_of_def Let_def)
next
  case Backup
  with sync show ?thesis
    by (cases a) (simp_all add: settle_call_def store_answer_def on_answer_def rows_of_def backup_answer_def Let_def)
next
  case Pools
  with sync show ?thesis
    by (cases a) (simp_all add: settle_call_def store_answer_def on_answer_def rows_of_def pools_answer_def Let_def abs_put_side(1))
next
  case Datastores
  with sync show ?thesis
    by (cases a) (simp_all add: settle_call_def store_answer_def on_answer_def obj_of_def stores_answer_def Let_def abs_put_side(1))
next
  case Networks
  with sync show ?thesis
    by (cases a) (simp_all add: settle_call_def store_answer_def rows_of_def networks_answer_def Let_def abs_put_side(1))
next
  case Logs
  with sync show ?thesis
    by (cases a) (simp_all add: settle_call_def store_answer_def on_answer_def rows_of_def logs_answer_def)
next
  case Sidebar
  with sync show ?thesis
    by (cases a) (simp_all add: settle_call_def store_answer_def side_of_def sidebar_answer_def Let_def abs_put_side(2))
qed

lemma abs_select:
  assumes sync: "in_sync s"
  shows "abs_view (select_view sel s) = store_step (View_Select sel) (abs_view s) \<and> in_sync (select_view sel s)"
proof -
  have sd: "side (s\<lparr>cv_selected := x\<rparr>) c = side s c" for x c by (simp add: side_def)
  have abs: "abs_view (seed_from e (s\<lparr>cv_selected := x\<rparr>)) =
      (abs_view s)\<lparr>sh_selected := x, sh_sigs := map res_sig (or_default (sb_resources e) [])\<rparr>" for e x
    by (simp add: abs_view_def seed_from_def side_def)
  have sigs: "or_default (sh_side (abs_view s) c) [] = map res_sig (or_default (sb_resources (side s c)) [])" for c
    by (simp add: abs_view_def or_default_def split: option.split)
  show ?thesis
  proof (cases "sel = cv_selected s")
    case False
    then show ?thesis
    proof (cases sel)
      case None
      with False show ?thesis by (simp add: select_view_def store_step_def abs or_default_def empty_entry_def)
    next
      case (Some c)
      with False show ?thesis
        by (simp add: select_view_def store_step_def poll_cluster_def fetchClusterResources_def fetchClusterNetworks_def abs sigs)
    qed
  qed (simp add: select_view_def store_step_def sync)
qed

lemma abs_step:
  assumes sync: "in_sync s" and plain: "\<not> optimistic e"
  shows "abs_view (view_do tr me e s) = store_step e (abs_view s) \<and> in_sync (view_do tr me e s)"
proof (cases e)
  case (View_Select sel)
  with abs_select [OF sync] show ?thesis by (simp add: view_do_def)
next
  case (Settle i call a now)
  have "in_sync (s\<lparr>cv_calls := take i (cv_calls s) @ drop (Suc i) (cv_calls s)\<rparr>)" using sync by simp
  from abs_settle [OF this, of call a now] Settle show ?thesis by (simp add: view_do_def store_step_def)
next
  case (Resources_Frame c rows)
  with abs_resources_frame [OF sync] show ?thesis by (simp add: view_do_def)
qed (use sync plain in \<open>simp_all add: view_do_def store_step_def optimistic_def poll_cluster_def fetchClusterResources_def
      fetchSidebarClusterData_def metrics_frame_def Let_def abs_touch_side(1) health_frame_def vm_config_frame_def\<close>)

section \<open>Properties\<close>


text \<open>C36. Refinement: apart from optimistic updates, comparing a list with \<open>window.pegaproxVmList\<close> before storing it
  shows the same rows, up to their signature, as storing every list of the selected cluster.\<close>

theorem resources_refinement:
  assumes "run_exec (view_exec tr me) cluster_view_new es = Some s" and "list_all (\<lambda>e. \<not> optimistic e) es"
  shows "abs_view s = foldl (\<lambda>v e. store_step e v) (abs_view cluster_view_new) es"
proof -
  have "abs_view s = foldl (\<lambda>v e. store_step e v) (abs_view s0) es"
    if "run_exec (view_exec tr me) s0 es = Some s" "list_all (\<lambda>e. \<not> optimistic e) es" "in_sync s0" for s0
    using that
  proof (induction es arbitrary: s0)
    case (Cons e es)
    have "view_exec tr me s0 e = Some (view_do tr me e s0)"
      using Cons.prems(1) by (simp add: view_exec_def split: if_splits)
    with Cons abs_step [OF Cons.prems(3), of e tr me] show ?case by simp
  qed simp
  from this [OF assms] show ?thesis by (simp add: in_sync_def cluster_view_new_def)
qed

definition demo_row :: "string \<Rightarrow> int \<Rightarrow> string \<Rightarrow> obj" where
  "demo_row cl vmid st = [(''id'', Str cl), (''vmid'', Num vmid), (''node'', Str ''pve''), (''status'', Str st), (''type'', Str ''qemu'')]"


definition demo_tr :: "string \<Rightarrow> string" where
  "demo_tr k = k"





definition demo_frames :: "view_event list" where
  "demo_frames = [View_Select (Some ''A''), Resources_Frame ''A'' [demo_row ''A'' 100 ''running''],
     Resources_Frame ''A'' [demo_row ''A'' 100 ''running''], Resources_Frame ''B'' [demo_row ''B'' 7 ''running''],
     Resources_Frame ''A'' [demo_row ''A'' 100 ''stopped'']]"

theorem resources_refinement_witness:
  "run_ends (view_exec demo_tr Undef) cluster_view_new demo_frames (\<lambda>s. map res_sig (cv_resources s) = [''100|stopped|pve||0|0|||''])"
proof -
  have "run_ends (view_exec demo_tr Undef) cluster_view_new demo_frames (\<lambda>s. True)" by code_simp
  then obtain s where s: "run_exec (view_exec demo_tr Undef) cluster_view_new demo_frames = Some s"
    unfolding run_ends_iff by (elim exE conjE)
  have p: "list_all (\<lambda>e. \<not> optimistic e) demo_frames" by code_simp
  have "sh_sigs (abs_view s) = sh_sigs (foldl (\<lambda>v e. store_step e v) (abs_view cluster_view_new) demo_frames)"
    unfolding resources_refinement [OF s p] ..
  also have "\<dots> = [''100|stopped|pve||0|0|||'']" by code_simp
  finally have "map res_sig (cv_resources s) = [''100|stopped|pve||0|0|||'']" by (simp add: abs_view_def)
  with s show ?thesis unfolding run_ends_iff by (intro exI [of _ s] conjI)
qed

text \<open>\<open>fetchMigrationLogs\<close> does not look which cluster is selected when its answer comes: after a quick
  change of cluster the migrations of the first stay shown for the second.\<close>

theorem migration_logs_stale:
  "run_ends (view_exec tr me) cluster_view_new [View_Select (Some ''A''), View_Select (Some ''B''),
     Settle 13 \<lparr>dc_kind = Logs, dc_cluster = ''B''\<rparr> (Answer_Rows logs_b) now,
     Settle 6 \<lparr>dc_kind = Logs, dc_cluster = ''A''\<rparr> (Answer_Rows logs_a) later] (\<lambda>s. cv_selected s = Some ''B'' \<and> cv_logs s = logs_a)"
  by (simp add: run_ends_def view_exec_def view_do_def answers_pending_def cluster_view_new_def select_view_def seed_from_def
      poll_cluster_def fetchClusterResources_def fetchClusterNetworks_def ask_def settle_call_def on_answer_def rows_of_def logs_answer_def
      side_def)

text \<open>A power action on a guest of the tree rewrites the row of the selected cluster that has the same
  id and node name, and the frames that follow do not repair it: the server's list is unchanged, so it is not stored.\<close>

theorem foreign_action_sticks:
  "run_ends (view_exec demo_tr Undef) cluster_view_new
     [View_Select (Some ''A''), Resources_Frame ''A'' [demo_row ''A'' 100 ''running''],
      Power \<lparr>pa_row = (''_clusterId'', Str ''B'') # demo_row ''B'' 100 ''running'', pa_action = ''stop'', pa_read_only = False\<rparr>,
      Resources_Frame ''A'' [demo_row ''A'' 100 ''running'']]
     (\<lambda>s. map (\<lambda>r. (prop_of r ''id'', prop_of r ''status'')) (cv_resources s) = [(Str ''A'', Str ''stopped'')])"
  by code_simp

end
