(* ===== verification/Live_Migrations.thy ===== *)
theory Live_Migrations
  imports Live_Cluster
begin

text \<open>
  The frames of the event stream about other hypervisors (web/src/dashboard.js): VMware servers,
  guests and migrations, migrations between hypervisors (\<open>xhm\<close>), Hyper-V inventories and site
  recovery, with the detail of the open migration, its merged log and the delayed request that
  completes it (\<open>fetchXhmDetail\<close>, \<open>xhmMergeLog\<close>, \<open>xhmRefetchDetailSoon\<close>).
\<close>

text \<open>A migration: its fields, and its log apart since it is the only array.\<close>

record migration =
  mg_fields :: obj
  mg_log :: "string list option"

definition mg_id :: "migration \<Rightarrow> jval" where
  "mg_id m = prop_of (mg_fields m) ''id''"

text \<open>\<open>{ ...u, ...m }\<close>.\<close>

definition merge_mig :: "migration \<Rightarrow> migration \<Rightarrow> migration" where
  "merge_mig u m = \<lparr>mg_fields = spread (mg_fields u) (mg_fields m), mg_log = (case mg_log m of None \<Rightarrow> mg_log u | Some l \<Rightarrow> Some l)\<rparr>"

datatype mig_call = Xhm_Detail jval | Hyperv_Vms jval | Hyperv_Facts jval | Xhm_Source jval

record mig_view =
  mv_vmware :: jval
  mv_vmware_vm :: jval
  mv_vmware_mig :: jval
  mv_xhm :: jval
  mv_hyperv :: jval
  mv_xhm_source :: jval
  mv_servers :: "obj list"
  mv_vms :: "obj list"
  mv_vm_detail :: "obj option"
  mv_migs :: "migration list"
  mv_mig_detail :: "migration option"
  mv_xhm_migs :: "migration list"
  mv_xhm_detail :: "migration option"
  mv_recovery :: "obj option"
  mv_refetch :: "jval option"
  mv_calls :: "mig_call list"
  mv_toasts :: "toast list"

definition mig_view_new :: mig_view where
  "mig_view_new = \<lparr>mv_vmware = Undef, mv_vmware_vm = Undef, mv_vmware_mig = Undef, mv_xhm = Undef, mv_hyperv = Undef, mv_xhm_source = Undef,
     mv_servers = [], mv_vms = [], mv_vm_detail = None, mv_migs = [], mv_mig_detail = None, mv_xhm_migs = [], mv_xhm_detail = None,
     mv_recovery = None, mv_refetch = None, mv_calls = [], mv_toasts = []\<rparr>"

definition mig_ask :: "mig_call \<Rightarrow> mig_view \<Rightarrow> mig_view" where
  "mig_ask c s = s\<lparr>mv_calls := mv_calls s @ [c]\<rparr>"

section \<open>Lists\<close>

text \<open>Update the entry with the same id, or put the new one in front.\<close>

fun merge_first :: "migration \<Rightarrow> migration list \<Rightarrow> migration list" where
  "merge_first m [] = []"
| "merge_first m (x # xs) = (if mg_id x = mg_id m then merge_mig x m # xs else x # merge_first m xs)"

definition upsert_mig :: "migration \<Rightarrow> migration list \<Rightarrow> migration list" where
  "upsert_mig m prev = (if list_ex (\<lambda>x. mg_id x = mg_id m) prev then merge_first m prev else m # prev)"

definition obj_id :: "obj \<Rightarrow> jval" where
  "obj_id d = prop_of d ''id''"

fun keep_extra :: "obj \<Rightarrow> obj list \<Rightarrow> obj list" where
  "keep_extra old [] = []"
| "keep_extra old (n # ns) = (if obj_id n = obj_id old then spread old n # ns else n # keep_extra old ns)"

definition merge_servers :: "obj list \<Rightarrow> obj list \<Rightarrow> obj list" where
  "merge_servers prev data = foldl (\<lambda>acc old. keep_extra old acc) data prev"

definition xhmMergeLog :: "string list option \<Rightarrow> string list option \<Rightarrow> string list option" where
  "xhmMergeLog have_log incoming =
     (let kept = or_default have_log []; extra = filter (\<lambda>l. l \<notin> set kept) (or_default incoming [])
      in Some (if extra = [] then kept else kept @ extra))"

definition push_line :: "jval \<Rightarrow> string list option \<Rightarrow> string list" where
  "push_line line log =
     (let l = or_default log [] in if truthy line \<and> to_str line \<notin> set l then l @ [to_str line] else l)"

section \<open>Frames\<close>

definition recovery_frame :: "obj \<Rightarrow> mig_view \<Rightarrow> mig_view" where
  "recovery_frame d s =
     (let m = prop_of d ''message''
      in (if prop_of d ''progress'' = Num 100 \<or> (truthy m \<and> js_includes (to_str m) ''complete'')
          then s\<lparr>mv_toasts := mv_toasts s @ [Toast (if js_includes (to_str m) ''failed'' then ''error'' else ''success'') (to_str m)]\<rparr>
          else s)\<lparr>mv_recovery := Some d\<rparr>)"

definition servers_frame :: "obj list \<Rightarrow> mig_view \<Rightarrow> mig_view" where
  "servers_frame data s = s\<lparr>mv_servers := merge_servers (mv_servers s) data\<rparr>"

definition vms_frame :: "jval \<Rightarrow> obj list \<Rightarrow> mig_view \<Rightarrow> mig_view" where
  "vms_frame vmware_id vms s = (if mv_vmware s = vmware_id then s\<lparr>mv_vms := vms\<rparr> else s)"

definition vm_detail_frame :: "jval \<Rightarrow> jval \<Rightarrow> obj option \<Rightarrow> mig_view \<Rightarrow> mig_view" where
  "vm_detail_frame vmware_id vm_id d s =
     (if mv_vmware s = vmware_id \<and> mv_vmware_vm s = vm_id \<and> d \<noteq> None then s\<lparr>mv_vm_detail := d\<rparr> else s)"

definition vmware_migration_frame :: "migration \<Rightarrow> mig_view \<Rightarrow> mig_view" where
  "vmware_migration_frame m s =
     (if \<not> truthy (mg_id m) then s
      else let s1 = s\<lparr>mv_migs := upsert_mig m (mv_migs s)\<rparr>
           in if mv_vmware_mig s1 = mg_id m
              then s1\<lparr>mv_mig_detail := Some (case mv_mig_detail s1 of None \<Rightarrow> m | Some p \<Rightarrow> merge_mig p m)\<rparr> else s1)"

text \<open>A line of log for the open migration.\<close>

definition log_into :: "obj \<Rightarrow> migration \<Rightarrow> migration" where
  "log_into m p = \<lparr>mg_fields = spread (mg_fields p)
       [(''progress'', or_else (prop_of m ''progress'') (prop_of (mg_fields p) ''progress'')),
        (''phase'', or_else (prop_of m ''phase'') (prop_of (mg_fields p) ''phase''))],
     mg_log = Some (push_line (prop_of m ''line'') (mg_log p))\<rparr>"

definition vmware_log_frame :: "obj \<Rightarrow> mig_view \<Rightarrow> mig_view" where
  "vmware_log_frame m s =
     (if truthy (obj_id m) \<and> mv_vmware_mig s = obj_id m then s\<lparr>mv_mig_detail := map_option (log_into m) (mv_mig_detail s)\<rparr> else s)"

text \<open>One request for the detail per burst of frames: while a timer is armed, another is not.\<close>

definition xhmRefetchDetailSoon :: "jval \<Rightarrow> mig_view \<Rightarrow> mig_view" where
  "xhmRefetchDetailSoon mid s = (if mv_refetch s \<noteq> None then s else s\<lparr>mv_refetch := Some mid\<rparr>)"

definition refetch_fires :: "mig_view \<Rightarrow> mig_view" where
  "refetch_fires s =
     (case mv_refetch s of
        None \<Rightarrow> s
      | Some mid \<Rightarrow>
          (let s1 = s\<lparr>mv_refetch := None\<rparr> in if mv_xhm s1 = mid then mig_ask (Xhm_Detail mid) s1 else s1))"

definition xhm_into :: "migration \<Rightarrow> migration \<Rightarrow> migration" where
  "xhm_into m p = (merge_mig p m)\<lparr>mg_log := xhmMergeLog (mg_log p) (mg_log m)\<rparr>"

definition xhm_migration_frame :: "migration \<Rightarrow> mig_view \<Rightarrow> mig_view" where
  "xhm_migration_frame m s =
     (if \<not> truthy (mg_id m) then s
      else let s1 = s\<lparr>mv_xhm_migs := upsert_mig m (mv_xhm_migs s)\<rparr>
           in if mv_xhm s1 = mg_id m
              then xhmRefetchDetailSoon (mg_id m)
                (s1\<lparr>mv_xhm_detail := Some (case mv_xhm_detail s1 of None \<Rightarrow> m | Some p \<Rightarrow> xhm_into m p)\<rparr>)
              else s1)"

definition xhm_log_frame :: "obj \<Rightarrow> mig_view \<Rightarrow> mig_view" where
  "xhm_log_frame m s =
     (if truthy (obj_id m) \<and> mv_xhm s = obj_id m
      then xhmRefetchDetailSoon (obj_id m) (s\<lparr>mv_xhm_detail := map_option (log_into m) (mv_xhm_detail s)\<rparr>)
      else s)"

definition hyperv_inventory_frame :: "obj \<Rightarrow> jval \<Rightarrow> mig_view \<Rightarrow> mig_view" where
  "hyperv_inventory_frame d cid s =
     (let host = or_else (prop_of d ''host_id'') cid
      in if \<not> truthy host then s
         else let s1 = (if mv_hyperv s = host then mig_ask (Hyperv_Facts host) (mig_ask (Hyperv_Vms host) s) else s)
              in if mv_xhm_source s1 = host then mig_ask (Xhm_Source host) s1 else s1)"

text \<open>\<open>fetchXhmDetail\<close> from its two answers on: the detail, and the whole log when it came.\<close>

definition xhm_detail_answer :: "migration option \<Rightarrow> string list option \<Rightarrow> mig_view \<Rightarrow> mig_view" where
  "xhm_detail_answer detail full s =
     (case detail of
        None \<Rightarrow> s
      | Some d \<Rightarrow> s\<lparr>mv_xhm_detail := Some (case full of None \<Rightarrow> d | Some l \<Rightarrow> d\<lparr>mg_log := Some l\<rparr>)\<rparr>)"

definition open_xhm :: "jval \<Rightarrow> mig_view \<Rightarrow> mig_view" where
  "open_xhm mid s = mig_ask (Xhm_Detail mid) (s\<lparr>mv_xhm := mid\<rparr>)"

section \<open>Runs\<close>

datatype mig_event =
    Recovery_Frame obj
  | Servers_Frame "obj list"
  | Vms_Frame jval "obj list"
  | Vm_Detail_Frame jval jval "obj option"
  | Vmware_Migration migration
  | Vmware_Log obj
  | Xhm_Migration migration
  | Xhm_Log obj
  | Hyperv_Inventory obj jval
  | Refetch_Timer
  | Open_Xhm jval
  | Xhm_Detail_Answer "migration option" "string list option"

fun mig_do :: "mig_view \<Rightarrow> mig_event \<Rightarrow> mig_view" where
  "mig_do s (Recovery_Frame d) = recovery_frame d s"
| "mig_do s (Servers_Frame data) = servers_frame data s"
| "mig_do s (Vms_Frame v vms) = vms_frame v vms s"
| "mig_do s (Vm_Detail_Frame v g d) = vm_detail_frame v g d s"
| "mig_do s (Vmware_Migration m) = vmware_migration_frame m s"
| "mig_do s (Vmware_Log m) = vmware_log_frame m s"
| "mig_do s (Xhm_Migration m) = xhm_migration_frame m s"
| "mig_do s (Xhm_Log m) = xhm_log_frame m s"
| "mig_do s (Hyperv_Inventory d c) = hyperv_inventory_frame d c s"
| "mig_do s Refetch_Timer = refetch_fires s"
| "mig_do s (Open_Xhm mid) = open_xhm mid s"
| "mig_do s (Xhm_Detail_Answer d l) = xhm_detail_answer d l s"

definition replaces_detail :: "mig_event \<Rightarrow> bool" where
  "replaces_detail e = (case e of Open_Xhm mid \<Rightarrow> True | Xhm_Detail_Answer d l \<Rightarrow> True | _ \<Rightarrow> False)"

text \<open>The lines a frame brings for the migration \<open>mid\<close>.\<close>

definition lines_for :: "jval \<Rightarrow> mig_event \<Rightarrow> string set" where
  "lines_for mid e =
     (case e of
        Xhm_Migration m \<Rightarrow> if truthy (mg_id m) \<and> mg_id m = mid then set (or_default (mg_log m) []) else {}
      | Xhm_Log m \<Rightarrow> if truthy (obj_id m) \<and> obj_id m = mid \<and> truthy (prop_of m ''line'') then {to_str (prop_of m ''line'')} else {}
      | _ \<Rightarrow> {})"

abbreviation log_of :: "migration \<Rightarrow> string list" where
  "log_of d \<equiv> or_default (mg_log d) []"

lemma or_default_simps [simp]: "or_default None d = d" "or_default (Some x) d = x"
  by (simp_all add: or_default_def)

lemma xhmMergeLog_log:
  "\<exists>l. xhmMergeLog a b = Some l \<and> prefix (or_default a []) l \<and> set l = set (or_default a []) \<union> set (or_default b [])"
  by (auto simp: xhmMergeLog_def Let_def filter_empty_conv)

lemma push_line_log: "prefix (or_default a []) (push_line line a)"
  "truthy line \<Longrightarrow> to_str line \<in> set (push_line line a)"
  by (auto simp: push_line_def Let_def)

lemma refetch_soon_frame [simp]:
  "mv_xhm (xhmRefetchDetailSoon mid s) = mv_xhm s" "mv_xhm_detail (xhmRefetchDetailSoon mid s) = mv_xhm_detail s"
  by (simp_all add: xhmRefetchDetailSoon_def)

lemma xhm_into_log: "prefix (log_of p) (log_of (xhm_into m p)) \<and> set (log_of m) \<subseteq> set (log_of (xhm_into m p))"
proof -
  obtain l where "xhmMergeLog (mg_log p) (mg_log m) = Some l" "prefix (log_of p) l" "set l = set (log_of p) \<union> set (log_of m)"
    using xhmMergeLog_log by blast
  then show ?thesis by (simp add: xhm_into_def)
qed

lemma log_into_log: "prefix (log_of p) (log_of (log_into m p))"
  "truthy (prop_of m ''line'') \<Longrightarrow> to_str (prop_of m ''line'') \<in> set (log_of (log_into m p))"
  using push_line_log by (simp_all add: log_into_def)

lemma xhm_frame_step:
  assumes "\<not> replaces_detail e" and d: "mv_xhm_detail s = Some d"
  shows "\<exists>d'. mv_xhm_detail (mig_do s e) = Some d' \<and> mv_xhm (mig_do s e) = mv_xhm s \<and> prefix (log_of d) (log_of d') \<and>
    lines_for (mv_xhm s) e \<subseteq> set (log_of d')"
proof (cases e)
  case (Xhm_Migration m)
  with d xhm_into_log [of d m] show ?thesis
    by (cases "truthy (mg_id m)"; cases "mv_xhm s = mg_id m") (auto simp: xhm_migration_frame_def Let_def lines_for_def)
next
  case (Xhm_Log m)
  with d log_into_log(1) [of d m] log_into_log(2) [of m d] show ?thesis
    by (cases "truthy (obj_id m)"; cases "mv_xhm s = obj_id m") (auto simp: xhm_log_frame_def lines_for_def)
qed (use assms in \<open>auto simp: replaces_detail_def lines_for_def recovery_frame_def servers_frame_def vms_frame_def vm_detail_frame_def
    vmware_migration_frame_def vmware_log_frame_def hyperv_inventory_frame_def refetch_fires_def mig_ask_def Let_def split: option.splits\<close>)

section \<open>Properties\<close>

text \<open>While the same migration stays open and its detail is not loaded again, no line of its log that was
  shown is lost or moved, and every line a frame brings for it is shown afterwards.\<close>

theorem xhm_log_kept:
  assumes "list_all (\<lambda>e. \<not> replaces_detail e) es" and "mv_xhm_detail s = Some d"
  shows "\<exists>d'. mv_xhm_detail (foldl mig_do s es) = Some d' \<and> prefix (log_of d) (log_of d') \<and>
    \<Union> (lines_for (mv_xhm s) ` set es) \<subseteq> set (log_of d')"
  using assms
proof (induction es arbitrary: s d)
  case (Cons e es)
  then obtain d1 where d1: "mv_xhm_detail (mig_do s e) = Some d1" "mv_xhm (mig_do s e) = mv_xhm s"
    "prefix (log_of d) (log_of d1)" "lines_for (mv_xhm s) e \<subseteq> set (log_of d1)"
    using xhm_frame_step [of e s d] by auto
  have "list_all (\<lambda>e. \<not> replaces_detail e) es" using Cons.prems(1) by simp
  from Cons.IH [OF this d1(1)] obtain d2 where d2: "mv_xhm_detail (foldl mig_do (mig_do s e) es) = Some d2"
    "prefix (log_of d1) (log_of d2)" "\<Union> (lines_for (mv_xhm s) ` set es) \<subseteq> set (log_of d2)"
    unfolding d1(2) by (elim exE conjE)
  have "set (log_of d1) \<subseteq> set (log_of d2)" using d2(2) by (rule set_mono_prefix)
  with d1 d2 show ?case by (auto intro: prefix_order.trans)
qed simp

definition demo_mig :: "string \<Rightarrow> string list \<Rightarrow> migration" where
  "demo_mig i log = \<lparr>mg_fields = [(''id'', Str i), (''phase'', Str ''copy'')], mg_log = Some log\<rparr>"

definition demo_open :: mig_view where
  "demo_open = foldl mig_do mig_view_new [Open_Xhm (Str ''m1''), Xhm_Detail_Answer (Some (demo_mig ''m1'' [''l1''])) (Some [''l0'', ''l1''])]"

theorem xhm_log_kept_witness:
  "\<exists>d. mv_xhm_detail (foldl mig_do demo_open [Xhm_Migration (demo_mig ''m1'' [''l1'', ''l2'']), Xhm_Log [(''id'', Str ''m1''), (''line'', Str ''l3'')]]) = Some d \<and>
     prefix [''l0'', ''l1''] (log_of d)"
proof -
  have d: "mv_xhm_detail demo_open = Some (demo_mig ''m1'' [''l0'', ''l1''])"
    by (simp add: demo_open_def mig_view_new_def open_xhm_def mig_ask_def xhm_detail_answer_def demo_mig_def)
  from xhm_log_kept [OF _ d, of "[Xhm_Migration (demo_mig ''m1'' [''l1'', ''l2'']), Xhm_Log [(''id'', Str ''m1''), (''line'', Str ''l3'')]]"]
  show ?thesis by (auto simp: replaces_detail_def demo_mig_def)
qed

text \<open>A frame of the open migration is merged into whatever detail is there, so after another row is opened the first
  frame shows the log of the row left as the log of the new one.\<close>

theorem xhm_detail_mixes:
  "\<exists>d. mv_xhm_detail (foldl mig_do demo_open [Open_Xhm (Str ''m2''), Xhm_Migration (demo_mig ''m2'' [''k1''])]) = Some d \<and>
     mg_id d = Str ''m2'' \<and> log_of d = [''l0'', ''l1'', ''k1'']"
proof -
  have d: "mv_xhm_detail demo_open = Some (demo_mig ''m1'' [''l0'', ''l1''])"
    by (simp add: demo_open_def mig_view_new_def open_xhm_def mig_ask_def xhm_detail_answer_def demo_mig_def)
  then show ?thesis
    by (simp add: open_xhm_def mig_ask_def xhm_migration_frame_def Let_def mg_id_def demo_mig_def prop_of_def xhm_into_def
        merge_mig_def spread_def xhmMergeLog_def)
qed

end
