(* ===== verification/Session.thy ===== *)
theory Session
  imports Js_Values
begin

text \<open>
  Language and session of the page (web/src/contexts.js): the choice of the language, and the
  provider of the session with \<open>checkSession\<close>, \<open>login\<close>, \<open>logout\<close>, \<open>updatePreferences\<close> and
  \<open>refreshHa\<close>. A request splits its handler in two; the requests under way are in the state, so answers come in any
  order. \<open>themes\<close> and \<open>texts\<close> say which themes and translations exist. The request bodies and the alert of the
  default password are not modelled.
\<close>

section \<open>Language\<close>

definition SUPPORTED_LANGS :: "string list" where
  "SUPPORTED_LANGS = [''de'', ''en'', ''it'', ''fr'', ''es'', ''pt'', ''ko'', ''zh'', ''pl'']"

text \<open>\<open>split(/[-_]/)\<close>.\<close>

definition lang_parts :: "string \<Rightarrow> string list" where
  "lang_parts raw = concat (map (split_on CHR ''_'') (split_on CHR ''-'' (to_lower raw)))"

definition traditional_chinese :: "string list \<Rightarrow> bool" where
  "traditional_chinese parts \<longleftrightarrow> hd parts = ''zh'' \<and> (''hant'' \<in> set parts \<or> ''tw'' \<in> set parts \<or> ''hk'' \<in> set parts \<or> ''mo'' \<in> set parts)"

definition lang_of :: "string \<Rightarrow> string option" where
  "lang_of raw =
     (if raw = [] then None
      else let parts = lang_parts raw; base = hd parts
           in if traditional_chinese parts then None else if base \<in> set SUPPORTED_LANGS then Some base else None)"

text \<open>\<open>langs\<close> is \<open>navigator.languages\<close> followed by \<open>navigator.language\<close>.\<close>

fun detectBrowserLang :: "string list \<Rightarrow> string option" where
  "detectBrowserLang [] = None"
| "detectBrowserLang (raw # rest) = (case lang_of raw of None \<Rightarrow> detectBrowserLang rest | Some l \<Rightarrow> Some l)"

definition initial_language :: "string option \<Rightarrow> string list \<Rightarrow> string" where
  "initial_language saved langs =
     (case saved of
        Some l \<Rightarrow> if l \<in> set SUPPORTED_LANGS then l else (case detectBrowserLang langs of None \<Rightarrow> ''de'' | Some d \<Rightarrow> d)
      | None \<Rightarrow> (case detectBrowserLang langs of None \<Rightarrow> ''de'' | Some d \<Rightarrow> d))"

text \<open>\<open>translations[lang]?.[key] || translations.en?.[key] || key\<close>.\<close>

definition translate :: "(string \<Rightarrow> string \<Rightarrow> string) \<Rightarrow> string \<Rightarrow> string \<Rightarrow> string" where
  "translate texts lang key = (if texts lang key \<noteq> [] then texts lang key else if texts ''en'' key \<noteq> [] then texts ''en'' key else key)"

section \<open>State\<close>

datatype session_call =
    Check
  | Login
  | Logout_Post
  | Logout_Info
  | Refresh_Ha
  | Preferences

record session =
  se_user :: "obj option"
  se_sid :: jval
  se_auth :: bool
  se_loading :: bool
  se_error :: "string option"
  se_expiry :: jval
  se_needs_2fa :: bool
  se_ldap :: jval
  se_oidc :: jval
  se_oidc_text :: jval
  se_background :: jval
  se_proxy :: jval
  se_setup :: bool
  se_ha :: obj
  se_language :: string
  se_theme :: "string option"
  se_light :: bool
  se_air_gap :: bool
  se_portal_path :: bool
  se_calls :: "session_call list"

definition standalone :: obj where
  "standalone = [(''role'', Str ''standalone'')]"

definition session_new :: "string \<Rightarrow> bool \<Rightarrow> bool \<Rightarrow> session" where
  "session_new lang light portal = \<lparr>se_user = None, se_sid = Undef, se_auth = False, se_loading = True, se_error = None, se_expiry = Undef,
     se_needs_2fa = False, se_ldap = Bool False, se_oidc = Bool False, se_oidc_text = Str ''Sign in with SSO'', se_background = Str [],
     se_proxy = Bool False, se_setup = False, se_ha = standalone, se_language = lang, se_theme = None, se_light = light,
     se_air_gap = False, se_portal_path = portal, se_calls = []\<rparr>"

definition fields_of :: "jval \<Rightarrow> obj" where
  "fields_of v = (case v of Obj kvs \<Rightarrow> kvs | _ \<Rightarrow> [])"

definition applyHa :: "jval \<Rightarrow> session \<Rightarrow> session" where
  "applyHa nxt s = s\<lparr>se_ha := (case nxt of Obj kvs \<Rightarrow> if truthy (prop_of kvs ''role'') then kvs else standalone | _ \<Rightarrow> standalone)\<rparr>"

definition set_language :: "string \<Rightarrow> session \<Rightarrow> session" where
  "set_language l s = (if l \<in> set SUPPORTED_LANGS then s\<lparr>se_language := l\<rparr> else s)"

definition apply_language :: "(string \<Rightarrow> bool) \<Rightarrow> obj \<Rightarrow> session \<Rightarrow> session" where
  "apply_language texts u s =
     (let l = prop_of u ''language'' in if truthy l \<and> texts (to_str l) then set_language (to_str l) s else s)"

text \<open>The theme of an account: its own, the default of the server, or \<open>proxmoxDark\<close>; in the corporate layout
  the local toggle decides unless the account follows the system.\<close>

definition user_theme :: "obj \<Rightarrow> obj \<Rightarrow> bool \<Rightarrow> string" where
  "user_theme u d light =
     (let th = to_str (or_else (prop_of u ''theme'') (or_else (prop_of d ''default_theme'') (Str ''proxmoxDark'')))
      in if prop_of u ''ui_layout'' = Str ''corporate'' \<and> th \<noteq> ''system''
         then (if light then ''corporateLight'' else ''corporateDark'') else th)"

definition apply_theme :: "(string \<Rightarrow> bool) \<Rightarrow> string \<Rightarrow> session \<Rightarrow> session" where
  "apply_theme themes th s = (if th \<noteq> [] \<and> themes th then s\<lparr>se_theme := Some th\<rparr> else s)"

definition keep_proxy :: "obj \<Rightarrow> session \<Rightarrow> session" where
  "keep_proxy d s = (if prop_of d ''reverse_proxy_enabled'' \<noteq> Undef then s\<lparr>se_proxy := prop_of d ''reverse_proxy_enabled''\<rparr> else s)"

definition keep_sid :: "obj \<Rightarrow> session \<Rightarrow> session" where
  "keep_sid d s = (if truthy (prop_of d ''session_id'') then s\<lparr>se_sid := prop_of d ''session_id''\<rparr> else s)"

definition session_ask :: "session_call \<Rightarrow> session \<Rightarrow> session" where
  "session_ask c s = s\<lparr>se_calls := se_calls s @ [c]\<rparr>"

section \<open>Handlers\<close>

definition logout :: "session \<Rightarrow> session" where
  "logout s = session_ask Logout_Post s"

text \<open>\<open>logout\<close> once its request is over, whatever its answer, and the answer of the one that follows.\<close>

definition logout_done :: "session \<Rightarrow> session" where
  "logout_done s = session_ask Logout_Info (s\<lparr>se_user := None, se_sid := Undef, se_auth := False\<rparr>)"

definition login_page_info :: "obj \<Rightarrow> session \<Rightarrow> session" where
  "login_page_info d s =
     (let s1 = (if prop_of d ''oidc_enabled'' \<noteq> Undef
                then s\<lparr>se_oidc := prop_of d ''oidc_enabled'', se_oidc_text := or_else (prop_of d ''oidc_button_text'') (Str ''Sign in with SSO'')\<rparr> else s);
          s2 = (if prop_of d ''ldap_enabled'' \<noteq> Undef then s1\<lparr>se_ldap := prop_of d ''ldap_enabled''\<rparr> else s1)
      in if truthy (prop_of d ''login_background'') then s2\<lparr>se_background := prop_of d ''login_background''\<rparr> else s2)"

definition logout_info :: "obj option \<Rightarrow> session \<Rightarrow> session" where
  "logout_info a s =
     (case a of
        None \<Rightarrow> s
      | Some d \<Rightarrow> applyHa (if truthy (prop_of d ''ha_role'') then Obj [(''role'', prop_of d ''ha_role'')] else Undef) (login_page_info d s))"

text \<open>\<open>checkSession\<close>: not on the callback of a sign-in at an identity provider.\<close>

definition checkSession :: "bool \<Rightarrow> session \<Rightarrow> session" where
  "checkSession callback s = (if callback then s\<lparr>se_loading := False\<rparr> else session_ask Check s)"

definition enter_session :: "(string \<Rightarrow> bool) \<Rightarrow> (string \<Rightarrow> bool) \<Rightarrow> obj \<Rightarrow> session \<Rightarrow> session" where
  "enter_session themes texts d s =
     (let u = fields_of (prop_of d ''user'')
      in applyHa (prop_of d ''ha'') (keep_proxy d (apply_theme themes (user_theme u d (se_light s)) (apply_language texts u s))))"

definition sign_in :: "obj \<Rightarrow> session \<Rightarrow> session" where
  "sign_in d s = keep_sid d (s\<lparr>se_user := Some (fields_of (prop_of d ''user'')), se_auth := True\<rparr>)"

definition check_ok :: "(string \<Rightarrow> bool) \<Rightarrow> (string \<Rightarrow> bool) \<Rightarrow> obj \<Rightarrow> session \<Rightarrow> session" where
  "check_ok themes texts d s =
     (let s1 = s\<lparr>se_air_gap := truthy (prop_of d ''air_gap_mode'')\<rparr>; u = fields_of (prop_of d ''user'')
      in if \<not> truthy (prop_of d ''authenticated'') then logout s1
         else if truthy (prop_of u ''portal_only'') \<and> \<not> se_portal_path s1 then logout s1
         else let s2 = sign_in d s1;
                  s3 = (if truthy (prop_of d ''password_expiry'') then s2\<lparr>se_expiry := prop_of d ''password_expiry''\<rparr> else s2)
              in enter_session themes texts d (s3\<lparr>se_needs_2fa := truthy (prop_of d ''requires_2fa_setup'')\<rparr>))"

definition check_refused :: "obj option \<Rightarrow> session \<Rightarrow> session" where
  "check_refused a s =
     logout (case a of
        None \<Rightarrow> s
      | Some d \<Rightarrow>
          let s1 = (if truthy (prop_of d ''ha_role'') then applyHa (Obj [(''role'', prop_of d ''ha_role'')]) s else s)
          in (keep_proxy d (login_page_info d s1))\<lparr>se_setup := (prop_of d ''initialized'' = Bool False)\<rparr>)"

text \<open>An answer: the request failed or its body is no JSON (\<open>Broken\<close>), or status and body.\<close>

datatype session_answer = Broken | Reply nat obj

definition reply_ok :: "nat \<Rightarrow> bool" where
  "reply_ok st \<longleftrightarrow> 200 \<le> st \<and> st \<le> 299"

definition check_answer :: "(string \<Rightarrow> bool) \<Rightarrow> (string \<Rightarrow> bool) \<Rightarrow> session_answer \<Rightarrow> session \<Rightarrow> session" where
  "check_answer themes texts a s =
     (case a of
        Broken \<Rightarrow> logout s
      | Reply st d \<Rightarrow> if reply_ok st then check_ok themes texts d s else check_refused (Some d) s)\<lparr>se_loading := False\<rparr>"

definition login :: "session \<Rightarrow> session" where
  "login s = session_ask Login (s\<lparr>se_error := None\<rparr>)"

datatype login_result =
    Locked int
  | Too_Many
  | Needs_2FA jval
  | Portal_Only
  | Signed_In
  | Login_Failed jval
  | No_Connection

definition ceil_minutes :: "int \<Rightarrow> int" where
  "ceil_minutes sec = - ((- sec) div 60)"

definition locked_text :: "(string \<Rightarrow> string) \<Rightarrow> int \<Rightarrow> string" where
  "locked_text tr mins = (if tr ''accountLocked'' = [] then ''Too many failed attempts. Try again in ~'' @ show_int mins @ '' min.'' else replace_first (tr ''accountLocked'') ''{mins}'' (show_int mins))"

definition login_answer :: "(string \<Rightarrow> string) \<Rightarrow> (string \<Rightarrow> bool) \<Rightarrow> (string \<Rightarrow> bool) \<Rightarrow> session_answer \<Rightarrow> session \<Rightarrow> session \<times> login_result" where
  "login_answer tr themes texts a s =
     (case a of
        Broken \<Rightarrow> (s\<lparr>se_error := Some ''Connection error''\<rparr>, No_Connection)
      | Reply st d \<Rightarrow>
          if truthy (prop_of d ''locked'')
          then (let sec = as_num (prop_of d ''retry_after'') in (s\<lparr>se_error := Some (locked_text tr (ceil_minutes sec))\<rparr>, Locked sec))
          else if st = 429
          then (s\<lparr>se_error := Some (to_str (or_else (prop_of d ''error'') (Str ''Too many requests, slow down.'')))\<rparr>, Too_Many)
          else if reply_ok st \<and> truthy (prop_of d ''requires_2fa'') then (s, Needs_2FA (prop_of d ''methods''))
          else if reply_ok st \<and> truthy (prop_of d ''success'')
          then (if truthy (prop_of d ''portal_only'') \<and> \<not> se_portal_path s
                then (s\<lparr>se_error := Some (if tr ''portalOnlyAccount'' = [] then ''This account can only log in via the Client Portal (/portal)'' else tr ''portalOnlyAccount'')\<rparr>, Portal_Only)
                else let s1 = sign_in d s;
                         s2 = (if truthy (prop_of d ''requires_2fa_setup'') then s1\<lparr>se_needs_2fa := True\<rparr> else s1)
                     in (enter_session themes texts d s2, Signed_In))
          else (s\<lparr>se_error := Some (to_str (or_else (prop_of d ''error'') (Str ''Login failed'')))\<rparr>, Login_Failed (prop_of d ''error'')))"

definition pref_fields :: "string list" where
  "pref_fields = [''theme'', ''language'', ''ui_layout'', ''taskbar_auto_expand'', ''sidebar_show_vmid'', ''layout_chosen'']"

definition take_prefs :: "obj \<Rightarrow> obj \<Rightarrow> obj" where
  "take_prefs d u = foldl (\<lambda>acc k. AList.update k (prop_of d k) acc) u pref_fields"

text \<open>\<open>updatePreferences\<close> from its answer on; without a user the object of the fields alone becomes the user.\<close>

definition preferences_answer :: "(string \<Rightarrow> bool) \<Rightarrow> session_answer \<Rightarrow> session \<Rightarrow> session" where
  "preferences_answer themes a s =
     (case a of
        Broken \<Rightarrow> s
      | Reply st d \<Rightarrow>
          if reply_ok st
          then (let s1 = s\<lparr>se_user := Some (take_prefs d (case se_user s of None \<Rightarrow> [] | Some u \<Rightarrow> u))\<rparr>
                in if truthy (prop_of d ''theme'') then apply_theme themes (to_str (prop_of d ''theme'')) s1 else s1)
          else s)"

definition updateCurrentUser :: "obj \<Rightarrow> session \<Rightarrow> session" where
  "updateCurrentUser up s = s\<lparr>se_user := map_option (\<lambda>u. spread u up) (se_user s)\<rparr>"

definition refresh_ha_answer :: "session_answer \<Rightarrow> session \<Rightarrow> session" where
  "refresh_ha_answer a s =
     (case a of
        Broken \<Rightarrow> s
      | Reply st d \<Rightarrow> if reply_ok st \<and> truthy (prop_of d ''authenticated'') then applyHa (prop_of d ''ha'') s else s)"

text \<open>Which instance acts and how often its role is read again.\<close>

definition haStandby :: "session \<Rightarrow> bool" where
  "haStandby s \<longleftrightarrow> prop_of (se_ha s) ''role'' = Str ''standby''"

definition haReadOnly :: "session \<Rightarrow> bool" where
  "haReadOnly s \<longleftrightarrow> haStandby s \<and> prop_of (se_ha s) ''forwarding'' \<noteq> Bool True"

definition haConsolesElsewhere :: "session \<Rightarrow> bool" where
  "haConsolesElsewhere s \<longleftrightarrow> haStandby s \<and> prop_of (se_ha s) ''serving'' \<noteq> Bool True"

definition haServing :: "session \<Rightarrow> bool" where
  "haServing s \<longleftrightarrow> haStandby s \<and> prop_of (se_ha s) ''serving'' = Bool True"

definition ha_poll :: "session \<Rightarrow> int option" where
  "ha_poll s =
     (if \<not> se_auth s \<or> prop_of (se_ha s) ''role'' \<notin> {Str ''standby'', Str ''active''} then None
      else Some (if prop_of (se_ha s) ''automatic'' = Bool True then 10000 else 30000))"

definition haReadPermission :: "jval \<Rightarrow> bool" where
  "haReadPermission p = (case p of Str s \<Rightarrow> ends_with s ''.view'' | _ \<Rightarrow> False)"

definition haLeaderAway :: "(nat \<times> obj option) option \<Rightarrow> bool" where
  "haLeaderAway res =
     (case res of
        None \<Rightarrow> False
      | Some (st, body) \<Rightarrow> st = 503 \<and> (case body of None \<Rightarrow> False | Some b \<Rightarrow> prop_of b ''code'' = Str ''HA_ACTIVE_UNREACHABLE''))"

definition HA_NODE_JOB_FIELDS :: "string list" where
  "HA_NODE_JOB_FIELDS = [''maintenance_mode'', ''maintenance_task'', ''maintenance_acknowledged'', ''is_updating'', ''update_task'']"

text \<open>\<open>undefined\<close> stands for \<open>null\<close> too.\<close>

definition job_of :: "obj \<Rightarrow> obj" where
  "job_of there = map (\<lambda>k. (k, if prop_of there k \<noteq> Undef then prop_of there k else if ends_with k ''_task'' then Undef else Bool False))
     HA_NODE_JOB_FIELDS"

definition with_progress :: "obj \<Rightarrow> obj \<Rightarrow> obj" where
  "with_progress metrics nodes =
     foldl (\<lambda>out (name, there).
       case (prop_of metrics name, there) of
         (Obj here, Obj job) \<Rightarrow> AList.update name (Obj (spread here (job_of job))) out
       | _ \<Rightarrow> out) metrics nodes"

definition haWithLeaderProgress :: "obj \<Rightarrow> (string \<times> obj) option \<Rightarrow> string \<Rightarrow> obj" where
  "haWithLeaderProgress metrics progress c =
     (case progress of None \<Rightarrow> metrics | Some (pc, nodes) \<Rightarrow> if pc = c then with_progress metrics nodes else metrics)"

definition haConsoleSearch :: "obj option \<Rightarrow> jval \<Rightarrow> string" where
  "haConsoleSearch vm c =
     (case vm of
        None \<Rightarrow> []
      | Some v \<Rightarrow>
          let cid = or_else (prop_of v ''_clusterId'') c
          in if \<not> truthy cid \<or> prop_of v ''type'' \<notin> {Str ''qemu'', Str ''lxc''} then []
             else ''?console='' @ encodeURIComponent (to_str cid @ '':'' @ to_str (prop_of v ''type'') @ '':'' @ to_str (prop_of v ''vmid'') @ '':'' @
                    to_str (prop_of v ''node'')))"

text \<open>\<open>url\<close> is the browser's parser: the protocol of an address, and the address with a query and no fragment.\<close>

definition https_text :: "string \<Rightarrow> bool" where
  "https_text u \<longleftrightarrow> starts_with (to_lower u) ''https://'' \<and> length u > 8 \<and> list_all (\<lambda>c. \<not> is_space c) (drop 8 u)"

definition one_slash :: "string \<Rightarrow> string" where
  "one_slash u = rev (dropWhile (\<lambda>c. c = CHR ''/'') (rev u)) @ ''/''"

definition haActiveHref :: "(string \<Rightarrow> string \<Rightarrow> (string \<times> string) option) \<Rightarrow> jval \<Rightarrow> string \<Rightarrow> string option" where
  "haActiveHref url peer search =
     (case peer of
        Str p \<Rightarrow>
          if \<not> https_text (trim p) then None
          else (case url (one_slash (trim p)) search of
                  None \<Rightarrow> None
                | Some (proto, href) \<Rightarrow> if proto = ''https:'' then Some href else None)
      | _ \<Rightarrow> None)"

text \<open>\<open>useLayout\<close>: the theme forced by the layout, and the attribute for the light corporate style.\<close>

definition layout_of :: "session \<Rightarrow> string" where
  "layout_of s = to_str (or_else (case se_user s of None \<Rightarrow> Undef | Some u \<Rightarrow> prop_of u ''ui_layout'') (Str ''modern''))"

definition layout_effect :: "bool \<Rightarrow> (string \<Rightarrow> bool) \<Rightarrow> session \<Rightarrow> session \<times> string option" where
  "layout_effect stored_system themes s =
     (if layout_of s = ''corporate''
      then (if stored_system then (apply_theme themes ''system'' s, None)
            else (apply_theme themes (if se_light s then ''corporateLight'' else ''corporateDark'') s, Some (if se_light s then ''light'' else [])))
      else if layout_of s = ''cloud'' then (apply_theme themes ''cloud'' s, None)
      else (s, None))"

text \<open>\<open>App\<close> (web/src/dashboard.js): what the page shows.\<close>

datatype app_view = Loading | Setup_Wizard | Login_Screen | Force_2FA | Console_Window string | Layout_Choice | Dashboard

definition app_view_of :: "string option \<Rightarrow> session \<Rightarrow> app_view" where
  "app_view_of console s =
     (if se_loading s then Loading
      else case se_user s of
             None \<Rightarrow> if se_setup s then Setup_Wizard else Login_Screen
           | Some u \<Rightarrow>
               if se_needs_2fa s then Force_2FA
               else (case console of
                       Some k \<Rightarrow> if k \<noteq> [] then Console_Window k else if truthy (prop_of u ''layout_chosen'') then Dashboard else Layout_Choice
                     | None \<Rightarrow> if truthy (prop_of u ''layout_chosen'') then Dashboard else Layout_Choice))"

section \<open>Runs\<close>

datatype session_event =
    Start_Check bool
  | Start_Login
  | Start_Logout
  | Start_Refresh
  | Start_Preferences
  | Reply_To nat session_answer

definition settle_session :: "(string \<Rightarrow> string) \<Rightarrow> (string \<Rightarrow> bool) \<Rightarrow> (string \<Rightarrow> bool) \<Rightarrow> session_call \<Rightarrow> session_answer \<Rightarrow> session \<Rightarrow> session" where
  "settle_session tr themes texts c a s =
     (case c of
        Check \<Rightarrow> check_answer themes texts a s
      | Login \<Rightarrow> fst (login_answer tr themes texts a s)
      | Logout_Post \<Rightarrow> logout_done s
      | Logout_Info \<Rightarrow> logout_info (case a of Broken \<Rightarrow> None | Reply st d \<Rightarrow> Some d) s
      | Refresh_Ha \<Rightarrow> refresh_ha_answer a s
      | Preferences \<Rightarrow> preferences_answer themes a s)"

definition session_exec :: "(string \<Rightarrow> string) \<Rightarrow> (string \<Rightarrow> bool) \<Rightarrow> (string \<Rightarrow> bool) \<Rightarrow> session \<Rightarrow> session_event \<Rightarrow> session option" where
  "session_exec tr themes texts s e =
     (case e of
        Start_Check callback \<Rightarrow> Some (checkSession callback s)
      | Start_Login \<Rightarrow> Some (login s)
      | Start_Logout \<Rightarrow> Some (logout s)
      | Start_Refresh \<Rightarrow> Some (session_ask Refresh_Ha s)
      | Start_Preferences \<Rightarrow> if se_auth s then Some (session_ask Preferences s) else None
      | Reply_To i a \<Rightarrow>
          if i < length (se_calls s)
          then Some (settle_session tr themes texts (se_calls s ! i) a (s\<lparr>se_calls := take i (se_calls s) @ drop (Suc i) (se_calls s)\<rparr>))
          else None)"

text \<open>The server sends the account's \<open>portal_only\<close> on a login as it does in \<open>user\<close>.\<close>

definition consistent_answer :: "session_answer \<Rightarrow> bool" where
  "consistent_answer a =
     (case a of
        Broken \<Rightarrow> True
      | Reply st d \<Rightarrow> truthy (prop_of (fields_of (prop_of d ''user'')) ''portal_only'') \<longrightarrow>
          truthy (prop_of d ''success'') \<longrightarrow> truthy (prop_of d ''portal_only''))"

definition consistent_event :: "session_event \<Rightarrow> bool" where
  "consistent_event e = (case e of Reply_To i a \<Rightarrow> consistent_answer a | _ \<Rightarrow> True)"

definition session_step :: "(string \<Rightarrow> string) \<Rightarrow> (string \<Rightarrow> bool) \<Rightarrow> (string \<Rightarrow> bool) \<Rightarrow> session \<Rightarrow> session_event \<Rightarrow> session \<Rightarrow> bool" where
  "session_step tr themes texts s e s' \<longleftrightarrow> consistent_event e \<and> session_exec tr themes texts s e = Some s'"

section \<open>Who is signed in\<close>

definition session_inv :: "bool \<Rightarrow> session \<Rightarrow> bool" where
  "session_inv portal s \<longleftrightarrow> se_portal_path s = portal \<and>
     (se_auth s \<longrightarrow> (\<exists>u. se_user s = Some u \<and> (\<not> portal \<longrightarrow> \<not> truthy (prop_of u ''portal_only'')))) \<and>
     (\<not> se_auth s \<longrightarrow> se_sid s = Undef)"

text \<open>What the invariant reads.\<close>

definition same_account :: "session \<Rightarrow> session \<Rightarrow> bool" where
  "same_account s s' \<longleftrightarrow> se_user s' = se_user s \<and> se_auth s' = se_auth s \<and> se_sid s' = se_sid s \<and> se_portal_path s' = se_portal_path s"

lemma inv_same_account: "same_account s s' \<Longrightarrow> session_inv p s' = session_inv p s"
  by (simp add: same_account_def session_inv_def)

lemma account_frames [simp]:
  "same_account s (session_ask c s)" "same_account s (logout s)" "same_account s (applyHa h s)" "same_account s (login_page_info d s)"
  "same_account s (apply_language texts u s)" "same_account s (apply_theme themes th s)" "same_account s (keep_proxy d s)"
  by (simp_all add: same_account_def session_ask_def logout_def applyHa_def login_page_info_def Let_def apply_language_def
      set_language_def apply_theme_def keep_proxy_def)

lemma same_account_trans: "same_account s t \<Longrightarrow> same_account t u \<Longrightarrow> same_account s u"
  by (simp add: same_account_def)

lemma account_enter: "same_account s (enter_session themes texts d s)"
  unfolding enter_session_def Let_def
  by (rule same_account_trans, rule account_frames, rule same_account_trans, rule account_frames, rule same_account_trans,
      rule account_frames, rule account_frames)

lemma session_inv_sign_in:
  assumes "session_inv p s" and "\<not> p \<longrightarrow> \<not> truthy (prop_of (fields_of (prop_of d ''user'')) ''portal_only'')"
  shows "session_inv p (sign_in d s)"
  using assms by (simp add: session_inv_def sign_in_def keep_sid_def)

lemma session_inv_fields [simp]:
  "session_inv p (s\<lparr>se_loading := l\<rparr>) = session_inv p s" "session_inv p (s\<lparr>se_error := e\<rparr>) = session_inv p s"
  "session_inv p (s\<lparr>se_expiry := x\<rparr>) = session_inv p s" "session_inv p (s\<lparr>se_needs_2fa := n\<rparr>) = session_inv p s"
  "session_inv p (s\<lparr>se_setup := n\<rparr>) = session_inv p s" "session_inv p (s\<lparr>se_air_gap := n\<rparr>) = session_inv p s"
  "session_inv p (s\<lparr>se_calls := cs\<rparr>) = session_inv p s"
  by (simp_all add: session_inv_def)

lemma session_inv_frames [simp]:
  "session_inv p (session_ask c s) = session_inv p s"
  "session_inv p (logout s) = session_inv p s" "session_inv p (applyHa h s) = session_inv p s"
  "session_inv p (login_page_info d s) = session_inv p s" "session_inv p (keep_proxy d s) = session_inv p s"
  "session_inv p (apply_theme themes th s) = session_inv p s" "session_inv p (enter_session themes texts d s) = session_inv p s"
  by (intro inv_same_account account_frames account_enter)+

lemma session_inv_check:
  assumes "session_inv p s"
  shows "session_inv p (check_answer themes texts a s)"
proof -
  have path: "se_portal_path s = p" using assms by (simp add: session_inv_def)
  have ok: "session_inv p (check_ok themes texts d s)" for d
    using assms session_inv_sign_in [of p "s\<lparr>se_air_gap := truthy (prop_of d ''air_gap_mode'')\<rparr>" d] path
    by (auto simp: check_ok_def Let_def)
  have refused: "session_inv p (check_refused b s)" for b
    using assms by (simp add: check_refused_def Let_def split: option.split)
  show ?thesis using assms ok refused by (simp add: check_answer_def split: session_answer.split)
qed

lemma session_inv_login:
  assumes inv: "session_inv p s" and "consistent_answer a"
  shows "session_inv p (fst (login_answer tr themes texts a s))"
proof (cases a)
  case (Reply st d)
  have path: "se_portal_path s = p" using inv by (simp add: session_inv_def)
  have "session_inv p (sign_in d s)" if "truthy (prop_of d ''success'')" "\<not> (truthy (prop_of d ''portal_only'') \<and> \<not> p)"
    using inv assms(2) that Reply by (intro session_inv_sign_in) (auto simp: consistent_answer_def)
  with inv path Reply show ?thesis by (auto simp: login_answer_def Let_def)
qed (use inv in \<open>simp add: login_answer_def\<close>)

lemma session_inv_preferences: "session_inv p s \<Longrightarrow> session_inv p (preferences_answer themes a s)"
proof -
  have "prop_of (take_prefs d u) ''portal_only'' = prop_of u ''portal_only''" for d u
    by (simp add: take_prefs_def pref_fields_def prop_of_update)
  then show "session_inv p s \<Longrightarrow> session_inv p (preferences_answer themes a s)"
    by (cases a; cases "se_user s") (auto simp: preferences_answer_def Let_def session_inv_def apply_theme_def)
qed

lemma session_inv_step:
  assumes inv: "session_inv p s" and step: "session_step tr themes texts s e s'"
  shows "session_inv p s'"
proof (cases e)
  case (Reply_To i a)
  let ?s0 = "s\<lparr>se_calls := take i (se_calls s) @ drop (Suc i) (se_calls s)\<rparr>"
  have s': "s' = settle_session tr themes texts (se_calls s ! i) a ?s0" and c: "consistent_answer a"
    using step Reply_To by (auto simp: session_step_def session_exec_def consistent_event_def split: if_splits)
  have inv0: "session_inv p ?s0" using inv by simp
  have "session_inv p (logout_done s0)" if "session_inv p s0" for s0
    using that by (simp add: logout_done_def session_inv_def session_ask_def)
  moreover have "session_inv p (logout_info b s0) = session_inv p s0" for b s0
    by (simp add: logout_info_def split: option.split)
  moreover have "session_inv p (refresh_ha_answer a s0) = session_inv p s0" for s0
    by (simp add: refresh_ha_answer_def split: session_answer.split)
  ultimately show ?thesis
    using inv0 session_inv_check [OF inv0] session_inv_login [OF inv0 c] session_inv_preferences [OF inv0]
    by (cases "se_calls s ! i") (simp_all add: s' settle_session_def)
qed (use inv step in \<open>auto simp: session_step_def session_exec_def checkSession_def login_def split: if_splits\<close>)

lemma session_inv_new: "session_inv p (session_new lang light p)"
  by (simp add: session_inv_def session_new_def)

interpretation session: step_machine "session_step tr themes texts" "\<lambda>s. s = session_new lang light p" "session_inv p" for tr themes texts lang light p
  by unfold_locales (auto simp: session_inv_new intro: session_inv_step)

section \<open>Properties\<close>


definition all_names :: "string \<Rightarrow> bool" where
  "all_names k = True"

definition same_text :: "string \<Rightarrow> string" where
  "same_text k = k"

definition account :: "string \<Rightarrow> bool \<Rightarrow> jval" where
  "account n portal = Obj [(''username'', Str n), (''portal_only'', Bool portal)]"

definition login_reply :: "string \<Rightarrow> bool \<Rightarrow> session_answer" where
  "login_reply n setup = Reply 200 [(''success'', Bool True), (''user'', account n False), (''session_id'', Str n), (''requires_2fa_setup'', Bool setup)]"




text \<open>The demand to set up a second factor outlives the account it was made for: a login only ever sets it, and \<open>logout\<close>
  leaves it, so the next account that signs in on the page is sent to the setup as well.\<close>

theorem two_factor_setup_sticks:
  "run_ends (session_exec same_text all_names all_names) (session_new ''en'' False False)
     [Start_Check False, Reply_To 0 (Reply 401 []), Reply_To 0 Broken, Reply_To 0 Broken,
      Start_Login, Reply_To 0 (login_reply ''eve'' True), Start_Logout, Reply_To 0 Broken, Reply_To 0 Broken,
      Start_Login, Reply_To 0 (login_reply ''bob'' False)]
     (\<lambda>s. se_sid s = Str ''bob'' \<and> se_auth s \<and> app_view_of None s = Force_2FA)"
  by code_simp

text \<open>The answer to a change of preferences that comes after the logout makes a user of its fields: \<open>App\<close> shows
  the dashboard with nobody signed in.\<close>

lemma late_preferences_open_dashboard:
  "run_ends (session_exec same_text all_names all_names) (session_new ''en'' False False)
     [Start_Check False, Reply_To 0 (Reply 200 [(''authenticated'', Bool True), (''user'', account ''eve'' False)]), Start_Preferences, Start_Logout,
      Reply_To 1 Broken, Reply_To 0 (Reply 200 [(''theme'', Str ''dark''), (''layout_chosen'', Bool True)])]
     (\<lambda>s. \<not> se_auth s \<and> se_sid s = Undef \<and> app_view_of None s = Dashboard)"
  by code_simp

text \<open>The logout that a failed check starts is not awaited: a login made meanwhile is thrown away when it ends.\<close>

lemma late_logout_signs_out:
  "run_ends (session_exec same_text all_names all_names) (session_new ''en'' False False)
     [Start_Check False, Reply_To 0 (Reply 401 []), Start_Login, Reply_To 1 (login_reply ''eve'' False), Reply_To 0 Broken]
     (\<lambda>s. \<not> se_auth s \<and> se_user s = None)"
  by code_simp

end
