(* ===== verification/Auto_Install.thy ===== *)
theory Auto_Install
  imports Js_Values
begin

text \<open>
  Checks and texts of the automated installation (web/src/settings_modal.js): what the installer accepts as
  host name, address, mail address, time zone, disk name, key and password hash; whether a gateway
  lies in the network of an address; the line with the root hash in an answer file. The patterns are
  written out as functions on strings. \<open>v6\<close> stands for the URL parser of the browser: the host it reads
  between the brackets of \<open>http://[...]/\<close>, or none.
\<close>

section \<open>Tables\<close>

text \<open>The codes of the keyboards; their labels are left out.\<close>

definition AUTOINSTALL_KEYBOARDS :: "string list" where
  "AUTOINSTALL_KEYBOARDS =
     split_on CHR '' '' (''de de-ch dk en-gb en-us es fi fr fr-be fr-ca fr-ch hu is it jp lt mk nl no pl pt pt-br se si tr'')"

definition AUTOINSTALL_COUNTRIES :: "string list" where
  "AUTOINSTALL_COUNTRIES = split_on CHR '' ''
    (''ad ae af ag ai al am ao aq ar as at au aw ax az ba bb bd be bf bg bh bi bj bl bm bn bo bq br bs bt bv bw '' @
     ''by bz ca cc cd cf cg ch ci ck cl cm cn co cr cu cv cw cx cy cz de dj dk dm do dz ec ee eg eh er es et fi '' @
     ''fj fk fm fo fr ga gb gd ge gf gg gh gi gl gm gn gp gq gr gs gt gu gw gy hk hm hn hr ht hu id ie il im in '' @
     ''io iq ir is it je jm jo jp ke kg kh ki km kn kp kr kw ky kz la lb lc li lk lr ls lt lu lv ly ma mc md me '' @
     ''mf mg mh mk ml mm mn mo mp mq mr ms mt mu mv mw mx my mz na nc ne nf ng ni nl no np nr nu nz om pa pe pf '' @
     ''pg ph pk pl pm pn pr ps pt pw py qa re ro rs ru rw sa sb sc sd se sg sh si sj sk sl sm sn so sr ss st sv '' @
     ''sx sy sz tc td tf tg th tj tk tl tm tn to tr tt tv tw tz ua ug um us uy uz va vc ve vg vi vn vu wf ws ye '' @
     ''yt za zm zw'')"

definition AUTOINSTALL_RAID_MIN :: "string \<Rightarrow> (string \<times> nat) list option" where
  "AUTOINSTALL_RAID_MIN fs =
     (if fs = ''zfs'' then Some [(''raid0'', 1), (''raid1'', 2), (''raid10'', 4), (''raidz-1'', 3), (''raidz-2'', 4), (''raidz-3'', 5)]
      else if fs = ''btrfs'' then Some [(''raid0'', 1), (''raid1'', 2), (''raid10'', 4)] else None)"

definition AUTOINSTALL_DISK_KEYS :: "string list" where
  "AUTOINSTALL_DISK_KEYS = [''ID_SERIAL'', ''ID_SERIAL_SHORT'', ''ID_WWN'', ''ID_MODEL'', ''DEVNAME'']"

section \<open>Patterns\<close>

definition crypt_char :: "char \<Rightarrow> bool" where
  "crypt_char c \<longleftrightarrow> is_alnum c \<or> c = CHR ''.'' \<or> c = CHR ''/''"

definition crypt_text :: "nat \<Rightarrow> nat \<Rightarrow> string \<Rightarrow> bool" where
  "crypt_text lo hi s \<longleftrightarrow> lo \<le> length s \<and> length s \<le> hi \<and> list_all crypt_char s"

definition rounds_part :: "string \<Rightarrow> bool" where
  "rounds_part s \<longleftrightarrow> starts_with s ''rounds='' \<and> 1 \<le> length (drop 7 s) \<and> length (drop 7 s) \<le> 9 \<and> list_all is_digit (drop 7 s)"

text \<open>SHA-512 and SHA-256 with \<open>n\<close> characters of hash, yescrypt, bcrypt; the parts between the dollar signs.\<close>

definition sha_crypt :: "string \<Rightarrow> nat \<Rightarrow> string list \<Rightarrow> bool" where
  "sha_crypt k n ps =
     (case ps of
        [e, i, salt, h] \<Rightarrow> e = [] \<and> i = k \<and> crypt_text 0 16 salt \<and> crypt_text n n h
      | [e, i, r, salt, h] \<Rightarrow> e = [] \<and> i = k \<and> rounds_part r \<and> crypt_text 0 16 salt \<and> crypt_text n n h
      | _ \<Rightarrow> False)"

definition yes_crypt :: "string list \<Rightarrow> bool" where
  "yes_crypt ps =
     (case ps of [e, i, p, salt, h] \<Rightarrow> e = [] \<and> i = ''y'' \<and> p \<noteq> [] \<and> list_all crypt_char p \<and> crypt_text 1 86 salt \<and> crypt_text 43 43 h
      | _ \<Rightarrow> False)"

definition b_crypt :: "string list \<Rightarrow> bool" where
  "b_crypt ps =
     (case ps of [e, i, n, h] \<Rightarrow> e = [] \<and> i \<in> {''2a'', ''2b'', ''2y''} \<and> length n = 2 \<and> list_all is_digit n \<and> crypt_text 53 53 h
      | _ \<Rightarrow> False)"

definition aiCryptOk :: "string \<Rightarrow> bool" where
  "aiCryptOk v =
     (let ps = split_on CHR ''$'' v in sha_crypt ''6'' 86 ps \<or> sha_crypt ''5'' 43 ps \<or> yes_crypt ps \<or> b_crypt ps)"

definition is_ctrl :: "char \<Rightarrow> bool" where
  "is_ctrl c \<longleftrightarrow> code_of c \<le> 31 \<or> code_of c = 127"

definition has_ctrl :: "string \<Rightarrow> bool" where
  "has_ctrl s \<longleftrightarrow> list_ex is_ctrl s"

text \<open>A public key: its type, the base64 text with at most three signs of padding, a comment.\<close>

definition ssh_types :: "string list" where
  "ssh_types = [''ssh-ed25519'', ''ssh-rsa'', ''ecdsa-sha2-nistp256'', ''ecdsa-sha2-nistp384'', ''ecdsa-sha2-nistp521'',
     ''sk-ssh-ed25519@openssh.com'', ''sk-ecdsa-sha2-nistp256@openssh.com'']"

definition base64_text :: "string \<Rightarrow> bool" where
  "base64_text s =
     (let p = (\<lambda>c. is_alnum c \<or> c = CHR ''+'' \<or> c = CHR ''/''); pad = dropWhile p s
      in takeWhile p s \<noteq> [] \<and> length pad \<le> 3 \<and> list_all (\<lambda>c. c = CHR ''='') pad)"

definition ssh_key_ok :: "string \<Rightarrow> bool" where
  "ssh_key_ok s =
     (case split_on CHR '' '' s of
        ty # key # rest \<Rightarrow> ty \<in> set ssh_types \<and> base64_text key \<and> list_all (\<lambda>w. \<not> has_ctrl w) rest
      | _ \<Rightarrow> False)"

definition glob_ok :: "string \<Rightarrow> bool" where
  "glob_ok s \<longleftrightarrow> 1 \<le> length s \<and> length s \<le> 128 \<and> list_all (\<lambda>c. is_alnum c \<or> c \<in> set ''_.:+-/*?[]!'') s"

definition aiDiskNameOk :: "string \<Rightarrow> bool" where
  "aiDiskNameOk n =
     (case n of [] \<Rightarrow> False
      | c # cs \<Rightarrow> is_alnum c \<and> length cs \<le> 63 \<and> list_all (\<lambda>d. is_alnum d \<or> d \<in> set ''_.:-/'') cs \<and> \<not> starts_with n ''disk/'')"

definition dns_label :: "string \<Rightarrow> bool" where
  "dns_label l \<longleftrightarrow> l \<noteq> [] \<and> length l \<le> 63 \<and> is_alnum (hd l) \<and> is_alnum (last l) \<and> list_all (\<lambda>c. is_alnum c \<or> c = CHR ''-'') l"

definition aiFqdnError :: "string \<Rightarrow> bool \<Rightarrow> string" where
  "aiFqdnError s domain_only =
     (let labels = split_on CHR ''.'' s
      in if 253 < length s then ''autoInstallErrFqdnLong''
         else if \<not> domain_only \<and> length labels < 2 then ''autoInstallErrFqdnDomain''
         else if list_ex (\<lambda>l. \<not> dns_label l) labels then ''autoInstallErrFqdnLabel''
         else if \<not> domain_only \<and> hd labels \<noteq> [] \<and> list_all is_digit (hd labels) then ''autoInstallErrFqdnDigits''
         else [])"

definition mail_local_char :: "char \<Rightarrow> bool" where
  "mail_local_char c \<longleftrightarrow> is_alnum c \<or> c \<in> set ''.!#$%&*+/=?^_`{|}~-'' \<or> code_of c = 39"

definition aiMailOk :: "string \<Rightarrow> bool" where
  "aiMailOk v \<longleftrightarrow>
     (case split_on CHR ''@'' v of
        [u, d] \<Rightarrow> u \<noteq> [] \<and> list_all mail_local_char u \<and> list_all dns_label (split_on CHR ''.'' d)
      | _ \<Rightarrow> False) \<and> v \<noteq> ''mail@example.invalid''"

definition tz_char :: "char \<Rightarrow> bool" where
  "tz_char c \<longleftrightarrow> is_alnum c \<or> c = CHR ''_'' \<or> c = CHR ''+'' \<or> c = CHR ''-''"

definition aiTimezoneOk :: "string \<Rightarrow> bool" where
  "aiTimezoneOk v \<longleftrightarrow>
     (let ps = split_on CHR ''/'' v
      in length ps \<le> 3 \<and> list_all (\<lambda>p. p \<noteq> [] \<and> list_all tz_char p) ps \<and> is_alpha (hd (hd ps))) \<and> \<not> starts_with v ''Etc/''"

section \<open>Addresses\<close>

definition octet :: "string \<Rightarrow> bool" where
  "octet s \<longleftrightarrow> s \<noteq> [] \<and> length s \<le> 3 \<and> list_all is_digit s \<and> nat_of_digits s \<le> 255 \<and> (length s = 1 \<or> hd s \<noteq> CHR ''0'')"

definition aiIpv4 :: "string \<Rightarrow> bool" where
  "aiIpv4 v \<longleftrightarrow> length (split_on CHR ''.'' v) = 4 \<and> list_all octet (split_on CHR ''.'' v)"

definition aiIpFamily :: "(string \<Rightarrow> string option) \<Rightarrow> string \<Rightarrow> nat" where
  "aiIpFamily v6 s =
     (if aiIpv4 s then 4
      else if CHR '':'' \<notin> set s \<or> \<not> list_all (\<lambda>c. is_hex c \<or> c = CHR '':'' \<or> c = CHR ''.'') s then 0
      else if v6 s \<noteq> None then 6 else 0)"

definition aiCidrError :: "(string \<Rightarrow> string option) \<Rightarrow> string \<Rightarrow> string" where
  "aiCidrError v6 s =
     (case split_on CHR ''/'' s of
        [a, p] \<Rightarrow>
          if a = [] \<or> list_ex is_space a \<or> p = [] \<or> 3 < length p \<or> \<not> list_all is_digit p then ''autoInstallErrCidr''
          else (let fam = aiIpFamily v6 a
                in if fam = 0 \<or> (if fam = 4 then 32 else 128) < nat_of_digits p \<or> (1 < length p \<and> hd p = CHR ''0'')
                   then ''autoInstallErrCidr'' else [])
      | _ \<Rightarrow> ''autoInstallErrCidr'')"

text \<open>\<open>toString(2).padStart(k, '0')\<close>.\<close>

fun bin :: "nat \<Rightarrow> string" where
  "bin n = (if n < 2 then [digit_char n] else bin (n div 2) @ [digit_char (n mod 2)])"

declare bin.simps [simp del]

definition pad_zero :: "nat \<Rightarrow> string \<Rightarrow> string" where
  "pad_zero k s = replicate (k - length s) CHR ''0'' @ s"

fun split_colons :: "string \<Rightarrow> string list" where
  "split_colons [] = [[]]"
| "split_colons [c] = [[c]]"
| "split_colons (c # d # s) =
     (if c = CHR '':'' \<and> d = CHR '':'' then [] # split_colons s
      else (case split_colons (d # s) of [] \<Rightarrow> [[c]] | w # ws \<Rightarrow> (c # w) # ws))"

definition colon_parts :: "string \<Rightarrow> string list" where
  "colon_parts s = (if s = [] then [] else split_on CHR '':'' s)"

text \<open>The eight groups of an address; \<open>None\<close> where \<open>Array\<close> throws.\<close>

definition groups6 :: "string \<Rightarrow> string list option" where
  "groups6 h =
     (case split_colons h of
        [] \<Rightarrow> None
      | [a] \<Rightarrow> Some (colon_parts a)
      | a # b # _ \<Rightarrow> if length (colon_parts a) + length (colon_parts b) \<le> 8
           then Some (colon_parts a @ replicate (8 - length (colon_parts a) - length (colon_parts b)) ''0'' @ colon_parts b) else None)"

definition aiIpBits :: "(string \<Rightarrow> string option) \<Rightarrow> string \<Rightarrow> string option" where
  "aiIpBits v6 v =
     (if aiIpv4 v then Some (concat (map (\<lambda>p. pad_zero 8 (bin (nat_of_digits p))) (split_on CHR ''.'' v)))
      else (case v6 v of None \<Rightarrow> None
            | Some h \<Rightarrow> map_option (\<lambda>gs. concat (map (\<lambda>g. pad_zero 16 (bin (nat_of_hex g))) gs)) (groups6 h)))"

text \<open>A prefix length that is no decimal number is NaN, and \<open>slice(0, NaN)\<close> is empty.\<close>

definition aiSameNet :: "(string \<Rightarrow> string option) \<Rightarrow> string \<Rightarrow> string \<Rightarrow> bool" where
  "aiSameNet v6 cidr ip =
     (let ps = split_on CHR ''/'' cidr;
          n = (case ps of a # p # _ \<Rightarrow> if list_all is_digit p then nat_of_digits p else 0 | _ \<Rightarrow> 0)
      in case (aiIpBits v6 (hd ps), aiIpBits v6 ip) of (Some a, Some b) \<Rightarrow> take n a = take n b | _ \<Rightarrow> True)"

section \<open>Texts\<close>

definition line_end :: char where
  "line_end = CHR 0x0A"

definition AUTOINSTALL_TEMPLATE :: string where
  "AUTOINSTALL_TEMPLATE = join [line_end]
     [''[global]'', ''keyboard = \"de\"'', ''country = \"de\"'', ''fqdn = \"pve01.example.com\"'', ''mailto = \"root@example.com\"'',
      ''timezone = \"Europe/Berlin\"'', ''# the hash button above the editor writes this line (or: mkpasswd -m sha-512)'',
      ''root-password-hashed = \"$6$...replace me...\"'', [], ''[network]'', ''source = \"from-dhcp\"'', [], ''[disk-setup]'',
      ''filesystem = \"ext4\"'', ''disk-list = [\"sda\"]'', []]"

definition quoted :: "string \<Rightarrow> string" where
  "quoted s = CHR 0x27 # s @ [CHR 0x27]"

definition autoInstallPrepareCmd :: "string \<Rightarrow> string \<Rightarrow> string \<Rightarrow> string" where
  "autoInstallPrepareCmd origin token fp =
     join ('' '' @ [CHR 0x5C, line_end])
       ([''proxmox-auto-install-assistant prepare-iso proxmox-ve.iso'', ''    --fetch-from http'',
         ''    --url '' @ quoted (origin @ ''/api/auto-install/answer''), ''    --answer-auth-token '' @ quoted (''pegaprox:'' @ token)]
        @ (if fp \<noteq> [] then [''    --cert-fingerprint '' @ quoted fp] else []))"

definition global_header :: "string \<Rightarrow> bool" where
  "global_header s =
     (let r = dropWhile is_space (tl s)
      in starts_with s ''['' \<and> starts_with r ''global'' \<and> starts_with (dropWhile is_space (drop 6 r)) '']'')"

definition dash :: "char \<Rightarrow> bool" where
  "dash c \<longleftrightarrow> c = CHR ''-'' \<or> c = CHR ''_''"

definition root_line :: "string \<Rightarrow> bool" where
  "root_line s =
     (starts_with s ''root'' \<and>
      (case drop 4 s of [] \<Rightarrow> False
       | c # r \<Rightarrow> dash c \<and> starts_with r ''password'' \<and>
           (let q = drop 8 r;
                q' = (case q of [] \<Rightarrow> q | d # ds \<Rightarrow> if dash d \<and> starts_with ds ''hashed'' then drop 6 ds else q)
            in starts_with (dropWhile is_space q') ''='')))"

text \<open>The loop over the lines: what is kept, whether the line is in \<open>[global]\<close>, where the hash goes.\<close>

fun hash_loop :: "string list \<Rightarrow> string list \<Rightarrow> bool \<Rightarrow> nat option \<Rightarrow> string list \<times> nat option" where
  "hash_loop [] out g at = (out, at)"
| "hash_loop (raw # rs) out g at =
     (let s = trim raw
      in if starts_with s ''['' then
           (let g' = global_header s; out' = out @ [raw]
            in hash_loop rs out' g' (if g' \<and> at = None then Some (length out') else at))
         else if g \<and> root_line s then hash_loop rs out g at
         else hash_loop rs (out @ [raw]) g at)"

definition hash_line :: "string \<Rightarrow> string" where
  "hash_line h = ''root-password-hashed = \"'' @ h @ ''\"''"

definition aiSetRootHash :: "string \<Rightarrow> string \<Rightarrow> string" where
  "aiSetRootHash answer h =
     (case hash_loop (split_on line_end answer) [] False None of
        (out, None) \<Rightarrow> ''[global]'' @ [line_end] @ hash_line h @ [line_end, line_end] @ join [line_end] out
      | (out, Some i) \<Rightarrow> join [line_end] (take i out @ hash_line h # drop i out))"

section \<open>Binary digits\<close>

definition bit_text :: "string \<Rightarrow> bool" where
  "bit_text s \<longleftrightarrow> set s \<subseteq> {CHR ''0'', CHR ''1''}"

definition val2 :: "string \<Rightarrow> nat" where
  "val2 s = foldl (\<lambda>n c. 2 * n + digit_val c) 0 s"

lemma val2_Nil [simp]: "val2 [] = 0"
  by (simp add: val2_def)

lemma val2_snoc [simp]: "val2 (s @ [c]) = 2 * val2 s + digit_val c"
  by (simp add: val2_def)

lemma val2_append: "val2 (a @ b) = val2 a * 2 ^ length b + val2 b"
proof (induction b rule: rev_induct)
  case (snoc c b)
  have "val2 (a @ b @ [c]) = 2 * val2 (a @ b) + digit_val c" using val2_snoc [of "a @ b" c] by simp
  then show ?case using snoc by (simp add: algebra_simps)
qed simp

lemma bit_text_simps [simp]: "bit_text []" "bit_text (c # s) \<longleftrightarrow> (c = CHR ''0'' \<or> c = CHR ''1'') \<and> bit_text s"
  "bit_text (a @ b) \<longleftrightarrow> bit_text a \<and> bit_text b"
  by (auto simp: bit_text_def)

lemma digit_val_01 [simp]: "digit_val CHR ''0'' = 0" "digit_val CHR ''1'' = 1"
  by (simp_all add: digit_val_def)

lemma bit_char [simp]: "digit_char 0 = CHR ''0''" "digit_char (Suc 0) = CHR ''1''"
  by (code_simp, code_simp)

lemma val2_less: "bit_text s \<Longrightarrow> val2 s < 2 ^ length s"
proof (induction s rule: rev_induct)
  case (snoc c s)
  then show ?case by auto
qed simp

lemma val2_inj: "bit_text a \<Longrightarrow> bit_text b \<Longrightarrow> length a = length b \<Longrightarrow> val2 a = val2 b \<Longrightarrow> a = b"
proof (induction a arbitrary: b rule: rev_induct)
  case (snoc c a)
  then obtain d b' where b: "b = b' @ [d]" by (cases b rule: rev_cases) auto
  have cd: "c = CHR ''0'' \<or> c = CHR ''1''" "d = CHR ''0'' \<or> d = CHR ''1''" using snoc.prems(1,2) b by auto
  have e: "2 * val2 a + digit_val c = 2 * val2 b' + digit_val d" using snoc.prems(4) by (simp only: b val2_snoc)
  have "val2 a = val2 b' \<and> c = d" using cd e by (elim disjE) (simp_all, presburger+)
  moreover have "bit_text a" "bit_text b'" "length a = length b'" using snoc.prems(1-3) b by auto
  ultimately show ?case using snoc.IH [of b'] b by blast
qed simp

lemma val2_take:
  assumes "bit_text s" and "n \<le> length s"
  shows "val2 (take n s) = val2 s div 2 ^ (length s - n)"
proof -
  have "val2 s = val2 (take n s) * 2 ^ (length s - n) + val2 (drop n s)"
    using val2_append [of "take n s" "drop n s"] by simp
  moreover have "val2 (drop n s) < 2 ^ (length s - n)"
    using assms(1) val2_less [of "drop n s"] by (metis append_take_drop_id bit_text_simps(3) length_drop)
  ultimately show ?thesis by simp
qed

lemma bin_facts: "bit_text (bin n) \<and> val2 (bin n) = n \<and> (0 < k \<longrightarrow> n < 2 ^ k \<longrightarrow> length (bin n) \<le> k)"
proof (induction n arbitrary: k rule: bin.induct)
  case (1 n)
  show ?case
  proof (cases "n < 2")
    case True
    then have "n = 0 \<or> n = Suc 0" by auto
    then show ?thesis using True by (subst (1 2 3) bin.simps) (auto simp: val2_def)
  next
    case False
    from 1 [OF False, of "k - 1"] have IH: "bit_text (bin (n div 2))" "val2 (bin (n div 2)) = n div 2"
      "0 < k - 1 \<longrightarrow> n div 2 < 2 ^ (k - 1) \<longrightarrow> length (bin (n div 2)) \<le> k - 1" by auto
    have "bin n = bin (n div 2) @ [digit_char (n mod 2)]" using False by (subst bin.simps) simp
    moreover have "digit_char (n mod 2) = CHR ''0'' \<or> digit_char (n mod 2) = CHR ''1''"
      using mod2_eq_if [of n] by (auto split: if_splits)
    moreover have "length (bin (n div 2)) + 1 \<le> k" if "0 < k" "n < 2 ^ k"
    proof -
      from that False have "1 < k" by (cases k; cases "k - 1") auto
      moreover from this that(2) have "n div 2 < 2 ^ (k - 1)" by (cases k) auto
      ultimately show ?thesis using IH(3) by simp
    qed
    ultimately show ?thesis using IH by auto
  qed
qed

lemma pad_zero_facts:
  assumes "0 < k" and "n < 2 ^ k"
  shows "bit_text (pad_zero k (bin n))" "length (pad_zero k (bin n)) = k" "val2 (pad_zero k (bin n)) = n"
proof -
  have z: "bit_text (replicate m CHR ''0'') \<and> val2 (replicate m CHR ''0'') = 0" for m
  proof (induction m)
    case (Suc m)
    then show ?case using val2_append [of "[CHR ''0'']" "replicate m CHR ''0''"] by (simp add: val2_def)
  qed simp
  show "bit_text (pad_zero k (bin n))" "length (pad_zero k (bin n)) = k" "val2 (pad_zero k (bin n)) = n"
    using bin_facts [of n k] z [of "k - length (bin n)"] assms by (auto simp: pad_zero_def val2_append)
qed

section \<open>Addresses in dotted form\<close>

lemma digit_char_of_val: "is_digit c \<Longrightarrow> digit_char (digit_val c) = c"
  by (simp add: is_digit_def digit_char_def digit_val_def)

lemma digit_val_less: "is_digit c \<Longrightarrow> digit_val c < 10"
  by (auto simp: is_digit_def digit_val_def)

lemma show_nat_small: "n < 10 \<Longrightarrow> show_nat n = [digit_char n]"
  by (subst show_nat.simps) simp

lemma show_nat_big: "10 \<le> n \<Longrightarrow> show_nat n = show_nat (n div 10) @ [digit_char (n mod 10)]"
  by (subst show_nat.simps) simp

lemma show_nat_of_digits:
  "list_all is_digit s \<Longrightarrow> s \<noteq> [] \<Longrightarrow> length s = 1 \<or> hd s \<noteq> CHR ''0'' \<Longrightarrow> show_nat (nat_of_digits s) = s"
proof (induction s rule: rev_induct)
  case (snoc c t)
  from snoc.prems have c: "is_digit c" "list_all is_digit t" by auto
  show ?case
  proof (cases "t = []")
    case True
    have "nat_of_digits [c] = digit_val c" using nat_of_digits_snoc [of "[]" c] by simp
    with True c show ?thesis by (simp add: show_nat_small digit_val_less digit_char_of_val)
  next
    case False
    with snoc have t: "hd t \<noteq> CHR ''0''" "show_nat (nat_of_digits t) = t" using c by auto
    have "nat_of_digits t \<noteq> 0"
    proof
      assume "nat_of_digits t = 0"
      with t(2) have "t = [digit_char 0]" by (simp add: show_nat_small)
      with t(1) show False by simp
    qed
    then have "10 \<le> nat_of_digits (t @ [c])" by simp
    then show ?thesis using t(2) digit_val_less [OF c(1)] by (simp add: show_nat_big digit_char_of_val c)
  qed
qed simp

lemma show_nat_head: "10 \<le> n \<Longrightarrow> hd (show_nat n) \<noteq> CHR ''0''"
proof (induction n rule: less_induct)
  case (less n)
  show ?case
  proof (cases "n div 10 < 10")
    case True
    moreover have "0 < n div 10" using less.prems by auto
    ultimately have "digit_char (n div 10) \<noteq> CHR ''0''"
      by (metis digit_char_val digit_val_01(1) less_irrefl)
    with True less.prems show ?thesis by (simp add: show_nat_big show_nat_small)
  next
    case False
    with less.IH [of "n div 10"] less.prems have "hd (show_nat (n div 10)) \<noteq> CHR ''0''" by auto
    with less.prems show ?thesis by (simp add: show_nat_big)
  qed
qed

lemma length_show_nat: "n < 1000 \<Longrightarrow> length (show_nat n) \<le> 3"
  by (cases "n < 10"; cases "n < 100") (auto simp: show_nat_small show_nat_big)

lemma octet_show: "k \<le> 255 \<Longrightarrow> octet (show_nat k)"
  using show_nat_head [of k] length_show_nat [of k] nat_of_digits_show_nat [of k]
  by (cases "k < 10") (auto simp: octet_def show_nat_small simp del: nat_of_digits_show_nat)

lemma octet_iff: "octet s \<longleftrightarrow> (\<exists>k \<le> 255. s = show_nat k)"
proof
  assume "octet s"
  then show "\<exists>k \<le> 255. s = show_nat k"
    by (intro exI [of _ "nat_of_digits s"]) (auto simp: octet_def show_nat_of_digits)
qed (auto simp: octet_show)

definition ip_text :: "nat list \<Rightarrow> string" where
  "ip_text ks = join ''.'' (map show_nat ks)"

lemma split_ip_text: "ks \<noteq> [] \<Longrightarrow> split_on CHR ''.'' (ip_text ks) = map show_nat ks"
  unfolding ip_text_def by (rule split_on_join) (auto dest!: show_nat_digits simp: is_digit_def)

lemma ipv4_ip_text: "length ks = 4 \<Longrightarrow> \<forall>k \<in> set ks. k \<le> 255 \<Longrightarrow> aiIpv4 (ip_text ks)"
  by (cases ks) (auto simp: split_ip_text aiIpv4_def list_all_iff octet_show)

definition ip_word :: "nat list \<Rightarrow> 32 word" where
  "ip_word ks = word_of_nat (foldl (\<lambda>n k. 256 * n + k) 0 ks)"

lemma octet_bits: "k \<le> 255 \<Longrightarrow> bit_text (pad_zero 8 (bin k)) \<and> length (pad_zero 8 (bin k)) = 8 \<and> val2 (pad_zero 8 (bin k)) = k"
  using pad_zero_facts [of 8 k] by simp

definition ip_bits :: "nat list \<Rightarrow> string" where
  "ip_bits ks = concat (map (\<lambda>k. pad_zero 8 (bin k)) ks)"

lemma ip_bits_facts:
  assumes "length ks = 4" and "\<forall>k \<in> set ks. k \<le> 255"
  shows "bit_text (ip_bits ks)" "length (ip_bits ks) = 32" "unat (ip_word ks) = val2 (ip_bits ks)"
proof -
  from assms(1) obtain a b c d where ks: "ks = [a, b, c, d]" by (auto simp: length_Suc_conv eval_nat_numeral)
  from assms(2) have "a \<le> 255" "b \<le> 255" "c \<le> 255" "d \<le> 255" by (auto simp: ks)
  note o' = this [THEN octet_bits]
  show bt: "bit_text (ip_bits ks)" and len: "length (ip_bits ks) = 32" using o' by (auto simp: ip_bits_def ks)
  have v: "val2 (ip_bits ks) = foldl (\<lambda>n k. 256 * n + k) 0 ks"
    using o' by (simp add: ip_bits_def ks val2_append)
  have "val2 (ip_bits ks) < 2 ^ 32" using val2_less [OF bt] len by simp
  then show "unat (ip_word ks) = val2 (ip_bits ks)" unfolding ip_word_def v [symmetric] by (simp add: unat_of_nat take_bit_nat_eq_self)
qed

lemma ip_bits_text:
  assumes "length ks = 4" and "\<forall>k \<in> set ks. k \<le> 255"
  shows "aiIpBits v6 (ip_text ks) = Some (ip_bits ks)"
  using ipv4_ip_text [OF assms] split_ip_text [of ks] assms(1)
  by (cases ks) (auto simp: aiIpBits_def ip_bits_def o_def)

lemma same_prefix_iff:
  assumes "length xs = 4" "\<forall>k \<in> set xs. k \<le> 255" "length ys = 4" "\<forall>k \<in> set ys. k \<le> 255" and n: "n \<le> 32"
  shows "take n (ip_bits xs) = take n (ip_bits ys) \<longleftrightarrow> drop_bit (32 - n) (ip_word xs) = drop_bit (32 - n) (ip_word ys)"
proof -
  note x = ip_bits_facts [OF assms(1,2)] and y = ip_bits_facts [OF assms(3,4)]
  have tx: "bit_text (take n (ip_bits xs))" "bit_text (take n (ip_bits ys))"
    using x(1) y(1) by (metis append_take_drop_id bit_text_simps(3))+
  have "take n (ip_bits xs) = take n (ip_bits ys) \<longleftrightarrow> val2 (take n (ip_bits xs)) = val2 (take n (ip_bits ys))"
    using val2_inj [OF tx] x(2) y(2) by auto
  also have "\<dots> \<longleftrightarrow> unat (drop_bit (32 - n) (ip_word xs)) = unat (drop_bit (32 - n) (ip_word ys))"
    using val2_take [OF x(1)] val2_take [OF y(1)] x(2,3) y(2,3) n by (simp add: unat_drop_bit_eq drop_bit_eq_div [where 'a = nat])
  finally show ?thesis by (simp add: word_unat_eq_iff)
qed

section \<open>The root hash in an answer file\<close>

text \<open>The lines without the root passwords of \<open>[global]\<close>, those passwords, and the place after the first
  \<open>[global]\<close>.\<close>

fun root_scan :: "bool \<Rightarrow> string list \<Rightarrow> string list" where
  "root_scan g [] = []"
| "root_scan g (l # ls) =
     (if starts_with (trim l) ''['' then l # root_scan (global_header (trim l)) ls
      else if g \<and> root_line (trim l) then root_scan g ls else l # root_scan g ls)"

fun root_lines :: "bool \<Rightarrow> string list \<Rightarrow> string list" where
  "root_lines g [] = []"
| "root_lines g (l # ls) =
     (if starts_with (trim l) ''['' then root_lines (global_header (trim l)) ls
      else if g \<and> root_line (trim l) then l # root_lines g ls else root_lines g ls)"

fun global_at :: "string list \<Rightarrow> nat option" where
  "global_at [] = None"
| "global_at (l # ls) = (if global_header (trim l) then Some 1 else map_option Suc (global_at ls))"

lemma header_bracket: "global_header s \<Longrightarrow> starts_with s ''[''"
  by (simp add: global_header_def Let_def)

definition at_of :: "nat option \<Rightarrow> nat \<Rightarrow> string list \<Rightarrow> nat option" where
  "at_of p n ls = (case p of Some i \<Rightarrow> Some i | None \<Rightarrow> map_option (\<lambda>i. n + i) (global_at ls))"

lemma at_of_simps [simp]: "at_of p n [] = p" "at_of (Some i) n ls = Some i"
  "at_of None n (l # ls) = (if global_header (trim l) then Some (n + 1) else at_of None (Suc n) ls)"
  by (auto simp: at_of_def option.map_comp o_def split: option.split intro!: option.map_cong)

lemma at_of_plain: "\<not> global_header (trim l) \<Longrightarrow> at_of p n (l # ls) = at_of p (Suc n) ls"
  by (cases p) simp_all

lemma hash_loop_eq: "hash_loop rs out g p = (out @ root_scan g rs, at_of p (length out) (root_scan g rs))"
proof (induction rs arbitrary: out g p)
  case (Cons l rs)
  show ?case
  proof (cases "starts_with (trim l) ''[''")
    case True
    then show ?thesis by (cases p) (simp_all add: Let_def Cons.IH del: hash_loop.simps add: hash_loop.simps(2))
  next
    case False
    with header_bracket have "\<not> global_header (trim l)" by blast
    with False show ?thesis by (simp add: Let_def Cons.IH at_of_plain)
  qed
qed simp

lemma root_scan_idem [simp]: "root_scan g (root_scan g ls) = root_scan g ls"
  by (induction g ls rule: root_scan.induct) auto

lemma root_lines_scan [simp]: "root_lines g (root_scan g ls) = []"
  by (induction g ls rule: root_scan.induct) auto

lemma length_root_scan: "length (root_scan g ls) \<le> length ls"
  by (induction g ls rule: root_scan.induct) auto

lemma root_scan_fix: "root_scan g (l # ls) = l # ls \<Longrightarrow> \<not> starts_with (trim l) ''['' \<Longrightarrow> \<not> (g \<and> root_line (trim l)) \<and> root_scan g ls = ls"
  using length_root_scan [of g ls] by (auto split: if_splits)

lemma scan_insert:
  assumes "root_line (trim h)" and "\<not> starts_with (trim h) ''[''" and "global_at ls = Some i" and "root_scan g ls = ls"
  shows "root_scan g (take i ls @ h # drop i ls) = ls \<and> root_lines g (take i ls @ h # drop i ls) = h # root_lines g ls \<and>
         global_at (take i ls @ h # drop i ls) = Some i"
  using assms(3,4)
proof (induction ls arbitrary: g i)
  case (Cons l ls)
  show ?case
  proof (cases "global_header (trim l)")
    case True
    with Cons.prems(1) have "i = 1" by simp
    with Cons.prems True header_bracket [OF True] assms(1,2) show ?thesis by simp
  next
    case False
    with Cons.prems(1) obtain j where j: "global_at ls = Some j" "i = Suc j" by auto
    show ?thesis
    proof (cases "starts_with (trim l) ''[''")
      case True
      with Cons.prems(2) False have "root_scan False ls = ls" by simp
      from Cons.IH [OF j(1) this] True False j(2) show ?thesis by simp
    next
      case nb: False
      from root_scan_fix [OF Cons.prems(2) nb] have k: "\<not> (g \<and> root_line (trim l))" "root_scan g ls = ls" by blast+
      from Cons.IH [OF j(1) k(2)] nb k(1) False j(2) show ?thesis by auto
    qed
  qed
qed simp

lemma trim_hash_line: "trim (hash_line h) = hash_line h"
  by (simp add: hash_line_def trim_def trim_start_def trim_end_def is_space_def)

lemma hash_line_root: "root_line (trim (hash_line h))" "\<not> starts_with (trim (hash_line h)) ''[''"
  unfolding trim_hash_line by (simp_all add: hash_line_def root_line_def dash_def is_space_def)

lemma line_end_hash_line: "line_end \<notin> set h \<Longrightarrow> line_end \<notin> set (hash_line h)"
  by (simp add: line_end_def hash_line_def)

lemma set_root_scan: "set (root_scan g ls) \<subseteq> set ls"
  by (induction g ls rule: root_scan.induct) auto

lemma global_at_scan: "global_at (root_scan g ls) = None \<longleftrightarrow> \<not> list_ex (\<lambda>l. global_header (trim l)) ls"
proof (induction g ls rule: root_scan.induct)
  case (2 g l ls)
  then show ?case using header_bracket [of "trim l"] by auto
qed simp

lemma aiSetRootHash_global:
  assumes "global_at (root_scan False (split_on line_end a)) = Some i"
  shows "aiSetRootHash a h = join [line_end] (take i (root_scan False (split_on line_end a)) @ hash_line h # drop i (root_scan False (split_on line_end a)))"
  using assms by (simp add: aiSetRootHash_def hash_loop_eq at_of_def)

lemma split_hash:
  assumes "global_at (root_scan False (split_on line_end a)) = Some i" and "line_end \<notin> set h"
  shows "split_on line_end (aiSetRootHash a h) =
    take i (root_scan False (split_on line_end a)) @ hash_line h # drop i (root_scan False (split_on line_end a))"
proof -
  have "\<forall>w \<in> set (root_scan False (split_on line_end a)). line_end \<notin> set w"
    using set_root_scan split_on_parts by blast
  then show ?thesis
    unfolding aiSetRootHash_global [OF assms(1)] using line_end_hash_line [OF assms(2)]
    by (intro split_on_join) (auto dest: in_set_takeD in_set_dropD)
qed

section \<open>Properties\<close>

text \<open>The check for an IPv4 address accepts exactly the four decimal numbers up to 255 with dots between them, without
  leading zeros.\<close>

theorem ipv4_exact:
  "aiIpv4 v \<longleftrightarrow> (\<exists>a \<le> 255. \<exists>b \<le> 255. \<exists>c \<le> 255. \<exists>d \<le> 255. v = ip_text [a, b, c, d])"
proof
  assume v: "aiIpv4 v"
  then obtain p q r t where s: "split_on CHR ''.'' v = [p, q, r, t]" by (auto simp: aiIpv4_def length_Suc_conv eval_nat_numeral)
  with v have o': "octet p" "octet q" "octet r" "octet t" by (simp_all add: aiIpv4_def)
  then obtain a b c d where k: "a \<le> 255" "b \<le> 255" "c \<le> 255" "d \<le> 255" "p = show_nat a" "q = show_nat b" "r = show_nat c" "t = show_nat d"
    unfolding octet_iff by blast
  have "v = join ''.'' [p, q, r, t]" using join_split_on [of "CHR ''.''" v] s by simp
  then have "v = ip_text [a, b, c, d]" by (simp add: ip_text_def k(5-8))
  with k(1-4) show "\<exists>a \<le> 255. \<exists>b \<le> 255. \<exists>c \<le> 255. \<exists>d \<le> 255. v = ip_text [a, b, c, d]" by blast
next
  assume "\<exists>a \<le> 255. \<exists>b \<le> 255. \<exists>c \<le> 255. \<exists>d \<le> 255. v = ip_text [a, b, c, d]"
  then show "aiIpv4 v" by (elim exE conjE) (simp add: ipv4_ip_text)
qed

text \<open>The warning for a gateway outside the network compares the texts of the bits; for IPv4 that is the comparison of the
  32-bit words shifted right by the length of the host part.\<close>

theorem same_net_words:
  assumes "length xs = 4" "\<forall>k \<in> set xs. k \<le> 255" "length ys = 4" "\<forall>k \<in> set ys. k \<le> 255" "n \<le> 32"
  shows "aiSameNet v6 (ip_text xs @ ''/'' @ show_nat n) (ip_text ys) \<longleftrightarrow> drop_bit (32 - n) (ip_word xs) = drop_bit (32 - n) (ip_word ys)"
proof -
  have sl: "CHR ''/'' \<notin> set (ip_text xs)" "CHR ''/'' \<notin> set (show_nat n)"
  proof -
    have *: "CHR ''/'' \<notin> set (show_nat k)" for k by (auto dest: show_nat_digits simp: is_digit_def)
    then show "CHR ''/'' \<notin> set (show_nat n)" by blast
    have "c \<in> set (join ''.'' ws) \<Longrightarrow> c = CHR ''.'' \<or> (\<exists>w \<in> set ws. c \<in> set w)" for c ws
      by (induction "''.''" ws rule: join.induct) auto
    with * show "CHR ''/'' \<notin> set (ip_text xs)" by (force simp: ip_text_def)
  qed
  have "split_on CHR ''/'' (ip_text xs @ ''/'' @ show_nat n) = [ip_text xs, show_nat n]"
    using sl by (simp add: split_on_Cons_sep split_on_plain)
  then show ?thesis
    using assms by (simp add: aiSameNet_def ip_bits_text same_prefix_iff)
qed

theorem same_net_words_witness:
  "aiSameNet (\<lambda>_. None) (ip_text [10, 0, 5, 7] @ ''/'' @ show_nat 22) (ip_text [10, 0, 6, 1]) \<and>
   \<not> aiSameNet (\<lambda>_. None) (ip_text [10, 0, 5, 7] @ ''/'' @ show_nat 23) (ip_text [10, 0, 6, 1])"
proof -
  have a: "drop_bit (32 - 22) (ip_word [10, 0, 5, 7]) = drop_bit (32 - 22) (ip_word [10, 0, 6, 1])"
    and b: "drop_bit (32 - 23) (ip_word [10, 0, 5, 7]) \<noteq> drop_bit (32 - 23) (ip_word [10, 0, 6, 1])"
    by (simp_all add: ip_word_def)
  with same_net_words [of "[10, 0, 5, 7]" "[10, 0, 6, 1]" 22 "\<lambda>_. None"] same_net_words [of "[10, 0, 5, 7]" "[10, 0, 6, 1]" 23 "\<lambda>_. None"]
  show ?thesis by simp
qed

text \<open>In a file with a \<open>[global]\<close> section, setting the root hash leaves exactly one root password there, the new
  line, keeps all other lines in their order, and setting another hash later gives what setting it at once gives.\<close>

theorem root_hash_once:
  assumes "list_ex (\<lambda>l. global_header (trim l)) (split_on line_end a)" and "line_end \<notin> set h"
  shows "root_lines False (split_on line_end (aiSetRootHash a h)) = [hash_line h] \<and>
         root_scan False (split_on line_end (aiSetRootHash a h)) = root_scan False (split_on line_end a) \<and>
         aiSetRootHash (aiSetRootHash a h) h' = aiSetRootHash a h'"
proof -
  let ?out = "root_scan False (split_on line_end a)"
  from assms(1) global_at_scan [of False "split_on line_end a"] obtain i where i: "global_at ?out = Some i" by (cases "global_at ?out") auto
  note s = split_hash [OF i assms(2)]
  note ins = scan_insert [OF hash_line_root i root_scan_idem, of h]
  have sc: "root_scan False (split_on line_end (aiSetRootHash a h)) = ?out" unfolding s using ins by blast
  have "aiSetRootHash (aiSetRootHash a h) h' = aiSetRootHash a h'"
    using aiSetRootHash_global [of "aiSetRootHash a h" i h'] aiSetRootHash_global [OF i, of h'] i by (simp add: sc)
  moreover have "root_lines False (split_on line_end (aiSetRootHash a h)) = [hash_line h]" unfolding s using ins by simp
  ultimately show ?thesis using sc by blast
qed

theorem root_hash_once_witness:
  "root_lines False (split_on line_end (aiSetRootHash AUTOINSTALL_TEMPLATE ''$6$abc'')) = [hash_line ''$6$abc''] \<and>
   aiSetRootHash (aiSetRootHash AUTOINSTALL_TEMPLATE ''$6$abc'') ''$6$def'' = aiSetRootHash AUTOINSTALL_TEMPLATE ''$6$def''"
proof -
  have "list_ex (\<lambda>l. global_header (trim l)) (split_on line_end AUTOINSTALL_TEMPLATE)" "line_end \<notin> set ''$6$abc''" by code_simp+
  from root_hash_once [OF this] show ?thesis by blast
qed

text \<open>Without a \<open>[global]\<close> header a root password above the first header is kept: the result has two.\<close>

lemma headless_root_line_doubled:
  "root_lines False (split_on line_end (aiSetRootHash (''root-password = \"x\"'' @ [line_end] @ ''[network]'') ''$6$abc'')) =
   [hash_line ''$6$abc'', ''root-password = \"x\"'']"
  by code_simp

end
