(* ===== verification/Install_Wizard.thy ===== *)
theory Install_Wizard
  imports Auto_Install
begin

text \<open>
  The wizard of the automated installation (\<open>AutoInstallWizard\<close> in web/src/settings_modal.js): the draft, the checks
  of its five pages, the requests for the password hash, the answer file and the profile, and the events of
  the dialog. A request splits its handler in two: what runs before the \<open>await\<close> and leaves an entry among those
  under way, and what runs on its answer. The environment holds the translation, the URL parser for
  IPv6 hosts and the conversions of local dates, all of the browser. Markup is left out, except that a
  page only sets its own fields (\<open>page_fields\<close>).
\<close>

record ai_env =
  en_tr :: "string \<Rightarrow> string"
  en_v6 :: "string \<Rightarrow> string option"
  en_date :: "string \<Rightarrow> int option"
  en_iso :: "string \<Rightarrow> string option"

section \<open>The draft\<close>

record ai_draft =
  dr_fields :: obj
  dr_disks :: "string list"

definition fld :: "ai_draft \<Rightarrow> string \<Rightarrow> string" where
  "fld d k = (case prop_of (dr_fields d) k of Str s \<Rightarrow> s | _ \<Rightarrow> [])"

definition flag :: "ai_draft \<Rightarrow> string \<Rightarrow> bool" where
  "flag d k = truthy (prop_of (dr_fields d) k)"

definition put_fields :: "obj \<Rightarrow> ai_draft \<Rightarrow> ai_draft" where
  "put_fields p d = d\<lparr>dr_fields := spread (dr_fields d) p\<rparr>"

definition kb_alias :: "string \<Rightarrow> string" where
  "kb_alias b = (case map_of [(''da'', ''dk''), (''ja'', ''jp''), (''sv'', ''se''), (''sl'', ''si''), (''nb'', ''no''), (''nn'', ''no''), (''en'', ''en-us'')] b of
     None \<Rightarrow> b | Some k \<Rightarrow> k)"

definition small_word :: "nat \<Rightarrow> nat \<Rightarrow> string \<Rightarrow> bool" where
  "small_word lo hi s \<longleftrightarrow> lo \<le> length s \<and> length s \<le> hi \<and> list_all is_lower s"

text \<open>The region of a language tag, after an optional script.\<close>

definition region_of :: "string \<Rightarrow> string option" where
  "region_of l =
     (case split_on CHR ''-'' l of
        p # q # rest \<Rightarrow>
          if \<not> small_word 2 3 p then None
          else if small_word 2 2 q then Some q
          else if small_word 4 4 q then (case rest of r # _ \<Rightarrow> if small_word 2 2 r then Some r else None | [] \<Rightarrow> None)
          else None
      | _ \<Rightarrow> None)"

definition guess_step :: "string \<Rightarrow> string \<times> string \<Rightarrow> string \<times> string" where
  "guess_step raw kc =
     (let l = to_lower raw; base = hd (split_on CHR ''-'' l);
          kb = (if fst kc = [] then (case find (\<lambda>k. k \<in> set AUTOINSTALL_KEYBOARDS) [l, kb_alias base] of None \<Rightarrow> [] | Some k \<Rightarrow> k) else fst kc);
          co = (if snd kc = [] then (case region_of l of None \<Rightarrow> [] | Some r \<Rightarrow> if r \<in> set AUTOINSTALL_COUNTRIES then r else []) else snd kc)
      in (kb, co))"

definition initial_draft :: "string list \<Rightarrow> string \<Rightarrow> string \<Rightarrow> ai_draft" where
  "initial_draft langs tz target =
     (let (kb, co) = fold guess_step langs ([], [])
      in \<lparr>dr_fields = [(''name'', Str []), (''description'', Str []), (''target_cluster_id'', Str target), (''servers'', Str ''one''),
           (''several'', Str ''5''), (''expires_local'', Str []), (''country'', Str co), (''keyboard'', Str (if kb \<noteq> [] then kb else ''en-us'')),
           (''timezone'', Str (if aiTimezoneOk tz then tz else ''UTC'')), (''host_mode'', Str ''fixed''), (''host_touched'', Bool False),
           (''fqdn'', Str []), (''dhcp_domain'', Str []), (''mailto'', Str []), (''pw_mode'', Str ''set''), (''root_password_hashed'', Str []),
           (''pasted_hash'', Str []), (''ssh_keys'', Str []), (''net_mode'', Str ''dhcp''), (''cidr'', Str []), (''gateway'', Str []),
           (''dns'', Str []), (''nic_by'', Str ''mac''), (''nic_mac'', Str []), (''nic_name'', Str []), (''filesystem'', Str ''ext4''),
           (''raid'', Str []), (''disk_by'', Str ''name''), (''filter_key'', Str ''ID_SERIAL''), (''filter_glob'', Str []),
           (''wipe_ack'', Bool False), (''enabled'', Bool True), (''callback_url'', Str [])],
         dr_disks = []\<rparr>)"

definition max_uses :: "ai_draft \<Rightarrow> int" where
  "max_uses d =
     (if fld d ''servers'' = ''one'' then 1 else if fld d ''servers'' = ''unlimited'' then 0
      else (case parse_int10 (fld d ''several'') of None \<Rightarrow> 0 | Some i \<Rightarrow> i))"

definition sshLines :: "string \<Rightarrow> string list" where
  "sshLines t = filter (\<lambda>l. l \<noteq> []) (map trim (split_on line_end t))"

definition macHex :: "string \<Rightarrow> string" where
  "macHex v = to_lower (filter (\<lambda>c. c \<noteq> CHR '':'' \<and> c \<noteq> CHR ''-'') (trim v))"

record ai_fields =
  af_global :: obj
  af_keys :: "string list"
  af_network :: obj
  af_disk :: obj
  af_disks :: "string list option"

definition striped :: "ai_draft \<Rightarrow> bool" where
  "striped d \<longleftrightarrow> fld d ''filesystem'' = ''zfs'' \<or> fld d ''filesystem'' = ''btrfs''"

definition host_field :: "ai_draft \<Rightarrow> jval" where
  "host_field d =
     (if fld d ''host_mode'' = ''fixed'' then Str (trim (fld d ''fqdn''))
      else Obj ((''source'', Str ''from-dhcp'') # (if trim (fld d ''dhcp_domain'') \<noteq> [] then [(''domain'', Str (trim (fld d ''dhcp_domain'')))] else [])))"

definition network_fields :: "ai_draft \<Rightarrow> obj" where
  "network_fields d =
     (if fld d ''net_mode'' = ''dhcp'' then [(''source'', Str ''from-dhcp'')]
      else [(''source'', Str ''from-answer''), (''cidr'', Str (trim (fld d ''cidr''))), (''gateway'', Str (trim (fld d ''gateway''))),
            (''dns'', Str (trim (fld d ''dns''))),
            (''filter'', Obj [if fld d ''nic_by'' = ''mac'' then (''ID_NET_NAME_MAC'', Str (''*'' @ macHex (fld d ''nic_mac'')))
                              else (''ID_NET_NAME'', Str (trim (fld d ''nic_name'')))])])"

definition buildFields :: "ai_draft \<Rightarrow> ai_fields" where
  "buildFields d =
     \<lparr>af_global = [(''keyboard'', Str (fld d ''keyboard'')), (''country'', Str (fld d ''country'')), (''timezone'', Str (trim (fld d ''timezone''))),
        (''mailto'', Str (trim (fld d ''mailto''))), (''fqdn'', host_field d),
        (''root_password_hashed'', Str (if fld d ''pw_mode'' = ''paste'' then trim (fld d ''pasted_hash'') else fld d ''root_password_hashed''))],
      af_keys = sshLines (fld d ''ssh_keys''),
      af_network = network_fields d,
      af_disk = (''filesystem'', Str (fld d ''filesystem'')) # (if striped d then [(''raid'', Str (fld d ''raid''))] else []) @
        (if fld d ''disk_by'' = ''name'' then [] else [(''filter'', Obj [(fld d ''filter_key'', Str (trim (fld d ''filter_glob'')))])]),
      af_disks = (if fld d ''disk_by'' = ''name'' then Some (dr_disks d) else None)\<rparr>"

section \<open>The checks of the pages\<close>

type_synonym errs = "(string \<times> string) list"

definition err_if :: "bool \<Rightarrow> string \<Rightarrow> string \<Rightarrow> errs \<Rightarrow> errs" where
  "err_if b k msg es = (if b then AList.update k msg es else es)"

text \<open>\<open>ctrl\<close>: control characters, unless the field has an error already (an empty text is none).\<close>

definition err_ctrl :: "ai_env \<Rightarrow> string \<Rightarrow> string \<Rightarrow> errs \<Rightarrow> errs" where
  "err_ctrl env k v es =
     err_if ((case map_of es k of None \<Rightarrow> True | Some m \<Rightarrow> m = []) \<and> has_ctrl v) k (en_tr env ''autoInstallErrControl'') es"

definition with_n :: "string \<Rightarrow> nat \<Rightarrow> string" where
  "with_n t n = replace_first t ''{n}'' (show_nat n)"

definition errs_general :: "ai_env \<Rightarrow> ai_draft \<Rightarrow> errs" where
  "errs_general env d =
     (let tr = en_tr env; name = trim (fld d ''name''); desc = fld d ''description''; s = trim (fld d ''several'');
          e1 = (if name = [] then [(''name'', tr ''required'')]
                else if 120 < length name then [(''name'', with_n (tr ''autoInstallErrTooLong'') 120)] else []);
          e2 = err_ctrl env ''name'' (fld d ''name'') e1;
          e3 = err_if (500 < length (trim desc)) ''description'' (with_n (tr ''autoInstallErrTooLong'') 500) e2;
          e4 = err_ctrl env ''description'' desc e3
      in err_if (fld d ''servers'' = ''several'' \<and> (s = [] \<or> \<not> list_all is_digit s \<or> nat_of_digits s < 2 \<or> 10000 < nat_of_digits s))
           ''several'' (tr ''autoInstallErrServers'') e4)"

definition err_expiry :: "ai_env \<Rightarrow> int \<Rightarrow> ai_draft \<Rightarrow> errs \<Rightarrow> errs" where
  "err_expiry env now d es =
     err_if (fld d ''expires_local'' \<noteq> [] \<and> (case en_date env (fld d ''expires_local'') of None \<Rightarrow> True | Some w \<Rightarrow> w \<le> now))
       ''expires_local'' (en_tr env ''autoInstallErrExpiry'') es"

definition errs_system :: "ai_env \<Rightarrow> ai_draft \<Rightarrow> errs" where
  "errs_system env d =
     (let tr = en_tr env; tz = trim (fld d ''timezone''); f = trim (fld d ''fqdn''); dom' = trim (fld d ''dhcp_domain''); mail = trim (fld d ''mailto'');
          e1 = err_if (fld d ''country'' \<notin> set AUTOINSTALL_COUNTRIES) ''country''
                 (if fld d ''country'' \<noteq> [] then tr ''autoInstallErrCountry'' else tr ''required'') [];
          e2 = err_if (fld d ''keyboard'' \<notin> set AUTOINSTALL_KEYBOARDS) ''keyboard'' (tr ''autoInstallErrKeyboard'') e1;
          e3 = err_if (tz = [] \<or> \<not> aiTimezoneOk tz) ''timezone'' (if tz = [] then tr ''required'' else tr ''autoInstallErrTimezone'') e2;
          e4 = (if fld d ''host_mode'' = ''fixed''
                then err_if (f = [] \<or> aiFqdnError f False \<noteq> []) ''fqdn'' (if f = [] then tr ''required'' else tr (aiFqdnError f False)) e3
                else err_if (dom' \<noteq> [] \<and> aiFqdnError dom' True \<noteq> []) ''dhcp_domain'' (tr (aiFqdnError dom' True)) e3)
      in err_if (mail = [] \<or> \<not> aiMailOk mail) ''mailto'' (if mail = [] then tr ''required'' else tr ''autoInstallErrMail'') e4)"

text \<open>The bytes of a text in UTF-8.\<close>

definition utf8_length :: "string \<Rightarrow> nat" where
  "utf8_length s = length s + length (filter (\<lambda>c. 128 \<le> code_of c) s)"

definition errs_password :: "ai_env \<Rightarrow> string \<Rightarrow> string \<Rightarrow> ai_draft \<Rightarrow> errs" where
  "errs_password env pw pw2 d =
     (let tr = en_tr env
      in if fld d ''pw_mode'' = ''paste''
         then (let h = trim (fld d ''pasted_hash'')
               in err_if (h = [] \<or> \<not> aiCryptOk h) ''pasted_hash'' (if h = [] then tr ''required'' else tr ''autoInstallErrHash'') [])
         else if fld d ''root_password_hashed'' \<noteq> [] \<and> pw = [] \<and> pw2 = [] then []
         else if pw = [] then [(''pw'', tr ''required'')]
         else if length pw < 8 \<or> 64 < length pw \<or> utf8_length pw < 8 then [(''pw'', tr ''autoInstallErrPwLength'')]
         else if has_ctrl pw then [(''pw'', tr ''autoInstallErrControl'')]
         else if pw \<noteq> pw2 then [(''pw2'', tr ''passwordsDoNotMatch'')] else [])"

definition errs_root :: "ai_env \<Rightarrow> string \<Rightarrow> string \<Rightarrow> ai_draft \<Rightarrow> errs" where
  "errs_root env pw pw2 d =
     (let es = errs_password env pw pw2 d
      in if 50 < length (sshLines (fld d ''ssh_keys'')) then AList.update ''ssh_keys'' (en_tr env ''autoInstallErrSshCount'') es
         else (case find_index (\<lambda>l. trim l \<noteq> [] \<and> \<not> ssh_key_ok (trim l)) (split_on line_end (fld d ''ssh_keys'')) of
                 None \<Rightarrow> es
               | Some i \<Rightarrow> AList.update ''ssh_keys'' (with_n (en_tr env ''autoInstallErrSshKey'') (i + 1)) es))"

definition err_ip :: "ai_env \<Rightarrow> nat \<Rightarrow> string \<Rightarrow> string \<Rightarrow> errs \<Rightarrow> errs" where
  "err_ip env fam k v es =
     (if v = [] then AList.update k (en_tr env ''required'') es
      else if aiIpFamily (en_v6 env) v = 0 then AList.update k (en_tr env ''autoInstallErrIp'') es
      else if fam \<noteq> 0 \<and> aiIpFamily (en_v6 env) v \<noteq> fam then AList.update k (en_tr env ''autoInstallErrFamily'') es else es)"

definition cidr_family :: "ai_env \<Rightarrow> string \<Rightarrow> nat" where
  "cidr_family env cidr = (if cidr \<noteq> [] \<and> aiCidrError (en_v6 env) cidr = [] then aiIpFamily (en_v6 env) (hd (split_on CHR ''/'' cidr)) else 0)"

definition mac12 :: "string \<Rightarrow> bool" where
  "mac12 s \<longleftrightarrow> length s = 12 \<and> list_all (\<lambda>c. is_digit c \<or> c \<in> set ''abcdef'') s"

definition errs_network :: "ai_env \<Rightarrow> ai_draft \<Rightarrow> errs" where
  "errs_network env d =
     (if fld d ''net_mode'' \<noteq> ''static'' then []
      else (let tr = en_tr env; cidr = trim (fld d ''cidr''); fam = cidr_family env cidr;
                e1 = err_if (cidr = [] \<or> fam = 0) ''cidr'' (if cidr = [] then tr ''required'' else tr ''autoInstallErrCidr'') [];
                e2 = err_ip env fam ''dns'' (trim (fld d ''dns'')) (err_ip env fam ''gateway'' (trim (fld d ''gateway'')) e1);
                m = trim (fld d ''nic_mac''); g = trim (fld d ''nic_name'')
            in if fld d ''nic_by'' = ''mac''
               then err_if (m = [] \<or> \<not> mac12 (macHex (fld d ''nic_mac''))) ''nic_mac'' (if m = [] then tr ''required'' else tr ''autoInstallErrMac'') e2
               else err_if (g = [] \<or> \<not> glob_ok g) ''nic_name'' (if g = [] then tr ''required'' else tr ''autoInstallErrPattern'') e2))"

text \<open>The levels of the file system, and the number of disks the chosen one asks for.\<close>

definition raid_min :: "ai_draft \<Rightarrow> nat option" where
  "raid_min d = (case AUTOINSTALL_RAID_MIN (fld d ''filesystem'') of None \<Rightarrow> None | Some ls \<Rightarrow> map_of ls (fld d ''raid''))"

definition has_levels :: "ai_draft \<Rightarrow> bool" where
  "has_levels d \<longleftrightarrow> AUTOINSTALL_RAID_MIN (fld d ''filesystem'') \<noteq> None"

fun first_dup :: "string list \<Rightarrow> string list \<Rightarrow> string option" where
  "first_dup seen [] = None"
| "first_dup seen (x # xs) = (if x \<in> set seen then Some x else first_dup (x # seen) xs)"

definition disk_error :: "ai_env \<Rightarrow> ai_draft \<Rightarrow> string option" where
  "disk_error env d =
     (let tr = en_tr env; ds = dr_disks d; least = (case raid_min d of None \<Rightarrow> 1 | Some n \<Rightarrow> n);
          bad = (case find (\<lambda>x. \<not> aiDiskNameOk x) ds of None \<Rightarrow> [] | Some b \<Rightarrow> b);
          dup = (case first_dup [] ds of None \<Rightarrow> [] | Some b \<Rightarrow> b)
      in if ds = [] then Some (tr ''required'')
         else if bad \<noteq> [] then Some (bad @ '': '' @ tr ''autoInstallErrDiskName'')
         else if dup \<noteq> [] then Some (replace_first (tr ''autoInstallErrDiskDup'') ''{name}'' dup)
         else if \<not> has_levels d \<and> length ds \<noteq> 1 then Some (tr ''autoInstallErrDiskOne'')
         else if has_levels d \<and> length ds < least then Some (with_n (tr ''autoInstallErrDiskFew'') least)
         else if fld d ''raid'' = ''raid10'' \<and> length ds mod 2 \<noteq> 0 then Some (tr ''autoInstallErrDiskEven'') else None)"

definition errs_disks :: "ai_env \<Rightarrow> ai_draft \<Rightarrow> errs" where
  "errs_disks env d =
     (let tr = en_tr env; g = trim (fld d ''filter_glob'');
          e1 = err_if (has_levels d \<and> raid_min d = None) ''raid'' (tr ''autoInstallErrRaid'') []
      in if fld d ''disk_by'' = ''name''
         then (case disk_error env d of None \<Rightarrow> e1 | Some m \<Rightarrow> AList.update ''disks'' m e1)
         else (let e2 = err_if (fld d ''filter_key'' \<notin> set AUTOINSTALL_DISK_KEYS) ''filter_key'' (tr ''required'') e1;
                   e3 = err_if (g = [] \<or> \<not> glob_ok g) ''filter_glob'' (if g = [] then tr ''required'' else tr ''autoInstallErrPattern'') e2
               in err_if (has_levels d \<and> \<not> flag d ''wipe_ack'') ''wipe_ack'' (tr ''autoInstallErrAck'') e3))"

text \<open>\<open>page_errors\<close>: what a page finds wrong but for the date; \<open>validateStep\<close> adds that.\<close>

definition page_errors :: "ai_env \<Rightarrow> string \<Rightarrow> string \<Rightarrow> nat \<Rightarrow> ai_draft \<Rightarrow> errs" where
  "page_errors env pw pw2 i d =
     (if i = 0 then errs_general env d else if i = 1 then errs_system env d else if i = 2 then errs_root env pw pw2 d
      else if i = 3 then errs_network env d else if i = 4 then errs_disks env d else [])"

definition validateStep :: "ai_env \<Rightarrow> int \<Rightarrow> string \<Rightarrow> string \<Rightarrow> nat \<Rightarrow> ai_draft \<Rightarrow> errs" where
  "validateStep env now pw pw2 i d =
     (if i = 0 then err_expiry env now d (page_errors env pw pw2 0 d) else page_errors env pw pw2 i d)"

section \<open>The wizard\<close>

record composed =
  cm_key :: ai_fields
  cm_valid :: bool
  cm_answer :: string
  cm_errors :: "(string \<times> string) list"

record create_body =
  cb_name :: string
  cb_description :: string
  cb_answer :: string
  cb_target :: string
  cb_callback :: string
  cb_max_uses :: int
  cb_expires :: string
  cb_enabled :: bool

text \<open>\<open>wz_hashing\<close>: the page and the draft of each \<open>goNext\<close> that waits for a hash; \<open>wz_composing\<close>: the answers files
  asked for under their numbers; \<open>wz_sent\<close>: the profiles posted, each with the fields of the draft at that moment;
  \<open>wz_rendered\<close>: what the server made of which fields; \<open>wz_hashed\<close>: the texts sent to be hashed.\<close>

record wizard =
  wz_open :: bool
  wz_step :: nat
  wz_errors :: errs
  wz_draft :: ai_draft
  wz_dirty :: bool
  wz_pw :: string
  wz_pw2 :: string
  wz_disk_input :: string
  wz_compose :: "composed option"
  wz_compose_error :: string
  wz_create_error :: string
  wz_busy :: bool
  wz_creating :: bool
  wz_result :: "(string \<times> string \<times> string) option"
  wz_copied :: bool
  wz_advanced :: bool
  wz_seq :: nat
  wz_hashing :: "(nat \<times> ai_draft) list"
  wz_composing :: "(nat \<times> ai_fields) list"
  wz_saving :: "create_body list"
  wz_hashed :: "string list"
  wz_rendered :: "(ai_fields \<times> bool \<times> string) list"
  wz_sent :: "(create_body \<times> ai_fields) list"
  wz_created :: nat

definition last_step :: nat where
  "last_step = 5"

definition wizard_new :: "ai_draft \<Rightarrow> wizard" where
  "wizard_new d = \<lparr>wz_open = True, wz_step = 0, wz_errors = [], wz_draft = d, wz_dirty = False, wz_pw = [], wz_pw2 = [], wz_disk_input = [],
     wz_compose = None, wz_compose_error = [], wz_create_error = [], wz_busy = False, wz_creating = False, wz_result = None, wz_copied = False,
     wz_advanced = False, wz_seq = 0, wz_hashing = [], wz_composing = [], wz_saving = [], wz_hashed = [], wz_rendered = [], wz_sent = [],
     wz_created = 0\<rparr>"

text \<open>The errors shown for the keys go.\<close>

definition clear_errs :: "string list \<Rightarrow> wizard \<Rightarrow> wizard" where
  "clear_errs ks s = s\<lparr>wz_errors := filter (\<lambda>(k, m). k \<notin> set ks \<or> m = []) (wz_errors s)\<rparr>"

definition set_fields :: "obj \<Rightarrow> wizard \<Rightarrow> wizard" where
  "set_fields p s = clear_errs (map fst p) (s\<lparr>wz_draft := put_fields p (wz_draft s), wz_dirty := True\<rparr>)"

definition pick :: "obj \<Rightarrow> wizard \<Rightarrow> wizard" where
  "pick p s = (set_fields p s)\<lparr>wz_errors := []\<rparr>"

definition pickServers :: "string \<Rightarrow> wizard \<Rightarrow> wizard" where
  "pickServers v s =
     pick ((''servers'', Str v) # (if flag (wz_draft s) ''host_touched'' then [] else [(''host_mode'', Str (if v = ''one'' then ''fixed'' else ''dhcp''))])) s"

definition remove_disk :: "string \<Rightarrow> wizard \<Rightarrow> wizard" where
  "remove_disk n s =
     clear_errs [''disks''] (s\<lparr>wz_draft := (wz_draft s)\<lparr>dr_disks := filter (\<lambda>x. x \<noteq> n) (dr_disks (wz_draft s))\<rparr>, wz_dirty := True\<rparr>)"

definition is_sep :: "char \<Rightarrow> bool" where
  "is_sep c \<longleftrightarrow> is_space c \<or> c = CHR '',''"

definition drop_dev :: "string \<Rightarrow> string" where
  "drop_dev s = (if starts_with s ''/dev/'' then drop 5 s else s)"

definition new_names :: "string list \<Rightarrow> string list \<Rightarrow> string list" where
  "new_names old names = filter (\<lambda>n. n \<notin> set old) (rev (remdups (rev names)))"

text \<open>\<open>addDisks\<close>: the new state, and the draft unless a name is bad.\<close>

definition addDisks :: "ai_env \<Rightarrow> wizard \<Rightarrow> wizard \<times> ai_draft option" where
  "addDisks env s =
     (let d = wz_draft s; names = filter (\<lambda>n. n \<noteq> []) (map drop_dev (split_where is_sep (wz_disk_input s)))
      in if names = [] then (s, Some d)
         else case find (\<lambda>n. \<not> aiDiskNameOk n) names of
           Some b \<Rightarrow> (s\<lparr>wz_errors := AList.update ''disks'' (b @ '': '' @ en_tr env ''autoInstallErrDiskName'') (wz_errors s)\<rparr>, None)
         | None \<Rightarrow>
             let d' = d\<lparr>dr_disks := dr_disks d @ new_names (dr_disks d) names\<rparr>
             in (clear_errs [''disks''] (s\<lparr>wz_draft := d', wz_dirty := True, wz_disk_input := []\<rparr>), Some d'))"

definition runCompose :: "ai_draft \<Rightarrow> wizard \<Rightarrow> wizard" where
  "runCompose d s = s\<lparr>wz_seq := wz_seq s + 1, wz_composing := wz_composing s @ [(wz_seq s + 1, buildFields d)], wz_compose := None,
     wz_compose_error := [], wz_create_error := [], wz_busy := True\<rparr>"

text \<open>The end of \<open>goNext\<close>.\<close>

definition advance :: "nat \<Rightarrow> ai_draft \<Rightarrow> wizard \<Rightarrow> wizard" where
  "advance i d s =
     (let s1 = s\<lparr>wz_step := i + 1, wz_errors := []\<rparr> in if i + 1 = last_step then runCompose d s1 else s1)"

definition next_with :: "ai_env \<Rightarrow> int \<Rightarrow> ai_draft \<Rightarrow> wizard \<Rightarrow> wizard" where
  "next_with env now d s =
     (let es = validateStep env now (wz_pw s) (wz_pw2 s) (wz_step s) d; s1 = s\<lparr>wz_errors := es\<rparr>
      in if es \<noteq> [] then s1
         else if wz_step s = 2 \<and> fld d ''pw_mode'' = ''set'' \<and> wz_pw s \<noteq> []
         then s1\<lparr>wz_busy := True, wz_hashing := wz_hashing s @ [(wz_step s, d)], wz_hashed := wz_hashed s @ [wz_pw s]\<rparr>
         else advance (wz_step s) d s1)"

definition goNext :: "ai_env \<Rightarrow> int \<Rightarrow> wizard \<Rightarrow> wizard" where
  "goNext env now s =
     (if wz_busy s \<or> wz_result s \<noteq> None \<or> last_step \<le> wz_step s then s
      else if wz_step s = 4 \<and> trim (wz_disk_input s) \<noteq> []
      then (case addDisks env s of (s1, None) \<Rightarrow> s1 | (s1, Some d) \<Rightarrow> next_with env now d s1)
      else next_with env now (wz_draft s) s)"

text \<open>What came of a request: nothing, a refusal with its text, or the value.\<close>

datatype 'a reply = Broken | Refused string | Given 'a

definition reply_text :: "ai_env \<Rightarrow> string \<Rightarrow> 'a reply \<Rightarrow> string" where
  "reply_text env k r = (case r of Refused e \<Rightarrow> if e \<noteq> [] then e else en_tr env k | _ \<Rightarrow> en_tr env k)"

definition hash_answer :: "ai_env \<Rightarrow> nat \<Rightarrow> string reply \<Rightarrow> wizard \<Rightarrow> wizard" where
  "hash_answer env i r s =
     (let (page, d) = wz_hashing s ! i; s1 = s\<lparr>wz_hashing := drop_nth i (wz_hashing s), wz_busy := False\<rparr>;
          failed = s1\<lparr>wz_errors := [(''pw'', reply_text env ''autoInstallHashFailed'' r)]\<rparr>
      in case r of
           Given h \<Rightarrow>
             if aiCryptOk h
             then advance page (put_fields [(''root_password_hashed'', Str h)] d)
                    (s1\<lparr>wz_draft := put_fields [(''root_password_hashed'', Str h)] (wz_draft s1), wz_pw := [], wz_pw2 := []\<rparr>)
             else failed
         | _ \<Rightarrow> failed)"

definition compose_answer :: "ai_env \<Rightarrow> nat \<Rightarrow> (bool \<times> string \<times> (string \<times> string) list) reply \<Rightarrow> wizard \<Rightarrow> wizard" where
  "compose_answer env i r s =
     (let (q, f) = wz_composing s ! i; s1 = s\<lparr>wz_composing := drop_nth i (wz_composing s)\<rparr>;
          s2 = (case r of Given (v, a, es) \<Rightarrow> s1\<lparr>wz_rendered := wz_rendered s @ [(f, v, a)]\<rparr> | _ \<Rightarrow> s1)
      in if q \<noteq> wz_seq s then s2
         else case r of
             Given (v, a, es) \<Rightarrow> s2\<lparr>wz_compose := Some \<lparr>cm_key = f, cm_valid = v, cm_answer = a, cm_errors = es\<rparr>, wz_busy := False\<rparr>
           | _ \<Rightarrow> s2\<lparr>wz_compose_error := reply_text env ''autoInstallRenderFailed'' r, wz_busy := False\<rparr>)"

definition goTo :: "nat \<Rightarrow> wizard \<Rightarrow> wizard" where
  "goTo i s = (if wz_busy s \<or> wz_step s < i then s else s\<lparr>wz_step := i, wz_errors := []\<rparr>)"

definition fieldTarget :: "ai_draft \<Rightarrow> string \<Rightarrow> (nat \<times> string) option" where
  "fieldTarget d k = map_of
     [(''global.keyboard'', (1, ''keyboard'')), (''global.country'', (1, ''country'')), (''global.timezone'', (1, ''timezone'')),
      (''global.mailto'', (1, ''mailto'')), (''global.fqdn'', (1, if fld d ''host_mode'' = ''fixed'' then ''fqdn'' else ''dhcp_domain'')),
      (''global.root_password_hashed'', (2, if fld d ''pw_mode'' = ''paste'' then ''pasted_hash'' else ''pw'')),
      (''global.root_ssh_keys'', (2, ''ssh_keys'')), (''network.source'', (3, ''net_mode'')), (''network.cidr'', (3, ''cidr'')),
      (''network.gateway'', (3, ''gateway'')), (''network.dns'', (3, ''dns'')),
      (''network.filter'', (3, if fld d ''nic_by'' = ''mac'' then ''nic_mac'' else ''nic_name'')), (''disk.filesystem'', (4, ''filesystem'')),
      (''disk.raid'', (4, ''raid'')), (''disk.disk_list'', (4, ''disks'')), (''disk.filter'', (4, ''filter_glob''))] k"

definition field_errors :: "wizard \<Rightarrow> (string \<times> string) list" where
  "field_errors s = (case wz_compose s of None \<Rightarrow> [] | Some c \<Rightarrow> cm_errors c)"

definition bad_steps :: "wizard \<Rightarrow> nat list" where
  "bad_steps s = map fst (List.map_filter (\<lambda>(k, m). fieldTarget (wz_draft s) k) (field_errors s))"

definition fixField :: "string \<Rightarrow> wizard \<Rightarrow> wizard" where
  "fixField k s =
     (case (fieldTarget (wz_draft s) k, map_of (field_errors s) k) of
        (Some (i, f), Some m) \<Rightarrow> s\<lparr>wz_step := i, wz_errors := [(f, m)]\<rparr> | _ \<Rightarrow> s)"

definition stale :: "wizard \<Rightarrow> bool" where
  "stale s \<longleftrightarrow> (case wz_compose s of None \<Rightarrow> False | Some c \<Rightarrow> wz_step s = last_step \<and> cm_key c \<noteq> buildFields (wz_draft s))"

definition canCreate :: "wizard \<Rightarrow> bool" where
  "canCreate s \<longleftrightarrow> (case wz_compose s of None \<Rightarrow> False | Some c \<Rightarrow> cm_valid c) \<and> \<not> stale s \<and> \<not> wz_busy s"

definition localInputToUtc :: "ai_env \<Rightarrow> string \<Rightarrow> string" where
  "localInputToUtc env v = (if v = [] then [] else case en_iso env v of None \<Rightarrow> v | Some t \<Rightarrow> t)"

definition callback_bad :: "string \<Rightarrow> bool" where
  "callback_bad cb \<longleftrightarrow> cb \<noteq> [] \<and> (\<not> (starts_with cb ''http://'' \<or> starts_with cb ''https://'') \<or> 500 < length cb \<or> has_ctrl cb)"

definition create_request :: "ai_env \<Rightarrow> string \<Rightarrow> ai_draft \<Rightarrow> create_body" where
  "create_request env answer d =
     \<lparr>cb_name = trim (fld d ''name''), cb_description = trim (fld d ''description''), cb_answer = answer, cb_target = fld d ''target_cluster_id'',
      cb_callback = trim (fld d ''callback_url''), cb_max_uses = max_uses d, cb_expires = localInputToUtc env (fld d ''expires_local''),
      cb_enabled = flag d ''enabled''\<rparr>"

definition create :: "ai_env \<Rightarrow> wizard \<Rightarrow> wizard" where
  "create env s =
     (case wz_compose s of
        None \<Rightarrow> s
      | Some c \<Rightarrow>
          if \<not> canCreate s then s
          else if callback_bad (trim (fld (wz_draft s) ''callback_url''))
          then s\<lparr>wz_advanced := True, wz_errors := [(''callback_url'', en_tr env ''autoInstallCallbackBad'')]\<rparr>
          else (let b = create_request env (cm_answer c) (wz_draft s)
                in s\<lparr>wz_busy := True, wz_creating := True, wz_create_error := [], wz_saving := wz_saving s @ [b],
                     wz_sent := wz_sent s @ [(b, buildFields (wz_draft s))]\<rparr>))"

text \<open>The profile is saved: with a token the result page, without one the dialog closes.\<close>

definition create_answer :: "ai_env \<Rightarrow> nat \<Rightarrow> (string \<times> string \<times> string) reply \<Rightarrow> wizard \<Rightarrow> wizard" where
  "create_answer env i r s =
     (let s1 = s\<lparr>wz_saving := drop_nth i (wz_saving s), wz_busy := False, wz_creating := False\<rparr>
      in case r of
           Given (token, name, fp) \<Rightarrow>
             let d = wz_draft s;
                 s2 = s1\<lparr>wz_draft := put_fields [(''root_password_hashed'', Str []), (''pasted_hash'', Str [])] d, wz_compose := None,
                         wz_created := wz_created s + 1\<rparr>
             in if token \<noteq> [] then s2\<lparr>wz_result := Some (token, if name \<noteq> [] then name else trim (fld d ''name''), fp)\<rparr> else s2\<lparr>wz_open := False\<rparr>
         | _ \<Rightarrow> s1\<lparr>wz_create_error := reply_text env ''autoInstallSaveFailed'' r\<rparr>)"

text \<open>Closing; \<open>yes\<close> is the answer to the question it may ask.\<close>

definition requestClose :: "bool \<Rightarrow> wizard \<Rightarrow> wizard" where
  "requestClose yes s =
     (if wz_creating s then s
      else if wz_result s \<noteq> None then (if \<not> wz_copied s \<and> \<not> yes then s else s\<lparr>wz_open := False\<rparr>)
      else if wz_dirty s \<and> \<not> yes then s else s\<lparr>wz_open := False\<rparr>)"

section \<open>Events\<close>

definition page_fields :: "nat \<Rightarrow> string list" where
  "page_fields i =
     (if i = 0 then [''name'', ''description'', ''target_cluster_id'', ''several'', ''expires_local'']
      else if i = 1 then [''country'', ''keyboard'', ''timezone'', ''mailto'', ''host_mode'', ''host_touched'', ''fqdn'', ''dhcp_domain'']
      else if i = 2 then [''pw_mode'', ''pasted_hash'', ''root_password_hashed'', ''ssh_keys'']
      else if i = 3 then [''net_mode'', ''cidr'', ''gateway'', ''dns'', ''nic_by'', ''nic_mac'', ''nic_name'']
      else if i = 4 then [''filesystem'', ''raid'', ''disk_by'', ''filter_key'', ''filter_glob'', ''wipe_ack'']
      else if i = 5 then [''enabled'', ''callback_url''] else [])"

datatype wz_event =
    Set_Fields obj
  | Pick obj
  | Pick_Servers string
  | Remove_Disk string
  | Add_Disks
  | Type_Disk string
  | Type_Pw string
  | Type_Pw2 string
  | Next int
  | Go_To nat
  | Fix_Field string
  | Render_Again
  | Create
  | Copied
  | Toggle_Advanced
  | Close bool
  | Hash_Answer nat "string reply"
  | Compose_Answer nat "(bool \<times> string \<times> (string \<times> string) list) reply"
  | Create_Answer nat "(string \<times> string \<times> string) reply"

text \<open>What the page shown lets the user do.\<close>

definition offered :: "wizard \<Rightarrow> wz_event \<Rightarrow> bool" where
  "offered s e =
     (wz_open s \<and>
      (case e of
         Set_Fields p \<Rightarrow> wz_result s = None \<and> set (map fst p) \<subseteq> set (page_fields (wz_step s))
       | Pick p \<Rightarrow> wz_result s = None \<and> set (map fst p) \<subseteq> set (page_fields (wz_step s))
       | Pick_Servers v \<Rightarrow> wz_result s = None \<and> wz_step s = 0
       | Remove_Disk n \<Rightarrow> wz_result s = None \<and> wz_step s = 4
       | Add_Disks \<Rightarrow> wz_result s = None \<and> wz_step s = 4
       | Type_Disk t \<Rightarrow> wz_result s = None \<and> wz_step s = 4
       | Type_Pw t \<Rightarrow> wz_result s = None \<and> wz_step s = 2
       | Type_Pw2 t \<Rightarrow> wz_result s = None \<and> wz_step s = 2
       | Next now \<Rightarrow> wz_result s = None
       | Go_To i \<Rightarrow> wz_result s = None
       | Fix_Field k \<Rightarrow> wz_result s = None \<and> wz_step s = last_step
       | Render_Again \<Rightarrow> wz_result s = None \<and> wz_step s = last_step \<and> ((wz_compose_error s \<noteq> [] \<and> \<not> wz_busy s) \<or> stale s)
       | Create \<Rightarrow> wz_result s = None \<and> wz_step s = last_step
       | Copied \<Rightarrow> wz_result s \<noteq> None
       | Toggle_Advanced \<Rightarrow> wz_result s = None \<and> wz_step s = last_step
       | Close yes \<Rightarrow> True
       | Hash_Answer i r \<Rightarrow> i < length (wz_hashing s)
       | Compose_Answer i r \<Rightarrow> i < length (wz_composing s)
       | Create_Answer i r \<Rightarrow> i < length (wz_saving s)))"

definition wizard_do :: "ai_env \<Rightarrow> wz_event \<Rightarrow> wizard \<Rightarrow> wizard" where
  "wizard_do env e s =
     (case e of
        Set_Fields p \<Rightarrow> set_fields p s
      | Pick p \<Rightarrow> pick p s
      | Pick_Servers v \<Rightarrow> pickServers v s
      | Remove_Disk n \<Rightarrow> remove_disk n s
      | Add_Disks \<Rightarrow> fst (addDisks env s)
      | Type_Disk t \<Rightarrow> clear_errs [''disks''] (s\<lparr>wz_disk_input := t\<rparr>)
      | Type_Pw t \<Rightarrow> clear_errs [''pw'', ''pw2''] (s\<lparr>wz_pw := t, wz_dirty := True\<rparr>)
      | Type_Pw2 t \<Rightarrow> clear_errs [''pw2''] (s\<lparr>wz_pw2 := t\<rparr>)
      | Next now \<Rightarrow> goNext env now s
      | Go_To i \<Rightarrow> goTo i s
      | Fix_Field k \<Rightarrow> fixField k s
      | Render_Again \<Rightarrow> runCompose (wz_draft s) s
      | Create \<Rightarrow> create env s
      | Copied \<Rightarrow> s\<lparr>wz_copied := True\<rparr>
      | Toggle_Advanced \<Rightarrow> s\<lparr>wz_advanced := \<not> wz_advanced s\<rparr>
      | Close yes \<Rightarrow> requestClose yes s
      | Hash_Answer i r \<Rightarrow> hash_answer env i r s
      | Compose_Answer i r \<Rightarrow> compose_answer env i r s
      | Create_Answer i r \<Rightarrow> create_answer env i r s)"

definition wizard_exec :: "ai_env \<Rightarrow> wizard \<Rightarrow> wz_event \<Rightarrow> wizard option" where
  "wizard_exec env s e = (if offered s e then Some (wizard_do env e s) else None)"

section \<open>What is created was rendered\<close>

definition rendered_inv :: "wizard \<Rightarrow> bool" where
  "rendered_inv s \<longleftrightarrow>
     (\<forall>c. wz_compose s = Some c \<longrightarrow> (cm_key c, cm_valid c, cm_answer c) \<in> set (wz_rendered s)) \<and>
     (\<forall>(b, f) \<in> set (wz_sent s). (f, True, cb_answer b) \<in> set (wz_rendered s))"

text \<open>An operation that neither renders nor posts.\<close>

definition quiet_op :: "wizard \<Rightarrow> wizard \<Rightarrow> bool" where
  "quiet_op s s' \<longleftrightarrow> wz_rendered s' = wz_rendered s \<and> wz_sent s' = wz_sent s \<and> (wz_compose s' = wz_compose s \<or> wz_compose s' = None)"

lemma quiet_inv: "quiet_op s s' \<Longrightarrow> rendered_inv s \<Longrightarrow> rendered_inv s'"
  by (auto simp: quiet_op_def rendered_inv_def)

lemma quiet_edits: "quiet_op s (set_fields p s)" "quiet_op s (pick p s)" "quiet_op s (pickServers v s)" "quiet_op s (remove_disk n s)"
  "quiet_op s (fst (addDisks env s))" "quiet_op s (runCompose d s)" "quiet_op s (advance i d s)" "quiet_op s (goTo i s)"
  "quiet_op s (fixField k s)" "quiet_op s (requestClose yes s)" "quiet_op s (clear_errs ks s)"
  by (auto simp: quiet_op_def set_fields_def pick_def pickServers_def remove_disk_def addDisks_def runCompose_def advance_def goTo_def
      fixField_def requestClose_def clear_errs_def Let_def split: option.splits)

lemma quiet_trans: "quiet_op s s1 \<Longrightarrow> quiet_op s1 s2 \<Longrightarrow> quiet_op s s2"
  by (auto simp: quiet_op_def)

lemma quiet_next_with: "quiet_op s (next_with env now d s)"
proof -
  have "quiet_op s (s\<lparr>wz_errors := es\<rparr>)" for es by (simp add: quiet_op_def)
  from quiet_trans [OF this quiet_edits(7)] show ?thesis
    by (auto simp: next_with_def Let_def quiet_op_def)
qed

lemma quiet_goNext: "quiet_op s (goNext env now s)"
proof (cases "addDisks env s")
  case (Pair s1 d)
  with quiet_edits(5) [of s env] have "quiet_op s s1" by simp
  with Pair show ?thesis
    using quiet_next_with quiet_trans by (auto simp: goNext_def quiet_op_def split: option.split)
qed

lemma quiet_hash: "quiet_op s (hash_answer env i r s)"
proof -
  have "quiet_op s (s\<lparr>wz_hashing := hs, wz_busy := b, wz_draft := d, wz_pw := p, wz_pw2 := q\<rparr>)" for hs b d p q by (simp add: quiet_op_def)
  from quiet_trans [OF this quiet_edits(7)] show ?thesis
    by (auto simp: hash_answer_def Let_def quiet_op_def split: reply.split prod.split)
qed

lemma rendered_compose: "rendered_inv s \<Longrightarrow> rendered_inv (compose_answer env i r s)"
  by (auto simp: rendered_inv_def compose_answer_def Let_def split: reply.splits prod.splits)

lemma rendered_create:
  assumes "rendered_inv s" and "wz_step s = last_step"
  shows "rendered_inv (create env s)"
proof (cases "wz_compose s")
  case (Some c)
  then show ?thesis
    using assms by (auto simp: rendered_inv_def create_def canCreate_def stale_def create_request_def Let_def)
qed (use assms in \<open>simp add: create_def\<close>)

lemma quiet_rest: "quiet_op s (create_answer env i r s)"
  by (auto simp: quiet_op_def create_answer_def Let_def split: reply.split)

lemma quiet_fields:
  "quiet_op s (clear_errs ks (s\<lparr>wz_disk_input := t\<rparr>))" "quiet_op s (clear_errs ks (s\<lparr>wz_pw := t, wz_dirty := b\<rparr>))"
  "quiet_op s (clear_errs ks (s\<lparr>wz_pw2 := t\<rparr>))" "quiet_op s (s\<lparr>wz_copied := b\<rparr>)" "quiet_op s (s\<lparr>wz_advanced := b\<rparr>)"
  by (simp_all add: quiet_op_def clear_errs_def)

lemmas quiet_ops = quiet_edits quiet_goNext quiet_hash quiet_rest quiet_fields

lemma quiet_do: "e \<noteq> Create \<Longrightarrow> (\<forall>i r. e \<noteq> Compose_Answer i r) \<Longrightarrow> quiet_op s (wizard_do env e s)"
  by (cases e) (simp_all add: wizard_do_def quiet_ops)

lemma rendered_step:
  assumes "rendered_inv s" and "wizard_exec env s e = Some s'"
  shows "rendered_inv s'"
proof -
  from assms(2) have "offered s e" and s': "s' = wizard_do env e s" by (auto simp: wizard_exec_def split: if_splits)
  show ?thesis
  proof (cases "e = Create")
    case True
    with \<open>offered s e\<close> have "wz_step s = last_step" by (simp add: offered_def)
    with True s' assms(1) show ?thesis by (simp add: wizard_do_def rendered_create)
  next
    case nc: False
    show ?thesis
    proof (cases "\<exists>i r. e = Compose_Answer i r")
      case True
      then show ?thesis using s' assms(1) by (auto simp: wizard_do_def rendered_compose)
    next
      case False
      then show ?thesis using nc s' assms(1) quiet_do quiet_inv by blast
    qed
  qed
qed

interpretation rendered: step_machine "\<lambda>s e s'. wizard_exec env s e = Some s'" "\<lambda>s. \<exists>d. s = wizard_new d" rendered_inv for env
proof
  fix s assume "\<exists>d. s = wizard_new d"
  then show "rendered_inv s" by (auto simp: rendered_inv_def wizard_new_def)
qed (rule rendered_step)

section \<open>Pages and requests\<close>





















section \<open>Checked pages\<close>










lemma update_not_Nil [simp]: "AList.update k v kvs \<noteq> []"
  by (cases kvs) auto
























section \<open>Properties\<close>

lemma wizard_run: "run_exec (wizard_exec env) s es = Some s' \<Longrightarrow> steps (\<lambda>s e s'. wizard_exec env s e = Some s') s es s'"
  by (rule steps_run_exec) simp_all



definition demo_env :: ai_env where
  "demo_env = \<lparr>en_tr = (\<lambda>k. k), en_v6 = (\<lambda>s. None), en_date = (\<lambda>s. None), en_iso = (\<lambda>s. None)\<rparr>"

definition demo_hash :: string where
  "demo_hash = ''$2b$10$'' @ replicate 53 CHR ''a''"

definition demo_start :: wizard where
  "demo_start = wizard_new (initial_draft [''de-DE''] ''Europe/Berlin'' [])"

definition to_root :: "wz_event list" where
  "to_root = [Set_Fields [(''name'', Str ''rack-a'')], Next 0, Set_Fields [(''fqdn'', Str ''pve1.example.com''), (''mailto'', Str ''root@example.com'')], Next 0]"

definition demo_hashing :: "wz_event list" where
  "demo_hashing = to_root @ [Type_Pw ''correct horse'', Type_Pw2 ''correct horse'', Next 0]"

definition demo_create :: "wz_event list" where
  "demo_create = demo_hashing @ [Hash_Answer 0 (Given demo_hash), Next 0, Type_Disk ''/dev/sda'', Next 0, Compose_Answer 0 (Given (True, ''[global]'', [])), Create]"

text \<open>C8. A profile is only ever posted with an answer file that the server rendered, and called valid, from exactly the
  fields the draft holds at that moment.\<close>

theorem wizard_posts_rendered:
  assumes "steps (\<lambda>s e s'. wizard_exec env s e = Some s') (wizard_new d) es s" and "(b, f) \<in> set (wz_sent s)"
  shows "(f, True, cb_answer b) \<in> set (wz_rendered s)"
  using rendered.inv_run [OF exI [of _ d, OF refl] assms(1)] assms(2) by (auto simp: rendered_inv_def)

theorem wizard_posts_rendered_witness:
  "run_ends (wizard_exec demo_env) demo_start demo_create
     (\<lambda>s. \<exists>b f. wz_sent s = [(b, f)] \<and> (f, True, cb_answer b) \<in> set (wz_rendered s))"
proof -
  have "run_ends (wizard_exec demo_env) demo_start demo_create (\<lambda>s. length (wz_sent s) = 1)" by code_simp
  then obtain s where s: "run_exec (wizard_exec demo_env) demo_start demo_create = Some s" "length (wz_sent s) = 1"
    unfolding run_ends_iff by (elim exE conjE)
  from s(2) obtain b f where bf: "wz_sent s = [(b, f)]" by (auto simp: length_Suc_conv)
  have "(f, True, cb_answer b) \<in> set (wz_rendered s)"
    by (rule wizard_posts_rendered [OF wizard_run [OF s(1), unfolded demo_start_def]]) (simp add: bf)
  with s(1) bf show ?thesis unfolding run_ends_iff by (intro exI [of _ s] conjI exI [of _ b] exI [of _ f])
qed



text \<open>The fields stay open while the password is hashed: choosing another page of it then lets the wizard go on with a
  root page that fails its own check.\<close>

theorem edit_during_hash_unchecked:
  "run_ends (wizard_exec demo_env) demo_start (demo_hashing @ [Pick [(''pw_mode'', Str ''paste'')], Hash_Answer 0 (Given demo_hash)])
     (\<lambda>s. wz_step s = 3 \<and> page_errors demo_env (wz_pw s) (wz_pw2 s) 2 (wz_draft s) = [(''pasted_hash'', ''required'')])"
  by code_simp

text \<open>A password typed before the choice of a ready hash stays in the state to the last page.\<close>

lemma typed_password_survives:
  "run_ends (wizard_exec demo_env) demo_start
     (to_root @ [Type_Pw ''correct horse'', Pick [(''pw_mode'', Str ''paste'')], Set_Fields [(''pasted_hash'', Str demo_hash)], Next 0, Next 0,
        Type_Disk ''sda'', Next 0])
     (\<lambda>s. wz_step s = 5 \<and> wz_pw s = ''correct horse'')"
  by code_simp

end
