(* ===== verification/Guest_Bulk.thy ===== *)
theory Guest_Bulk
  imports Js_Values
begin

text \<open>
  One action on the guests picked in the table (\<open>GuestBulkActionModal\<close> and its helpers in web/src/vm_modals.js): who takes part,
  the request for one guest, the tags it gets, and the lanes that work off the list four at a time. A lane runs
  from one \<open>await\<close> to the next without interruption, so the start of all lanes and each answer is one step.
\<close>

section \<open>Texts\<close>

lemma length_tl_dropWhile: "length (tl (dropWhile p xs)) \<le> length xs"
  using length_dropWhile_le [of p xs] by simp

text \<open>\<open>guestBulkFill\<close>: each \<open>{word}\<close> that has a value is replaced by it.\<close>

function guestBulkFill :: "string \<Rightarrow> (string \<times> string) list \<Rightarrow> string" where
  "guestBulkFill [] vars = []"
| "guestBulkFill (c # cs) vars =
     (let w = takeWhile word_char cs; r = dropWhile word_char cs
      in if c = CHR ''{'' \<and> w \<noteq> [] \<and> starts_with r ''}''
         then (case map_of vars w of Some v \<Rightarrow> v | None \<Rightarrow> ''{'' @ w @ ''}'') @ guestBulkFill (tl r) vars
         else c # guestBulkFill cs vars)"
  by pat_completeness auto
termination
  by (relation "measure (\<lambda>(s, vars). length s)") (auto simp: less_Suc_eq_le length_tl_dropWhile simp del: length_tl)

definition tag_sep :: "char \<Rightarrow> bool" where
  "tag_sep c \<longleftrightarrow> c = CHR '';'' \<or> c = CHR '','' \<or> is_space c"

text \<open>The tags of a guest come as an array or as a text.\<close>

record bulk_guest =
  bg_fields :: obj
  bg_tags :: "string list option"

definition guestBulkTags :: "bulk_guest \<Rightarrow> string list" where
  "guestBulkTags g =
     filter (\<lambda>t. t \<noteq> []) (map trim (case bg_tags g of Some ts \<Rightarrow> ts
       | None \<Rightarrow> split_where tag_sep (to_str (or_else (prop_of (bg_fields g) ''tags'') (Str [])))))"

definition tag_ok :: "string \<Rightarrow> bool" where
  "tag_ok s \<longleftrightarrow> s \<noteq> [] \<and> word_char (hd s) \<and> list_all (\<lambda>c. word_char c \<or> c \<in> set ''+.-'') (tl s)"

definition snapname_ok :: "string \<Rightarrow> bool" where
  "snapname_ok s \<longleftrightarrow> s \<noteq> [] \<and> is_alpha (hd s) \<and> length (tl s) \<le> 39 \<and> list_all (\<lambda>c. word_char c \<or> c = CHR ''-'') (tl s)"

text \<open>The words of a refusal; \<open>json\<close> stands for \<open>JSON.parse\<close>.\<close>

definition guestBulkError :: "(string \<Rightarrow> jval option) \<Rightarrow> string \<Rightarrow> string \<Rightarrow> string" where
  "guestBulkError json text fallback =
     (if text = [] then fallback
      else (case json (map (\<lambda>c. if c = CHR 0x0A then CHR '' '' else c) text) of
              Some (Obj j) \<Rightarrow>
                (case or_else (or_else (prop_of j ''message'') (prop_of j ''errors'')) (prop_of j ''error'') of
                   Str m \<Rightarrow> if trim m \<noteq> [] then trim m else take 300 text
                 | Obj es \<Rightarrow> join ''; '' (map (\<lambda>(k, v). k @ '': '' @ to_str v) es)
                 | _ \<Rightarrow> take 300 text)
            | _ \<Rightarrow> take 300 text))"

definition isGuestTemplate :: "obj \<Rightarrow> bool" where
  "isGuestTemplate g \<longleftrightarrow> prop_of g ''template'' \<in> {Num 1, Str ''1'', Bool True}"

definition guestBulkSkip :: "(string \<Rightarrow> string) \<Rightarrow> string \<Rightarrow> obj \<Rightarrow> string" where
  "guestBulkSkip tr action g =
     (let running = (prop_of g ''status'' = Str ''running'')
      in if action \<noteq> ''tags'' \<and> isGuestTemplate g then tr ''guestBulkSkipTemplate''
         else if action = ''start'' \<and> running then tr ''guestBulkSkipRunning''
         else if action \<in> {''shutdown'', ''stop'', ''reboot''} \<and> \<not> running then tr ''guestBulkSkipStopped'' else [])"

definition bulk_targets :: "(string \<Rightarrow> string) \<Rightarrow> string \<Rightarrow> bulk_guest list \<Rightarrow> bulk_guest list" where
  "bulk_targets tr action gs = filter (\<lambda>g. guestBulkSkip tr action (bg_fields g) = []) gs"

record bulk_form =
  bf_action :: string
  bf_snapname :: string
  bf_description :: string
  bf_vmstate :: bool
  bf_add :: bool
  bf_tag_text :: string

definition tag_list :: "bulk_form \<Rightarrow> string list" where
  "tag_list f = filter (\<lambda>t. t \<noteq> []) (map trim (split_where tag_sep (bf_tag_text f)))"

definition form_bad :: "bulk_form \<Rightarrow> bulk_guest list \<Rightarrow> bool" where
  "form_bad f targets \<longleftrightarrow>
     targets = [] \<or> (bf_action f = ''snapshot'' \<and> \<not> snapname_ok (trim (bf_snapname f))) \<or>
     (bf_action f = ''tags'' \<and> (tag_list f = [] \<or> list_ex (\<lambda>t. \<not> tag_ok t) (tag_list f)))"

section \<open>The request for one guest\<close>

definition same_tag :: "string \<Rightarrow> string \<Rightarrow> bool" where
  "same_tag a b \<longleftrightarrow> to_lower a = to_lower b"

definition next_tags :: "bool \<Rightarrow> string list \<Rightarrow> string list \<Rightarrow> string list" where
  "next_tags add have' wanted =
     (if add then have' @ map snd (filter (\<lambda>(i, x). \<not> list_ex (\<lambda>h. same_tag h x) have' \<and> find_index (\<lambda>y. same_tag y x) wanted = Some i)
                             (enumerate 0 wanted))
      else filter (\<lambda>h. \<not> list_ex (\<lambda>x. same_tag h x) wanted) have')"

datatype bulk_state = Wait | Busy | Started | Done | Skipped string | Failed string

record bulk_request =
  br_url :: string
  br_method :: string
  br_body :: "obj option"

definition GUEST_BULK_POWER :: "string list" where
  "GUEST_BULK_POWER = [''start'', ''shutdown'', ''stop'', ''reboot'']"

definition bulk_base :: "string \<Rightarrow> obj \<Rightarrow> string" where
  "bulk_base api g = api @ ''/clusters/'' @ encodeURIComponent (to_str (prop_of g ''_clusterId'')) @ ''/vms/'' @
     encodeURIComponent (to_str (prop_of g ''node'')) @ ''/'' @ to_str (prop_of g ''type'') @ ''/'' @ to_str (prop_of g ''vmid'')"

text \<open>\<open>runOne\<close> up to its request: \<open>Inl\<close> where it returns without one.\<close>

definition run_one :: "(string \<Rightarrow> string) \<Rightarrow> string \<Rightarrow> bulk_form \<Rightarrow> bulk_guest \<Rightarrow> bulk_state + bulk_request" where
  "run_one tr api f g =
     (let fs = bg_fields g; base = bulk_base api fs; act = bf_action f
      in if act \<in> set GUEST_BULK_POWER
         then Inr \<lparr>br_url = base @ ''/'' @ act, br_method = ''POST'', br_body = (if act = ''stop'' then Some [(''force'', Bool True)] else None)\<rparr>
         else if act = ''snapshot''
         then Inr \<lparr>br_url = base @ ''/snapshots'', br_method = ''POST'',
                br_body = Some [(''snapname'', Str (trim (bf_snapname f))), (''description'', Str (bf_description f)),
                  (''vmstate'', Bool (bf_vmstate f \<and> prop_of fs ''type'' = Str ''qemu'' \<and> prop_of fs ''status'' = Str ''running''))]\<rparr>
         else (let have' = guestBulkTags g; nxt = next_tags (bf_add f) have' (tag_list f)
               in if nxt = have' then Inl (Skipped (tr ''guestBulkTagsUnchanged''))
                  else Inr \<lparr>br_url = base @ ''/config'', br_method = ''PUT'',
                         br_body = Some [if nxt \<noteq> [] then (''tags'', Str (join '';'' nxt)) else (''delete'', Str ''tags'')]\<rparr>))"

text \<open>Its answer: none, or the status and the text of the error.\<close>

definition run_one_answer :: "(string \<Rightarrow> string) \<Rightarrow> (string \<Rightarrow> jval option) \<Rightarrow> string \<Rightarrow> (bool \<times> nat \<times> string) option \<Rightarrow> bulk_state" where
  "run_one_answer tr json act a =
     (case a of
        None \<Rightarrow> Failed (tr ''connectionError'')
      | Some (good, status, err) \<Rightarrow>
          if good then (if act = ''tags'' then Done else Started)
          else Failed (guestBulkError json err (tr ''actionFailed'' @ '' (HTTP '' @ show_nat status @ '')'')))"

section \<open>The lanes\<close>

definition GUEST_BULK_PARALLEL :: nat where
  "GUEST_BULK_PARALLEL = 4"

text \<open>\<open>pl_running\<close>: the items whose worker is awaited, one per lane; \<open>pl_called\<close>: those a worker was called for.\<close>

record pool =
  pl_next :: nat
  pl_running :: "nat list"
  pl_states :: "bulk_state list"
  pl_called :: "nat list"

text \<open>A lane up to its next \<open>await\<close>, or to its end.\<close>

definition lane :: "pool \<Rightarrow> pool" where
  "lane s =
     (if pl_next s < length (pl_states s)
      then s\<lparr>pl_next := pl_next s + 1, pl_running := pl_running s @ [pl_next s], pl_states := (pl_states s)[pl_next s := Busy],
             pl_called := pl_called s @ [pl_next s]\<rparr>
      else s)"

definition guestBulkRun :: "nat \<Rightarrow> pool" where
  "guestBulkRun n = (lane ^^ min GUEST_BULK_PARALLEL n) \<lparr>pl_next = 0, pl_running = [], pl_states = replicate n Wait, pl_called = []\<rparr>"

text \<open>The worker of an item returns, or throws: its lane notes the result and goes on.\<close>

definition settled :: "nat \<Rightarrow> bulk_state \<Rightarrow> pool \<Rightarrow> pool" where
  "settled i r s = lane (s\<lparr>pl_running := remove1 i (pl_running s), pl_states := (pl_states s)[i := r]\<rparr>)"

definition bulk_exec :: "pool \<Rightarrow> nat \<times> bulk_state \<Rightarrow> pool option" where
  "bulk_exec s e = (if fst e \<in> set (pl_running s) \<and> snd e \<notin> {Wait, Busy} then Some (settled (fst e) (snd e) s) else None)"

definition bulk_counts :: "bulk_state list \<Rightarrow> nat \<times> nat" where
  "bulk_counts rs = (length (filter (\<lambda>r. r = Started \<or> r = Done) rs), length (filter (\<lambda>r. case r of Failed e \<Rightarrow> True | _ \<Rightarrow> False) rs))"

definition state_text :: "(string \<Rightarrow> string) \<Rightarrow> bulk_state \<Rightarrow> string" where
  "state_text tr r = (case r of Busy \<Rightarrow> tr ''guestBulkBusy'' | Started \<Rightarrow> tr ''guestBulkStarted'' | Done \<Rightarrow> tr ''guestBulkDone''
     | Skipped n \<Rightarrow> tr ''guestBulkLeftOut'' | Failed n \<Rightarrow> tr ''failed'' | Wait \<Rightarrow> tr ''guestBulkWaiting'')"

section \<open>Facts on the lanes\<close>

definition lanes_inv :: "pool \<Rightarrow> bool" where
  "lanes_inv s \<longleftrightarrow>
     pl_next s \<le> length (pl_states s) \<and> pl_called s = [0..<pl_next s] \<and> distinct (pl_running s) \<and> (\<forall>i \<in> set (pl_running s). i < pl_next s) \<and>
     (\<forall>i < length (pl_states s). (pl_states s ! i = Busy \<longleftrightarrow> i \<in> set (pl_running s)) \<and> (pl_states s ! i = Wait \<longleftrightarrow> pl_next s \<le> i))"

definition pool_inv :: "pool \<Rightarrow> bool" where
  "pool_inv s \<longleftrightarrow> lanes_inv s \<and> length (pl_running s) \<le> GUEST_BULK_PARALLEL \<and>
     (pl_next s < length (pl_states s) \<longrightarrow> length (pl_running s) = GUEST_BULK_PARALLEL)"

lemma lane_states [simp]: "length (pl_states (lane s)) = length (pl_states s)"
  by (simp add: lane_def)

lemma lane_running: "length (pl_running (lane s)) = length (pl_running s) + (if pl_next s < length (pl_states s) then 1 else 0)"
  by (simp add: lane_def)

lemma lanes_lane:
  assumes "lanes_inv s"
  shows "lanes_inv (lane s)"
proof (cases "pl_next s < length (pl_states s)")
  case True
  from assms have "pl_next s \<notin> set (pl_running s)" by (auto simp: lanes_inv_def)
  with assms True show ?thesis by (auto simp: lanes_inv_def lane_def nth_list_update)
qed (use assms in \<open>simp add: lane_def\<close>)

lemma lanes_settle:
  assumes "lanes_inv s" and i: "i \<in> set (pl_running s)" and r: "r \<noteq> Wait" "r \<noteq> Busy"
  shows "lanes_inv (s\<lparr>pl_running := remove1 i (pl_running s), pl_states := (pl_states s)[i := r]\<rparr>)"
proof -
  from assms(1) i have "i < pl_next s" "i < length (pl_states s)" "distinct (pl_running s)" by (auto simp: lanes_inv_def)
  with assms show ?thesis by (auto simp: lanes_inv_def nth_list_update set_remove1_eq dest: notin_set_remove1)
qed

lemma lanes_start:
  "k \<le> n \<Longrightarrow> lanes_inv ((lane ^^ k) \<lparr>pl_next = 0, pl_running = [], pl_states = replicate n Wait, pl_called = []\<rparr>) \<and>
     pl_next ((lane ^^ k) \<lparr>pl_next = 0, pl_running = [], pl_states = replicate n Wait, pl_called = []\<rparr>) = k \<and>
     length (pl_running ((lane ^^ k) \<lparr>pl_next = 0, pl_running = [], pl_states = replicate n Wait, pl_called = []\<rparr>)) = k \<and>
     length (pl_states ((lane ^^ k) \<lparr>pl_next = 0, pl_running = [], pl_states = replicate n Wait, pl_called = []\<rparr>)) = n"
proof (induction k)
  case (Suc k)
  then show ?case by (simp add: lanes_lane lane_running) (simp add: lane_def)
qed (simp add: lanes_inv_def)

lemma pool_start: "pool_inv (guestBulkRun n)" "length (pl_states (guestBulkRun n)) = n"
  using lanes_start [of "min GUEST_BULK_PARALLEL n" n] by (auto simp: pool_inv_def guestBulkRun_def)

text \<open>What is left to do: the items awaited and those no lane took yet. An answer takes one away.\<close>

definition left_over :: "pool \<Rightarrow> nat" where
  "left_over s = length (pl_running s) + (length (pl_states s) - pl_next s)"

lemma left_start: "left_over (guestBulkRun n) = n"
  using lanes_start [of "min GUEST_BULK_PARALLEL n" n] by (auto simp: left_over_def guestBulkRun_def)

lemma bulk_step:
  assumes inv: "pool_inv s" and step: "bulk_exec s e = Some s'"
  shows "pool_inv s' \<and> left_over s = Suc (left_over s') \<and> length (pl_states s') = length (pl_states s)"
proof -
  obtain i r where e: "e = (i, r)" by (cases e)
  with step have i: "i \<in> set (pl_running s)" and r: "r \<noteq> Wait" "r \<noteq> Busy" and s': "s' = settled i r s"
    by (auto simp: bulk_exec_def split: if_splits)
  let ?s = "s\<lparr>pl_running := remove1 i (pl_running s), pl_states := (pl_states s)[i := r]\<rparr>"
  from inv have l: "lanes_inv s" by (simp add: pool_inv_def)
  from lanes_lane [OF lanes_settle [OF l i r]] have l': "lanes_inv s'" by (simp add: s' settled_def)
  from i have pos: "0 < length (pl_running s)" by auto
  have run: "length (pl_running s') = length (pl_running s) - 1 + (if pl_next s < length (pl_states s) then 1 else 0)"
    using i by (simp add: s' settled_def lane_running length_remove1)
  have nx: "pl_next s' = pl_next s + (if pl_next s < length (pl_states s) then 1 else 0)" "length (pl_states s') = length (pl_states s)"
    by (simp_all add: s' settled_def lane_def)
  from inv l' run nx pos show ?thesis by (auto simp: pool_inv_def left_over_def split: if_splits)
qed

interpretation bulk: step_machine "\<lambda>s e s'. bulk_exec s e = Some s'" "\<lambda>s. \<exists>n. s = guestBulkRun n" pool_inv
  by unfold_locales (auto simp: pool_start dest: bulk_step)

lemma bulk_left: "steps (\<lambda>s e s'. bulk_exec s e = Some s') s es s' \<Longrightarrow> pool_inv s \<Longrightarrow>
    left_over s = length es + left_over s' \<and> length (pl_states s') = length (pl_states s)"
proof (induction rule: steps.induct)
  case (steps_cons s e s' es s'')
  with bulk_step [OF steps_cons.prems steps_cons.hyps(1)] show ?case by auto
qed simp

section \<open>Properties\<close>

text \<open>At any moment at most four requests of a bulk action are under way, the workers were called for the items from the
  first on, each once, and an item shows as busy exactly while its worker is awaited.\<close>

theorem bulk_four_at_a_time:
  assumes "steps (\<lambda>s e s'. bulk_exec s e = Some s') (guestBulkRun n) es s"
  shows "length (pl_running s) \<le> 4 \<and> pl_called s = [0..<pl_next s] \<and> pl_next s \<le> n \<and>
         (\<forall>i < n. (pl_states s ! i = Busy \<longleftrightarrow> i \<in> set (pl_running s)) \<and> (pl_states s ! i = Wait \<longleftrightarrow> pl_next s \<le> i))"
  using bulk.inv_run [OF exI [of _ n, OF refl] assms] bulk_left [OF assms pool_start(1)]
  by (simp add: pool_inv_def lanes_inv_def GUEST_BULK_PARALLEL_def pool_start)

definition demo_bulk :: "(nat \<times> bulk_state) list" where
  "demo_bulk = [(2, Started), (0, Failed ''no''), (4, Started), (3, Started), (5, Done), (1, Started)]"

lemma bulk_run: "run_exec bulk_exec s es = Some s' \<Longrightarrow> steps (\<lambda>s e s'. bulk_exec s e = Some s') s es s'"
  by (rule steps_run_exec) simp_all

theorem bulk_four_at_a_time_witness:
  "run_ends bulk_exec (guestBulkRun 7) (take 2 demo_bulk) (\<lambda>s. pl_running s = [1, 3, 4, 5] \<and> pl_called s = [0..<6] \<and> pl_states s ! 6 = Wait)"
proof -
  have "run_ends bulk_exec (guestBulkRun 7) (take 2 demo_bulk) (\<lambda>s. pl_running s = [1, 3, 4, 5] \<and> pl_next s = 6)" by code_simp
  then obtain s where s: "run_exec bulk_exec (guestBulkRun 7) (take 2 demo_bulk) = Some s" "pl_running s = [1, 3, 4, 5]" "pl_next s = 6"
    unfolding run_ends_iff by (elim exE conjE)
  have "pl_called s = [0..<6]" "pl_states s ! 6 = Wait"
    using bulk_four_at_a_time [OF bulk_run [OF s(1)]] s(3) by auto
  with s(1,2) show ?thesis unfolding run_ends_iff by (intro exI [of _ s] conjI)
qed

text \<open>C35. A bulk action on \<open>n\<close> guests ends: a run has at most \<open>n\<close> answers, as long as it has fewer some answer is still awaited,
  and after \<open>n\<close> of them nothing is awaited and every guest has its result.\<close>

theorem bulk_ends:
  assumes "steps (\<lambda>s e s'. bulk_exec s e = Some s') (guestBulkRun n) es s"
  shows "length es \<le> n \<and> (length es < n \<longrightarrow> (\<forall>r. r \<notin> {Wait, Busy} \<longrightarrow> (\<exists>i s'. bulk_exec s (i, r) = Some s'))) \<and>
         (length es = n \<longrightarrow> pl_running s = [] \<and> set (pl_states s) \<inter> {Wait, Busy} = {})"
proof -
  from bulk_left [OF assms pool_start(1)] have l: "length es + left_over s = n" and n: "length (pl_states s) = n"
    by (simp_all add: left_start pool_start)
  from bulk.inv_run [OF exI [of _ n, OF refl] assms] have inv: "pool_inv s" .
  have go: "pl_running s \<noteq> []" if "0 < left_over s"
    using that inv by (cases "pl_next s < length (pl_states s)") (auto simp: left_over_def pool_inv_def GUEST_BULK_PARALLEL_def)
  have done': "pl_running s = [] \<and> set (pl_states s) \<inter> {Wait, Busy} = {}" if "left_over s = 0"
    using that inv by (auto simp: left_over_def pool_inv_def lanes_inv_def in_set_conv_nth)
  show ?thesis
  proof (intro conjI impI allI)
    fix r assume "length es < n" "r \<notin> {Wait, Busy}"
    with l go obtain i where "i \<in> set (pl_running s)" by (cases "pl_running s") auto
    with \<open>r \<notin> {Wait, Busy}\<close> show "\<exists>i s'. bulk_exec s (i, r) = Some s'" by (intro exI [of _ i]) (simp add: bulk_exec_def)
  qed (use l done' in auto)
qed

theorem bulk_ends_witness:
  "run_ends bulk_exec (guestBulkRun 6) demo_bulk (\<lambda>s. pl_running s = [] \<and> set (pl_states s) \<inter> {Wait, Busy} = {})"
proof -
  have "run_ends bulk_exec (guestBulkRun 6) demo_bulk (\<lambda>s. True)" "length demo_bulk = 6" by code_simp+
  then obtain s where s: "run_exec bulk_exec (guestBulkRun 6) demo_bulk = Some s" unfolding run_ends_iff by (elim exE conjE)
  from bulk_ends [OF bulk_run [OF s]] \<open>length demo_bulk = 6\<close> s show ?thesis unfolding run_ends_iff by (intro exI [of _ s] conjI) simp_all
qed

lemma find_index_ex: "x \<in> set xs \<Longrightarrow> p x \<Longrightarrow> \<exists>i. find_index p xs = Some i"
  by (induction xs) auto

lemma added_tag:
  assumes "x \<in> set w" and "\<not> list_ex (\<lambda>h. same_tag h x) have'"
  shows "\<exists>y \<in> set (next_tags True have' w). same_tag y x"
proof -
  obtain i where i: "find_index (\<lambda>y. same_tag y x) w = Some i"
    using find_index_ex [OF assms(1), of "\<lambda>y. same_tag y x"] by (auto simp: same_tag_def)
  from find_index_Some [OF i] have w: "i < length w" "same_tag (w ! i) x" by auto
  then have "find_index (\<lambda>y. same_tag y (w ! i)) w = Some i" using i by (simp add: same_tag_def)
  moreover have "\<not> list_ex (\<lambda>h. same_tag h (w ! i)) have'" using assms(2) w(2) by (simp add: same_tag_def)
  moreover have "(i, w ! i) \<in> set (enumerate 0 w)" using w(1) by (simp add: in_set_enumerate_eq)
  ultimately have "w ! i \<in> set (next_tags True have' w)" by (force simp: next_tags_def)
  with w(2) show ?thesis by blast
qed

lemma next_tags_has: "x \<in> set w \<Longrightarrow> list_ex (\<lambda>h. same_tag h x) (next_tags True have' w)"
  using added_tag [of x w have'] by (cases "list_ex (\<lambda>h. same_tag h x) have'") (auto simp: list_ex_iff next_tags_def)

text \<open>Adding tags keeps those a guest has, in their order, and leaves each wanted one on it whatever its case; removing leaves none
  of them; and doing the same again changes nothing, so that no request is sent for that guest.\<close>

theorem bulk_tags_settle:
  "(\<forall>x \<in> set w. \<exists>y \<in> set (next_tags True h w). same_tag y x) \<and> prefix h (next_tags True h w) \<and>
   (\<forall>y \<in> set (next_tags False h w). \<forall>x \<in> set w. \<not> same_tag y x) \<and>
   next_tags a (next_tags a h w) w = next_tags a h w"
proof (intro conjI)
  show "\<forall>x \<in> set w. \<exists>y \<in> set (next_tags True h w). same_tag y x" using next_tags_has [of _ w h] by (auto simp: list_ex_iff)
  show "prefix h (next_tags True h w)" by (simp add: next_tags_def)
  show "\<forall>y \<in> set (next_tags False h w). \<forall>x \<in> set w. \<not> same_tag y x" by (auto simp: next_tags_def list_ex_iff)
  have "filter (\<lambda>(i, x). \<not> list_ex (\<lambda>t. same_tag t x) (next_tags True h w) \<and> find_index (\<lambda>y. same_tag y x) w = Some i) (enumerate 0 w) = []"
    by (auto simp: filter_empty_conv in_set_enumerate_eq next_tags_has)
  then show "next_tags a (next_tags a h w) w = next_tags a h w"
    by (cases a) (simp_all add: next_tags_def [of True "next_tags True h w"], simp add: next_tags_def)
qed

theorem bulk_tags_settle_witness:
  "next_tags True [''Prod''] [''prod'', ''Web'', ''web''] = [''Prod'', ''Web''] \<and> next_tags True [''Prod'', ''Web''] [''prod'', ''Web'', ''web''] = [''Prod'', ''Web'']"
proof -
  have "next_tags True [''Prod''] [''prod'', ''Web'', ''web''] = [''Prod'', ''Web'']" by code_simp
  with bulk_tags_settle [of "[''prod'', ''Web'', ''web'']" "[''Prod'']" True] show ?thesis by simp
qed

end
