(* ===== verification/Migration_Check.thy ===== *)
theory Migration_Check
  imports Guest_Bulk
begin

text \<open>
  The check before a migration (\<open>useMigPreflight\<close> and \<open>migPfPlan\<close> in web/src/vm_modals.js), which the dialogs for many guests and for
  another cluster share: the result of the server with the options it was made for, the blocks ticked to be overridden and their
  confirmation. \<open>preflight_client\<close> is the contract of a dialog that uses it: its events reach the boxes as the hook
  says, and what it sends overrides what the plan of the hook lets it. Proved once for all clients: nothing is
  overridden without consent.
\<close>

section \<open>The check\<close>

record checked_guest =
  cg_vmid :: int
  cg_verdict :: string
  cg_overridable :: bool

record pf_plan =
  pp_moving :: "int list"
  pp_overridden :: "int list"
  pp_needs_confirm :: bool

definition may_override :: "checked_guest \<Rightarrow> bool" where
  "may_override g \<longleftrightarrow> cg_verdict g = ''blocked'' \<and> cg_overridable g"

definition migPfPlan :: "checked_guest list \<Rightarrow> int list \<Rightarrow> bool \<Rightarrow> pf_plan" where
  "migPfPlan rows ticks confirmed =
     (let over = map cg_vmid (filter (\<lambda>g. may_override g \<and> cg_vmid g \<in> set ticks) rows)
      in \<lparr>pp_moving = map cg_vmid (filter (\<lambda>g. cg_verdict g \<noteq> ''blocked'' \<or> (confirmed \<and> cg_vmid g \<in> set over)) rows),
          pp_overridden = (if confirmed then over else []), pp_needs_confirm = (over \<noteq> [] \<and> \<not> confirmed)\<rparr>)"

text \<open>\<open>'k\<close> are the options a check is made with, which \<open>JSON.stringify\<close> turns into the key of its result.\<close>

record 'k preflight =
  pf_result :: "('k \<times> checked_guest list) option"
  pf_busy :: bool
  pf_error :: string
  pf_ticks :: "int list"
  pf_confirmed :: bool

definition preflight_new :: "'k preflight" where
  "preflight_new = \<lparr>pf_result = None, pf_busy = False, pf_error = [], pf_ticks = [], pf_confirmed = False\<rparr>"

definition pf_current :: "'k \<Rightarrow> 'k preflight \<Rightarrow> checked_guest list option" where
  "pf_current k p = (case pf_result p of None \<Rightarrow> None | Some (k', rows) \<Rightarrow> if k' = k then Some rows else None)"

definition pf_the_plan :: "'k \<Rightarrow> 'k preflight \<Rightarrow> pf_plan option" where
  "pf_the_plan k p = map_option (\<lambda>rows. migPfPlan rows (pf_ticks p) (pf_confirmed p)) (pf_current k p)"

definition pf_run :: "'k preflight \<Rightarrow> 'k preflight" where
  "pf_run p = p\<lparr>pf_busy := True, pf_error := []\<rparr>"

text \<open>What the check of the server comes to: its rows or the words of a failure.\<close>

datatype check_result = Checked "checked_guest list" | Fault string

definition pf_answer :: "'k \<Rightarrow> check_result \<Rightarrow> 'k preflight \<Rightarrow> 'k preflight" where
  "pf_answer k a p =
     (case a of
        Checked rows \<Rightarrow> p\<lparr>pf_busy := False, pf_result := Some (k, rows), pf_ticks := [], pf_confirmed := False\<rparr>
      | Fault m \<Rightarrow> p\<lparr>pf_busy := False, pf_error := m\<rparr>)"

definition pf_tick :: "int \<Rightarrow> bool \<Rightarrow> 'k preflight \<Rightarrow> 'k preflight" where
  "pf_tick v on p =
     p\<lparr>pf_ticks := (if on then if v \<in> set (pf_ticks p) then pf_ticks p else pf_ticks p @ [v] else removeAll v (pf_ticks p)),
       pf_confirmed := False\<rparr>"

definition pf_confirm :: "bool \<Rightarrow> 'k preflight \<Rightarrow> 'k preflight" where
  "pf_confirm b p = p\<lparr>pf_confirmed := b\<rparr>"

section \<open>What a run has seen\<close>

text \<open>What an event of a dialog is to the hook.\<close>

datatype check_event = No_Box | Answered check_result | Ticked int bool | Confirmed bool

text \<open>\<open>v\<close> is ticked by these events; the confirmation came after all ticks; no check was answered with a result.\<close>

definition ticked :: "check_event list \<Rightarrow> int \<Rightarrow> bool" where
  "ticked es v \<longleftrightarrow> (\<exists>as bs. es = as @ Ticked v True # bs \<and> Ticked v False \<notin> set bs)"

definition not_a_box :: "check_event \<Rightarrow> bool" where
  "not_a_box e \<longleftrightarrow> (case e of Ticked v on \<Rightarrow> False | Confirmed b \<Rightarrow> False | _ \<Rightarrow> True)"

definition confirmed_last :: "check_event list \<Rightarrow> bool" where
  "confirmed_last es \<longleftrightarrow> (\<exists>as bs. es = as @ Confirmed True # bs \<and> list_all not_a_box bs)"

definition no_result :: "check_event list \<Rightarrow> bool" where
  "no_result es \<longleftrightarrow> list_all (\<lambda>e. case e of Answered (Checked rows) \<Rightarrow> False | _ \<Rightarrow> True) es"

text \<open>A dialog: its steps, the options of the check on its way, its events as the hook sees them, the click that sends, and of a
  request the blocks it overrides and whether it fits the options of a check.\<close>

record ('s, 'e, 'k, 'r) check_client =
  cc_exec :: "'s \<Rightarrow> 'e \<Rightarrow> 's option"
  cc_new :: 's
  cc_asked :: "'s \<Rightarrow> 'k option"
  cc_box :: "'e \<Rightarrow> check_event"
  cc_starts :: "'e \<Rightarrow> bool"
  cc_over :: "'r \<Rightarrow> int list"
  cc_fits :: "'k \<Rightarrow> 'r \<Rightarrow> bool"

text \<open>The last check with a result was made with the options \<open>k\<close>; it came to \<open>rows\<close>; \<open>mid\<close> has happened since.\<close>

definition last_check :: "('s, 'e, 'k, 'r) check_client \<Rightarrow> 'e list \<Rightarrow> 'k \<Rightarrow> checked_guest list \<Rightarrow> check_event list \<Rightarrow> bool" where
  "last_check c es k rows mid \<longleftrightarrow>
     (\<exists>pre e post s. es = pre @ e # post \<and> cc_box c e = Answered (Checked rows) \<and> mid = map (cc_box c) post \<and> no_result mid \<and>
        run_exec (cc_exec c) (cc_new c) pre = Some s \<and> cc_asked c s = Some k)"

definition consented :: "('s, 'e, 'k, 'r) check_client \<Rightarrow> 'e list \<Rightarrow> 'r \<Rightarrow> bool" where
  "consented c es r \<longleftrightarrow>
     (\<exists>es1 e post k rows mid. es = es1 @ e # post \<and> cc_starts c e \<and> last_check c es1 k rows mid \<and> cc_fits c k r \<and> confirmed_last mid \<and>
        (\<forall>v \<in> set (cc_over c r). ticked mid v \<and> (\<exists>g \<in> set rows. may_override g \<and> cg_vmid g = v)))"

lemma ticked_now: "ticked (es @ [Ticked v True]) v"
  unfolding ticked_def by (intro exI [of _ es] exI [of _ "[]"]) simp

lemma ticked_more:
  assumes "ticked es v" and "e \<noteq> Ticked v False"
  shows "ticked (es @ [e]) v"
proof -
  obtain as bs where "es = as @ Ticked v True # bs" "Ticked v False \<notin> set bs" using assms(1) unfolding ticked_def by blast
  with assms(2) have "es @ [e] = as @ Ticked v True # (bs @ [e]) \<and> Ticked v False \<notin> set (bs @ [e])" by simp
  then show ?thesis unfolding ticked_def by blast
qed

lemma confirmed_now: "confirmed_last (es @ [Confirmed True])"
  unfolding confirmed_last_def by (intro exI [of _ es] exI [of _ "[]"]) simp

lemma confirmed_more:
  assumes "confirmed_last es" and "not_a_box e"
  shows "confirmed_last (es @ [e])"
proof -
  obtain as bs where "es = as @ Confirmed True # bs" "list_all not_a_box bs" using assms(1) unfolding confirmed_last_def by blast
  with assms(2) have "es @ [e] = as @ Confirmed True # (bs @ [e]) \<and> list_all not_a_box (bs @ [e])" by simp
  then show ?thesis unfolding confirmed_last_def by blast
qed

lemma last_check_now:
  assumes "run_exec (cc_exec c) (cc_new c) es = Some s" and "cc_asked c s = Some k" and "cc_box c e = Answered (Checked rows)"
  shows "last_check c (es @ [e]) k rows []"
  using assms unfolding last_check_def no_result_def by (intro exI [of _ es] exI [of _ e] exI [of _ "[]"] exI [of _ s]) simp

lemma last_check_more:
  assumes "last_check c es k rows mid" and "no_result [cc_box c e]"
  shows "last_check c (es @ [e]) k rows (mid @ [cc_box c e])"
proof -
  obtain pre a post s where "es = pre @ a # post" "cc_box c a = Answered (Checked rows)" "mid = map (cc_box c) post" "no_result mid"
    "run_exec (cc_exec c) (cc_new c) pre = Some s" "cc_asked c s = Some k" using assms(1) unfolding last_check_def by blast
  with assms(2) show ?thesis unfolding last_check_def no_result_def
    by (intro exI [of _ pre] exI [of _ a] exI [of _ "post @ [e]"] exI [of _ s]) simp
qed

lemma consented_more: "consented c es r \<Longrightarrow> consented c (es @ [e]) r"
  unfolding consented_def by (metis append_Cons append_assoc)

text \<open>The states of the boxes are what the events since the last check made them.\<close>

definition boxes_seen :: "('s, 'e, 'k, 'r) check_client \<Rightarrow> 'e list \<Rightarrow> 'k preflight \<Rightarrow> bool" where
  "boxes_seen c es p \<longleftrightarrow>
     (case pf_result p of None \<Rightarrow> pf_ticks p = []
      | Some (k, rows) \<Rightarrow>
          \<exists>mid. last_check c es k rows mid \<and> (\<forall>v \<in> set (pf_ticks p). ticked mid v) \<and> (pf_confirmed p \<longrightarrow> confirmed_last mid))"

lemma boxes_seenI:
  assumes "pf_result p = Some (k, rows)" and "last_check c es k rows mid"
    and "\<And>v. v \<in> set (pf_ticks p) \<Longrightarrow> ticked mid v" and "pf_confirmed p \<Longrightarrow> confirmed_last mid"
  shows "boxes_seen c es p"
  unfolding boxes_seen_def assms(1) option.case prod.case using assms(2-4) by blast

lemma boxes_seenE:
  assumes "boxes_seen c es p" and "pf_result p = Some (k, rows)"
  obtains mid where "last_check c es k rows mid" "\<forall>v \<in> set (pf_ticks p). ticked mid v" "pf_confirmed p \<longrightarrow> confirmed_last mid"
  using assms(1) unfolding boxes_seen_def assms(2) option.case prod.case by blast

lemma boxes_keep:
  assumes "boxes_seen c es p" and "no_result [cc_box c e]" and "not_a_box (cc_box c e)"
    and "pf_result p' = pf_result p" "pf_ticks p' = pf_ticks p" "pf_confirmed p' = pf_confirmed p"
  shows "boxes_seen c (es @ [e]) p'"
proof (cases "pf_result p")
  case None
  with assms show ?thesis by (simp add: boxes_seen_def)
next
  case (Some kr)
  obtain k rows where kr: "pf_result p = Some (k, rows)" using Some by (cases kr) simp
  obtain mid where m: "last_check c es k rows mid" "\<forall>v \<in> set (pf_ticks p). ticked mid v" "pf_confirmed p \<longrightarrow> confirmed_last mid"
    by (rule boxes_seenE [OF assms(1) kr])
  show ?thesis
  proof (rule boxes_seenI [OF _ last_check_more [OF m(1) assms(2)]])
    show "ticked (mid @ [cc_box c e]) v" if "v \<in> set (pf_ticks p')" for v
    proof -
      have "cc_box c e \<noteq> Ticked v False" using assms(3) by (auto simp: not_a_box_def)
      with that m(2) assms(5) show ?thesis using ticked_more by auto
    qed
  qed (use kr m(3) assms(3-6) confirmed_more in auto)
qed

lemma boxes_tick:
  assumes "boxes_seen c es p" and "pf_result p = Some (k, rows)" and "cc_box c e = Ticked v on"
  shows "boxes_seen c (es @ [e]) (pf_tick v on p)"
proof -
  obtain mid where m: "last_check c es k rows mid" "\<forall>v \<in> set (pf_ticks p). ticked mid v"
    by (rule boxes_seenE [OF assms(1,2)])
  have "no_result [cc_box c e]" by (simp add: no_result_def assms(3))
  from last_check_more [OF m(1) this] show ?thesis
  proof (rule boxes_seenI [rotated])
    show "ticked (mid @ [cc_box c e]) w" if "w \<in> set (pf_ticks (pf_tick v on p))" for w
      using that m(2) ticked_now [of mid v] ticked_more [of mid w "Ticked v on"]
      by (cases on) (auto simp: pf_tick_def assms(3) split: if_splits)
  qed (simp_all add: pf_tick_def assms)
qed

lemma boxes_confirm:
  assumes "boxes_seen c es p" and "pf_ticks p \<noteq> []" and "cc_box c e = Confirmed b"
  shows "boxes_seen c (es @ [e]) (pf_confirm b p)"
proof -
  obtain k rows where kr: "pf_result p = Some (k, rows)" using assms by (auto simp: boxes_seen_def split: option.splits)
  obtain mid where m: "last_check c es k rows mid" "\<forall>v \<in> set (pf_ticks p). ticked mid v"
    by (rule boxes_seenE [OF assms(1) kr])
  have "no_result [cc_box c e]" by (simp add: no_result_def assms(3))
  from last_check_more [OF m(1) this] show ?thesis
  proof (rule boxes_seenI [rotated])
    show "ticked (mid @ [cc_box c e]) w" if "w \<in> set (pf_ticks (pf_confirm b p))" for w
      using that m(2) ticked_more [of mid w "Confirmed b"] by (simp add: pf_confirm_def assms(3))
  qed (simp_all add: pf_confirm_def kr confirmed_now assms(3))
qed

lemma boxes_answer:
  assumes "boxes_seen c es p" and "run_exec (cc_exec c) (cc_new c) es = Some s" and "cc_asked c s = Some k" and "cc_box c e = Answered a"
  shows "boxes_seen c (es @ [e]) (pf_answer k a p)"
proof (cases a)
  case (Checked rows)
  have "cc_box c e = Answered (Checked rows)" by (simp add: Checked assms(4))
  from last_check_now [OF assms(2,3) this] show ?thesis by (rule boxes_seenI [rotated]) (simp_all add: pf_answer_def Checked)
next
  case (Fault m)
  show ?thesis by (rule boxes_keep [OF assms(1)]) (simp_all add: assms(4) Fault no_result_def not_a_box_def pf_answer_def)
qed

section \<open>The contract of a dialog\<close>

text \<open>What an event does to the boxes.\<close>

definition box_step :: "check_event \<Rightarrow> 'k option \<Rightarrow> 'k preflight \<Rightarrow> 'k preflight \<Rightarrow> bool" where
  "box_step b asked p p' \<longleftrightarrow>
     (case b of
        No_Box \<Rightarrow> pf_result p' = pf_result p \<and> pf_ticks p' = pf_ticks p \<and> pf_confirmed p' = pf_confirmed p
      | Answered a \<Rightarrow> (\<exists>k. asked = Some k \<and> p' = pf_answer k a p)
      | Ticked v on \<Rightarrow> pf_result p \<noteq> None \<and> p' = pf_tick v on p
      | Confirmed y \<Rightarrow> pf_ticks p \<noteq> [] \<and> p' = pf_confirm y p)"

definition overrides_planned :: "'k preflight \<Rightarrow> ('k \<Rightarrow> bool) \<Rightarrow> int list \<Rightarrow> bool" where
  "overrides_planned p fits over \<longleftrightarrow>
     over = [] \<or> (\<exists>k rows. pf_result p = Some (k, rows) \<and> fits k \<and> over = pp_overridden (migPfPlan rows (pf_ticks p) (pf_confirmed p)))"

locale preflight_client =
  fixes c :: "('s, 'e, 'k, 'r) check_client"
    and pf :: "'s \<Rightarrow> 'k preflight"
    and sent :: "'s \<Rightarrow> 'r list"
  assumes boxes_new: "pf_result (pf (cc_new c)) = None \<and> pf_ticks (pf (cc_new c)) = [] \<and> sent (cc_new c) = []"
    and boxes_step: "cc_exec c s e = Some s' \<Longrightarrow> box_step (cc_box c e) (cc_asked c s) (pf s) (pf s')"
    and sent_step: "cc_exec c s e = Some s' \<Longrightarrow> sent s' = sent s \<or>
      (cc_starts c e \<and> (\<exists>r. sent s' = sent s @ [r] \<and> overrides_planned (pf s) (\<lambda>k. cc_fits c k r) (cc_over c r)))"
begin

definition seen_inv :: "'e list \<Rightarrow> 's \<Rightarrow> bool" where
  "seen_inv es s \<longleftrightarrow> boxes_seen c es (pf s) \<and> (\<forall>r \<in> set (sent s). cc_over c r \<noteq> [] \<longrightarrow> consented c es r)"

lemma boxes_seen_step:
  assumes "run_exec (cc_exec c) (cc_new c) es = Some s" and "boxes_seen c es (pf s)" and "cc_exec c s e = Some s'"
  shows "boxes_seen c (es @ [e]) (pf s')"
proof (cases "cc_box c e")
  case No_Box
  show ?thesis
    by (rule boxes_keep [OF assms(2)]; insert boxes_step [OF assms(3)]; simp add: No_Box box_step_def no_result_def not_a_box_def)
next
  case (Answered a)
  obtain k where k: "cc_asked c s = Some k" "pf s' = pf_answer k a (pf s)"
    using boxes_step [OF assms(3)] by (auto simp: Answered box_step_def)
  show ?thesis unfolding k(2) by (rule boxes_answer [OF assms(2,1) k(1) Answered])
next
  case (Ticked v on)
  obtain k rows where k: "pf_result (pf s) = Some (k, rows)" "pf s' = pf_tick v on (pf s)"
    using boxes_step [OF assms(3)] by (auto simp: Ticked box_step_def)
  show ?thesis unfolding k(2) by (rule boxes_tick [OF assms(2) k(1) Ticked])
next
  case (Confirmed b)
  then have "pf_ticks (pf s) \<noteq> []" "pf s' = pf_confirm b (pf s)" using boxes_step [OF assms(3)] by (auto simp: box_step_def)
  then show ?thesis using boxes_confirm [OF assms(2) _ Confirmed] by simp
qed

lemma planned_consented:
  assumes "boxes_seen c es (pf s)" and "cc_starts c e" and "cc_over c r \<noteq> []" and "overrides_planned (pf s) (\<lambda>k. cc_fits c k r) (cc_over c r)"
  shows "consented c (es @ [e]) r"
proof -
  let ?p = "pf s"
  obtain k rows where k: "pf_result ?p = Some (k, rows)" "cc_fits c k r"
    and over: "cc_over c r = (if pf_confirmed ?p then map cg_vmid (filter (\<lambda>g. may_override g \<and> cg_vmid g \<in> set (pf_ticks ?p)) rows) else [])"
    using assms(3,4) by (auto simp: overrides_planned_def migPfPlan_def Let_def)
  obtain mid where m: "last_check c es k rows mid" "\<forall>v \<in> set (pf_ticks ?p). ticked mid v" "pf_confirmed ?p \<longrightarrow> confirmed_last mid"
    by (rule boxes_seenE [OF assms(1) k(1)])
  have "pf_confirmed ?p" using assms(3) over by (auto split: if_splits)
  moreover have "ticked mid v \<and> (\<exists>g \<in> set rows. may_override g \<and> cg_vmid g = v)" if "v \<in> set (cc_over c r)" for v
    using that m(2) over by (auto split: if_splits)
  ultimately show ?thesis unfolding consented_def using m(1,3) k(2) assms(2) by blast
qed

lemma seen_inv_step:
  assumes "run_exec (cc_exec c) (cc_new c) es = Some s" and "seen_inv es s" and "cc_exec c s e = Some s'"
  shows "seen_inv (es @ [e]) s'"
proof -
  have b: "boxes_seen c es (pf s)" and r: "\<forall>r \<in> set (sent s). cc_over c r \<noteq> [] \<longrightarrow> consented c es r"
    using assms(2) by (simp_all add: seen_inv_def)
  have "\<forall>r \<in> set (sent s'). cc_over c r \<noteq> [] \<longrightarrow> consented c (es @ [e]) r"
    using sent_step [OF assms(3)]
  proof (elim disjE conjE exE)
    assume "sent s' = sent s"
    with r show ?thesis by (auto intro: consented_more)
  next
    fix q assume q: "cc_starts c e" "sent s' = sent s @ [q]" "overrides_planned (pf s) (\<lambda>k. cc_fits c k q) (cc_over c q)"
    with r show ?thesis using planned_consented [OF b q(1) _ q(3)] by (auto intro: consented_more)
  qed
  with boxes_seen_step [OF assms(1) b assms(3)] show ?thesis by (simp add: seen_inv_def)
qed

end

sublocale preflight_client \<subseteq> trace_machine "cc_exec c" "cc_new c" seen_inv
proof
  show "seen_inv [] (cc_new c)" using boxes_new by (simp add: seen_inv_def boxes_seen_def)
qed (rule seen_inv_step)

context preflight_client
begin

lemma consent:
  assumes "run_exec (cc_exec c) (cc_new c) es = Some s" and "r \<in> set (sent s)" and "cc_over c r \<noteq> []"
  shows "consented c es r"
  using trace_run [OF assms(1)] assms(2,3) by (simp add: seen_inv_def)

end

end
