(* ===== verification/Bulk_Migration.thy ===== *)
theory Bulk_Migration
  imports Migration_Check
begin

text \<open>
  The dialog that moves many guests to another node (\<open>BulkMigrateModal\<close> and \<open>MigRunPlan\<close> in web/src/vm_modals.js,
  \<open>handleBulkMigrate\<close> in web/src/dashboard.js): the options, the check for them, and the request that starts the run; and
  the dialog for all guests of a node (\<open>NodeGuestsModal\<close>). \<open>mig_dialog\<close> holds the states of the dialog and of the hook,
  and the requests on the wire. A click works on what is shown: the states of the last event.
\<close>

section \<open>How the guests move\<close>

datatype run_mode = Sequential | Parallel | All_At_Once

record run_how =
  rh_mode :: run_mode
  rh_parallel :: int

definition MIG_RUN_PARALLEL_MAX :: int where
  "MIG_RUN_PARALLEL_MAX = 5"

definition migRunDefaultPlan :: "nat \<Rightarrow> run_how" where
  "migRunDefaultPlan n = \<lparr>rh_mode = (if 3 < n then Sequential else All_At_Once), rh_parallel = 2\<rparr>"

text \<open>The number typed: \<open>parseInt(...) || 2\<close>, from 2 to the largest.\<close>

definition parallel_input :: "string \<Rightarrow> int" where
  "parallel_input s = max 2 (min MIG_RUN_PARALLEL_MAX (case parse_int10 s of None \<Rightarrow> 2 | Some i \<Rightarrow> if i = 0 then 2 else i))"

text \<open>The options a check is made with.\<close>

type_synonym check_key = "string \<times> bool \<times> bool \<times> run_mode \<times> int"

section \<open>The dialog\<close>

record moved_guest =
  mv_vmid :: int
  mv_node :: string
  mv_type :: string

record mig_request =
  mq_cluster :: string
  mq_vms :: "moved_guest list"
  mq_target :: string
  mq_online :: bool
  mq_disks :: bool
  mq_mode :: run_mode
  mq_parallel :: "int option"
  mq_override :: "int list"
  mq_confirm :: bool

record mig_dialog =
  md_vms :: "moved_guest list"
  md_nodes :: "string list"
  md_cluster :: string
  md_read_only :: bool
  md_target :: string
  md_online :: bool
  md_disks :: bool
  md_plan :: run_how
  md_busy :: bool
  md_error :: string
  md_pf :: "check_key preflight"
  md_checking :: "check_key option"
  md_sent :: "mig_request list"
  md_open :: bool

definition bulk_migrate_new :: "moved_guest list \<Rightarrow> string list \<Rightarrow> string \<Rightarrow> bool \<Rightarrow> mig_dialog" where
  "bulk_migrate_new vms nodes c ro =
     \<lparr>md_vms = vms, md_nodes = nodes, md_cluster = c, md_read_only = ro, md_target = [], md_online = True, md_disks = False,
      md_plan = migRunDefaultPlan (length vms), md_busy = False, md_error = [], md_pf = preflight_new, md_checking = None,
      md_sent = [], md_open = True\<rparr>"

definition availableNodes :: "mig_dialog \<Rightarrow> string list" where
  "availableNodes d =
     (let current = remdups (map mv_node (md_vms d))
      in filter (\<lambda>n. n \<notin> set current \<or> 1 < length current) (filter (\<lambda>n. n \<noteq> ''error'' \<and> n \<noteq> ''offline'') (md_nodes d)))"

definition dialog_key :: "mig_dialog \<Rightarrow> check_key" where
  "dialog_key d = (md_target d, md_online d, md_disks d, rh_mode (md_plan d), rh_parallel (md_plan d))"

definition dialog_plan :: "mig_dialog \<Rightarrow> pf_plan option" where
  "dialog_plan d = pf_the_plan (dialog_key d) (md_pf d)"

definition sending :: "mig_dialog \<Rightarrow> moved_guest list" where
  "sending d = (case dialog_plan d of None \<Rightarrow> md_vms d | Some p \<Rightarrow> filter (\<lambda>v. mv_vmid v \<in> set (pp_moving p)) (md_vms d))"

definition startBlocked :: "mig_dialog \<Rightarrow> bool" where
  "startBlocked d = (case dialog_plan d of None \<Rightarrow> False | Some p \<Rightarrow> sending d = [] \<or> pp_needs_confirm p)"

definition runCheck :: "mig_dialog \<Rightarrow> mig_dialog" where
  "runCheck d =
     (if md_target d = [] \<or> pf_busy (md_pf d) then d
      else d\<lparr>md_pf := pf_run (md_pf d), md_checking := Some (dialog_key d)\<rparr>)"

text \<open>The body that \<open>handleBulkMigrate\<close> posts.\<close>

definition bulk_migrate_body :: "mig_dialog \<Rightarrow> mig_request" where
  "bulk_migrate_body d =
     (let over = (case dialog_plan d of None \<Rightarrow> [] | Some p \<Rightarrow> pp_overridden p)
      in \<lparr>mq_cluster = md_cluster d, mq_vms = sending d, mq_target = md_target d, mq_online = md_online d, mq_disks = md_disks d,
          mq_mode = rh_mode (md_plan d), mq_parallel = (if rh_mode (md_plan d) = Parallel then Some (rh_parallel (md_plan d)) else None),
          mq_override = over, mq_confirm = (over \<noteq> [])\<rparr>)"

definition bm_handleMigrate :: "mig_dialog \<Rightarrow> mig_dialog" where
  "bm_handleMigrate d =
     (if md_target d = [] \<or> md_busy d \<or> startBlocked d then d
      else d\<lparr>md_busy := True, md_error := [], md_sent := md_sent d @ [bulk_migrate_body d]\<rparr>)"

text \<open>The answer: taken, or refused with words (empty where there are none).\<close>

definition start_answer :: "(string \<Rightarrow> string) \<Rightarrow> string option \<Rightarrow> mig_dialog \<Rightarrow> mig_dialog" where
  "start_answer tr a d =
     (case a of
        None \<Rightarrow> d\<lparr>md_busy := False, md_open := False\<rparr>
      | Some m \<Rightarrow> d\<lparr>md_busy := False, md_error := (if m \<noteq> [] then m else tr ''bulkMigrationFailed'')\<rparr>)"

datatype dialog_event =
    Set_Target string
  | Set_Online bool
  | Set_Disks bool
  | Choose_Mode run_mode
  | Type_Parallel string
  | Check
  | Check_Answer check_result
  | Tick int bool
  | Confirm bool
  | Start
  | Start_Answer "string option"
  | Close_Dialog

text \<open>A box to override is shown for each guest of the result that is blocked and may be overridden; the box to confirm once
  one is ticked. Buttons are there as the dialog disables them.\<close>

definition dialog_exec :: "(string \<Rightarrow> string) \<Rightarrow> mig_dialog \<Rightarrow> dialog_event \<Rightarrow> mig_dialog option" where
  "dialog_exec tr d e =
     (if \<not> md_open d then None
      else case e of
        Set_Target n \<Rightarrow> if n = [] \<or> n \<in> set (availableNodes d) then Some (d\<lparr>md_target := n\<rparr>) else None
      | Set_Online b \<Rightarrow> Some (d\<lparr>md_online := b\<rparr>)
      | Set_Disks b \<Rightarrow> Some (d\<lparr>md_disks := b\<rparr>)
      | Choose_Mode m \<Rightarrow> Some (d\<lparr>md_plan := (md_plan d)\<lparr>rh_mode := m\<rparr>\<rparr>)
      | Type_Parallel s \<Rightarrow> Some (d\<lparr>md_plan := \<lparr>rh_mode = Parallel, rh_parallel = parallel_input s\<rparr>\<rparr>)
      | Check \<Rightarrow> if md_target d = [] \<or> md_busy d \<or> pf_busy (md_pf d) then None else Some (runCheck d)
      | Check_Answer a \<Rightarrow>
          (case md_checking d of None \<Rightarrow> None | Some k \<Rightarrow> Some (d\<lparr>md_pf := pf_answer k a (md_pf d), md_checking := None\<rparr>))
      | Tick v on \<Rightarrow>
          (case pf_result (md_pf d) of None \<Rightarrow> None
           | Some (k, rows) \<Rightarrow>
               if list_ex (\<lambda>g. may_override g \<and> cg_vmid g = v) rows then Some (d\<lparr>md_pf := pf_tick v on (md_pf d)\<rparr>) else None)
      | Confirm b \<Rightarrow> if pf_ticks (md_pf d) = [] then None else Some (d\<lparr>md_pf := pf_confirm b (md_pf d)\<rparr>)
      | Start \<Rightarrow> if md_read_only d \<or> md_target d = [] \<or> md_busy d \<or> startBlocked d then None else Some (bm_handleMigrate d)
      | Start_Answer a \<Rightarrow> if md_busy d then Some (start_answer tr a d) else None
      | Close_Dialog \<Rightarrow> if md_busy d then None else Some (d\<lparr>md_open := False\<rparr>))"

section \<open>Consent\<close>

definition dialog_box :: "dialog_event \<Rightarrow> check_event" where
  "dialog_box e = (case e of Check_Answer a \<Rightarrow> Answered a | Tick v on \<Rightarrow> Ticked v on | Confirm b \<Rightarrow> Confirmed b | _ \<Rightarrow> No_Box)"

definition request_fits :: "check_key \<Rightarrow> mig_request \<Rightarrow> bool" where
  "request_fits k r \<longleftrightarrow>
     (case k of (t, on, disks, m, p) \<Rightarrow>
        mq_target r = t \<and> mq_online r = on \<and> mq_disks r = disks \<and> mq_mode r = m \<and> (case mq_parallel r of None \<Rightarrow> True | Some n \<Rightarrow> n = p))"

definition bulk_client :: "(string \<Rightarrow> string) \<Rightarrow> mig_dialog \<Rightarrow> (mig_dialog, dialog_event, check_key, mig_request) check_client" where
  "bulk_client tr d = \<lparr>cc_exec = dialog_exec tr, cc_new = d, cc_asked = md_checking, cc_box = dialog_box, cc_starts = (\<lambda>e. e = Start),
     cc_over = mq_override, cc_fits = request_fits\<rparr>"

lemma bulk_client_sel [simp]:
  "cc_exec (bulk_client tr d) = dialog_exec tr" "cc_new (bulk_client tr d) = d" "cc_asked (bulk_client tr d) = md_checking"
  "cc_box (bulk_client tr d) = dialog_box" "cc_starts (bulk_client tr d) e \<longleftrightarrow> e = Start" "cc_over (bulk_client tr d) = mq_override"
  "cc_fits (bulk_client tr d) = request_fits"
  by (simp_all add: bulk_client_def)

lemma body_planned: "overrides_planned (md_pf d) (\<lambda>k. request_fits k (bulk_migrate_body d)) (mq_override (bulk_migrate_body d))"
proof (cases "pf_current (dialog_key d) (md_pf d)")
  case None
  then show ?thesis by (simp add: overrides_planned_def bulk_migrate_body_def dialog_plan_def pf_the_plan_def Let_def)
next
  case (Some rows)
  moreover have "request_fits (dialog_key d) (bulk_migrate_body d)" by (simp add: request_fits_def dialog_key_def bulk_migrate_body_def Let_def)
  ultimately show ?thesis
    by (auto simp: overrides_planned_def bulk_migrate_body_def dialog_plan_def pf_the_plan_def pf_current_def Let_def split: option.splits if_splits)
qed

lemma dialog_box_step:
  assumes "dialog_exec tr d e = Some d'"
  shows "box_step (dialog_box e) (md_checking d) (md_pf d) (md_pf d')"
proof -
  have "md_open d" using assms by (auto simp: dialog_exec_def split: if_splits)
  with assms show ?thesis
    by (cases e) (auto simp: dialog_exec_def dialog_box_def box_step_def runCheck_def pf_run_def bm_handleMigrate_def start_answer_def
        split: if_splits option.splits)
qed

lemma dialog_sent_step:
  assumes "dialog_exec tr d e = Some d'"
  shows "md_sent d' = md_sent d \<or> (e = Start \<and> md_sent d' = md_sent d @ [bulk_migrate_body d])"
proof -
  have "md_open d" using assms by (auto simp: dialog_exec_def split: if_splits)
  with assms show ?thesis
    by (cases e) (auto simp: dialog_exec_def runCheck_def bm_handleMigrate_def start_answer_def split: if_splits option.splits)
qed

interpretation bulk_check: preflight_client "bulk_client tr (bulk_migrate_new vms nodes c ro)" md_pf md_sent for tr vms nodes c ro
proof
  fix d e d' assume step: "cc_exec (bulk_client tr (bulk_migrate_new vms nodes c ro)) d e = Some d'"
  then have s: "dialog_exec tr d e = Some d'" by simp
  let ?c = "bulk_client tr (bulk_migrate_new vms nodes c ro)"
  show "box_step (cc_box ?c e) (cc_asked ?c d) (md_pf d) (md_pf d')" using dialog_box_step [OF s] by simp
  show "md_sent d' = md_sent d \<or> (cc_starts ?c e \<and>
      (\<exists>r. md_sent d' = md_sent d @ [r] \<and> overrides_planned (md_pf d) (\<lambda>k. cc_fits ?c k r) (cc_over ?c r)))"
    using dialog_sent_step [OF s] body_planned [of d] by auto
qed (simp add: bulk_migrate_new_def preflight_new_def)

section \<open>What a request looks like\<close>








text \<open>While a check of the options holds, a guest it blocks goes only if its block is overridden.\<close>

lemma blocked_stay:
  assumes "pf_current (dialog_key d) (md_pf d) = Some rows" and "v \<in> set (mq_vms (bulk_migrate_body d))"
  shows "\<exists>g \<in> set rows. cg_vmid g = mv_vmid v \<and> (cg_verdict g \<noteq> ''blocked'' \<or> mv_vmid v \<in> set (mq_override (bulk_migrate_body d)))"
  using assms by (auto simp: bulk_migrate_body_def sending_def dialog_plan_def pf_the_plan_def migPfPlan_def Let_def)

section \<open>All guests of a node\<close>

text \<open>\<open>nd_waiting\<close> are the requests on the wire, \<open>nd_reading\<close> the answers whose body is being read (and whether they were a success).\<close>

datatype node_call = Node_Task string "int list" | Node_Migrate "int list" string bool run_how

record node_dialog =
  nd_action :: string
  nd_cluster :: string
  nd_node :: string
  nd_guests :: "obj list"
  nd_nodes :: "(string \<times> bool) list"
  nd_picked :: "int list"
  nd_target :: string
  nd_how :: run_how
  nd_disks :: bool
  nd_busy :: bool
  nd_error :: string
  nd_result :: "obj option"
  nd_waiting :: "node_call list"
  nd_reading :: "bool list"
  nd_sent :: "node_call list"
  nd_open :: bool

definition vmid_of :: "obj \<Rightarrow> int" where
  "vmid_of g = as_num (prop_of g ''vmid'')"

definition node_fits :: "string \<Rightarrow> obj \<Rightarrow> bool" where
  "node_fits action g \<longleftrightarrow>
     (if action = ''startall'' then \<not> isGuestTemplate g \<and> prop_of g ''status'' \<noteq> Str ''running''
      else if action = ''stopall'' then prop_of g ''status'' = Str ''running'' else True)"

definition eligible :: "string \<Rightarrow> obj list \<Rightarrow> obj list" where
  "eligible action gs = js_sort (\<lambda>a b. vmid_of a - vmid_of b) (filter (node_fits action) gs)"

definition node_targets :: "string \<Rightarrow> (string \<times> bool) list \<Rightarrow> string list" where
  "node_targets node nodes = map fst (filter (\<lambda>(n, online). n \<noteq> node \<and> online) nodes)"

definition node_guests_new :: "string \<Rightarrow> string \<Rightarrow> string \<Rightarrow> obj list \<Rightarrow> (string \<times> bool) list \<Rightarrow> node_dialog" where
  "node_guests_new action c node gs nodes =
     (let el = eligible action gs; ts = node_targets node nodes
      in \<lparr>nd_action = action, nd_cluster = c, nd_node = node, nd_guests = gs, nd_nodes = nodes, nd_picked = map vmid_of el,
          nd_target = (case ts of [] \<Rightarrow> [] | n # _ \<Rightarrow> n), nd_how = migRunDefaultPlan (length el), nd_disks = False, nd_busy = False,
          nd_error = [], nd_result = None, nd_waiting = [], nd_reading = [], nd_sent = [], nd_open = True\<rparr>)"

definition chosen :: "node_dialog \<Rightarrow> int list" where
  "chosen d = map vmid_of (filter (\<lambda>g. vmid_of g \<in> set (nd_picked d)) (eligible (nd_action d) (nd_guests d)))"

definition all_on :: "node_dialog \<Rightarrow> bool" where
  "all_on d \<longleftrightarrow> eligible (nd_action d) (nd_guests d) \<noteq> [] \<and> length (chosen d) = length (eligible (nd_action d) (nd_guests d))"

definition toggle_guest :: "int \<Rightarrow> node_dialog \<Rightarrow> node_dialog" where
  "toggle_guest v d = d\<lparr>nd_picked := (if v \<in> set (nd_picked d) then removeAll v (nd_picked d) else nd_picked d @ [v])\<rparr>"

definition toggle_all :: "node_dialog \<Rightarrow> node_dialog" where
  "toggle_all d = d\<lparr>nd_picked := (if all_on d then [] else map vmid_of (eligible (nd_action d) (nd_guests d)))\<rparr>"

definition node_form_bad :: "node_dialog \<Rightarrow> bool" where
  "node_form_bad d \<longleftrightarrow> nd_busy d \<or> chosen d = [] \<or> (nd_action d = ''migrateall'' \<and> nd_target d = [])"

definition node_request :: "string \<Rightarrow> node_dialog \<Rightarrow> node_call" where
  "node_request api d =
     (if nd_action d = ''migrateall'' then Node_Migrate (chosen d) (nd_target d) (nd_disks d) (nd_how d)
      else Node_Task (api @ ''/clusters/'' @ encodeURIComponent (nd_cluster d) @ ''/nodes/'' @ encodeURIComponent (nd_node d) @ ''/guests/'' @
             nd_action d) (chosen d))"

definition node_run :: "string \<Rightarrow> node_dialog \<Rightarrow> node_dialog" where
  "node_run api d =
     d\<lparr>nd_busy := True, nd_error := [], nd_waiting := nd_waiting d @ [node_request api d], nd_sent := nd_sent d @ [node_request api d]\<rparr>"

text \<open>An answer. To a migration: \<open>Inr\<close> taken, \<open>Inl\<close> refused with words. To a task: its status, \<open>None\<close> without a connection; its body
  is read next.\<close>

definition node_migrate_answer :: "(string \<Rightarrow> string) \<Rightarrow> string + unit \<Rightarrow> node_dialog \<Rightarrow> node_dialog" where
  "node_migrate_answer tr a d =
     (case a of
        Inr _ \<Rightarrow> d\<lparr>nd_busy := False, nd_open := False\<rparr>
      | Inl m \<Rightarrow> d\<lparr>nd_busy := False, nd_error := (if m \<noteq> [] then m else tr ''actionFailed'')\<rparr>)"

definition node_task_status :: "(string \<Rightarrow> string) \<Rightarrow> bool option \<Rightarrow> node_dialog \<Rightarrow> node_dialog" where
  "node_task_status tr a d =
     (case a of
        None \<Rightarrow> d\<lparr>nd_busy := False, nd_error := tr ''connectionError''\<rparr>
      | Some good \<Rightarrow> d\<lparr>nd_busy := False, nd_reading := nd_reading d @ [good]\<rparr>)"

definition node_task_body :: "bool \<Rightarrow> obj \<Rightarrow> string \<Rightarrow> node_dialog \<Rightarrow> node_dialog" where
  "node_task_body good data m d = (if good then d\<lparr>nd_result := Some data\<rparr> else d\<lparr>nd_error := m\<rparr>)"

datatype node_guests_event =
    Refresh "obj list" "(string \<times> bool) list"
  | Toggle int
  | Toggle_All
  | Pick_Target string
  | Pick_Disks bool
  | Pick_Mode run_mode
  | Pick_Parallel string
  | Run
  | Migrate_Answer nat "string + unit"
  | Task_Status nat "bool option"
  | Task_Body nat obj string
  | Close_Node

text \<open>Buttons are there until a result is shown; the boxes of a migration only for that action.\<close>

definition node_exec :: "(string \<Rightarrow> string) \<Rightarrow> string \<Rightarrow> node_dialog \<Rightarrow> node_guests_event \<Rightarrow> node_dialog option" where
  "node_exec tr api d e =
     (if \<not> nd_open d then None
      else case e of
        Refresh gs ns \<Rightarrow> Some (d\<lparr>nd_guests := gs, nd_nodes := ns\<rparr>)
      | Toggle v \<Rightarrow> if nd_result d = None \<and> v \<in> vmid_of ` set (eligible (nd_action d) (nd_guests d)) then Some (toggle_guest v d) else None
      | Toggle_All \<Rightarrow> if nd_result d = None \<and> eligible (nd_action d) (nd_guests d) \<noteq> [] then Some (toggle_all d) else None
      | Pick_Target n \<Rightarrow>
          if nd_result d = None \<and> nd_action d = ''migrateall'' \<and> n \<in> set (node_targets (nd_node d) (nd_nodes d)) then Some (d\<lparr>nd_target := n\<rparr>) else None
      | Pick_Disks b \<Rightarrow> if nd_result d = None \<and> nd_action d = ''migrateall'' then Some (d\<lparr>nd_disks := b\<rparr>) else None
      | Pick_Mode m \<Rightarrow> if nd_result d = None \<and> nd_action d = ''migrateall'' then Some (d\<lparr>nd_how := (nd_how d)\<lparr>rh_mode := m\<rparr>\<rparr>) else None
      | Pick_Parallel s \<Rightarrow>
          if nd_result d = None \<and> nd_action d = ''migrateall'' then Some (d\<lparr>nd_how := \<lparr>rh_mode = Parallel, rh_parallel = parallel_input s\<rparr>\<rparr>) else None
      | Run \<Rightarrow> if nd_result d = None \<and> \<not> node_form_bad d then Some (node_run api d) else None
      | Migrate_Answer i a \<Rightarrow>
          if i < length (nd_waiting d)
          then (case nd_waiting d ! i of Node_Task u vs \<Rightarrow> None
                | _ \<Rightarrow> Some (node_migrate_answer tr a (d\<lparr>nd_waiting := drop_nth i (nd_waiting d)\<rparr>))) else None
      | Task_Status i a \<Rightarrow>
          if i < length (nd_waiting d)
          then (case nd_waiting d ! i of Node_Task u vs \<Rightarrow> Some (node_task_status tr a (d\<lparr>nd_waiting := drop_nth i (nd_waiting d)\<rparr>))
                | _ \<Rightarrow> None) else None
      | Task_Body i data m \<Rightarrow>
          if i < length (nd_reading d) then Some (node_task_body (nd_reading d ! i) data m (d\<lparr>nd_reading := drop_nth i (nd_reading d)\<rparr>)) else None
      | Close_Node \<Rightarrow> Some (d\<lparr>nd_open := False\<rparr>))"

text \<open>A click asks for guests only that are picked and that the action still fits, whatever the list has become since the dialog opened.\<close>

lemma chosen_fit:
  "v \<in> set (chosen d) \<Longrightarrow> v \<in> set (nd_picked d) \<and> (\<exists>g \<in> set (nd_guests d). vmid_of g = v \<and> node_fits (nd_action d) g)"
  by (auto simp: chosen_def eligible_def)

lemma chosen_sorted: "sorted (chosen d)"
proof -
  have "sorted (map vmid_of (eligible (nd_action d) (nd_guests d)))" unfolding eligible_def by (rule sorted_js_sort) auto
  then show ?thesis unfolding chosen_def by (rule sorted_filter)
qed

text \<open>Between the status and the body of an answer the button is enabled again: a second click sends the task a second time.\<close>

definition demo_guest :: obj where
  "demo_guest = [(''vmid'', Num 100), (''status'', Str ''running'')]"

lemma node_task_twice:
  "run_ends (node_exec id ''/api'') (node_guests_new ''stopall'' ''c'' ''a'' [demo_guest] [(''a'', True)])
     [Run, Task_Status 0 (Some True), Run, Task_Body 0 [] []]
     (\<lambda>d. nd_sent d = [Node_Task ''/api/clusters/c/nodes/a/guests/stopall'' [100], Node_Task ''/api/clusters/c/nodes/a/guests/stopall'' [100]])"
  by code_simp

section \<open>Properties\<close>

text \<open>C9. A request overrides the block of a guest only with consent: the last check that was answered was made with exactly the options of
  the request, it said that the block of each of these guests may be overridden, since then each of them was ticked (and not
  unticked), and the confirmation came after the last tick.\<close>

theorem override_needs_consent:
  assumes "run_exec (dialog_exec tr) (bulk_migrate_new vms nodes c ro) es = Some d"
    and "r \<in> set (md_sent d)" and "mq_override r \<noteq> []"
  shows "consented (bulk_client tr (bulk_migrate_new vms nodes c ro)) es r"
  by (rule bulk_check.consent) (use assms in simp_all)

definition demo_guests :: "moved_guest list" where
  "demo_guests = [\<lparr>mv_vmid = 100, mv_node = ''a'', mv_type = ''qemu''\<rparr>, \<lparr>mv_vmid = 101, mv_node = ''a'', mv_type = ''lxc''\<rparr>]"

definition demo_rows :: "checked_guest list" where
  "demo_rows = [\<lparr>cg_vmid = 100, cg_verdict = ''ready'', cg_overridable = False\<rparr>, \<lparr>cg_vmid = 101, cg_verdict = ''blocked'', cg_overridable = True\<rparr>]"

definition demo_dialog :: "dialog_event list" where
  "demo_dialog = [Set_Target ''b'', Type_Parallel ''9'', Check, Check_Answer (Checked demo_rows), Tick 101 True, Confirm True, Start]"

lemma demo_dialog_run: "run_ends (dialog_exec id) (bulk_migrate_new demo_guests [''a'', ''b''] ''c'' False) demo_dialog
    (\<lambda>d. md_sent d = [\<lparr>mq_cluster = ''c'', mq_vms = demo_guests, mq_target = ''b'', mq_online = True, mq_disks = False,
       mq_mode = Parallel, mq_parallel = Some 5, mq_override = [101], mq_confirm = True\<rparr>])"
  by code_simp

theorem override_needs_consent_witness:
  "\<exists>r :: mig_request. mq_override r = [101] \<and> consented (bulk_client id (bulk_migrate_new demo_guests [''a'', ''b''] ''c'' False)) demo_dialog r"
proof -
  obtain d r where d: "run_exec (dialog_exec id) (bulk_migrate_new demo_guests [''a'', ''b''] ''c'' False) demo_dialog = Some d"
    "r \<in> set (md_sent d)" "mq_override r = [101]" using demo_dialog_run unfolding run_ends_iff by force
  with override_needs_consent [OF d(1,2)] show ?thesis by (intro exI [of _ r]) simp
qed



end
