(* ===== verification/Migration_Runs.thy ===== *)
theory Migration_Runs
  imports Js_Values
begin

text \<open>
  The bulk migrations that run on the server, as the client shows them (web/src/vm_modals.js): \<open>BulkMigrateRuns\<close>, the cards of the
  runs of the user with the looks at the list, and \<open>BulkMigrateProgress\<close>, the window of one run with its looks and the request
  that cancels it. A look is on the wire until it is answered; looks may be answered in any order.
\<close>

section \<open>Runs\<close>

record mig_run =
  mr_id :: string
  mr_state :: string
  mr_cluster :: string
  mr_mine :: bool
  mr_counts :: obj
  mr_total :: int

record run_counts =
  rc_ok :: int
  rc_failed :: int
  rc_total :: int
  rc_over :: int

definition migRunCounts :: "mig_run \<Rightarrow> run_counts" where
  "migRunCounts r =
     (let n = (\<lambda>k. as_num (or_else (prop_of (mr_counts r) k) (Num 0))); open' = n ''wait'' + n ''migrating''
      in \<lparr>rc_ok = n ''done'' + n ''started'', rc_failed = n ''failed'', rc_total = mr_total r, rc_over = mr_total r - open'\<rparr>)"

text \<open>The width of the bar in percent, rounded half up.\<close>

definition run_percent :: "run_counts \<Rightarrow> int" where
  "run_percent n = (if rc_total n \<noteq> 0 then (200 * rc_over n + rc_total n) div (2 * rc_total n) else 0)"

definition is_running :: "mig_run \<Rightarrow> bool" where
  "is_running r \<longleftrightarrow> mr_state r = ''running''"

section \<open>The cards\<close>

text \<open>\<open>ca_looks\<close> are the numbers of the looks on the wire; \<open>ca_settled\<close> lists the runs \<open>onSettled\<close> was called for.\<close>

record cards =
  ca_runs :: "mig_run list"
  ca_lost :: "(string \<times> mig_run) list"
  ca_dismissed :: "string list"
  ca_known :: "(string \<times> mig_run) list"
  ca_asked :: nat
  ca_shown :: nat
  ca_looks :: "nat list"
  ca_settled :: "mig_run list"

definition cards_new :: "string list \<Rightarrow> cards" where
  "cards_new dismissed =
     \<lparr>ca_runs = [], ca_lost = [], ca_dismissed = dismissed, ca_known = [], ca_asked = 0, ca_shown = 0, ca_looks = [], ca_settled = []\<rparr>"

text \<open>\<open>load\<close> up to its request: at the start, when the dashboard ticks, every four seconds while a run is going on.\<close>

definition cards_load :: "cards \<Rightarrow> cards" where
  "cards_load s = s\<lparr>ca_asked := ca_asked s + 1, ca_looks := ca_looks s @ [ca_asked s + 1]\<rparr>"

definition by_id :: "mig_run list \<Rightarrow> (string \<times> mig_run) list" where
  "by_id rs = foldl (\<lambda>acc r. AList.update (mr_id r) r acc) [] rs"

definition lost_runs :: "mig_run list \<Rightarrow> (string \<times> mig_run) list \<Rightarrow> mig_run list" where
  "lost_runs mine known = filter (\<lambda>r. is_running r \<and> mr_id r \<notin> mr_id ` set mine) (map snd known)"

definition settled_runs :: "mig_run list \<Rightarrow> (string \<times> mig_run) list \<Rightarrow> mig_run list" where
  "settled_runs mine known =
     filter (\<lambda>r. \<not> is_running r \<and> (case map_of known (mr_id r) of None \<Rightarrow> False | Some was \<Rightarrow> is_running was)) mine"

text \<open>A list that is shown.\<close>

definition show_list :: "mig_run list \<Rightarrow> cards \<Rightarrow> cards" where
  "show_list runs s =
     (let mine = filter mr_mine runs
      in s\<lparr>ca_lost := foldl (\<lambda>acc r. AList.update (mr_id r) (r\<lparr>mr_state := ''lost''\<rparr>) acc) (ca_lost s) (lost_runs mine (ca_known s)),
           ca_settled := ca_settled s @ settled_runs mine (ca_known s), ca_known := by_id mine, ca_runs := mine\<rparr>)"

text \<open>\<open>load\<close> from its answer on: no list without success, and none if a later look has been shown.\<close>

definition cards_answer :: "nat \<Rightarrow> mig_run list option \<Rightarrow> cards \<Rightarrow> cards" where
  "cards_answer n a s =
     (let s1 = s\<lparr>ca_looks := removeAll n (ca_looks s)\<rparr>
      in case a of None \<Rightarrow> s1
         | Some runs \<Rightarrow> if n < ca_shown s then s1 else show_list runs (s1\<lparr>ca_shown := n\<rparr>))"

definition dismiss :: "string \<Rightarrow> cards \<Rightarrow> cards" where
  "dismiss i s =
     (let next = removeAll i (ca_dismissed s) @ [i]
      in s\<lparr>ca_dismissed := drop (length next - 100) next, ca_lost := AList.delete i (ca_lost s)\<rparr>)"

definition visible_cards :: "cards \<Rightarrow> mig_run list" where
  "visible_cards s = filter (\<lambda>r. is_running r \<or> mr_id r \<notin> set (ca_dismissed s)) (ca_runs s @ map snd (ca_lost s))"

definition polls :: "cards \<Rightarrow> bool" where
  "polls s \<longleftrightarrow> list_ex is_running (ca_runs s)"

datatype cards_event =
    Look
  | Beat
  | Look_Answer nat "mig_run list option"
  | Dismiss string

definition cards_exec :: "cards \<Rightarrow> cards_event \<Rightarrow> cards option" where
  "cards_exec s e =
     (case e of
        Look \<Rightarrow> Some (cards_load s)
      | Beat \<Rightarrow> if polls s then Some (cards_load s) else None
      | Look_Answer n a \<Rightarrow> if n \<in> set (ca_looks s) then Some (cards_answer n a s) else None
      | Dismiss i \<Rightarrow> if list_ex (\<lambda>r. mr_id r = i \<and> \<not> is_running r) (visible_cards s) then Some (dismiss i s) else None)"

section \<open>The window of one run\<close>

text \<open>Where a look or a cancellation stands: its request is out, or its body is being read.\<close>

datatype look = Asked string | Reading string

datatype cancelling = C_Asked string | C_Reading string | C_Refused string

record progress =
  pr_id :: string
  pr_run :: "mig_run option"
  pr_gone :: bool
  pr_asking :: bool
  pr_busy :: bool
  pr_error :: string
  pr_looks :: "look list"
  pr_cancels :: "cancelling list"
  pr_changed :: nat

definition progress_new :: "string \<Rightarrow> progress" where
  "progress_new i = \<lparr>pr_id = i, pr_run = None, pr_gone = False, pr_asking = False, pr_busy = False, pr_error = [], pr_looks = [Asked i],
     pr_cancels = [], pr_changed = 0\<rparr>"

definition progress_load :: "progress \<Rightarrow> progress" where
  "progress_load s = s\<lparr>pr_looks := pr_looks s @ [Asked (pr_id s)]\<rparr>"

text \<open>Another card is clicked: the effect on the new id.\<close>

definition progress_show :: "string \<Rightarrow> progress \<Rightarrow> progress" where
  "progress_show i s = (if i = pr_id s then s else progress_load (s\<lparr>pr_id := i, pr_run := None, pr_gone := False, pr_asking := False\<rparr>))"

text \<open>The status of a look's answer (\<open>None\<close>: no answer), and its body (\<open>None\<close>: not read).\<close>

definition look_status :: "nat \<Rightarrow> string \<Rightarrow> (nat \<times> bool) option \<Rightarrow> progress \<Rightarrow> progress" where
  "look_status j i a s =
     (let over = s\<lparr>pr_looks := drop_nth j (pr_looks s)\<rparr>
      in if pr_id s \<noteq> i then over
         else case a of None \<Rightarrow> over
              | Some (st, good) \<Rightarrow>
                  if st = 404 then over\<lparr>pr_gone := True\<rparr>
                  else if good then s\<lparr>pr_looks := (pr_looks s)[j := Reading i]\<rparr> else over)"

definition look_body :: "nat \<Rightarrow> string \<Rightarrow> mig_run option \<Rightarrow> progress \<Rightarrow> progress" where
  "look_body j i a s =
     (let over = s\<lparr>pr_looks := drop_nth j (pr_looks s)\<rparr>
      in case a of None \<Rightarrow> over | Some r \<Rightarrow> if pr_id s \<noteq> i then over else over\<lparr>pr_run := Some r, pr_gone := False\<rparr>)"

definition run_going :: "progress \<Rightarrow> bool" where
  "run_going s \<longleftrightarrow> (case pr_run s of None \<Rightarrow> False | Some r \<Rightarrow> is_running r)"

definition cancel_run :: "progress \<Rightarrow> progress" where
  "cancel_run s = s\<lparr>pr_busy := True, pr_error := [], pr_cancels := pr_cancels s @ [C_Asked (pr_id s)]\<rparr>"

text \<open>The answer to a cancellation: \<open>Some True\<close> taken, \<open>Some False\<close> refused, \<open>None\<close> no connection.\<close>

definition cancel_status :: "(string \<Rightarrow> string) \<Rightarrow> nat \<Rightarrow> string \<Rightarrow> bool option \<Rightarrow> progress \<Rightarrow> progress" where
  "cancel_status tr j i a s =
     (let s1 = s\<lparr>pr_busy := False, pr_asking := False\<rparr>
      in case a of
           None \<Rightarrow> s1\<lparr>pr_error := tr ''connectionError'', pr_cancels := drop_nth j (pr_cancels s)\<rparr>
         | Some True \<Rightarrow> s1\<lparr>pr_cancels := (pr_cancels s)[j := C_Reading i]\<rparr>
         | Some False \<Rightarrow> s1\<lparr>pr_cancels := (pr_cancels s)[j := C_Refused i]\<rparr>)"

definition cancel_body :: "nat \<Rightarrow> string \<Rightarrow> mig_run option \<Rightarrow> progress \<Rightarrow> progress" where
  "cancel_body j i a s =
     (let s1 = s\<lparr>pr_cancels := drop_nth j (pr_cancels s), pr_changed := pr_changed s + 1\<rparr>
      in case a of None \<Rightarrow> s1 | Some r \<Rightarrow> if pr_id s = i then s1\<lparr>pr_run := Some r\<rparr> else s1)"

definition cancel_refused :: "nat \<Rightarrow> string \<Rightarrow> progress \<Rightarrow> progress" where
  "cancel_refused j m s = s\<lparr>pr_error := m, pr_cancels := drop_nth j (pr_cancels s)\<rparr>"

datatype progress_event =
    Show string
  | Progress_Beat
  | Look_Status nat "(nat \<times> bool) option"
  | Look_Body nat "mig_run option"
  | Ask
  | Keep
  | Cancel
  | Cancel_Status nat "bool option"
  | Cancel_Body nat "mig_run option"
  | Cancel_Message nat string

text \<open>\<open>may\<close>: the user may act here and the server says that the run may be cancelled.\<close>

definition progress_exec :: "(string \<Rightarrow> string) \<Rightarrow> (progress \<Rightarrow> bool) \<Rightarrow> progress \<Rightarrow> progress_event \<Rightarrow> progress option" where
  "progress_exec tr may s e =
     (case e of
        Show i \<Rightarrow> Some (progress_show i s)
      | Progress_Beat \<Rightarrow> if run_going s then Some (progress_load s) else None
      | Look_Status j a \<Rightarrow>
          if j < length (pr_looks s) then (case pr_looks s ! j of Asked i \<Rightarrow> Some (look_status j i a s) | Reading i \<Rightarrow> None) else None
      | Look_Body j a \<Rightarrow>
          if j < length (pr_looks s) then (case pr_looks s ! j of Reading i \<Rightarrow> Some (look_body j i a s) | Asked i \<Rightarrow> None) else None
      | Ask \<Rightarrow> if run_going s \<and> may s \<and> \<not> pr_asking s then Some (s\<lparr>pr_asking := True\<rparr>) else None
      | Keep \<Rightarrow> if run_going s \<and> may s \<and> pr_asking s \<and> \<not> pr_busy s then Some (s\<lparr>pr_asking := False\<rparr>) else None
      | Cancel \<Rightarrow> if run_going s \<and> may s \<and> pr_asking s \<and> \<not> pr_busy s then Some (cancel_run s) else None
      | Cancel_Status j a \<Rightarrow>
          if j < length (pr_cancels s) then (case pr_cancels s ! j of C_Asked i \<Rightarrow> Some (cancel_status tr j i a s) | _ \<Rightarrow> None) else None
      | Cancel_Body j a \<Rightarrow>
          if j < length (pr_cancels s) then (case pr_cancels s ! j of C_Reading i \<Rightarrow> Some (cancel_body j i a s) | _ \<Rightarrow> None) else None
      | Cancel_Message j m \<Rightarrow>
          if j < length (pr_cancels s) then (case pr_cancels s ! j of C_Refused i \<Rightarrow> Some (cancel_refused j m s) | _ \<Rightarrow> None) else None)"

section \<open>The order of the looks\<close>

definition mine_of :: "mig_run list \<Rightarrow> mig_run list" where
  "mine_of runs = filter mr_mine runs"

text \<open>Reference: lists that are shown one after another. \<open>spec_known\<close> is what is known after them, \<open>spec_settled\<close> the runs that end
  from one list to the next.\<close>

definition spec_known :: "mig_run list list \<Rightarrow> (string \<times> mig_run) list" where
  "spec_known ls = (if ls = [] then [] else by_id (mine_of (last ls)))"

fun spec_settled :: "(string \<times> mig_run) list \<Rightarrow> mig_run list list \<Rightarrow> mig_run list" where
  "spec_settled k [] = []"
| "spec_settled k (l # ls) = settled_runs (mine_of l) k @ spec_settled (by_id (mine_of l)) ls"

lemma spec_settled_snoc: "spec_settled k (ls @ [l]) = spec_settled k ls @ settled_runs (mine_of l) (if ls = [] then k else spec_known ls)"
  by (induction ls arbitrary: k) (auto simp: spec_known_def)

definition looks_seen :: "cards_event list \<Rightarrow> cards \<Rightarrow> (nat \<times> mig_run list) list \<Rightarrow> bool" where
  "looks_seen es s ls \<longleftrightarrow>
     sorted_wrt (<) (map fst ls) \<and>
     (\<forall>(n, runs) \<in> set ls. 1 \<le> n \<and> Look_Answer n (Some runs) \<in> set es) \<and>
     (\<forall>n runs. Look_Answer n (Some runs) \<in> set es \<longrightarrow> n \<le> ca_shown s) \<and>
     ca_shown s = (if ls = [] then 0 else fst (last ls)) \<and>
     ca_runs s = (if ls = [] then [] else mine_of (snd (last ls))) \<and>
     ca_known s = spec_known (map snd ls) \<and> ca_settled s = spec_settled [] (map snd ls)"

definition looks_fresh :: "cards \<Rightarrow> bool" where
  "looks_fresh s \<longleftrightarrow> distinct (ca_looks s) \<and> ca_shown s \<notin> set (ca_looks s) \<and> ca_shown s \<le> ca_asked s \<and>
     (\<forall>n \<in> set (ca_looks s). 1 \<le> n \<and> n \<le> ca_asked s)"

lemma looks_seen_more:
  assumes "looks_seen es s ls" and "ca_shown s' = ca_shown s" "ca_runs s' = ca_runs s" "ca_known s' = ca_known s" "ca_settled s' = ca_settled s"
    and "\<And>n runs. e = Look_Answer n (Some runs) \<Longrightarrow> n \<le> ca_shown s"
  shows "looks_seen (es @ [e]) s' ls"
  using assms unfolding looks_seen_def by fastforce

lemma looks_seen_shown:
  assumes "looks_seen es s ls" and "ca_shown s < n"
  shows "looks_seen (es @ [Look_Answer n (Some runs)]) (show_list runs (s\<lparr>ca_looks := ks, ca_shown := n\<rparr>)) (ls @ [(n, runs)])"
proof -
  have "fst x < n" if "x \<in> set ls" for x
  proof -
    have "fst x \<le> fst (last ls)"
    proof (cases "x = last ls")
      case False
      have "butlast ls @ [last ls] = ls" using that by (cases ls) auto
      then have "sorted_wrt (<) (map fst (butlast ls @ [last ls]))" using assms(1) by (simp only: looks_seen_def)
      moreover have "x \<in> set (butlast ls)" using False that by (metis append_butlast_last_id empty_iff insert_iff list.set(1,2) rotate1.simps(2) set_rotate1)
      ultimately show ?thesis by (auto simp: sorted_wrt_append)
    qed simp
    moreover have "fst (last ls) = ca_shown s" using assms(1) that by (auto simp: looks_seen_def)
    ultimately show ?thesis using assms(2) by simp
  qed
  moreover have "m \<le> n" if "Look_Answer m (Some rs) \<in> set es" for m rs
    using assms that unfolding looks_seen_def by (meson less_imp_le order.trans)
  moreover have "1 \<le> n" using assms(2) by simp
  ultimately show ?thesis
    using assms(1) by (auto simp: looks_seen_def sorted_wrt_append show_list_def Let_def spec_settled_snoc spec_known_def mine_of_def)
qed

lemma looks_fresh_step:
  assumes "looks_fresh s" and "cards_exec s e = Some s'"
  shows "looks_fresh s'"
  using assms
  by (cases e) (auto simp: looks_fresh_def cards_exec_def cards_load_def cards_answer_def show_list_def dismiss_def Let_def distinct_removeAll
      dest: bspec split: if_splits option.splits)

definition looks_inv :: "cards_event list \<Rightarrow> cards \<Rightarrow> bool" where
  "looks_inv es s \<longleftrightarrow> looks_fresh s \<and> (\<exists>ls. looks_seen es s ls)"

lemma looks_inv_step:
  assumes "looks_inv es s" and "cards_exec s e = Some s'"
  shows "looks_inv (es @ [e]) s'"
proof -
  obtain ls where ls: "looks_seen es s ls" and fr: "looks_fresh s" using assms(1) by (auto simp: looks_inv_def)
  have "\<exists>ls. looks_seen (es @ [e]) s' ls"
  proof (cases "\<exists>n runs. e = Look_Answer n (Some runs) \<and> \<not> n < ca_shown s")
    case True
    then obtain n runs where e: "e = Look_Answer n (Some runs)" and n: "\<not> n < ca_shown s" by blast
    from assms(2) have "n \<in> set (ca_looks s)" and s': "s' = show_list runs (s\<lparr>ca_looks := removeAll n (ca_looks s), ca_shown := n\<rparr>)"
      using n by (auto simp: e cards_exec_def cards_answer_def Let_def split: if_splits)
    then have "ca_shown s < n" using n fr by (auto simp: looks_fresh_def) (metis le_neq_implies_less linorder_not_less)
    from looks_seen_shown [OF ls this] show ?thesis unfolding e s' by blast
  next
    case False
    have "looks_seen (es @ [e]) s' ls"
      by (rule looks_seen_more [OF ls]; insert assms(2) False)
        (auto simp: cards_exec_def cards_load_def cards_answer_def dismiss_def Let_def split: cards_event.splits option.splits if_splits)
    then show ?thesis by blast
  qed
  with looks_fresh_step [OF fr assms(2)] show ?thesis by (simp add: looks_inv_def)
qed

interpretation cards_trace: trace_machine cards_exec "cards_new d" looks_inv for d
proof
  have "looks_seen [] (cards_new d) []" by (simp add: looks_seen_def cards_new_def spec_known_def)
  then show "looks_inv [] (cards_new d)" by (auto simp: looks_inv_def looks_fresh_def cards_new_def)
qed (rule looks_inv_step)

section \<open>A run ends once\<close>

text \<open>A server whose answers follow the order of the looks: \<open>server n\<close> is its list for look \<open>n\<close>, without an id twice, and a
  run that has ended is not listed as running later.\<close>

definition in_order_server :: "(nat \<Rightarrow> mig_run list) \<Rightarrow> bool" where
  "in_order_server server \<longleftrightarrow>
     (\<forall>n. distinct (map mr_id (server n))) \<and>
     (\<forall>a b q r. a \<le> b \<longrightarrow> q \<in> set (server a) \<longrightarrow> r \<in> set (server b) \<longrightarrow> mr_id q = mr_id r \<longrightarrow> is_running r \<longrightarrow> is_running q)"

definition answered_by :: "(nat \<Rightarrow> mig_run list) \<Rightarrow> cards_event \<Rightarrow> bool" where
  "answered_by server e \<longleftrightarrow> (case e of Look_Answer n (Some runs) \<Rightarrow> runs = server n | _ \<Rightarrow> True)"

lemma map_of_by_id: "distinct (map mr_id rs) \<Longrightarrow> map_of (by_id rs) i = Some r \<longleftrightarrow> r \<in> set rs \<and> mr_id r = i"
proof (induction rs arbitrary: r rule: rev_induct)
  case (snoc x xs)
  then show ?case by (force simp: by_id_def update_conv' image_iff)
qed (simp add: by_id_def)

lemma settled_from:
  assumes "r \<in> set (settled_runs mine (by_id was))" and "distinct (map mr_id was)"
  shows "r \<in> set mine \<and> \<not> is_running r \<and> (\<exists>q \<in> set was. mr_id q = mr_id r \<and> is_running q)"
  using assms map_of_by_id [OF assms(2)] by (force simp: settled_runs_def split: option.splits)

lemma distinct_mine: "distinct (map mr_id runs) \<Longrightarrow> distinct (map mr_id (mine_of runs))"
  by (simp add: mine_of_def distinct_map_filter)

lemma settled_distinct: "distinct (map mr_id mine) \<Longrightarrow> distinct (map mr_id (settled_runs mine known))"
  by (simp add: settled_runs_def distinct_map_filter)

lemma spec_settled_once:
  assumes "in_order_server server" and "sorted_wrt (<) ns"
  shows "distinct (map mr_id (spec_settled [] (map server ns))) \<and>
    (\<forall>r \<in> set (spec_settled [] (map server ns)). \<exists>a \<in> set ns. r \<in> set (server a) \<and> \<not> is_running r)"
  using assms(2)
proof (induction ns rule: rev_induct)
  case (snoc n ns)
  let ?old = "spec_settled [] (map server ns)" and ?new = "settled_runs (mine_of (server n)) (spec_known (map server ns))"
  have dist: "distinct (map mr_id (server a))" for a using assms(1) by (simp add: in_order_server_def)
  have run: "is_running q" if "a \<le> b" "q \<in> set (server a)" "r \<in> set (server b)" "mr_id q = mr_id r" "is_running r" for a b q r
    using assms(1) that unfolding in_order_server_def by blast
  have ih: "distinct (map mr_id ?old)" "\<forall>r \<in> set ?old. \<exists>a \<in> set ns. r \<in> set (server a) \<and> \<not> is_running r"
    using snoc by (auto simp: sorted_wrt_append)
  have new: "r \<in> set (server n) \<and> \<not> is_running r \<and> (\<exists>q \<in> set (server (last ns)). mr_id q = mr_id r \<and> is_running q) \<and> ns \<noteq> []"
    if "r \<in> set ?new" for r
  proof (cases "ns = []")
    case True
    with that show ?thesis by (simp add: spec_known_def settled_runs_def)
  next
    case False
    with that have "r \<in> set (settled_runs (mine_of (server n)) (by_id (mine_of (server (last ns)))))" by (simp add: spec_known_def last_map)
    from settled_from [OF this distinct_mine [OF dist]] False show ?thesis by (auto simp: mine_of_def)
  qed
  have "mr_id o' \<noteq> mr_id r" if o: "o' \<in> set ?old" and r: "r \<in> set ?new" for o' r
  proof
    assume eq: "mr_id o' = mr_id r"
    obtain a where a: "a \<in> set ns" "o' \<in> set (server a)" "\<not> is_running o'" using ih(2) o by blast
    obtain q where q: "q \<in> set (server (last ns))" "mr_id q = mr_id r" "is_running q" "ns \<noteq> []" using new [OF r] by blast
    have "a \<le> last ns"
    proof (cases "a = last ns")
      case False
      with a(1) have "a \<in> set (butlast ns)" by (metis append_butlast_last_id empty_iff insert_iff list.set(1,2) rotate1.simps(2) set_rotate1)
      moreover have "sorted_wrt (<) (butlast ns @ [last ns])" using snoc.prems q(4) by (simp add: sorted_wrt_append)
      ultimately show ?thesis by (auto simp: sorted_wrt_append)
    qed simp
    from run [OF this a(2) q(1) _ q(3)] eq q(2) a(3) show False by simp
  qed
  then have "mr_id ` set ?old \<inter> mr_id ` set ?new = {}" by blast
  moreover have "distinct (map mr_id ?new)" by (rule settled_distinct [OF distinct_mine [OF dist]])
  moreover have "spec_settled [] (map server (ns @ [n])) = ?old @ ?new"
    by (auto simp: spec_settled_snoc spec_known_def)
  ultimately show ?case using ih new by auto
qed simp

section \<open>The window shows its run\<close>

text \<open>The server answers about the run it is asked for.\<close>

definition own_answer :: "progress \<Rightarrow> progress_event \<Rightarrow> bool" where
  "own_answer s e \<longleftrightarrow>
     (case e of
        Look_Body j (Some r) \<Rightarrow> j < length (pr_looks s) \<longrightarrow> pr_looks s ! j = Reading (mr_id r)
      | Cancel_Body j (Some r) \<Rightarrow> j < length (pr_cancels s) \<longrightarrow> pr_cancels s ! j = C_Reading (mr_id r)
      | _ \<Rightarrow> True)"

definition own_run :: "progress \<Rightarrow> bool" where
  "own_run s \<longleftrightarrow> (case pr_run s of None \<Rightarrow> True | Some r \<Rightarrow> mr_id r = pr_id s)"

lemma own_run_same: "own_run s \<Longrightarrow> pr_run s' = pr_run s \<Longrightarrow> pr_id s' = pr_id s \<Longrightarrow> own_run s'"
  by (simp add: own_run_def split: option.splits)

lemma own_run_step:
  assumes "own_run s" and "own_answer s e" and "progress_exec tr may s e = Some s'"
  shows "own_run s'"
proof (cases e)
  case (Show i)
  then show ?thesis using assms by (auto simp: progress_exec_def progress_show_def progress_load_def own_run_def)
next
  case (Look_Body j a)
  then obtain i where "pr_looks s ! j = Reading i" "j < length (pr_looks s)" "s' = look_body j i a s"
    using assms(3) by (auto simp: progress_exec_def split: if_splits look.splits)
  then show ?thesis using assms(1,2) Look_Body by (auto simp: look_body_def own_answer_def own_run_def Let_def split: option.splits)
next
  case (Cancel_Body j a)
  then obtain i where "pr_cancels s ! j = C_Reading i" "j < length (pr_cancels s)" "s' = cancel_body j i a s"
    using assms(3) by (auto simp: progress_exec_def split: if_splits cancelling.splits)
  then show ?thesis using assms(1,2) Cancel_Body by (auto simp: cancel_body_def own_answer_def own_run_def Let_def split: option.splits)
qed (rule own_run_same [OF assms(1)]; insert assms(3); auto simp: progress_exec_def progress_load_def look_status_def cancel_run_def
  cancel_status_def cancel_refused_def Let_def split: if_splits look.splits cancelling.splits option.splits bool.splits)+

interpretation window: step_machine "\<lambda>s e s'. own_answer s e \<and> progress_exec tr may s e = Some s'" "\<lambda>s. \<exists>i. s = progress_new i" own_run
  for tr may
proof
  fix s assume "\<exists>i. s = progress_new i"
  then show "own_run s" by (auto simp: own_run_def progress_new_def)
qed (use own_run_step in blast)

text \<open>The bar stays between nothing and all, as long as the server counts no more open guests than there are.\<close>

lemma run_percent_bounds:
  assumes "0 \<le> rc_over n" and "rc_over n \<le> rc_total n"
  shows "0 \<le> run_percent n \<and> run_percent n \<le> 100"
proof (cases "rc_total n = 0")
  case False
  with assms have p: "0 < rc_total n" by simp
  have "(200 * rc_over n + rc_total n) div (2 * rc_total n) < 101"
  proof (rule ccontr)
    let ?a = "200 * rc_over n + rc_total n" and ?b = "2 * rc_total n"
    assume "\<not> ?thesis"
    then have "?b * 101 \<le> ?b * (?a div ?b)" using p by (intro mult_left_mono) auto
    moreover have "?b * (?a div ?b) \<le> ?a" using p pos_mod_sign [of ?b ?a] mult_div_mod_eq [of ?b ?a] by linarith
    ultimately show False using assms(2) p by linarith
  qed
  moreover have "0 \<le> (200 * rc_over n + rc_total n) div (2 * rc_total n)" using assms(1) p by (simp add: pos_imp_zdiv_nonneg_iff)
  ultimately show ?thesis using False by (simp add: run_percent_def)
qed (simp add: run_percent_def)

section \<open>Properties\<close>


definition demo_run :: "string \<Rightarrow> string \<Rightarrow> mig_run" where
  "demo_run i st = \<lparr>mr_id = i, mr_state = st, mr_cluster = ''c'', mr_mine = True, mr_counts = [], mr_total = 3\<rparr>"

definition demo_looks :: "cards_event list" where
  "demo_looks = [Look, Look_Answer 1 (Some [demo_run ''r'' ''running'']), Beat, Beat, Look_Answer 3 (Some [demo_run ''r'' ''done'']),
     Look_Answer 2 (Some [demo_run ''r'' ''running'']), Look, Look_Answer 4 (Some [demo_run ''r'' ''done''])]"

lemma demo_looks_run: "run_ends cards_exec (cards_new []) demo_looks (\<lambda>s. ca_settled s = [demo_run ''r'' ''done''] \<and> ca_shown s = 4)"
  by code_simp


text \<open>The dashboard is told once that a run has ended, in whatever order the looks are answered, provided that the answers of the
  server follow the order of the looks.\<close>

theorem run_settles_once:
  assumes "run_exec cards_exec (cards_new d) es = Some s"
    and "in_order_server server" and "list_all (answered_by server) es"
  shows "distinct (map mr_id (ca_settled s)) \<and> (\<forall>r \<in> set (ca_settled s). \<not> is_running r)"
proof -
  obtain ls where ls: "looks_seen es s ls" using cards_trace.trace_run [OF assms(1)] by (auto simp: looks_inv_def)
  have "snd x = server (fst x)" if "x \<in> set ls" for x
    using ls that assms(3) by (force simp: looks_seen_def list_all_iff answered_by_def)
  then have "map snd ls = map server (map fst ls)" by simp
  with ls have "ca_settled s = spec_settled [] (map server (map fst ls))" "sorted_wrt (<) (map fst ls)"
    by (simp_all add: looks_seen_def)
  with spec_settled_once [OF assms(2)] show ?thesis by fastforce
qed

definition demo_server :: "nat \<Rightarrow> mig_run list" where
  "demo_server n = [demo_run ''r'' (if n < 3 then ''running'' else ''done'')]"

theorem run_settles_once_witness:
  "\<exists>s :: cards. ca_settled s = [demo_run ''r'' ''done''] \<and> distinct (map mr_id (ca_settled s)) \<and> (\<forall>r \<in> set (ca_settled s). \<not> is_running r)"
proof -
  obtain s where s: "run_exec cards_exec (cards_new []) demo_looks = Some s" "ca_settled s = [demo_run ''r'' ''done'']"
    using demo_looks_run unfolding run_ends_iff by blast
  have "in_order_server demo_server" by (auto simp: in_order_server_def demo_server_def demo_run_def is_running_def)
  moreover have "list_all (answered_by demo_server) demo_looks" by (simp add: demo_looks_def answered_by_def demo_server_def)
  ultimately show ?thesis using run_settles_once [OF s(1)] s(2) by blast
qed

text \<open>The window of a run shows that run: in every run, also when other cards are clicked while looks and cancellations are on the wire,
  what it shows is the answer for the run whose card was clicked last.\<close>

theorem window_shows_its_run:
  assumes "steps (\<lambda>s e s'. own_answer s e \<and> progress_exec tr may s e = Some s') (progress_new i) es s" and "pr_run s = Some r"
  shows "mr_id r = pr_id s"
proof -
  have "own_run s" by (rule window.inv_run [OF _ assms(1)]) blast
  with assms(2) show ?thesis by (simp add: own_run_def)
qed

definition demo_window :: "progress_event list" where
  "demo_window = [Look_Status 0 (Some (200, True)), Show ''b'', Look_Body 0 (Some (demo_run ''a'' ''running'')),
     Look_Status 0 (Some (200, True)), Look_Body 0 (Some (demo_run ''b'' ''running''))]"

fun own_answers :: "(string \<Rightarrow> string) \<Rightarrow> (progress \<Rightarrow> bool) \<Rightarrow> progress \<Rightarrow> progress_event list \<Rightarrow> progress option" where
  "own_answers tr may s [] = Some s"
| "own_answers tr may s (e # es) =
     (if own_answer s e then (case progress_exec tr may s e of None \<Rightarrow> None | Some s' \<Rightarrow> own_answers tr may s' es) else None)"

lemma own_answers_steps: "own_answers tr may s es = Some s' \<Longrightarrow> steps (\<lambda>s e s'. own_answer s e \<and> progress_exec tr may s e = Some s') s es s'"
  by (induction es arbitrary: s) (auto split: if_splits option.splits)

theorem window_shows_its_run_witness:
  "\<exists>s :: progress. pr_run s = Some (demo_run ''b'' ''running'') \<and> mr_id (demo_run ''b'' ''running'') = pr_id s"
proof -
  have "map_option pr_run (own_answers id (\<lambda>s. True) (progress_new ''a'') demo_window) = Some (Some (demo_run ''b'' ''running''))" by code_simp
  then obtain s where s: "own_answers id (\<lambda>s. True) (progress_new ''a'') demo_window = Some s" "pr_run s = Some (demo_run ''b'' ''running'')" by auto
  from window_shows_its_run [OF own_answers_steps [OF s(1)] s(2)] s(2) show ?thesis by blast
qed

text \<open>The refusal of a cancellation is not kept apart: when another card is clicked before it comes, the window of that other run shows
  the words, and loses a question of its own.\<close>

lemma cancel_error_moves:
  "run_ends (progress_exec id (\<lambda>s. True)) (progress_new ''a'')
     [Look_Status 0 (Some (200, True)), Look_Body 0 (Some (demo_run ''a'' ''running'')), Ask, Cancel, Show ''b'',
      Look_Status 0 (Some (200, True)), Look_Body 0 (Some (demo_run ''b'' ''running'')), Ask,
      Cancel_Status 0 (Some False), Cancel_Message 0 ''no right to cancel a'']
     (\<lambda>s. pr_id s = ''b'' \<and> pr_error s = ''no right to cancel a'' \<and> \<not> pr_asking s)"
  by code_simp

end
