(* ===== verification/Guest_Config.thy ===== *)
theory Guest_Config
  imports Vm_Device_Strings Js_Values Complex_Main
begin

text \<open>
  What the migration dialogs read from the configuration of a guest (\<open>processVmConfig\<close> of \<open>MigrateModal\<close> and of
  \<open>CrossClusterMigrateModal\<close> in web/src/vm_modals.js): disks on local storage, mounted ISO images, the boot order, virtiofs
  shares, disks with their storages and sizes, unused volumes and network cards. A configuration is its keys with their
  values in their order; the patterns are written out as functions on strings. Sizes in GiB are rational numbers.
\<close>

section \<open>Patterns\<close>

text \<open>\<open>^(p|...)\d*$\<close> and \<open>^(p|...)\d+$\<close>.\<close>

definition device_key :: "string list \<Rightarrow> string \<Rightarrow> bool" where
  "device_key ps k \<longleftrightarrow> list_ex (\<lambda>p. starts_with k p \<and> list_all is_digit (drop (length p) k)) ps"

definition numbered_key :: "string list \<Rightarrow> string \<Rightarrow> bool" where
  "numbered_key ps k \<longleftrightarrow> list_ex (\<lambda>p. starts_with k p \<and> drop (length p) k \<noteq> [] \<and> list_all is_digit (drop (length p) k)) ps"

definition is_local :: "string \<Rightarrow> bool" where
  "is_local s \<longleftrightarrow> starts_with s ''local:'' \<or> starts_with s ''local-lvm:'' \<or> starts_with s ''local-zfs:''"

text \<open>The text after the first \<open>p\<close>.\<close>

fun after_first :: "string \<Rightarrow> string \<Rightarrow> string option" where
  "after_first p [] = (if p = [] then Some [] else None)"
| "after_first p (c # cs) = (if starts_with (c # cs) p then Some (drop (length p) (c # cs)) else after_first p cs)"

text \<open>The text before the first \<open>p\<close>.\<close>

fun before_first :: "string \<Rightarrow> string \<Rightarrow> string" where
  "before_first p [] = []"
| "before_first p (c # cs) = (if starts_with (c # cs) p then [] else c # before_first p cs)"

text \<open>\<open>size=(\d+)([GMT])\<close> and \<open>size=(\d+[GMT]?)\<close>: the leftmost match.\<close>

fun size_match :: "string \<Rightarrow> (string \<times> char) option" where
  "size_match [] = None"
| "size_match (c # cs) =
     (let r = drop 5 (c # cs); ds = takeWhile is_digit r; u = dropWhile is_digit r
      in if starts_with (c # cs) ''size='' \<and> ds \<noteq> [] \<and> u \<noteq> [] \<and> hd u \<in> set ''GMT'' then Some (ds, hd u) else size_match cs)"

fun size_text :: "string \<Rightarrow> string" where
  "size_text [] = []"
| "size_text (c # cs) =
     (let r = drop 5 (c # cs); ds = takeWhile is_digit r; u = dropWhile is_digit r
      in if starts_with (c # cs) ''size='' \<and> ds \<noteq> [] then ds @ (if u \<noteq> [] \<and> hd u \<in> set ''GMT'' then [hd u] else []) else size_text cs)"

text \<open>\<open>bridge=([^,]+)\<close>.\<close>

fun bridge_match :: "string \<Rightarrow> string option" where
  "bridge_match [] = None"
| "bridge_match (c # cs) =
     (let b = takeWhile (\<lambda>d. d \<noteq> CHR '','') (drop 7 (c # cs))
      in if starts_with (c # cs) ''bridge='' \<and> b \<noteq> [] then Some b else bridge_match cs)"

definition sorted_entries :: "obj \<Rightarrow> obj" where
  "sorted_entries c = js_sort (\<lambda>a b. if str_gt (fst a) (fst b) then 1 else if fst a = fst b then 0 else -1) c"

text \<open>The entries whose value is a text.\<close>

definition texts_of :: "obj \<Rightarrow> (string \<times> string) list" where
  "texts_of c = List.map_filter (\<lambda>(k, v). case v of Str s \<Rightarrow> Some (k, s) | _ \<Rightarrow> None) c"

section \<open>What is found\<close>

definition has_local_disk :: "obj \<Rightarrow> bool" where
  "has_local_disk c \<longleftrightarrow>
     list_ex (\<lambda>(k, s). device_key [''scsi'', ''sata'', ''virtio'', ''ide'', ''mp'', ''rootfs''] k \<and> (js_includes s ''shared=0'' \<or> is_local s)) (texts_of c)"

record iso =
  iso_device :: string
  iso_path :: string
  iso_local :: bool

definition found_isos :: "obj \<Rightarrow> iso list" where
  "found_isos c =
     List.map_filter (\<lambda>(k, s).
       let path = takeWhile (\<lambda>d. d \<noteq> CHR '','') s
       in if device_key [''ide'', ''sata'', ''scsi''] k \<and> js_includes s ''media=cdrom'' \<and> path \<noteq> [] \<and> \<not> js_includes path ''none''
          then Some \<lparr>iso_device = k, iso_path = path, iso_local = is_local path\<rparr> else None) (texts_of c)"

text \<open>\<open>bootOrder.split('order=')[1].split(';')[0].split(',')\<close>.\<close>

definition boot_devices :: "string \<Rightarrow> string list" where
  "boot_devices b =
     (case after_first ''order='' b of None \<Rightarrow> []
      | Some r \<Rightarrow> split_on CHR '','' (takeWhile (\<lambda>c. c \<noteq> CHR '';'') (before_first ''order='' r)))"

definition boot_issues :: "obj \<Rightarrow> string list" where
  "boot_issues c =
     filter (\<lambda>d. d \<noteq> [] \<and> \<not> truthy (prop_of c d) \<and> d \<noteq> ''net0'') (boot_devices (to_str (or_else (prop_of c ''boot'') (Str []))))"

definition virtiofs_shares :: "obj \<Rightarrow> (string \<times> string) list" where
  "virtiofs_shares c =
     map (\<lambda>(k, v). (k, dirid (parseVirtiofs (to_str v))))
       (sorted_entries (filter (\<lambda>(k, v). starts_with k ''virtiofs'' \<and> length k = 9 \<and> list_all is_digit (drop 8 k) \<and> truthy v) c))"

definition disk_gib :: "string \<Rightarrow> rat" where
  "disk_gib s =
     (case size_match s of None \<Rightarrow> 0
      | Some (ds, u) \<Rightarrow>
          (if u = CHR ''G'' then of_nat (nat_of_digits ds) else if u = CHR ''T'' then of_nat (nat_of_digits ds) * 1024
           else of_nat (nat_of_digits ds) / 1024))"

definition total_disk_gib :: "obj \<Rightarrow> rat" where
  "total_disk_gib c = sum_list (map (disk_gib \<circ> snd) (filter (\<lambda>(k, s). numbered_key [''scsi'', ''virtio'', ''sata'', ''ide''] k) (texts_of c)))"

record disk_entry =
  de_id :: string
  de_storage :: string
  de_size :: string

definition source_disks :: "obj \<Rightarrow> disk_entry list" where
  "source_disks c =
     List.map_filter (\<lambda>(k, s).
       let stor = takeWhile (\<lambda>d. d \<noteq> CHR '':'') s
       in if device_key [''scsi'', ''virtio'', ''ide'', ''sata'', ''efidisk'', ''tpmstate'', ''rootfs'', ''mp''] k \<and> CHR '':'' \<in> set s \<and>
             \<not> js_includes s ''media=cdrom'' \<and> s \<noteq> ''none'' \<and> stor \<noteq> [] \<and> stor \<noteq> ''none''
          then Some \<lparr>de_id = k, de_storage = stor, de_size = size_text s\<rparr> else None) (texts_of (sorted_entries c))"

record unused_entry =
  ue_id :: string
  ue_value :: string
  ue_storage :: string
  ue_local :: bool

definition unused_entries :: "obj \<Rightarrow> unused_entry list" where
  "unused_entries c =
     List.map_filter (\<lambda>(k, s).
       let stor = (if CHR '':'' \<in> set s then takeWhile (\<lambda>d. d \<noteq> CHR '':'') s else [])
       in if numbered_key [''unused''] k \<and> s \<noteq> []
          then Some \<lparr>ue_id = k, ue_value = s, ue_storage = stor, ue_local = (stor \<in> {''local'', ''local-lvm'', ''local-zfs''})\<rparr> else None)
       (texts_of (sorted_entries c))"

text \<open>The network cards with a bridge: id and bridge.\<close>

definition source_nics :: "obj \<Rightarrow> (string \<times> string) list" where
  "source_nics c =
     List.map_filter (\<lambda>(k, s). if numbered_key [''net''] k then map_option (Pair k) (bridge_match s) else None) (texts_of (sorted_entries c))"

text \<open>\<open>data.raw || data\<close>.\<close>

definition raw_config :: "obj \<Rightarrow> obj" where
  "raw_config data = (case prop_of data ''raw'' of Obj r \<Rightarrow> r | _ \<Rightarrow> data)"

section \<open>Facts\<close>

lemma sorted_entries_set [simp]: "set (sorted_entries c) = set c"
  by (simp add: sorted_entries_def)

text \<open>A disk that is to be moved is a device of the configuration, and its storage is the text before the first colon.\<close>

lemma source_disk_from:
  assumes "d \<in> set (source_disks c)"
  shows "\<exists>rest. (de_id d, Str (de_storage d @ CHR '':'' # rest)) \<in> set c \<and> CHR '':'' \<notin> set (de_storage d) \<and> de_storage d \<noteq> []"
proof -
  obtain s where s: "(de_id d, Str s) \<in> set c" "CHR '':'' \<in> set s" "de_storage d = takeWhile (\<lambda>x. x \<noteq> CHR '':'') s" "de_storage d \<noteq> []"
    using assms by (auto simp: source_disks_def texts_of_def map_filter_def Let_def split: jval.splits if_splits)
  have "dropWhile (\<lambda>x. x \<noteq> CHR '':'') s \<noteq> []" using s(2) by (auto simp: dropWhile_eq_Nil_conv)
  then obtain c' rest where r: "dropWhile (\<lambda>x. x \<noteq> CHR '':'') s = c' # rest" by (cases "dropWhile (\<lambda>x. x \<noteq> CHR '':'') s") auto
  then have "c' = CHR '':''" using hd_dropWhile [of "\<lambda>x. x \<noteq> CHR '':''" s] by simp
  with r s(3) have "s = de_storage d @ CHR '':'' # rest" by (metis takeWhile_dropWhile_id)
  moreover have "CHR '':'' \<notin> set (de_storage d)" using s(3) by (auto dest: set_takeWhileD)
  ultimately show ?thesis using s by blast
qed

text \<open>The boot order of Proxmox separates its devices by semicolons, the code looks at the part before the first one: a
  missing device behind it is not reported.\<close>

lemma boot_issue_missed:
  "boot_issues [(''boot'', Str ''order=scsi0;ide2;scsi9''), (''scsi0'', Str ''local:vm-1-disk-0'')] = []"
  "boot_issues [(''boot'', Str ''order=scsi9;scsi0''), (''scsi0'', Str ''local:vm-1-disk-0'')] = [''scsi9'']"
  by code_simp+

end
