(* ===== verification/Guest_Migration.thy ===== *)
theory Guest_Migration
  imports Guest_Config
begin

text \<open>
  The dialog that moves one guest to another node (\<open>MigrateModal\<close> in web/src/vm_modals.js): what it warns about, and the requests it reads
  from while its fields change. \<open>migrate\<close> holds the states of the dialog and its requests on the wire. A late answer of a
  request that the cleanup of an effect has marked as gone leaves no trace and is left out.
\<close>

section \<open>Snapshots on local disks\<close>

record snap_volume =
  sv_key :: string
  sv_storage :: string
  sv_type :: string
  sv_family :: string

record snap_check =
  sk_count :: nat
  sk_volumes :: "snap_volume list"
  sk_replicated :: "string list"

definition MIG_SNAP_FILE_STORAGES :: "string list" where
  "MIG_SNAP_FILE_STORAGES = [''dir'', ''nfs'', ''cifs'', ''glusterfs'', ''cephfs'', ''btrfs'']"

definition snap_vols :: "snap_check option \<Rightarrow> snap_volume list" where
  "snap_vols k = (case k of None \<Rightarrow> [] | Some q \<Rightarrow> if 0 < sk_count q then sk_volumes q else [])"

text \<open>\<open>snapCarried\<close>: the storage of the target (\<open>[]\<close>: the same as the source) keeps the snapshots of the volume.\<close>

definition snap_carried :: "string \<Rightarrow> snap_volume \<Rightarrow> bool" where
  "snap_carried tgt v \<longleftrightarrow>
     sv_family v \<noteq> [] \<and>
     (tgt = [] \<or> (if sv_family v = ''zfs'' then tgt = ''zfspool''
                   else if sv_family v = ''btrfs'' then tgt = ''btrfs'' else tgt \<in> set MIG_SNAP_FILE_STORAGES))"

definition snap_not_there :: "bool \<Rightarrow> string \<Rightarrow> snap_check option \<Rightarrow> snap_volume list" where
  "snap_not_there live target k =
     (if live
      then filter (\<lambda>v. \<not> (sv_family v = ''zfs'' \<and> target \<noteq> [] \<and> (case k of None \<Rightarrow> False | Some q \<Rightarrow> target \<in> set (sk_replicated q)))) (snap_vols k)
      else [])"

definition snap_stuck :: "bool \<Rightarrow> string \<Rightarrow> snap_check option \<Rightarrow> snap_volume list" where
  "snap_stuck live tgt k = (if live then [] else filter (\<lambda>v. \<not> snap_carried tgt v) (snap_vols k))"

definition snap_copied :: "bool \<Rightarrow> string \<Rightarrow> snap_check option \<Rightarrow> snap_volume list" where
  "snap_copied live tgt k = (if live then [] else filter (snap_carried tgt) (snap_vols k))"

definition snap_disks :: "snap_volume list \<Rightarrow> string" where
  "snap_disks vs =
     join '', '' (map (\<lambda>v. sv_key v @ '' ('' @ sv_storage v @ (if sv_type v \<noteq> [] then '', '' @ sv_type v else []) @ '')'') vs)"

section \<open>The dialog\<close>

record storage_entry =
  se_name :: string
  se_type :: string
  se_content :: string

record move_request =
  mo_target :: string
  mo_online :: bool
  mo_storage :: "string option"
  mo_disks :: bool
  mo_conntrack :: "bool option"

text \<open>\<open>mm_loads\<close> are the nodes whose storages are being read, \<open>mm_config_wait\<close>, \<open>mm_dir_wait\<close> and \<open>mm_snap_wait\<close> the other
  requests that are out.\<close>

record migrate =
  mm_node :: string
  mm_type :: string
  mm_running :: bool
  mm_nodes :: "string list"
  mm_target :: string
  mm_storage :: string
  mm_online :: bool
  mm_disks :: bool
  mm_conntrack :: bool
  mm_loading :: bool
  mm_storages :: "storage_entry list"
  mm_loading_storages :: bool
  mm_local :: bool
  mm_isos :: "iso list"
  mm_boot :: "string list"
  mm_virtiofs :: "(string \<times> string) list"
  mm_dirs :: "(string \<times> string list) list option"
  mm_snap :: "snap_check option"
  mm_config_wait :: bool
  mm_dir_wait :: bool
  mm_snap_wait :: bool
  mm_loads :: "string list"
  mm_sent :: "move_request list"
  mm_open :: bool

definition migrate_new :: "string \<Rightarrow> string \<Rightarrow> bool \<Rightarrow> string list \<Rightarrow> migrate" where
  "migrate_new node ty running nodes =
     \<lparr>mm_node = node, mm_type = ty, mm_running = running, mm_nodes = nodes, mm_target = [], mm_storage = [], mm_online = True,
      mm_disks = False, mm_conntrack = False, mm_loading = False, mm_storages = [], mm_loading_storages = False, mm_local = False,
      mm_isos = [], mm_boot = [], mm_virtiofs = [], mm_dirs = None, mm_snap = None, mm_config_wait = True, mm_dir_wait = False,
      mm_snap_wait = True, mm_loads = [], mm_sent = [], mm_open = True\<rparr>"

definition available_nodes :: "migrate \<Rightarrow> string list" where
  "available_nodes s = filter (\<lambda>n. n \<noteq> mm_node s) (mm_nodes s)"

text \<open>\<open>processVmConfig\<close>, and the effect on the number of shares.\<close>

definition process_config :: "obj \<Rightarrow> migrate \<Rightarrow> migrate" where
  "process_config data s =
     (let c = raw_config data; v = virtiofs_shares c
      in s\<lparr>mm_local := has_local_disk c, mm_disks := (mm_disks s \<or> has_local_disk c), mm_isos := found_isos c, mm_boot := boot_issues c,
           mm_virtiofs := v,
           mm_dir_wait := (if length v = length (mm_virtiofs s) then mm_dir_wait s else v \<noteq> [])\<rparr>)"

definition vfs_running :: "migrate \<Rightarrow> bool" where
  "vfs_running s \<longleftrightarrow> mm_virtiofs s \<noteq> [] \<and> mm_running s"

text \<open>The shares whose mapping does not cover the target.\<close>

definition vfs_missing :: "migrate \<Rightarrow> string list" where
  "vfs_missing s =
     (case mm_dirs s of None \<Rightarrow> []
      | Some ms \<Rightarrow>
          if mm_target s = [] then []
          else filter (\<lambda>d. \<not> list_ex (\<lambda>(i, ns). i = d \<and> mm_target s \<in> set ns) ms) (map snd (mm_virtiofs s)))"

definition snap_live :: "migrate \<Rightarrow> bool" where
  "snap_live s \<longleftrightarrow> mm_type s \<noteq> ''lxc'' \<and> mm_running s \<and> mm_online s"

definition target_store_type :: "migrate \<Rightarrow> string" where
  "target_store_type s =
     (if mm_storage s = [] then []
      else (case find (\<lambda>e. se_name e = mm_storage s) (mm_storages s) of None \<Rightarrow> [] | Some e \<Rightarrow> se_type e))"

text \<open>Another target: the effect reads its storages, or clears them.\<close>

definition pick_target :: "string \<Rightarrow> migrate \<Rightarrow> migrate" where
  "pick_target n s =
     (if n = mm_target s then s
      else if n = [] then s\<lparr>mm_target := [], mm_storages := [], mm_storage := []\<rparr>
      else s\<lparr>mm_target := n, mm_loading_storages := True, mm_loads := mm_loads s @ [n]\<rparr>)"

definition holds_guests :: "storage_entry \<Rightarrow> bool" where
  "holds_guests e \<longleftrightarrow> js_includes (se_content e) ''images'' \<or> js_includes (se_content e) ''rootdir''"

definition storages_answer :: "nat \<Rightarrow> storage_entry list option \<Rightarrow> migrate \<Rightarrow> migrate" where
  "storages_answer i a s =
     (let s1 = s\<lparr>mm_loads := drop_nth i (mm_loads s), mm_loading_storages := False\<rparr>
      in case a of None \<Rightarrow> s1 | Some es \<Rightarrow> s1\<lparr>mm_storages := filter holds_guests es\<rparr>)"

definition go_disabled :: "migrate \<Rightarrow> bool" where
  "go_disabled s \<longleftrightarrow> mm_target s = [] \<or> mm_loading s \<or> vfs_running s \<or> vfs_missing s \<noteq> []"

definition handleMigrate :: "migrate \<Rightarrow> migrate" where
  "handleMigrate s =
     (if mm_target s = [] then s
      else s\<lparr>mm_loading := True,
             mm_sent := mm_sent s @ [\<lparr>mo_target = mm_target s, mo_online = mm_online s,
               mo_storage = (if mm_storage s = [] then None else Some (mm_storage s)), mo_disks = mm_disks s,
               mo_conntrack = (if mm_type s = ''lxc'' then Some (mm_conntrack s) else None)\<rparr>]\<rparr>)"

datatype migrate_event =
    Config_Answer "obj option"
  | Config_Frame obj
  | Dirs_Answer "(string \<times> string list) list option"
  | Snap_Answer "snap_check option"
  | Storages_Answer nat "storage_entry list option"
  | Choose_Target string
  | Choose_Storage string
  | Choose_Online bool
  | Choose_Disks bool
  | Choose_Conntrack bool
  | Go
  | Went
  | Leave

definition migrate_exec :: "migrate \<Rightarrow> migrate_event \<Rightarrow> migrate option" where
  "migrate_exec s e =
     (if \<not> mm_open s then None
      else case e of
        Config_Answer a \<Rightarrow>
          if mm_config_wait s
          then Some ((case a of None \<Rightarrow> s | Some d \<Rightarrow> process_config d s)\<lparr>mm_config_wait := False\<rparr>) else None
      | Config_Frame d \<Rightarrow> Some (process_config d s)
      | Dirs_Answer a \<Rightarrow> if mm_dir_wait s then Some (s\<lparr>mm_dirs := a, mm_dir_wait := False\<rparr>) else None
      | Snap_Answer a \<Rightarrow> if mm_snap_wait s then Some (s\<lparr>mm_snap := a, mm_snap_wait := False\<rparr>) else None
      | Storages_Answer i a \<Rightarrow> if i < length (mm_loads s) then Some (storages_answer i a s) else None
      | Choose_Target n \<Rightarrow> if n = [] \<or> n \<in> set (available_nodes s) then Some (pick_target n s) else None
      | Choose_Storage n \<Rightarrow>
          if mm_target s \<noteq> [] \<and> \<not> mm_loading_storages s \<and> (n = [] \<or> n \<in> se_name ` set (mm_storages s)) then Some (s\<lparr>mm_storage := n\<rparr>) else None
      | Choose_Online b \<Rightarrow> Some (s\<lparr>mm_online := b\<rparr>)
      | Choose_Disks b \<Rightarrow> Some (s\<lparr>mm_disks := b\<rparr>)
      | Choose_Conntrack b \<Rightarrow> if mm_type s = ''lxc'' then Some (s\<lparr>mm_conntrack := b\<rparr>) else None
      | Go \<Rightarrow> if go_disabled s then None else Some (handleMigrate s)
      | Went \<Rightarrow> if mm_loading s then Some (s\<lparr>mm_loading := False, mm_open := False\<rparr>) else None
      | Leave \<Rightarrow> Some (s\<lparr>mm_open := False\<rparr>))"

section \<open>Facts\<close>

text \<open>A volume with snapshots is in exactly one of the warnings of an offline move; a live move warns about all that replication does
  not have on the target.\<close>

lemma snap_classes:
  "mset (snap_stuck False tgt k) + mset (snap_copied False tgt k) = mset (snap_vols k)"
  "v \<in> set (snap_vols k) \<Longrightarrow> v \<notin> set (snap_not_there True target k) \<Longrightarrow> sv_family v = ''zfs'' \<and> target \<noteq> []"
  by (simp_all add: snap_stuck_def snap_copied_def snap_not_there_def add.commute multiset_partition [symmetric])

text \<open>What is sent while virtiofs shares are known: the guest does not run, and the mappings, as far as they are known, have each share
  on the target.\<close>

lemma go_guarded:
  assumes "migrate_exec s Go = Some s'" and "(k, d) \<in> set (mm_virtiofs s)"
  shows "\<not> mm_running s \<and> (case mm_dirs s of None \<Rightarrow> True | Some ms \<Rightarrow> \<exists>ns. (d, ns) \<in> set ms \<and> mm_target s \<in> set ns)"
proof -
  have "\<not> go_disabled s" using assms(1) by (auto simp: migrate_exec_def split: if_splits)
  moreover have "d \<in> set (map snd (mm_virtiofs s))" using assms(2) by force
  ultimately show ?thesis using assms(2)
    by (fastforce simp: go_disabled_def vfs_running_def vfs_missing_def filter_empty_conv list_ex_iff split: option.splits)
qed

text \<open>The storage chosen stays when the target changes, also if the new target does not have it: the field then shows its first entry, the
  request names the storage of the other node.\<close>

definition demo_storage :: "string \<Rightarrow> storage_entry" where
  "demo_storage n = \<lparr>se_name = n, se_type = ''dir'', se_content = ''images,rootdir''\<rparr>"

lemma storage_of_other_node:
  "run_ends migrate_exec (migrate_new ''a'' ''qemu'' True [''a'', ''b'', ''c''])
     [Choose_Target ''b'', Storages_Answer 0 (Some [demo_storage ''only-b'']), Choose_Storage ''only-b'',
      Choose_Target ''c'', Storages_Answer 0 (Some [demo_storage ''only-c'']), Go]
     (\<lambda>s. map se_name (mm_storages s) = [''only-c''] \<and> map mo_target (mm_sent s) = [''c''] \<and> map mo_storage (mm_sent s) = [Some ''only-b''])"
  by code_simp

end
