(* ===== verification/Cross_Migration.thy ===== *)
theory Cross_Migration
  imports Guest_Config Migration_Check
begin

text \<open>
  The dialog that moves a guest to another cluster (\<open>CrossClusterMigrateModal\<close> in web/src/vm_modals.js): the effects that read the
  nodes of the target cluster and the storages and networks of the target node, the maps from the storages and bridges of the
  guest to those of the target, the check and the request. \<open>cross\<close> holds the states of the dialog and its requests on the wire; an effect
  runs when its field changes. The guest and the source cluster stay the same while the dialog is open.
\<close>

section \<open>State\<close>

record cross_payload =
  xp_source :: string
  xp_target :: string
  xp_vmid :: int
  xp_type :: string
  xp_from_node :: string
  xp_to_node :: string
  xp_storage :: string
  xp_new_vmid :: "int option"
  xp_online :: bool
  xp_force :: bool
  xp_delete :: bool
  xp_storage_map :: "(string \<times> string) list"
  xp_bridge_map :: "(string \<times> string) list"

record cross_request =
  xr_payload :: cross_payload
  xr_override :: "int list"
  xr_confirm :: bool

record network =
  nw_iface :: string
  nw_type :: string
  nw_ovs_bridge :: string
  nw_source :: string

text \<open>A read of the resources of a node: cluster and node asked, and the storage chosen when it began; first its storages, then its
  networks.\<close>

datatype resource_load = Load_Storages string string string | Load_Networks string string

record cross =
  xm_source :: string
  xm_clusters :: "string list"
  xm_vmid :: int
  xm_type :: string
  xm_from :: string
  xm_read_only :: bool
  xm_cluster :: string
  xm_node :: string
  xm_storage :: string
  xm_bridge_map :: "(string \<times> string) list"
  xm_storage_map :: "(string \<times> string) list"
  xm_nics :: "(string \<times> string) list"
  xm_disks :: "disk_entry list"
  xm_vmid_text :: string
  xm_online :: bool
  xm_force :: bool
  xm_delete :: bool
  xm_loading :: bool
  xm_nodes :: "(string \<times> string) list"
  xm_storages :: "string list"
  xm_bridges :: "network list"
  xm_loading_nodes :: bool
  xm_loading_resources :: bool
  xm_isos :: "iso list"
  xm_boot :: "string list"
  xm_gib :: rat
  xm_unused :: "unused_entry list"
  xm_pf :: "cross_payload preflight"
  xm_checking :: "cross_payload option"
  xm_config_wait :: bool
  xm_node_loads :: "string list"
  xm_loads :: "resource_load list"
  xm_sent :: "cross_request list"
  xm_open :: bool

definition cross_new :: "string \<Rightarrow> string list \<Rightarrow> int \<Rightarrow> string \<Rightarrow> string \<Rightarrow> bool \<Rightarrow> cross" where
  "cross_new src clusters vmid ty from ro =
     \<lparr>xm_source = src, xm_clusters = filter (\<lambda>c. c \<noteq> src) clusters, xm_vmid = vmid, xm_type = ty, xm_from = from, xm_read_only = ro,
      xm_cluster = [], xm_node = [], xm_storage = [], xm_bridge_map = [], xm_storage_map = [], xm_nics = [], xm_disks = [],
      xm_vmid_text = [], xm_online = True, xm_force = False, xm_delete = True, xm_loading = False, xm_nodes = [], xm_storages = [],
      xm_bridges = [], xm_loading_nodes = False, xm_loading_resources = False, xm_isos = [], xm_boot = [], xm_gib = 0, xm_unused = [],
      xm_pf = preflight_new, xm_checking = None, xm_config_wait = True, xm_node_loads = [], xm_loads = [], xm_sent = [], xm_open = True\<rparr>"

section \<open>The maps\<close>

text \<open>Every source gets an entry: what it was mapped to, or its own name.\<close>

definition keep_map :: "string list \<Rightarrow> (string \<times> string) list \<Rightarrow> (string \<times> string) list" where
  "keep_map names prev =
     foldl (\<lambda>m n. AList.update n (case map_of prev n of None \<Rightarrow> n | Some t \<Rightarrow> if t \<noteq> [] then t else n) m) [] names"

text \<open>What the target has decides: the same name, else the choice so far, else its first.\<close>

definition remap :: "string list \<Rightarrow> string \<Rightarrow> (string \<times> string) list \<Rightarrow> (string \<times> string) list" where
  "remap avail fallback m = map (\<lambda>(src, tgt). (src, if src \<in> set avail then src else if tgt \<in> set avail then tgt else fallback)) m"

definition cross_config :: "obj \<Rightarrow> cross \<Rightarrow> cross" where
  "cross_config data s =
     (let c = raw_config data; disks = source_disks c; nics = source_nics c
      in s\<lparr>xm_isos := found_isos c, xm_boot := boot_issues c, xm_gib := total_disk_gib c, xm_unused := unused_entries c,
           xm_disks := disks, xm_storage_map := keep_map (map de_storage disks) (xm_storage_map s),
           xm_nics := nics, xm_bridge_map := keep_map (map snd nics) (xm_bridge_map s)\<rparr>)"

section \<open>Target cluster and node\<close>

text \<open>A new node: the effect reads its resources with the cluster chosen now, or clears them. The cluster is no trigger.\<close>

definition cross_set_node :: "string \<Rightarrow> cross \<Rightarrow> cross" where
  "cross_set_node n s =
     (if n = xm_node s then s
      else let s1 = s\<lparr>xm_node := n\<rparr>
           in if xm_cluster s \<noteq> [] \<and> n \<noteq> []
              then s1\<lparr>xm_loading_resources := True, xm_loads := xm_loads s @ [Load_Storages (xm_cluster s) n (xm_storage s)]\<rparr>
              else s1\<lparr>xm_storages := [], xm_bridges := []\<rparr>)"

definition cross_set_cluster :: "string \<Rightarrow> cross \<Rightarrow> cross" where
  "cross_set_cluster c s =
     (if c = xm_cluster s then s
      else let s1 = s\<lparr>xm_cluster := c\<rparr>
           in if c \<noteq> [] then s1\<lparr>xm_loading_nodes := True, xm_node_loads := xm_node_loads s @ [c]\<rparr>
              else cross_set_node [] (s1\<lparr>xm_nodes := []\<rparr>))"

text \<open>The nodes with their status, whichever cluster they were asked of: the first one online is chosen.\<close>

definition nodes_answer :: "nat \<Rightarrow> (string \<times> string) list option \<Rightarrow> cross \<Rightarrow> cross" where
  "nodes_answer i a s =
     (let s1 = s\<lparr>xm_node_loads := drop_nth i (xm_node_loads s), xm_loading_nodes := False\<rparr>
      in case a of None \<Rightarrow> s1
         | Some ns \<Rightarrow>
             (let s2 = s1\<lparr>xm_nodes := ns\<rparr>
              in case find (\<lambda>n. snd n = ''online'') ns of None \<Rightarrow> s2 | Some n \<Rightarrow> cross_set_node (fst n) s2))"

text \<open>An answer: none or no success; a success whose body is no list; a list.\<close>

datatype 'a list_answer = Refused_List | Broken_List | Given_List "'a list"

definition storages_read :: "nat \<Rightarrow> string \<Rightarrow> string \<Rightarrow> string \<Rightarrow> string list_answer \<Rightarrow> cross \<Rightarrow> cross" where
  "storages_read i c n chosen a s =
     (case a of
        Refused_List \<Rightarrow> s\<lparr>xm_loads := (xm_loads s)[i := Load_Networks c n]\<rparr>
      | Broken_List \<Rightarrow> s\<lparr>xm_loads := drop_nth i (xm_loads s), xm_loading_resources := False\<rparr>
      | Given_List names \<Rightarrow>
          s\<lparr>xm_storages := names,
            xm_storage_map := remap names (case names of m # _ \<Rightarrow> if m \<noteq> [] then m else ''local-lvm'' | [] \<Rightarrow> ''local-lvm'') (xm_storage_map s),
            xm_storage := (if chosen = [] \<and> names \<noteq> [] then hd names else xm_storage s),
            xm_loads := (xm_loads s)[i := Load_Networks c n]\<rparr>)"

definition is_bridge :: "network \<Rightarrow> bool" where
  "is_bridge n \<longleftrightarrow>
     nw_type n \<notin> {''OVSIntPort'', ''OVSPort'', ''OVSBond''} \<and> nw_ovs_bridge n = [] \<and>
     (nw_type n = ''bridge'' \<or> nw_type n = ''OVSBridge'' \<or> nw_source n = ''sdn'')"

definition networks_read :: "nat \<Rightarrow> network list_answer \<Rightarrow> cross \<Rightarrow> cross" where
  "networks_read i a s =
     (let s1 = s\<lparr>xm_loads := drop_nth i (xm_loads s), xm_loading_resources := False\<rparr>
      in case a of
           Given_List ns \<Rightarrow>
             (let bs = filter is_bridge ns; names = map nw_iface bs
              in s1\<lparr>xm_bridges := bs,
                    xm_bridge_map := remap names (case names of m # _ \<Rightarrow> if m \<noteq> [] then m else ''vmbr0'' | [] \<Rightarrow> ''vmbr0'') (xm_bridge_map s)\<rparr>)
         | _ \<Rightarrow> s1)"

section \<open>Check and request\<close>

definition buildPayload :: "cross \<Rightarrow> cross_payload" where
  "buildPayload s =
     \<lparr>xp_source = xm_source s, xp_target = xm_cluster s, xp_vmid = xm_vmid s, xp_type = xm_type s, xp_from_node = xm_from s,
      xp_to_node = xm_node s, xp_storage = xm_storage s, xp_new_vmid = (if xm_vmid_text s \<noteq> [] then parse_int (xm_vmid_text s) else None),
      xp_online = xm_online s, xp_force = xm_force s, xp_delete = xm_delete s, xp_storage_map = xm_storage_map s,
      xp_bridge_map = xm_bridge_map s\<rparr>"

text \<open>Without a map of bridges, the payload names one bridge.\<close>

definition target_bridge :: "cross_payload \<Rightarrow> string option" where
  "target_bridge p = (if xp_bridge_map p = [] then Some ''vmbr0'' else None)"

definition cross_plan :: "cross \<Rightarrow> pf_plan option" where
  "cross_plan s = pf_the_plan (buildPayload s) (xm_pf s)"

definition cross_blocked :: "cross \<Rightarrow> bool" where
  "cross_blocked s = (case cross_plan s of None \<Rightarrow> False | Some p \<Rightarrow> pp_moving p = [] \<or> pp_needs_confirm p)"

definition cross_runCheck :: "cross \<Rightarrow> cross" where
  "cross_runCheck s =
     (if xm_cluster s = [] \<or> xm_node s = [] \<or> pf_busy (xm_pf s) then s
      else s\<lparr>xm_pf := pf_run (xm_pf s), xm_checking := Some (buildPayload s)\<rparr>)"

definition cross_request_of :: "cross \<Rightarrow> cross_request" where
  "cross_request_of s =
     (let over = (case cross_plan s of None \<Rightarrow> [] | Some p \<Rightarrow> pp_overridden p)
      in \<lparr>xr_payload = buildPayload s, xr_override = over, xr_confirm = (over \<noteq> [])\<rparr>)"

definition cross_handleMigrate :: "cross \<Rightarrow> cross" where
  "cross_handleMigrate s =
     (if xm_cluster s = [] \<or> xm_node s = [] \<or> cross_blocked s \<or> (xm_storage_map s = [] \<and> xm_storage s = []) then s
      else s\<lparr>xm_loading := True, xm_sent := xm_sent s @ [cross_request_of s]\<rparr>)"

definition cross_disabled :: "cross \<Rightarrow> bool" where
  "cross_disabled s \<longleftrightarrow> xm_cluster s = [] \<or> xm_node s = [] \<or> xm_storage s = [] \<or> xm_loading s \<or> cross_blocked s"

datatype cross_event =
    X_Config "obj option"
  | X_Frame obj
  | X_Cluster string
  | X_Node string
  | X_Nodes nat "(string \<times> string) list option"
  | X_Storages nat "string list_answer"
  | X_Networks nat "network list_answer"
  | X_Map_Storage string string
  | X_Storage string
  | X_Map_Bridge string string
  | X_Bridge string
  | X_Vmid string
  | X_Online bool
  | X_Force bool
  | X_Delete bool
  | X_Check
  | X_Checked check_result
  | X_Tick int bool
  | X_Confirm bool
  | X_Start
  | X_Started
  | X_Leave

text \<open>The fields below the target node are shown once its resources are read.\<close>

definition fields_shown :: "cross \<Rightarrow> bool" where
  "fields_shown s \<longleftrightarrow> xm_cluster s \<noteq> [] \<and> \<not> (xm_loading_nodes s \<and> xm_nodes s = []) \<and> xm_node s \<noteq> [] \<and> \<not> xm_loading_resources s"

definition bridge_options :: "cross \<Rightarrow> string list" where
  "bridge_options s = (if xm_bridges s = [] then [''vmbr0''] else map nw_iface (xm_bridges s))"

text \<open>Without network cards, only bridges that are not of the SDN are offered.\<close>

definition plain_bridges :: "cross \<Rightarrow> string list" where
  "plain_bridges s = (if xm_bridges s = [] then [''vmbr0''] else map nw_iface (filter (\<lambda>b. nw_source b \<noteq> ''sdn'') (xm_bridges s)))"

definition cross_edit :: "cross \<Rightarrow> cross_event \<Rightarrow> cross option" where
  "cross_edit s e =
     (case e of
        X_Map_Storage src t \<Rightarrow>
          if src \<in> de_storage ` set (xm_disks s) \<and> (t = [] \<or> t \<in> set (xm_storages s))
          then Some (s\<lparr>xm_storage_map := AList.update src t (xm_storage_map s), xm_storage := t\<rparr>) else None
      | X_Storage t \<Rightarrow> if xm_disks s = [] \<and> (t = [] \<or> t \<in> set (xm_storages s)) then Some (s\<lparr>xm_storage := t\<rparr>) else None
      | X_Map_Bridge src t \<Rightarrow>
          if src \<in> snd ` set (xm_nics s) \<and> t \<in> set (bridge_options s)
          then Some (s\<lparr>xm_bridge_map := AList.update src t (xm_bridge_map s)\<rparr>) else None
      | X_Bridge t \<Rightarrow> if xm_nics s = [] \<and> t \<in> set (plain_bridges s) then Some (s\<lparr>xm_bridge_map := [(''vmbr0'', t)]\<rparr>) else None
      | X_Vmid t \<Rightarrow> Some (s\<lparr>xm_vmid_text := t\<rparr>)
      | X_Online b \<Rightarrow> if xm_type s = ''qemu'' then Some (s\<lparr>xm_online := b\<rparr>) else None
      | X_Force b \<Rightarrow> if 100 < xm_gib s \<and> xm_online s \<and> xm_type s = ''qemu'' then Some (s\<lparr>xm_force := b\<rparr>) else None
      | X_Delete b \<Rightarrow> Some (s\<lparr>xm_delete := b\<rparr>)
      | _ \<Rightarrow> None)"

definition cross_exec :: "cross \<Rightarrow> cross_event \<Rightarrow> cross option" where
  "cross_exec s e =
     (if \<not> xm_open s then None
      else case e of
        X_Config a \<Rightarrow>
          if xm_config_wait s then Some ((case a of None \<Rightarrow> s | Some d \<Rightarrow> cross_config d s)\<lparr>xm_config_wait := False\<rparr>) else None
      | X_Frame d \<Rightarrow> Some (cross_config d s)
      | X_Cluster c \<Rightarrow> if c = [] \<or> c \<in> set (xm_clusters s) then Some (cross_set_cluster c s) else None
      | X_Node n \<Rightarrow>
          if xm_cluster s \<noteq> [] \<and> \<not> (xm_loading_nodes s \<and> xm_nodes s = []) \<and> (n = [] \<or> n \<in> fst ` set (xm_nodes s))
          then Some (cross_set_node n s) else None
      | X_Nodes i a \<Rightarrow> if i < length (xm_node_loads s) then Some (nodes_answer i a s) else None
      | X_Storages i a \<Rightarrow>
          if i < length (xm_loads s)
          then (case xm_loads s ! i of Load_Storages c n t \<Rightarrow> Some (storages_read i c n t a s) | Load_Networks c n \<Rightarrow> None) else None
      | X_Networks i a \<Rightarrow>
          if i < length (xm_loads s)
          then (case xm_loads s ! i of Load_Networks c n \<Rightarrow> Some (networks_read i a s) | Load_Storages c n t \<Rightarrow> None) else None
      | X_Check \<Rightarrow>
          if xm_cluster s = [] \<or> xm_node s = [] \<or> xm_loading s \<or> pf_busy (xm_pf s) then None else Some (cross_runCheck s)
      | X_Checked a \<Rightarrow>
          (case xm_checking s of None \<Rightarrow> None | Some k \<Rightarrow> Some (s\<lparr>xm_pf := pf_answer k a (xm_pf s), xm_checking := None\<rparr>))
      | X_Tick v on \<Rightarrow>
          (case pf_result (xm_pf s) of None \<Rightarrow> None
           | Some (k, rows) \<Rightarrow>
               if xm_cluster s \<noteq> [] \<and> xm_node s \<noteq> [] \<and> list_ex (\<lambda>g. may_override g \<and> cg_vmid g = v) rows
               then Some (s\<lparr>xm_pf := pf_tick v on (xm_pf s)\<rparr>) else None)
      | X_Confirm b \<Rightarrow>
          if xm_cluster s \<noteq> [] \<and> xm_node s \<noteq> [] \<and> pf_ticks (xm_pf s) \<noteq> [] then Some (s\<lparr>xm_pf := pf_confirm b (xm_pf s)\<rparr>) else None
      | X_Start \<Rightarrow> if xm_read_only s \<or> cross_disabled s then None else Some (cross_handleMigrate s)
      | X_Started \<Rightarrow> if xm_loading s then Some (s\<lparr>xm_loading := False, xm_open := False\<rparr>) else None
      | X_Leave \<Rightarrow> Some (s\<lparr>xm_open := False\<rparr>)
      | _ \<Rightarrow> if fields_shown s then cross_edit s e else None)"

section \<open>Consent\<close>

definition cross_box :: "cross_event \<Rightarrow> check_event" where
  "cross_box e = (case e of X_Checked a \<Rightarrow> Answered a | X_Tick v on \<Rightarrow> Ticked v on | X_Confirm b \<Rightarrow> Confirmed b | _ \<Rightarrow> No_Box)"

definition cross_client :: "cross \<Rightarrow> (cross, cross_event, cross_payload, cross_request) check_client" where
  "cross_client s = \<lparr>cc_exec = cross_exec, cc_new = s, cc_asked = xm_checking, cc_box = cross_box, cc_starts = (\<lambda>e. e = X_Start),
     cc_over = xr_override, cc_fits = (\<lambda>k r. xr_payload r = k)\<rparr>"

lemma cross_client_sel [simp]:
  "cc_exec (cross_client s) = cross_exec" "cc_new (cross_client s) = s" "cc_asked (cross_client s) = xm_checking"
  "cc_box (cross_client s) = cross_box" "cc_starts (cross_client s) e \<longleftrightarrow> e = X_Start" "cc_over (cross_client s) = xr_override"
  "cc_fits (cross_client s) k r \<longleftrightarrow> xr_payload r = k"
  by (simp_all add: cross_client_def)

lemma cross_planned: "overrides_planned (xm_pf s) (\<lambda>k. xr_payload (cross_request_of s) = k) (xr_override (cross_request_of s))"
proof (cases "pf_current (buildPayload s) (xm_pf s)")
  case None
  then show ?thesis by (simp add: overrides_planned_def cross_request_of_def cross_plan_def pf_the_plan_def Let_def)
next
  case (Some rows)
  then show ?thesis
    by (auto simp: overrides_planned_def cross_request_of_def cross_plan_def pf_the_plan_def pf_current_def Let_def split: option.splits if_splits)
qed

text \<open>What touches neither boxes nor requests.\<close>

lemma set_node_same [simp]:
  "xm_pf (cross_set_node n s) = xm_pf s" "xm_sent (cross_set_node n s) = xm_sent s"
  "xm_storage_map (cross_set_node n s) = xm_storage_map s" "xm_bridge_map (cross_set_node n s) = xm_bridge_map s"
  "xm_disks (cross_set_node n s) = xm_disks s" "xm_nics (cross_set_node n s) = xm_nics s"
  by (simp_all add: cross_set_node_def Let_def)

lemma set_cluster_same [simp]:
  "xm_pf (cross_set_cluster c s) = xm_pf s" "xm_sent (cross_set_cluster c s) = xm_sent s"
  "xm_storage_map (cross_set_cluster c s) = xm_storage_map s" "xm_bridge_map (cross_set_cluster c s) = xm_bridge_map s"
  "xm_disks (cross_set_cluster c s) = xm_disks s" "xm_nics (cross_set_cluster c s) = xm_nics s"
  by (simp_all add: cross_set_cluster_def Let_def)

lemma nodes_answer_same [simp]:
  "xm_pf (nodes_answer i a s) = xm_pf s" "xm_sent (nodes_answer i a s) = xm_sent s"
  "xm_storage_map (nodes_answer i a s) = xm_storage_map s" "xm_bridge_map (nodes_answer i a s) = xm_bridge_map s"
  "xm_disks (nodes_answer i a s) = xm_disks s" "xm_nics (nodes_answer i a s) = xm_nics s"
  by (simp_all add: nodes_answer_def Let_def split: option.split)

lemma reads_same [simp]:
  "xm_pf (storages_read i c n t a s) = xm_pf s" "xm_sent (storages_read i c n t a s) = xm_sent s"
  "xm_bridge_map (storages_read i c n t a s) = xm_bridge_map s" "xm_disks (storages_read i c n t a s) = xm_disks s"
  "xm_nics (storages_read i c n t a s) = xm_nics s"
  "xm_pf (networks_read i b s) = xm_pf s" "xm_sent (networks_read i b s) = xm_sent s"
  "xm_storage_map (networks_read i b s) = xm_storage_map s" "xm_disks (networks_read i b s) = xm_disks s"
  "xm_nics (networks_read i b s) = xm_nics s"
  by (simp_all add: storages_read_def networks_read_def Let_def split: list_answer.split)

lemma config_same [simp]: "xm_pf (cross_config d s) = xm_pf s" "xm_sent (cross_config d s) = xm_sent s"
  by (simp_all add: cross_config_def Let_def)

lemma edit_same: "cross_edit s e = Some s' \<Longrightarrow> xm_pf s' = xm_pf s \<and> xm_sent s' = xm_sent s \<and> xm_disks s' = xm_disks s \<and> xm_nics s' = xm_nics s"
  by (auto simp: cross_edit_def split: cross_event.splits if_splits)

lemma edit_kind: "cross_edit s e = Some s' \<Longrightarrow> cross_box e = No_Box \<and> e \<noteq> X_Start"
  by (auto simp: cross_edit_def cross_box_def split: cross_event.splits)

lemma cross_exec_open: "cross_exec s e = Some s' \<Longrightarrow> xm_open s"
  by (auto simp: cross_exec_def split: if_splits)

text \<open>The fields are the events of \<open>cross_edit\<close>.\<close>

lemma cross_exec_cases:
  assumes "cross_exec s e = Some s'"
  shows "cross_edit s e = Some s' \<or> (xm_open s \<and> (\<forall>x. cross_edit x e = None))"
  using assms cross_exec_open [OF assms] by (cases e) (auto simp: cross_exec_def cross_edit_def split: if_splits)

lemma cross_box_step:
  assumes "cross_exec s e = Some s'"
  shows "box_step (cross_box e) (xm_checking s) (xm_pf s) (xm_pf s')"
  using cross_exec_cases [OF assms]
proof
  assume "cross_edit s e = Some s'"
  then show ?thesis using edit_same edit_kind by (fastforce simp: box_step_def)
next
  assume "xm_open s \<and> (\<forall>x. cross_edit x e = None)"
  with assms show ?thesis
    by (cases e) (auto simp: cross_exec_def cross_box_def box_step_def cross_runCheck_def pf_run_def cross_handleMigrate_def
        split: if_splits option.splits resource_load.splits)
qed

lemma cross_sent_step:
  assumes "cross_exec s e = Some s'"
  shows "xm_sent s' = xm_sent s \<or> (e = X_Start \<and> xm_sent s' = xm_sent s @ [cross_request_of s])"
  using cross_exec_cases [OF assms]
proof
  assume "cross_edit s e = Some s'"
  then show ?thesis using edit_same by blast
next
  assume "xm_open s \<and> (\<forall>x. cross_edit x e = None)"
  with assms show ?thesis
    by (cases e) (auto simp: cross_exec_def cross_runCheck_def cross_handleMigrate_def split: if_splits option.splits resource_load.splits)
qed

interpretation cross_check: preflight_client "cross_client (cross_new src clusters vmid ty from ro)" xm_pf xm_sent
  for src clusters vmid ty "from" ro
proof
  let ?c = "cross_client (cross_new src clusters vmid ty from ro)"
  fix s e s' assume "cc_exec ?c s e = Some s'"
  then have s: "cross_exec s e = Some s'" by simp
  show "box_step (cc_box ?c e) (cc_asked ?c s) (xm_pf s) (xm_pf s')" using cross_box_step [OF s] by simp
  show "xm_sent s' = xm_sent s \<or> (cc_starts ?c e \<and>
      (\<exists>r. xm_sent s' = xm_sent s @ [r] \<and> overrides_planned (xm_pf s) (\<lambda>k. cc_fits ?c k r) (cc_over ?c r)))"
    using cross_sent_step [OF s] cross_planned [of s] by auto
qed (simp add: cross_new_def preflight_new_def)

section \<open>The maps cover the guest\<close>

definition map_keys :: "(string \<times> string) list \<Rightarrow> string set" where
  "map_keys m = fst ` set m"

lemma keys_update [simp]: "map_keys (AList.update k v m) = insert k (map_keys m)"
  by (induction m) (auto simp: map_keys_def)

lemma keys_remap [simp]: "map_keys (remap avail fb m) = map_keys m"
  by (force simp: map_keys_def remap_def)

lemma keys_keep_map [simp]: "map_keys (keep_map names prev) = set names"
proof -
  have "map_keys (foldl (\<lambda>m n. AList.update n (f n) m) m names) = map_keys m \<union> set names" for f m
    by (induction names arbitrary: m) auto
  then show ?thesis by (simp add: keep_map_def) (simp add: map_keys_def)
qed

definition bridges_in :: "(string \<times> string) list \<Rightarrow> (string \<times> string) list \<Rightarrow> bool" where
  "bridges_in nics m \<longleftrightarrow> snd ` set nics \<subseteq> map_keys m"

lemma bridges_in_simps [simp]:
  "bridges_in [] m" "bridges_in nics (remap avail fb m) = bridges_in nics m" "bridges_in nics (keep_map (map snd nics) prev)"
  by (simp_all add: bridges_in_def)

lemma bridges_in_update [simp]: "bridges_in nics m \<Longrightarrow> bridges_in nics (AList.update k v m)"
  by (auto simp: bridges_in_def)





text \<open>What the target has keeps its name; anything else goes to something that the target has, if it has anything.\<close>

lemma map_of_remap: "map_of (remap avail fb m) k =
    map_option (\<lambda>t. if k \<in> set avail then k else if t \<in> set avail then t else fb) (map_of m k)"
  by (induction m) (simp_all add: remap_def split: prod.split)

lemma remap_targets:
  assumes "avail \<noteq> []" and "hd avail \<noteq> []" and "(k, t) \<in> set (remap avail (hd avail) m)"
  shows "t \<in> set avail"
  using assms by (auto simp: remap_def split: if_splits)

section \<open>Late answers\<close>

text \<open>The nodes of a cluster that is no longer chosen are taken, and the first of them is chosen and asked of the cluster chosen now.\<close>

lemma nodes_of_other_cluster:
  "run_ends cross_exec (cross_new ''src'' [''src'', ''A'', ''B''] 100 ''qemu'' ''n0'' False)
     [X_Cluster ''A'', X_Cluster ''B'', X_Nodes 1 (Some [(''b1'', ''online'')]), X_Nodes 0 (Some [(''a1'', ''online'')])]
     (\<lambda>s. xm_cluster s = ''B'' \<and> xm_nodes s = [(''a1'', ''online'')] \<and> xm_node s = ''a1'')"
  by code_simp

text \<open>The effect on the node does not depend on the cluster: if both clusters have a node of the same name, the storages of the first stay,
  and the request for the second names one of them.\<close>

lemma storages_of_other_cluster:
  "run_ends cross_exec (cross_new ''src'' [''src'', ''A'', ''B''] 100 ''qemu'' ''n0'' False)
     [X_Cluster ''A'', X_Nodes 0 (Some [(''pve1'', ''online'')]), X_Storages 0 (Given_List [''only-a'']), X_Networks 0 (Given_List []),
      X_Cluster ''B'', X_Nodes 0 (Some [(''pve1'', ''online'')]), X_Start]
     (\<lambda>s. xm_loads s = [] \<and> map (xp_target \<circ> xr_payload) (xm_sent s) = [''B''] \<and> map (xp_storage \<circ> xr_payload) (xm_sent s) = [''only-a''])"
  by code_simp

section \<open>Properties\<close>

text \<open>A move to another cluster overrides a block only with consent: the last check was made with exactly the payload that is sent, it said
  that the block may be overridden, since then it was ticked, and the confirmation came after the last tick.\<close>

theorem cross_override_needs_consent:
  assumes "run_exec cross_exec (cross_new src clusters vmid ty from ro) es = Some s"
    and "r \<in> set (xm_sent s)" and "xr_override r \<noteq> []"
  shows "consented (cross_client (cross_new src clusters vmid ty from ro)) es r"
  by (rule cross_check.consent) (use assms in simp_all)

definition demo_vm :: obj where
  "demo_vm = [(''raw'', Obj [(''net0'', Str ''virtio=AA,bridge=vmbr1''), (''scsi0'', Str ''ceph:vm-100-disk-0,size=32G''),
     (''ide2'', Str ''local:iso/x.iso,media=cdrom''), (''scsi1'', Str ''nas:100/d.qcow2'')])]"

definition demo_cross_rows :: "checked_guest list" where
  "demo_cross_rows = [\<lparr>cg_vmid = 100, cg_verdict = ''blocked'', cg_overridable = True\<rparr>]"

definition demo_cross :: "cross_event list" where
  "demo_cross = [X_Config (Some demo_vm), X_Cluster ''A'', X_Nodes 0 (Some [(''a1'', ''offline''), (''a2'', ''online'')]),
     X_Storages 0 (Given_List [''local'', ''nas'']),
     X_Networks 0 (Given_List [\<lparr>nw_iface = ''vmbr0'', nw_type = ''bridge'', nw_ovs_bridge = [], nw_source = []\<rparr>]),
     X_Check, X_Checked (Checked demo_cross_rows), X_Tick 100 True, X_Confirm True]"


lemma demo_cross_sent: "run_ends cross_exec (cross_new ''src'' [''src'', ''A''] 100 ''qemu'' ''n0'' False) (demo_cross @ [X_Start])
    (\<lambda>s. map xr_override (xm_sent s) = [[100]])"
  by code_simp

theorem cross_override_needs_consent_witness:
  "\<exists>r :: cross_request. xr_override r = [100] \<and> consented (cross_client (cross_new ''src'' [''src'', ''A''] 100 ''qemu'' ''n0'' False)) (demo_cross @ [X_Start]) r"
proof -
  obtain s where s: "run_exec cross_exec (cross_new ''src'' [''src'', ''A''] 100 ''qemu'' ''n0'' False) (demo_cross @ [X_Start]) = Some s"
    "map xr_override (xm_sent s) = [[100]]" using demo_cross_sent unfolding run_ends_iff by (elim exE conjE)
  then obtain r where "r \<in> set (xm_sent s)" "xr_override r = [100]" by (cases "xm_sent s") auto
  with cross_override_needs_consent [OF s(1)] show ?thesis by (intro exI [of _ r]) simp
qed



end
