(* ===== verification/Auth_Fetch.thy ===== *)
theory Auth_Fetch
  imports Js_Values
begin

text \<open>
  Requests of the dashboard (\<open>authFetch\<close> and \<open>_dedupeGet\<close> in web/src/dashboard.js, \<open>PegaProxApiErrors\<close> in
  web/src/api_errors.js): equal reads share one request, a lost session raises the overlay, a
  refusal of a standby is worded once for the caller and the toast. The network is a list of requests
  under way, each with the callers that wait for it.
\<close>

definition SESSION_LOST :: "string list" where
  "SESSION_LOST = [''AUTH_REQUIRED'', ''ACCOUNT_DELETED'', ''ACCOUNT_DISABLED'', ''INVALID_SESSION'', ''INVALID_TOKEN'', ''HA_FORWARD_STALE_SIGN_IN'']"

definition sessionLost :: "obj option \<Rightarrow> bool" where
  "sessionLost body = (case body of None \<Rightarrow> False | Some b \<Rightarrow> prop_of b ''code'' \<in> Str ` set SESSION_LOST)"

record response =
  rp_status :: nat
  rp_body :: "obj option"

definition api_message :: "response option \<Rightarrow> string \<Rightarrow> string" where
  "api_message r fallback =
     (case r of
        None \<Rightarrow> fallback
      | Some x \<Rightarrow>
          let err = (case rp_body x of None \<Rightarrow> [] | Some b \<Rightarrow> (case prop_of b ''error'' of Str e \<Rightarrow> trim e | _ \<Rightarrow> []))
          in if err \<noteq> [] then err else fallback)"

record fetch_opts =
  fo_timeout :: bool
  fo_quiet :: bool
  fo_signal :: bool
  fo_body :: bool
  fo_method :: "string option"

definition is_get :: "fetch_opts \<Rightarrow> bool" where
  "is_get o' = (case fo_method o' of None \<Rightarrow> True | Some m \<Rightarrow> m = [] \<or> to_upper m = ''GET'')"

definition dedupable :: "fetch_opts \<Rightarrow> bool" where
  "dedupable o' \<longleftrightarrow> \<not> fo_timeout o' \<and> \<not> fo_signal o' \<and> \<not> fo_body o' \<and> is_get o'"

record caller =
  ca_id :: nat
  ca_url :: string
  ca_opts :: fetch_opts

text \<open>A request on the wire; \<open>wr_shared\<close>: it is in \<open>_inflightGets\<close>.\<close>

record get_wire =
  wr_url :: string
  wr_shared :: bool
  wr_callers :: "caller list"

record fetch_state =
  fs_wires :: "get_wire list"
  fs_started :: "nat list"
  fs_done :: "(nat \<times> response option) list"
  fs_expired :: bool
  fs_probed :: int
  fs_probes :: nat
  fs_error :: bool
  fs_lease_events :: nat
  fs_toasts :: "string list"
  fs_ha_reads :: nat

definition fetch_new :: fetch_state where
  "fetch_new = \<lparr>fs_wires = [], fs_started = [], fs_done = [], fs_expired = False, fs_probed = 0, fs_probes = 0, fs_error = False,
     fs_lease_events = 0, fs_toasts = [], fs_ha_reads = 0\<rparr>"

text \<open>The request of a caller: it joins the one under way for its URL, or starts its own.\<close>

fun join_wire :: "caller \<Rightarrow> get_wire list \<Rightarrow> get_wire list" where
  "join_wire c [] = [\<lparr>wr_url = ca_url c, wr_shared = True, wr_callers = [c]\<rparr>]"
| "join_wire c (w # ws) =
     (if wr_shared w \<and> wr_url w = ca_url c then w\<lparr>wr_callers := wr_callers w @ [c]\<rparr> # ws else w # join_wire c ws)"

definition authFetch :: "caller \<Rightarrow> fetch_state \<Rightarrow> fetch_state" where
  "authFetch c s = s\<lparr>fs_started := fs_started s @ [ca_id c],
     fs_wires := (if dedupable (ca_opts c) then join_wire c (fs_wires s)
                  else fs_wires s @ [\<lparr>wr_url = ca_url c, wr_shared = False, wr_callers = [c]\<rparr>])\<rparr>"

text \<open>\<open>haRefusedRef.current\<close>: the words for a refusal, with their toast unless quiet.\<close>

definition refusal_key :: "bool \<Rightarrow> string \<Rightarrow> string" where
  "refusal_key serving code =
     (if code = ''HA_ACTIVE_UNREACHABLE'' then (if serving then ''pgHaLeaderUnreachable'' else ''pgHaActiveUnreachable'')
      else if code = ''console'' then ''pgHaConsoleOnActive''
      else if serving then ''pgHaServingRefused'' else ''pgHaStandbyRefused'')"

definition haRefused :: "(string \<Rightarrow> string) \<Rightarrow> bool \<Rightarrow> bool \<Rightarrow> string \<Rightarrow> fetch_state \<Rightarrow> string \<times> fetch_state" where
  "haRefused tr serving quiet code s =
     (let msg = tr (refusal_key serving code);
          s1 = (if \<not> quiet then s\<lparr>fs_toasts := fs_toasts s @ [msg]\<rparr> else s)
      in (msg, if \<not> quiet \<and> code \<noteq> ''console'' then s1\<lparr>fs_ha_reads := fs_ha_reads s1 + 1\<rparr> else s1))"

text \<open>A 401: the overlay when PegaProx says that the session is lost, else one question in 15 seconds.\<close>

definition watch_session :: "string \<Rightarrow> response \<Rightarrow> int \<Rightarrow> fetch_state \<Rightarrow> fetch_state" where
  "watch_session url r now s =
     (if rp_status r = 401 \<and> \<not> js_includes url ''/auth/'' \<and> \<not> js_includes url ''/sse''
      then (if sessionLost (rp_body r) then s\<lparr>fs_expired := True\<rparr>
            else if now - fs_probed s > 15000 then s\<lparr>fs_probed := now, fs_probes := fs_probes s + 1\<rparr> else s)
      else s)"

definition body_code :: "response \<Rightarrow> jval" where
  "body_code r = (case rp_body r of None \<Rightarrow> Undef | Some b \<Rightarrow> prop_of b ''code'')"

definition refused :: "response \<Rightarrow> bool" where
  "refused r \<longleftrightarrow> (rp_status r = 409 \<and> body_code r = Str ''HA_STANDBY'') \<or> (rp_status r = 503 \<and> body_code r = Str ''HA_ACTIVE_UNREACHABLE'')"

text \<open>What one caller gets of an answer; \<open>None\<close> is the \<open>null\<close> of a request that failed.\<close>

definition settle_caller :: "(string \<Rightarrow> string) \<Rightarrow> bool \<Rightarrow> int \<Rightarrow> response option \<Rightarrow> caller \<Rightarrow> fetch_state \<Rightarrow> fetch_state" where
  "settle_caller tr serving now a c s =
     (case a of
        None \<Rightarrow> s\<lparr>fs_done := fs_done s @ [(ca_id c, None)]\<rparr>
      | Some r \<Rightarrow>
          let s1 = (watch_session (ca_url c) r now s)\<lparr>fs_error := False\<rparr>;
              s2 = (if rp_status r = 503 \<and> body_code r \<in> {Str ''HA_NO_LEASE'', Str ''HA_TRANSFER''}
                    then s1\<lparr>fs_lease_events := fs_lease_events s1 + 1\<rparr> else s1)
          in if refused r
             then (let read = (rp_status r = 503 \<and> is_get (ca_opts c));
                       (msg, s3) = haRefused tr serving (fo_quiet (ca_opts c) \<or> read) (to_str (body_code r)) s2
                   in s3\<lparr>fs_done := fs_done s3 @ [(ca_id c, Some (r\<lparr>rp_body := map_option (AList.update ''error'' (Str msg)) (rp_body r)\<rparr>))]\<rparr>)
             else s2\<lparr>fs_done := fs_done s2 @ [(ca_id c, Some r)]\<rparr>)"

definition answer_wire :: "(string \<Rightarrow> string) \<Rightarrow> bool \<Rightarrow> nat \<Rightarrow> response option \<Rightarrow> int \<Rightarrow> fetch_state \<Rightarrow> fetch_state" where
  "answer_wire tr serving i a now s =
     fold (settle_caller tr serving now a) (wr_callers (fs_wires s ! i))
       (s\<lparr>fs_wires := take i (fs_wires s) @ drop (Suc i) (fs_wires s)\<rparr>)"

text \<open>The answer of the question whether the session is still there.\<close>

definition probe_answer :: "response option \<Rightarrow> fetch_state \<Rightarrow> fetch_state" where
  "probe_answer a s =
     (let s1 = s\<lparr>fs_probes := fs_probes s - 1\<rparr>
      in case a of
           None \<Rightarrow> s1
         | Some r \<Rightarrow>
             if rp_status r = 401 \<or> (case rp_body r of None \<Rightarrow> False | Some b \<Rightarrow> prop_of b ''authenticated'' = Bool False)
             then s1\<lparr>fs_expired := True\<rparr> else s1)"

text \<open>What the account may do (\<open>can\<close>, \<open>holds\<close>).\<close>

definition holds :: "bool \<Rightarrow> string list \<Rightarrow> string \<Rightarrow> bool" where
  "holds admin perms p \<longleftrightarrow> admin \<or> p \<in> set perms"

definition can :: "bool \<Rightarrow> bool \<Rightarrow> string list \<Rightarrow> string \<Rightarrow> bool" where
  "can read_only admin perms p \<longleftrightarrow> (\<not> read_only \<or> ends_with p ''.view'') \<and> holds admin perms p"

datatype fetch_event =
    Call caller
  | Answer_Wire nat "response option" int
  | Answer_Probe "response option"

definition fetch_exec :: "(string \<Rightarrow> string) \<Rightarrow> bool \<Rightarrow> fetch_state \<Rightarrow> fetch_event \<Rightarrow> fetch_state option" where
  "fetch_exec tr serving s e =
     (case e of
        Call c \<Rightarrow> Some (authFetch c s)
      | Answer_Wire i a now \<Rightarrow> if i < length (fs_wires s) then Some (answer_wire tr serving i a now s) else None
      | Answer_Probe a \<Rightarrow> if 0 < fs_probes s then Some (probe_answer a s) else None)"

section \<open>Every caller is answered once\<close>

definition waiting_ids :: "get_wire list \<Rightarrow> nat multiset" where
  "waiting_ids ws = mset (map ca_id (concat (map wr_callers ws)))"

definition shared_urls :: "get_wire list \<Rightarrow> string list" where
  "shared_urls ws = map wr_url (filter wr_shared ws)"

definition fetch_inv :: "fetch_state \<Rightarrow> bool" where
  "fetch_inv s \<longleftrightarrow> mset (fs_started s) = mset (map fst (fs_done s)) + waiting_ids (fs_wires s) \<and> distinct (shared_urls (fs_wires s))"

lemma waiting_simps [simp]:
  "waiting_ids [] = {#}" "waiting_ids (w # ws) = mset (map ca_id (wr_callers w)) + waiting_ids ws"
  "waiting_ids (xs @ ys) = waiting_ids xs + waiting_ids ys"
  by (simp_all add: waiting_ids_def)

lemma shared_urls_simps [simp]:
  "shared_urls [] = []" "shared_urls (w # ws) = (if wr_shared w then wr_url w # shared_urls ws else shared_urls ws)"
  "shared_urls (xs @ ys) = shared_urls xs @ shared_urls ys"
  by (simp_all add: shared_urls_def)

lemma waiting_join: "waiting_ids (join_wire c ws) = waiting_ids ws + {# ca_id c #}"
  by (induction ws) simp_all

lemma set_shared_join: "set (shared_urls (join_wire c ws)) = insert (ca_url c) (set (shared_urls ws))"
  by (induction ws) auto

lemma distinct_join: "distinct (shared_urls ws) \<Longrightarrow> distinct (shared_urls (join_wire c ws))"
proof (induction ws)
  case (Cons w ws)
  then show ?case
    using set_shared_join [of c ws] by auto
qed simp

lemma waiting_remove:
  assumes "i < length ws"
  shows "waiting_ids ws = mset (map ca_id (wr_callers (ws ! i))) + waiting_ids (take i ws @ drop (Suc i) ws)"
proof -
  have "waiting_ids ws = waiting_ids (take i ws @ ws ! i # drop (Suc i) ws)" using assms by (simp add: id_take_nth_drop [symmetric])
  then show ?thesis by simp
qed

lemma settle_caller_done: "map fst (fs_done (settle_caller tr sv now a c s)) = map fst (fs_done s) @ [ca_id c]"
  "fs_wires (settle_caller tr sv now a c s) = fs_wires s" "fs_started (settle_caller tr sv now a c s) = fs_started s"
  by (simp_all add: settle_caller_def watch_session_def haRefused_def Let_def split: option.split)

lemma fold_settle: "map fst (fs_done (fold (settle_caller tr sv now a) cs s)) = map fst (fs_done s) @ map ca_id cs"
  "fs_wires (fold (settle_caller tr sv now a) cs s) = fs_wires s" "fs_started (fold (settle_caller tr sv now a) cs s) = fs_started s"
  by (induction cs arbitrary: s) (simp_all add: settle_caller_done)

lemma fetch_inv_step:
  assumes inv: "fetch_inv s" and step: "fetch_exec tr sv s e = Some s'"
  shows "fetch_inv s'"
proof (cases e)
  case (Call c)
  with step have s': "s' = authFetch c s" by (simp add: fetch_exec_def)
  show ?thesis using inv distinct_join [of "fs_wires s" c]
    by (simp add: s' authFetch_def fetch_inv_def waiting_join)
next
  case (Answer_Wire i a now)
  with step have i: "i < length (fs_wires s)" and s': "s' = answer_wire tr sv i a now s" by (auto simp: fetch_exec_def split: if_splits)
  have "distinct (shared_urls (take i (fs_wires s) @ drop (Suc i) (fs_wires s)))"
  proof -
    have "shared_urls (fs_wires s) = shared_urls (take i (fs_wires s)) @ shared_urls [fs_wires s ! i] @ shared_urls (drop (Suc i) (fs_wires s))"
      using id_take_nth_drop [OF i] by (metis append_Cons append_Nil shared_urls_simps(3))
    then show ?thesis using inv by (auto simp: fetch_inv_def split: if_splits)
  qed
  then show ?thesis using inv waiting_remove [OF i]
    by (simp add: s' answer_wire_def fetch_inv_def fold_settle)
next
  case (Answer_Probe a)
  with step have "s' = probe_answer a s" by (auto simp: fetch_exec_def split: if_splits)
  then show ?thesis using inv by (simp add: probe_answer_def fetch_inv_def Let_def split: option.split)
qed

interpretation fetch: step_machine "\<lambda>s e s'. fetch_exec tr sv s e = Some s'" "\<lambda>s. s = fetch_new" fetch_inv for tr sv
  by unfold_locales (simp add: fetch_inv_def fetch_new_def, rule fetch_inv_step)

section \<open>The overlay\<close>

text \<open>An event that says that the session is gone.\<close>

definition says_lost :: "fetch_event \<Rightarrow> bool" where
  "says_lost e =
     (case e of
        Call c \<Rightarrow> False
      | Answer_Wire i a now \<Rightarrow> (case a of None \<Rightarrow> False | Some r \<Rightarrow> rp_status r = 401 \<and> sessionLost (rp_body r))
      | Answer_Probe a \<Rightarrow> (case a of None \<Rightarrow> False | Some r \<Rightarrow> rp_status r = 401 \<or>
          (case rp_body r of None \<Rightarrow> False | Some b \<Rightarrow> prop_of b ''authenticated'' = Bool False)))"

lemma settle_expired:
  "fs_expired (settle_caller tr sv now a c s) \<Longrightarrow> \<not> fs_expired s \<Longrightarrow> \<exists>r. a = Some r \<and> rp_status r = 401 \<and> sessionLost (rp_body r)"
  by (auto simp: settle_caller_def watch_session_def haRefused_def Let_def split: option.splits if_splits)

lemma fold_settle_expired:
  "fs_expired (fold (settle_caller tr sv now a) cs s) \<Longrightarrow> \<not> fs_expired s \<Longrightarrow> \<exists>r. a = Some r \<and> rp_status r = 401 \<and> sessionLost (rp_body r)"
proof (induction cs arbitrary: s)
  case (Cons c cs)
  then show ?case using settle_expired [of tr sv now a c s] by (cases "fs_expired (settle_caller tr sv now a c s)") auto
qed simp

lemma expired_step:
  assumes "fetch_exec tr sv s e = Some s'" and "fs_expired s'" and "\<not> fs_expired s"
  shows "says_lost e"
proof (cases e)
  case (Answer_Wire i a now)
  with assms have "fs_expired (fold (settle_caller tr sv now a) (wr_callers (fs_wires s ! i)) (s\<lparr>fs_wires := take i (fs_wires s) @ drop (Suc i) (fs_wires s)\<rparr>))"
    by (auto simp: fetch_exec_def answer_wire_def split: if_splits)
  from fold_settle_expired [OF this] assms(3) show ?thesis by (auto simp: Answer_Wire says_lost_def)
qed (use assms in \<open>auto simp: fetch_exec_def authFetch_def probe_answer_def says_lost_def Let_def split: if_splits option.splits\<close>)

section \<open>Properties\<close>

text \<open>C26. Every call of \<open>authFetch\<close> is answered at most once and none is lost - those answered and those that wait are
  those made - and no two shared requests for the same URL are under way at once.\<close>

theorem fetch_answers_once:
  assumes "steps (\<lambda>s e s'. fetch_exec tr sv s e = Some s') fetch_new es s"
  shows "mset (fs_started s) = mset (map fst (fs_done s)) + waiting_ids (fs_wires s) \<and> distinct (shared_urls (fs_wires s))"
proof -
  have "fetch_inv s" by (rule fetch.inv_run [OF refl assms])
  then show ?thesis by (simp add: fetch_inv_def)
qed

definition plain_get :: fetch_opts where
  "plain_get = \<lparr>fo_timeout = False, fo_quiet = False, fo_signal = False, fo_body = False, fo_method = None\<rparr>"

definition get_call :: "nat \<Rightarrow> string \<Rightarrow> caller" where
  "get_call i u = \<lparr>ca_id = i, ca_url = u, ca_opts = plain_get\<rparr>"

definition demo_fetches :: "fetch_event list" where
  "demo_fetches = [Call (get_call 1 ''/api/a''), Call (get_call 2 ''/api/b''), Call (get_call 3 ''/api/a''),
     Answer_Wire 0 (Some \<lparr>rp_status = 401, rp_body = Some [(''error'', Str ''wrong password'')]\<rparr>) 20000, Call (get_call 4 ''/api/b'')]"

definition plain_tr :: "string \<Rightarrow> string" where
  "plain_tr k = k"

lemma fetch_run: "run_exec (fetch_exec tr sv) s es = Some s' \<Longrightarrow> steps (\<lambda>s e s'. fetch_exec tr sv s e = Some s') s es s'"
  by (rule steps_run_exec) simp_all

theorem fetch_answers_once_witness:
  "run_ends (fetch_exec plain_tr False) fetch_new demo_fetches
     (\<lambda>s. map fst (fs_done s) = [1, 3] \<and> waiting_ids (fs_wires s) = {#2, 4#} \<and> distinct (shared_urls (fs_wires s)))"
proof -
  have "run_ends (fetch_exec plain_tr False) fetch_new demo_fetches (\<lambda>s. map fst (fs_done s) = [1, 3] \<and> fs_started s = [1, 2, 3, 4])"
    by code_simp
  then obtain s where s: "run_exec (fetch_exec plain_tr False) fetch_new demo_fetches = Some s" "map fst (fs_done s) = [1, 3]"
    "fs_started s = [1, 2, 3, 4]" unfolding run_ends_iff by (elim exE conjE)
  have "waiting_ids (fs_wires s) = {#2, 4#}" "distinct (shared_urls (fs_wires s))"
    using fetch_answers_once [OF fetch_run [OF s(1)]] unfolding s(2,3) by (simp_all add: add_mset_commute)
  with s(1,2) show ?thesis unfolding run_ends_iff by (intro exI [of _ s] conjI)
qed

text \<open>The overlay for a lost session is raised only by a 401 that carries one of PegaProx's own codes or by a
  check that says nobody is signed in: a 401 passed on from a hypervisor never signs anybody out.\<close>

theorem overlay_only_when_lost:
  assumes "steps (\<lambda>s e s'. fetch_exec tr sv s e = Some s') fetch_new es s" and "fs_expired s"
  shows "\<exists>e \<in> set es. says_lost e"
proof -
  have "\<exists>e \<in> set es. says_lost e" if "steps (\<lambda>s e s'. fetch_exec tr sv s e = Some s') s0 es s" "\<not> fs_expired s0" for s0
    using that assms(2)
  proof (induction rule: steps.induct)
    case (steps_cons s0 e s1 es s2)
    then show ?case using expired_step [OF steps_cons.hyps(1)] by auto
  qed simp
  from this [OF assms(1)] show ?thesis by (simp add: fetch_new_def)
qed

definition demo_lost :: "fetch_event list" where
  "demo_lost = demo_fetches @ [Answer_Probe (Some \<lparr>rp_status = 200, rp_body = Some [(''authenticated'', Bool False)]\<rparr>)]"

theorem overlay_only_when_lost_witness:
  "run_ends (fetch_exec plain_tr False) fetch_new demo_lost fs_expired \<and> (\<exists>e \<in> set demo_lost. says_lost e)"
proof -
  have r: "run_ends (fetch_exec plain_tr False) fetch_new demo_lost fs_expired" by code_simp
  then obtain s where s: "run_exec (fetch_exec plain_tr False) fetch_new demo_lost = Some s" "fs_expired s"
    unfolding run_ends_iff by (elim exE conjE)
  from r overlay_only_when_lost [OF fetch_run [OF s(1)] s(2)] show ?thesis by (intro conjI)
qed

end
