(* ===== verification/Menus.thy ===== *)
theory Menus
  imports Auth_Fetch
begin

text \<open>
  Menus of a guest: what the context menu keeps for the permissions of the account
  (\<open>buildContextMenuItems\<close> in web/src/dashboard.js), the actions of the Cloud layout (\<open>cloudVmActionItems\<close> in
  web/src/cloud.js), and its texts for sizes and times. Both menus tidy up their separators with the same loop. An entry is
  its label and the name of what it does; icons are left out.
\<close>

section \<open>Separators\<close>

text \<open>The loop: a separator is skipped at the start and after another; then those at the end go.\<close>

definition tidy_step :: "('a \<Rightarrow> bool) \<Rightarrow> 'a \<Rightarrow> 'a list \<Rightarrow> 'a list" where
  "tidy_step sep x out = (if sep x \<and> (out = [] \<or> sep (last out)) then out else out @ [x])"

definition pop_end :: "('a \<Rightarrow> bool) \<Rightarrow> 'a list \<Rightarrow> 'a list" where
  "pop_end sep out = rev (dropWhile sep (rev out))"

definition tidy :: "('a \<Rightarrow> bool) \<Rightarrow> 'a list \<Rightarrow> 'a list" where
  "tidy sep xs = pop_end sep (fold (tidy_step sep) xs [])"

section \<open>The context menu\<close>

datatype menu_entry =
    Separator
  | Entry (en_label: string) (en_perm: string) (en_console: bool)

datatype menu_item =
    Leaf menu_entry
  | Parent string string bool "menu_entry list"

definition perm_allows :: "(string \<Rightarrow> bool) \<Rightarrow> (string \<Rightarrow> bool) \<Rightarrow> string \<Rightarrow> bool \<Rightarrow> bool" where
  "perm_allows can' holds' p console \<longleftrightarrow> p = [] \<or> (if console then holds' p else can' p)"

definition entry_allows :: "(string \<Rightarrow> bool) \<Rightarrow> (string \<Rightarrow> bool) \<Rightarrow> menu_entry \<Rightarrow> bool" where
  "entry_allows can' holds' e = (case e of Separator \<Rightarrow> True | Entry l p c \<Rightarrow> perm_allows can' holds' p c)"

definition menuAllows :: "(string \<Rightarrow> bool) \<Rightarrow> (string \<Rightarrow> bool) \<Rightarrow> menu_item \<Rightarrow> bool" where
  "menuAllows can' holds' i = (case i of Leaf e \<Rightarrow> entry_allows can' holds' e | Parent l p c sub \<Rightarrow> perm_allows can' holds' p c)"

definition is_separator :: "menu_item \<Rightarrow> bool" where
  "is_separator i \<longleftrightarrow> i = Leaf Separator"

text \<open>One round of the loop over the entries kept.\<close>

definition menu_step :: "(string \<Rightarrow> bool) \<Rightarrow> (string \<Rightarrow> bool) \<Rightarrow> menu_item \<Rightarrow> menu_item list \<Rightarrow> menu_item list" where
  "menu_step can' holds' i out =
     (case i of
        Parent l p c sub \<Rightarrow>
          let sub' = filter (entry_allows can' holds') sub in if sub' = [] then out else out @ [Parent l p c sub']
      | Leaf e \<Rightarrow> if is_separator i \<and> (out = [] \<or> is_separator (last out)) then out else out @ [i])"

definition buildContextMenuItems :: "(string \<Rightarrow> bool) \<Rightarrow> (string \<Rightarrow> bool) \<Rightarrow> menu_item list \<Rightarrow> menu_item list" where
  "buildContextMenuItems can' holds' raw =
     pop_end is_separator (fold (menu_step can' holds') (filter (menuAllows can' holds') raw) [])"

section \<open>The actions of the Cloud layout\<close>

datatype cloud_item =
    Divider
  | Action (ac_label: string) (ac_name: string)

text \<open>\<open>t(key) || 'text'\<close>.\<close>

definition label_or :: "(string \<Rightarrow> string) \<Rightarrow> string \<Rightarrow> string \<Rightarrow> string" where
  "label_or tr k text = (if tr k \<noteq> [] then tr k else text)"

text \<open>What the caller hands over: the actions it names (\<open>None\<close>: no \<open>has\<close>), whether a console is opened on the active instance,
  whether there are several clusters.\<close>

record cloud_act =
  cl_has :: "(string \<Rightarrow> bool) option"
  cl_on_active :: bool
  cl_multi :: bool

definition has_act :: "cloud_act \<Rightarrow> string \<Rightarrow> bool" where
  "has_act a k = (case cl_has a of None \<Rightarrow> True | Some f \<Rightarrow> f k)"

definition offer :: "bool \<Rightarrow> string \<Rightarrow> string \<Rightarrow> cloud_item list" where
  "offer b label name = (if b then [Action label name] else [])"

definition cloud_power_items :: "obj \<Rightarrow> cloud_act \<Rightarrow> (string \<Rightarrow> string) \<Rightarrow> cloud_item list" where
  "cloud_power_items r act tr =
     (let st = prop_of r ''status''; running = (st = Str ''running''); paused = (st = Str ''paused'' \<or> st = Str ''suspended'');
          isCt = (prop_of r ''type'' = Str ''lxc''); power = has_act act ''vmAction''
      in offer (power \<and> \<not> running \<and> \<not> paused) (label_or tr ''start'' ''Start'') ''start'' @
         offer (power \<and> paused) (label_or tr ''resume'' ''Resume'') ''resume'' @
         offer (power \<and> running) (label_or tr ''shutdown'' ''Shutdown'') ''shutdown'' @
         offer (power \<and> running) (label_or tr ''reboot'' ''Reboot'') ''reboot'' @
         offer (power \<and> running \<and> \<not> isCt) (label_or tr ''suspend'' ''Suspend'') ''suspend'' @
         offer (power \<and> running) (label_or tr ''stop'' ''Stop'') ''stop'' @
         offer (has_act act ''forceStop'' \<and> running) (label_or tr ''forceStop'' ''Force stop'') ''forceStop'')"

text \<open>\<open>dots\<close> stands for the ellipsis of the label.\<close>

definition cloud_other_items :: "string \<Rightarrow> obj \<Rightarrow> cloud_act \<Rightarrow> (string \<Rightarrow> string) \<Rightarrow> cloud_item list" where
  "cloud_other_items dots r act tr =
     (let running = (prop_of r ''status'' = Str ''running''); isCt = (prop_of r ''type'' = Str ''lxc'')
      in [Divider] @
         offer (has_act act ''openConsole'') (label_or tr ''console'' ''Console'') ''openConsole'' @
         offer (cl_on_active act) (tr ''pgHaOpenOnActive'') ''consoleOnActive'' @
         offer (has_act act ''openSpice'' \<and> running \<and> \<not> isCt) (label_or tr ''spiceConsole'' ''SPICE'') ''openSpice'' @
         offer (has_act act ''openLxcShell'' \<and> isCt) (label_or tr ''shell'' ''Shell'') ''openLxcShell'' @
         offer (has_act act ''snapshot'') (label_or tr ''snapshots'' ''Snapshot'') ''snapshot'' @
         [Action (label_or tr ''metrics'' ''Metrics'') ''openMetrics'', Divider,
          Action (label_or tr ''edit'' ''Edit / Hardware'') ''openConfig''] @
         offer (has_act act ''migrate'') (label_or tr ''migrate'' ''Migrate'') ''migrate'' @
         offer (has_act act ''crossMigrate'' \<and> cl_multi act) (label_or tr ''cloud.crossMigrate'' (''Migrate to cluster'' @ dots)) ''crossMigrate'' @
         offer (has_act act ''clone'') (label_or tr ''clone'' ''Clone'') ''clone'' @ [Divider] @
         offer (has_act act ''del'') (label_or tr ''delete'' ''Delete'') ''del'')"

definition cloudVmActionItems :: "string \<Rightarrow> obj \<Rightarrow> cloud_act \<Rightarrow> (string \<Rightarrow> string) \<Rightarrow> cloud_item list" where
  "cloudVmActionItems dots r act tr = tidy (\<lambda>i. i = Divider) (cloud_power_items r act tr @ cloud_other_items dots r act tr)"

section \<open>Texts of the Cloud layout\<close>

text \<open>Sizes are whole numbers of bytes below \<open>2 ^ 53\<close>, so every division by 1024 is exact: after \<open>i\<close> of them the value is
  \<open>n / 1024 ^ i\<close>. \<open>fmt_unit\<close> is the loop.\<close>

function fmt_unit :: "int \<Rightarrow> nat \<Rightarrow> nat" where
  "fmt_unit n i = (if 1024 * 1024 ^ i \<le> n \<and> i < 5 then fmt_unit n (i + 1) else i)"
  by pat_completeness auto
termination
  by (relation "measure (\<lambda>(n, i). 5 - i)") auto

declare fmt_unit.simps [simp del]

definition cloud_units :: "string list" where
  "cloud_units = [''B'', ''KiB'', ''MiB'', ''GiB'', ''TiB'', ''PiB'']"

definition cloudFmtBytes :: "int \<Rightarrow> string" where
  "cloudFmtBytes n =
     (if n \<le> 0 then ''0 B''
      else let i = fmt_unit n 0; u = 1024 ^ i; whole = (2 * n + u) div (2 * u); tenths = (20 * n + u) div (2 * u)
           in (if 100 * u \<le> n \<or> i = 0 then show_int whole else show_int (tenths div 10) @ ''.'' @ show_int (tenths mod 10))
              @ '' '' @ cloud_units ! i)"

definition cloudFmtUptime :: "string \<Rightarrow> int \<Rightarrow> string" where
  "cloudFmtUptime dash s =
     (if s \<le> 0 then dash
      else let d = s div 86400; h = (s mod 86400) div 3600; m = (s mod 3600) div 60
           in join '' '' ((if d \<noteq> 0 then [show_int d @ ''d''] else []) @ (if h \<noteq> 0 then [show_int h @ ''h''] else []) @
                (if m \<noteq> 0 \<or> (d = 0 \<and> h = 0) then [show_int m @ ''m''] else [])))"

text \<open>Milliseconds since the time given in seconds.\<close>

definition cloudRelTime :: "string \<Rightarrow> int \<Rightarrow> int \<Rightarrow> string" where
  "cloudRelTime dash now_ms t =
     (if t = 0 then dash
      else let d = max 0 (now_ms - 1000 * t)
           in if d < 60000 then show_int (d div 1000) @ ''s ago''
              else if d < 3600000 then show_int (d div 60000) @ ''m ago''
              else if d < 86400000 then show_int (d div 3600000) @ ''h ago''
              else show_int (d div 86400000) @ ''d ago'')"

definition cloudClusterTypeLabel :: "string \<Rightarrow> string" where
  "cloudClusterTypeLabel ct = (if ct = ''esxi'' then ''ESXi'' else if ct = ''xcpng'' then ''XCP-ng'' else ''Proxmox'')"

definition cloudTagList :: "string list + string \<Rightarrow> string list" where
  "cloudTagList tags =
     filter (\<lambda>t. t \<noteq> []) (case tags of Inl ts \<Rightarrow> ts | Inr s \<Rightarrow> split_where (\<lambda>c. c = CHR '';'' \<or> c = CHR '','' \<or> is_space c) s)"

definition cloud_status_label :: "string \<Rightarrow> string" where
  "cloud_status_label st =
     (if st = ''running'' then ''Running'' else if st = ''stopped'' then ''Stopped'' else if st = ''paused'' then ''Paused''
      else if st = ''suspended'' then ''Suspended''
      else (case (if st = [] then ''unknown'' else st) of [] \<Rightarrow> [] | c # cs \<Rightarrow> upper_char c # cs))"

section \<open>Facts\<close>

text \<open>No separator at the start or the end and no two in a row.\<close>

fun no_double :: "('a \<Rightarrow> bool) \<Rightarrow> 'a list \<Rightarrow> bool" where
  "no_double sep (x # y # xs) \<longleftrightarrow> \<not> (sep x \<and> sep y) \<and> no_double sep (y # xs)"
| "no_double sep _ \<longleftrightarrow> True"

definition tidy_list :: "('a \<Rightarrow> bool) \<Rightarrow> 'a list \<Rightarrow> bool" where
  "tidy_list sep xs \<longleftrightarrow> (xs \<noteq> [] \<longrightarrow> \<not> sep (hd xs) \<and> \<not> sep (last xs)) \<and> no_double sep xs"

lemma no_double_snoc: "no_double sep (xs @ [x]) \<longleftrightarrow> no_double sep xs \<and> (xs \<noteq> [] \<longrightarrow> \<not> (sep (last xs) \<and> sep x))"
  by (induction sep xs rule: no_double.induct) auto

lemma no_double_append: "no_double sep (xs @ ys) \<Longrightarrow> no_double sep xs"
  by (induction ys rule: rev_induct) (auto simp: no_double_snoc simp flip: append_assoc)

definition half_tidy :: "('a \<Rightarrow> bool) \<Rightarrow> 'a list \<Rightarrow> bool" where
  "half_tidy sep xs \<longleftrightarrow> (xs \<noteq> [] \<longrightarrow> \<not> sep (hd xs)) \<and> no_double sep xs"

lemma half_tidy_step: "half_tidy sep out \<Longrightarrow> half_tidy sep (tidy_step sep x out)"
  by (cases "out = []") (auto simp: half_tidy_def tidy_step_def no_double_snoc)

lemma half_tidy_plain: "half_tidy sep out \<Longrightarrow> \<not> sep x \<Longrightarrow> half_tidy sep (out @ [x])"
  by (cases "out = []") (auto simp: half_tidy_def no_double_snoc)

lemma pop_end_prefix: "\<exists>ys. xs = pop_end sep xs @ ys \<and> list_all sep ys"
proof -
  have "rev xs = takeWhile sep (rev xs) @ dropWhile sep (rev xs)" by simp
  then have "xs = pop_end sep xs @ rev (takeWhile sep (rev xs))" unfolding pop_end_def by (metis rev_append rev_rev_ident)
  moreover have "list_all sep (rev (takeWhile sep (rev xs)))" by (auto simp: list_all_iff dest: set_takeWhileD)
  ultimately show ?thesis by blast
qed

lemma pop_end_tidy:
  assumes "half_tidy sep xs"
  shows "tidy_list sep (pop_end sep xs)"
proof -
  obtain ys where ys: "xs = pop_end sep xs @ ys" using pop_end_prefix by blast
  have nd: "no_double sep (pop_end sep xs)" using assms ys no_double_append [of sep "pop_end sep xs" ys] by (simp add: half_tidy_def)
  have hd: "\<not> sep (hd (pop_end sep xs))" if "pop_end sep xs \<noteq> []"
  proof -
    from that ys have "hd xs = hd (pop_end sep xs)" "xs \<noteq> []" by (metis hd_append2, metis append_is_Nil_conv)
    with assms show ?thesis by (simp add: half_tidy_def)
  qed
  have "\<not> sep (last (pop_end sep xs))" if "pop_end sep xs \<noteq> []"
    using that hd_dropWhile [of sep "rev xs"] by (simp add: pop_end_def last_rev)
  with hd nd show ?thesis by (simp add: tidy_list_def)
qed

lemma pop_end_filter: "filter (\<lambda>x. \<not> sep x) (pop_end sep xs) = filter (\<lambda>x. \<not> sep x) xs"
proof -
  obtain ys where "xs = pop_end sep xs @ ys" "list_all sep ys" using pop_end_prefix by blast
  then show ?thesis by (metis (mono_tags, lifting) append_Nil2 filter_False filter_append list_all_iff)
qed

lemma fold_tidy: "half_tidy sep out \<Longrightarrow> half_tidy sep (fold (tidy_step sep) xs out) \<and>
    filter (\<lambda>x. \<not> sep x) (fold (tidy_step sep) xs out) = filter (\<lambda>x. \<not> sep x) out @ filter (\<lambda>x. \<not> sep x) xs"
proof (induction xs arbitrary: out)
  case (Cons x xs)
  then show ?case using half_tidy_step [OF Cons.prems, of x] by (auto simp: tidy_step_def)
qed simp

lemma tidy_facts: "tidy_list sep (tidy sep xs)" "filter (\<lambda>x. \<not> sep x) (tidy sep xs) = filter (\<lambda>x. \<not> sep x) xs"
  using fold_tidy [of sep "[]" xs] by (simp_all add: tidy_def pop_end_tidy pop_end_filter half_tidy_def)

text \<open>What an entry is reduced to for the account: nothing, itself, or a parent with the children that stay.\<close>

definition granted :: "(string \<Rightarrow> bool) \<Rightarrow> (string \<Rightarrow> bool) \<Rightarrow> menu_item \<Rightarrow> menu_item list" where
  "granted can' holds' i =
     (case i of
        Leaf e \<Rightarrow> if e \<noteq> Separator \<and> entry_allows can' holds' e then [i] else []
      | Parent l p c sub \<Rightarrow>
          if perm_allows can' holds' p c \<and> filter (entry_allows can' holds') sub \<noteq> [] then [Parent l p c (filter (entry_allows can' holds') sub)] else [])"

lemma menu_step_facts:
  assumes "menuAllows can' holds' i" and "half_tidy is_separator out"
  shows "half_tidy is_separator (menu_step can' holds' i out) \<and>
    filter (\<lambda>x. \<not> is_separator x) (menu_step can' holds' i out) = filter (\<lambda>x. \<not> is_separator x) out @ granted can' holds' i"
proof (cases i)
  case (Leaf e)
  have "menu_step can' holds' i out = tidy_step is_separator i out" by (simp add: Leaf menu_step_def tidy_step_def)
  with assms half_tidy_step [OF assms(2), of i] Leaf show ?thesis
    by (auto simp: tidy_step_def granted_def menuAllows_def is_separator_def entry_allows_def)
next
  case (Parent l p c sub)
  let ?j = "Parent l p c (filter (entry_allows can' holds') sub)"
  have "\<not> is_separator ?j" by (simp add: is_separator_def)
  with assms half_tidy_plain [OF assms(2), of ?j] Parent show ?thesis
    by (auto simp: menu_step_def granted_def menuAllows_def Let_def)
qed

lemma fold_menu:
  "half_tidy is_separator out \<Longrightarrow> \<forall>i \<in> set is. menuAllows can' holds' i \<Longrightarrow>
    half_tidy is_separator (fold (menu_step can' holds') is out) \<and>
    filter (\<lambda>x. \<not> is_separator x) (fold (menu_step can' holds') is out) =
      filter (\<lambda>x. \<not> is_separator x) out @ concat (map (granted can' holds') is)"
proof (induction "is" arbitrary: out)
  case (Cons i "is")
  then show ?case using menu_step_facts [of can' holds' i out] by auto
qed simp

lemma granted_not_allowed: "\<not> menuAllows can' holds' i \<Longrightarrow> granted can' holds' i = []"
  by (cases i) (auto simp: granted_def menuAllows_def)

lemma concat_granted: "concat (map (granted can' holds') (filter (menuAllows can' holds') raw)) = concat (map (granted can' holds') raw)"
  by (induction raw) (auto simp: granted_not_allowed)

lemma menu_facts:
  "tidy_list is_separator (buildContextMenuItems can' holds' raw) \<and>
   filter (\<lambda>x. \<not> is_separator x) (buildContextMenuItems can' holds' raw) = concat (map (granted can' holds') raw)"
proof -
  have h: "half_tidy is_separator []" by (simp add: half_tidy_def)
  have a: "\<forall>i \<in> set (filter (menuAllows can' holds') raw). menuAllows can' holds' i" by simp
  from fold_menu [OF h a] show ?thesis
    by (simp add: buildContextMenuItems_def pop_end_tidy pop_end_filter concat_granted)
qed

text \<open>The entries of a menu, those of its parents included, with the permission each asks for.\<close>

definition entries_of :: "menu_item \<Rightarrow> menu_entry list" where
  "entries_of i = (case i of Leaf e \<Rightarrow> [e] | Parent l p c sub \<Rightarrow> Entry l p c # sub)"

lemma granted_entries: "e \<in> set (concat (map entries_of (granted can' holds' i))) \<Longrightarrow> entry_allows can' holds' e"
  by (cases i) (auto simp: granted_def entries_of_def entry_allows_def split: if_splits)

section \<open>Properties\<close>

text \<open>Every entry that the context menu shows, also in a submenu, is one whose permission the account has, under the
  rules for a standby; the entries it may use are all shown, in their order; and no separator stands at an end or next to another.\<close>

theorem context_menu_only_allowed:
  assumes "m = buildContextMenuItems (can read_only admin perms) (holds admin perms) raw"
  shows "(\<forall>e \<in> set (concat (map entries_of m)). case e of Separator \<Rightarrow> True
            | Entry l p console \<Rightarrow> p = [] \<or> ((admin \<or> p \<in> set perms) \<and> (read_only \<and> \<not> console \<longrightarrow> ends_with p ''.view''))) \<and>
         filter (\<lambda>x. \<not> is_separator x) m = concat (map (granted (can read_only admin perms) (holds admin perms)) raw) \<and>
         tidy_list is_separator m"
proof (intro conjI ballI)
  note f = menu_facts [of "can read_only admin perms" "holds admin perms" raw, folded assms]
  fix e assume "e \<in> set (concat (map entries_of m))"
  then obtain i where i: "i \<in> set m" "e \<in> set (entries_of i)" by auto
  show "case e of Separator \<Rightarrow> True | Entry l p console \<Rightarrow> p = [] \<or> ((admin \<or> p \<in> set perms) \<and> (read_only \<and> \<not> console \<longrightarrow> ends_with p ''.view''))"
  proof (cases "is_separator i")
    case True
    with i show ?thesis by (simp add: is_separator_def entries_of_def)
  next
    case False
    with i(1) have "i \<in> set (filter (\<lambda>x. \<not> is_separator x) m)" by simp
    with f have "i \<in> set (concat (map (granted (can read_only admin perms) (holds admin perms)) raw))" by simp
    then obtain j where "i \<in> set (granted (can read_only admin perms) (holds admin perms) j)" by auto
    with i(2) granted_entries [of e "can read_only admin perms" "holds admin perms" j]
    have "entry_allows (can read_only admin perms) (holds admin perms) e" by auto
    then show ?thesis by (auto simp: entry_allows_def perm_allows_def can_def holds_def split: menu_entry.splits if_splits)
  qed
qed (use menu_facts assms in auto)

theorem context_menu_only_allowed_witness:
  "tidy_list is_separator (buildContextMenuItems (can True True []) (holds True [])
     [Leaf (Entry ''Start'' ''vm.start'' False), Leaf Separator, Leaf (Entry ''Console'' ''vm.console'' True), Parent ''Pool'' [] False [Entry ''p1'' ''pool.assign'' False],
      Leaf Separator, Leaf (Entry ''Delete'' ''vm.delete'' False)]) \<and>
   buildContextMenuItems (can True True []) (holds True [])
     [Leaf (Entry ''Start'' ''vm.start'' False), Leaf Separator, Leaf (Entry ''Console'' ''vm.console'' True), Parent ''Pool'' [] False [Entry ''p1'' ''pool.assign'' False],
      Leaf Separator, Leaf (Entry ''Delete'' ''vm.delete'' False)] = [Leaf (Entry ''Console'' ''vm.console'' True)]"
proof
  show "tidy_list is_separator (buildContextMenuItems (can True True []) (holds True [])
     [Leaf (Entry ''Start'' ''vm.start'' False), Leaf Separator, Leaf (Entry ''Console'' ''vm.console'' True), Parent ''Pool'' [] False [Entry ''p1'' ''pool.assign'' False],
      Leaf Separator, Leaf (Entry ''Delete'' ''vm.delete'' False)])"
    using context_menu_only_allowed [OF refl] by blast
  show "buildContextMenuItems (can True True []) (holds True [])
     [Leaf (Entry ''Start'' ''vm.start'' False), Leaf Separator, Leaf (Entry ''Console'' ''vm.console'' True), Parent ''Pool'' [] False [Entry ''p1'' ''pool.assign'' False],
      Leaf Separator, Leaf (Entry ''Delete'' ''vm.delete'' False)] = [Leaf (Entry ''Console'' ''vm.console'' True)]" by code_simp
qed

text \<open>The menu of the Cloud layout is tidy whatever it offers.\<close>

lemma cloud_menu_tidy: "tidy_list (\<lambda>i. i = Divider) (cloudVmActionItems dots r act tr)"
  by (simp add: cloudVmActionItems_def tidy_facts)

text \<open>The unit of a size is the largest whose value is at least 1, up to PiB.\<close>

lemma fmt_unit_bounds: "i \<le> 5 \<Longrightarrow> i = 0 \<or> 1024 ^ i \<le> n \<Longrightarrow>
    fmt_unit n i \<le> 5 \<and> (fmt_unit n i = 0 \<or> 1024 ^ fmt_unit n i \<le> n) \<and> (fmt_unit n i < 5 \<longrightarrow> n < 1024 * 1024 ^ fmt_unit n i)"
proof (induction n i rule: fmt_unit.induct)
  case (1 n i)
  show ?case
  proof (cases "1024 * 1024 ^ i \<le> n \<and> i < 5")
    case True
    with 1 have "fmt_unit n (i + 1) \<le> 5 \<and> (fmt_unit n (i + 1) = 0 \<or> 1024 ^ fmt_unit n (i + 1) \<le> n) \<and>
        (fmt_unit n (i + 1) < 5 \<longrightarrow> n < 1024 * 1024 ^ fmt_unit n (i + 1))" by simp
    moreover have "fmt_unit n i = fmt_unit n (i + 1)" using True by (subst fmt_unit.simps) simp
    ultimately show ?thesis by simp
  next
    case False
    then have "fmt_unit n i = i" by (subst fmt_unit.simps) auto
    with False 1 show ?thesis by auto
  qed
qed

end
