(* ===== verification/Hyperv_Source.thy ===== *)
theory Hyperv_Source
  imports Js_Values
begin

text \<open>
  The Hyper-V migration source (web/src/hyperv.js): kinds of clusters and directions, adapters, names and
  sizes, the choice of the driver release, the preflight verdict and the form that registers a host. A build
  is a whole number or its decimal text, a size a whole number of bytes. Arrays of strings are lists;
  markup and styles are left out.
\<close>

section \<open>Kinds and directions\<close>

definition hvType :: "obj option \<Rightarrow> string" where
  "hvType c =
     (let t = (case c of None \<Rightarrow> ''proxmox'' | Some d \<Rightarrow> to_str (or_else (prop_of d ''type'') (or_else (prop_of d ''cluster_type'') (Str ''proxmox''))))
      in if t \<in> {''hyperv'', ''xcpng'', ''esxi''} then t else ''proxmox'')"

definition hvLabel :: "string \<Rightarrow> string" where
  "hvLabel t = (if t = ''hyperv'' then ''Hyper-V'' else if t = ''xcpng'' then ''XCP-ng'' else if t = ''esxi'' then ''ESXi'' else ''Proxmox'')"

definition hvNeedsSourceNode :: "obj option \<Rightarrow> bool" where
  "hvNeedsSourceNode c \<longleftrightarrow> c \<noteq> None \<and> hvType c = ''proxmox''"

definition hv_kinds :: "obj list \<Rightarrow> string set" where
  "hv_kinds cs = set (map (\<lambda>c. hvType (Some c)) cs)"

definition hvHasMigrationPair :: "obj list \<Rightarrow> bool" where
  "hvHasMigrationPair cs \<longleftrightarrow> 1 < length (remdups (map (\<lambda>c. hvType (Some c)) cs))"

text \<open>\<open>hvTranslator\<close>: the translation of a key, or the English text at the call.\<close>

definition say :: "(string \<Rightarrow> string) \<Rightarrow> string \<Rightarrow> string \<Rightarrow> string" where
  "say tr k fallback = (if tr k \<noteq> [] then tr k else fallback)"

definition hvMigrationSubtitle :: "(string \<Rightarrow> string) \<Rightarrow> obj list \<Rightarrow> string \<Rightarrow> string" where
  "hvMigrationSubtitle tr cs localized =
     (if ''hyperv'' \<notin> hv_kinds cs then localized
      else let named = map hvLabel (filter (\<lambda>k. k \<in> hv_kinds cs) [''proxmox'', ''xcpng'', ''esxi'', ''hyperv''])
           in if length named < 2 then say tr ''hvNeedsATarget'' ''Register a Proxmox cluster to migrate these VMs to''
              else say tr ''hvMigrateBetween'' ''Migrate VMs between'' @ '' '' @ join '', '' (butlast named) @ '' '' @ say tr ''and'' ''and'' @ '' '' @ last named)"

text \<open>Only the part of \<open>HV_DIRECTIONS\<close> that decides: whether the targets are those of Proxmox.\<close>

definition hvTargetsProxmox :: "string \<Rightarrow> bool" where
  "hvTargetsProxmox d \<longleftrightarrow> d \<notin> {''pve_to_xcpng'', ''esxi_to_xcpng''}"

definition hvIsHyperVPlan :: "obj option \<Rightarrow> bool" where
  "hvIsHyperVPlan p = (case p of None \<Rightarrow> False | Some d \<Rightarrow> prop_of d ''direction'' = Str ''hyperv_to_pve'')"

section \<open>Adapters, sizes, names\<close>

fun pairs_of :: "string \<Rightarrow> string list" where
  "pairs_of (a # b # cs) = [a, b] # pairs_of cs"
| "pairs_of _ = []"

definition hvAdapterMac :: "string \<Rightarrow> string" where
  "hvAdapterMac address =
     (let mac = filter is_hex address
      in if length mac \<noteq> 12 \<or> list_all (\<lambda>c. c = CHR ''0'') mac then [] else to_lower (join '':'' (pairs_of mac)))"

text \<open>\<open>dot\<close> stands for the middle dot between the parts.\<close>

definition hvAdapterLabel :: "string \<Rightarrow> (string \<Rightarrow> string) \<Rightarrow> obj \<Rightarrow> nat \<Rightarrow> string" where
  "hvAdapterLabel dot tr a i =
     (let mac = hvAdapterMac (to_str (or_else (prop_of a ''mac_address'') (Str [])));
          name = (if truthy (prop_of a ''name'') \<and> prop_of a ''name'' \<noteq> Str ''Network Adapter'' then to_str (prop_of a ''name'') else []);
          detail = (if mac \<noteq> [] then mac else say tr ''hvNoMacYet'' ''no MAC yet'')
      in ''#'' @ show_nat (i + 1) @ dot @ (if name \<noteq> [] then name @ dot else []) @ detail)"

definition hvAdapterKey :: "obj \<Rightarrow> nat \<Rightarrow> string" where
  "hvAdapterKey a i = to_str (or_else (prop_of a ''network'') (Str (''adapter'' @ show_nat (i + 1))))"

text \<open>Tenths of a GiB, rounded half up as \<open>toFixed(1)\<close> does.\<close>

definition gib_tenths :: "nat \<Rightarrow> nat" where
  "gib_tenths n = (20 * n + 2 ^ 30) div 2 ^ 31"

definition hvBytesToGiB :: "int \<Rightarrow> string" where
  "hvBytesToGiB n =
     (if n = 0 then ''0''
      else (if n < 0 then ''-'' else []) @ show_nat (gib_tenths (nat \<bar>n\<bar>) div 10) @ ''.'' @ show_nat (gib_tenths (nat \<bar>n\<bar>) mod 10))"

definition name_label :: "string \<Rightarrow> bool" where
  "name_label l \<longleftrightarrow> length l \<le> 63 \<and> l \<noteq> [] \<and> is_alnum (hd l) \<and> is_alnum (last l) \<and> list_all (\<lambda>c. is_alnum c \<or> c = CHR ''-'') l"

definition hvIsPveName :: "jval \<Rightarrow> bool" where
  "hvIsPveName v =
     (let t = trim (to_str (or_else v (Str []))) in t \<noteq> [] \<and> length t \<le> 255 \<and> list_all name_label (split_on CHR ''.'' t))"

definition hvDriversForOstype :: "jval \<Rightarrow> string" where
  "hvDriversForOstype v =
     (let t = to_lower (to_str (or_else v (Str [])))
      in if starts_with t ''win'' \<or> t \<in> {''wxp'', ''w2k'', ''w2k3'', ''w2k8'', ''wvista''} then ''windows''
         else if t \<in> {''l24'', ''l26''} then ''linux'' else ''none'')"

section \<open>The driver release\<close>

definition HV_LEGACY_RELEASE :: string where
  "HV_LEGACY_RELEASE = ''0.1.189''"

definition hvReleaseKey :: "string \<Rightarrow> int list" where
  "hvReleaseKey r = map (\<lambda>n. case parse_int10 n of None \<Rightarrow> 0 | Some i \<Rightarrow> i) (split_on CHR ''.'' r)"

text \<open>The loop over both keys: the first difference, missing numbers counting as 0.\<close>

fun key_diff :: "int list \<Rightarrow> int list \<Rightarrow> int" where
  "key_diff [] [] = 0"
| "key_diff (a # as) [] = (if a \<noteq> 0 then a else key_diff as [])"
| "key_diff [] (b # bs) = (if b \<noteq> 0 then - b else key_diff [] bs)"
| "key_diff (a # as) (b # bs) = (if a \<noteq> b then a - b else key_diff as bs)"

definition hvNewerRelease :: "string \<Rightarrow> string \<Rightarrow> string" where
  "hvNewerRelease a b =
     (let d = key_diff (hvReleaseKey a) (hvReleaseKey b) in if d \<noteq> 0 then (if 0 < d then a else b) else a)"

definition is_legacy_build :: "jval \<Rightarrow> bool" where
  "is_legacy_build b = (case b of Num i \<Rightarrow> i = 9600 | Str s \<Rightarrow> trim s = ''9600'' | _ \<Rightarrow> False)"

definition release_of :: "obj \<Rightarrow> string" where
  "release_of i = to_str (prop_of i ''release'')"

text \<open>\<open>reduce\<close>.\<close>

definition newest :: "('a \<Rightarrow> string) \<Rightarrow> 'a list \<Rightarrow> 'a option" where
  "newest f xs = (case xs of [] \<Rightarrow> None
     | x # rest \<Rightarrow> Some (foldl (\<lambda>best i. if hvNewerRelease (f i) (f best) = f i then i else best) x rest))"

definition hvIsoForBuild :: "jval \<Rightarrow> obj list \<Rightarrow> obj option" where
  "hvIsoForBuild build isos =
     (let usable = filter (\<lambda>i. truthy (prop_of i ''release'')) isos
      in if \<not> truthy build then None
         else if is_legacy_build build then find (\<lambda>i. release_of i = HV_LEGACY_RELEASE) usable
         else newest release_of (filter (\<lambda>i. release_of i \<noteq> HV_LEGACY_RELEASE) usable))"

definition hvReleaseToFetch :: "jval \<Rightarrow> obj list \<Rightarrow> string option" where
  "hvReleaseToFetch build releases =
     (if \<not> truthy build then None
      else if is_legacy_build build then Some HV_LEGACY_RELEASE
      else newest (\<lambda>r. r) (filter (\<lambda>r. r \<noteq> HV_LEGACY_RELEASE) (map release_of (filter (\<lambda>r. truthy (prop_of r ''release'')) releases))))"

definition hvGuestBuild :: "obj list \<Rightarrow> jval" where
  "hvGuestBuild images = (case find (\<lambda>i. truthy (prop_of i ''windows'')) images of None \<Rightarrow> Undef | Some d \<Rightarrow> prop_of d ''build'')"

definition hvGuestVersion :: "obj list \<Rightarrow> obj list \<Rightarrow> string" where
  "hvGuestVersion volumes images =
     (case find (\<lambda>v. truthy (prop_of v ''windows'') \<and> truthy (prop_of v ''hive_readable'') \<and> truthy (prop_of v ''product_name'')) volumes of
        Some v \<Rightarrow> to_str (prop_of v ''product_name'') @ '' (Build '' @ to_str (prop_of v ''build'') @
          (if truthy (prop_of v ''revision'') then ''.'' @ to_str (prop_of v ''revision'') else []) @ '')''
      | None \<Rightarrow> (case find (\<lambda>i. truthy (prop_of i ''windows'')) images of None \<Rightarrow> [] | Some d \<Rightarrow> ''Windows '' @ to_str (prop_of d ''version'')))"

section \<open>Preflight\<close>

record finding =
  hf_check :: string
  hf_severity :: string

record report =
  rt_blocked :: bool
  rt_needed :: "string list"
  rt_findings :: "finding list"

definition severity_rank :: "finding \<Rightarrow> int" where
  "severity_rank f = (if hf_severity f = ''blocking'' then 0 else if hf_severity f = ''warning'' then 1 else if hf_severity f = ''ok'' then 2 else 3)"

definition sort_findings :: "finding list \<Rightarrow> finding list" where
  "sort_findings fs = js_sort (\<lambda>a b. severity_rank a - severity_rank b) fs"

definition outstanding :: "report \<Rightarrow> string list \<Rightarrow> string list" where
  "outstanding r confirmed = filter (\<lambda>c. c \<notin> set confirmed) (rt_needed r)"

datatype verdict = Blocked | To_Confirm nat | Ready

definition preflight_verdict :: "report \<Rightarrow> string list \<Rightarrow> verdict" where
  "preflight_verdict r confirmed =
     (if rt_blocked r then Blocked else if outstanding r confirmed \<noteq> [] then To_Confirm (length (outstanding r confirmed)) else Ready)"

definition hvMayStart :: "report option \<Rightarrow> string list \<Rightarrow> report option \<Rightarrow> bool" where
  "hvMayStart planned confirmed refreshed =
     (case (case refreshed of Some r \<Rightarrow> Some r | None \<Rightarrow> planned) of
        None \<Rightarrow> True
      | Some r \<Rightarrow> if rt_blocked r then False else list_all (\<lambda>c. c \<in> set confirmed) (rt_needed r))"

definition refresh_fields :: "string list" where
  "refresh_fields = [''target_cluster'', ''target_node'', ''target_storage'', ''network_map'', ''vlan_map'', ''target_name'',
     ''virtio_iso'', ''hardware'', ''drivers'', ''start_after'']"

text \<open>The request of \<open>hvRefreshPreflight\<close>, and what it returns for its answer.\<close>

definition refresh_value :: "obj \<Rightarrow> string \<Rightarrow> jval" where
  "refresh_value form k =
     (if k = ''network_map'' \<or> k = ''vlan_map'' then or_else (prop_of form k) (Obj [])
      else if k = ''virtio_iso'' then or_else (prop_of form ''virtio_iso_path'') (Str [])
      else if k = ''start_after'' then Bool (prop_of form k \<noteq> Bool False)
      else or_else (prop_of form k) (Str []))"

definition hvRefreshPreflight :: "string \<Rightarrow> obj option \<Rightarrow> obj option \<Rightarrow> (string \<times> obj) option" where
  "hvRefreshPreflight api form plan =
     (case form of
        None \<Rightarrow> None
      | Some f \<Rightarrow>
          if \<not> hvIsHyperVPlan plan \<or> \<not> truthy (prop_of f ''source_cluster'') \<or> \<not> truthy (prop_of f ''source_vmid'') then None
          else Some (api @ ''/hyperv/'' @ to_str (prop_of f ''source_cluster'') @ ''/vms/'' @ to_str (prop_of f ''source_vmid'') @ ''/preflight'',
                     map (\<lambda>k. (k, refresh_value f k)) refresh_fields))"

definition refreshed_report :: "(bool \<times> report option) option \<Rightarrow> report option" where
  "refreshed_report a = (case a of Some (True, r) \<Rightarrow> r | _ \<Rightarrow> None)"

definition hvTriState :: "jval \<Rightarrow> string" where
  "hvTriState v = (if v = Bool True then ''Yes'' else if v = Bool False then ''No'' else ''unknown'')"

definition hv_facts :: "obj \<Rightarrow> (string \<times> string) list" where
  "hv_facts s =
     [(''Generation'', if prop_of s ''generation'' \<noteq> Undef then to_str (prop_of s ''generation'') else ''unknown''),
      (''Firmware'', if truthy (prop_of s ''bios'') then to_upper (to_str (prop_of s ''bios'')) else ''unknown''),
      (''Machine'', to_str (or_else (prop_of s ''machine'') (Str ''unknown''))),
      (''Checkpoints'', if prop_of s ''checkpoint_count'' \<noteq> Undef then to_str (prop_of s ''checkpoint_count'') else ''unknown''),
      (''Secure Boot'', hvTriState (prop_of s ''secure_boot_enabled'')), (''vTPM'', hvTriState (prop_of s ''vtpm_enabled''))]"

section \<open>Registering a host\<close>

definition hvDefaultPort :: "bool \<Rightarrow> int" where
  "hvDefaultPort ssl = (if ssl then 5986 else 5985)"

record hv_form =
  hv_fields :: obj
  hv_shares :: string
  hv_isos :: string

definition drop_colon :: "string \<Rightarrow> string" where
  "drop_colon d = remove1 CHR '':'' d"

definition share_entry :: "string \<Rightarrow> (string \<times> string) option" where
  "share_entry e =
     (case map trim (split_on CHR ''='' e) of
        drive # share # rest \<Rightarrow> if drive \<noteq> [] \<and> share \<noteq> [] then Some (to_upper (drop_colon drive), share) else None
      | _ \<Rightarrow> None)"

definition share_map :: "string \<Rightarrow> (string \<times> string) list" where
  "share_map t =
     foldl (\<lambda>m e. case share_entry e of None \<Rightarrow> m | Some (d, s) \<Rightarrow> AList.update d s m) []
       (concat (map (split_on CHR '','') (split_on (CHR 0x0A) t)))"

record hv_config =
  hc_fields :: obj
  hc_shares :: "(string \<times> string) list"
  hc_isos :: "string list"

definition int_or :: "jval \<Rightarrow> int \<Rightarrow> jval" where
  "int_or v d = (case parse_int10_val v of None \<Rightarrow> Num d | Some i \<Rightarrow> if i = 0 then Num d else Num i)"

definition hvNormaliseConfig :: "hv_form \<Rightarrow> hv_config" where
  "hvNormaliseConfig f =
     (let o' = hv_fields f; ssl = truthy (prop_of o' ''use_ssl'')
      in \<lparr>hc_fields = spread o' [(''cluster_type'', Str ''hyperv''),
            (''transfer_host'', Str (trim (to_str (or_else (prop_of o' ''transfer_host'') (Str []))))), (''use_ssl'', Bool ssl),
            (''encrypt_messages'', Bool (prop_of o' ''encrypt_messages'' \<noteq> Bool False)),
            (''port'', int_or (prop_of o' ''port'') (hvDefaultPort ssl)), (''max_sessions'', int_or (prop_of o' ''max_sessions'') 4)],
          hc_shares = share_map (hv_shares f),
          hc_isos = filter (\<lambda>s. s \<noteq> []) (map trim (split_on (CHR 0x0A) (hv_isos f)))\<rparr>)"

text \<open>A port nobody typed follows the transport.\<close>

definition setTransport :: "bool \<Rightarrow> obj \<Rightarrow> obj" where
  "setTransport ssl c =
     (let follows = (case parse_int10_val (prop_of c ''port'') of None \<Rightarrow> True | Some i \<Rightarrow> i = 0 \<or> i = hvDefaultPort (\<not> ssl))
      in AList.update ''port'' (if follows then Num (hvDefaultPort ssl) else prop_of c ''port'') (AList.update ''use_ssl'' (Bool ssl) c))"

definition basic_over_http :: "obj \<Rightarrow> bool" where
  "basic_over_http c \<longleftrightarrow> \<not> truthy (prop_of c ''use_ssl'') \<and> prop_of c ''auth'' = Str ''basic''"

section \<open>Comparing releases\<close>

lemma key_diff_swap: "key_diff b a = - key_diff a b"
  by (induction a b rule: key_diff.induct) auto

lemma key_diff_refl [simp]: "key_diff a a = 0"
  by (induction a) auto

lemma key_diff_trans: "0 \<le> key_diff a b \<Longrightarrow> 0 \<le> key_diff b c \<Longrightarrow> 0 \<le> key_diff a c"
proof (induction "length a + length b + length c" arbitrary: a b c rule: less_induct)
  case less
  have IH: "0 \<le> key_diff (tl a) (tl c)"
    if "0 \<le> key_diff (tl a) (tl b)" "0 \<le> key_diff (tl b) (tl c)" "a \<noteq> [] \<or> b \<noteq> [] \<or> c \<noteq> []"
  proof (rule less.hyps [OF _ that(1,2)])
    from that(3) show "length (tl a) + length (tl b) + length (tl c) < length a + length b + length c"
      by (cases a; cases b; cases c) auto
  qed
  show ?case using less.prems IH by (cases a; cases b; cases c) (auto split: if_splits)
qed

lemma hvNewerRelease_newer:
  "0 \<le> key_diff (hvReleaseKey (hvNewerRelease a b)) (hvReleaseKey a) \<and> 0 \<le> key_diff (hvReleaseKey (hvNewerRelease a b)) (hvReleaseKey b)"
  using key_diff_swap [of "hvReleaseKey b" "hvReleaseKey a"] by (auto simp: hvNewerRelease_def Let_def)

lemma hvNewerRelease_cases: "hvNewerRelease a b = a \<or> hvNewerRelease a b = b"
  by (simp add: hvNewerRelease_def Let_def)

abbreviation at_least :: "string \<Rightarrow> string \<Rightarrow> bool" where
  "at_least a b \<equiv> 0 \<le> key_diff (hvReleaseKey a) (hvReleaseKey b)"

definition later_of :: "('a \<Rightarrow> string) \<Rightarrow> 'a \<Rightarrow> 'a \<Rightarrow> 'a" where
  "later_of f best i = (if hvNewerRelease (f i) (f best) = f i then i else best)"

lemma later_of_at_least: "at_least (f (later_of f x y)) (f x)" "at_least (f (later_of f x y)) (f y)"
  using hvNewerRelease_newer [of "f y" "f x"] hvNewerRelease_cases [of "f y" "f x"] by (auto simp: later_of_def)

lemma foldl_later:
  "foldl (later_of f) x xs \<in> insert x (set xs) \<and> (\<forall>y \<in> insert x (set xs). at_least (f (foldl (later_of f) x xs)) (f y))"
proof (induction xs arbitrary: x)
  case (Cons z zs)
  let ?m = "foldl (later_of f) (later_of f x z) zs"
  from Cons.IH [of "later_of f x z"] have m: "?m \<in> insert (later_of f x z) (set zs)" "\<forall>y \<in> insert (later_of f x z) (set zs). at_least (f ?m) (f y)"
    by blast+
  then have "at_least (f ?m) (f (later_of f x z))" by blast
  with later_of_at_least [of f x z] have "at_least (f ?m) (f x)" "at_least (f ?m) (f z)" by (blast intro: key_diff_trans)+
  moreover have "later_of f x z \<in> {x, z}" by (simp add: later_of_def)
  ultimately show ?case using m by auto
qed simp

lemma newest_Some: "newest f xs = Some m \<Longrightarrow> m \<in> set xs \<and> (\<forall>y \<in> set xs. at_least (f m) (f y))"
  using foldl_later [of f "hd xs" "tl xs"] by (cases xs) (auto simp: newest_def later_of_def [abs_def])

lemma newest_None [simp]: "newest f xs = None \<longleftrightarrow> xs = []"
  by (simp add: newest_def split: list.split)

lemma find_Some_in: "find P xs = Some x \<Longrightarrow> x \<in> set xs \<and> P x"
  by (induction xs) (auto split: if_splits)

section \<open>Properties\<close>

text \<open>The driver ISO chosen for a guest is one of those on the node, of the legacy release exactly for the legacy build, and
  otherwise no other modern ISO carries a newer release; nothing is chosen only when the build is unknown or nothing fits.\<close>

theorem hyperv_iso_newest:
  "(hvIsoForBuild b isos = Some i \<longrightarrow>
      i \<in> set isos \<and> truthy (prop_of i ''release'') \<and> (is_legacy_build b \<longleftrightarrow> release_of i = HV_LEGACY_RELEASE) \<and>
      (\<not> is_legacy_build b \<longrightarrow> (\<forall>j \<in> set isos. truthy (prop_of j ''release'') \<longrightarrow> release_of j \<noteq> HV_LEGACY_RELEASE \<longrightarrow>
         0 \<le> key_diff (hvReleaseKey (release_of i)) (hvReleaseKey (release_of j))))) \<and>
   (hvIsoForBuild b isos = None \<longleftrightarrow> \<not> truthy b \<or>
      (\<forall>j \<in> set isos. truthy (prop_of j ''release'') \<longrightarrow> (release_of j = HV_LEGACY_RELEASE \<longleftrightarrow> \<not> is_legacy_build b)))"
proof (intro conjI impI)
  assume "hvIsoForBuild b isos = Some i"
  then show "i \<in> set isos" "truthy (prop_of i ''release'')" "is_legacy_build b \<longleftrightarrow> release_of i = HV_LEGACY_RELEASE"
    by (auto simp: hvIsoForBuild_def Let_def dest!: newest_Some find_Some_in split: if_splits)
next
  assume "hvIsoForBuild b isos = Some i" "\<not> is_legacy_build b"
  then show "\<forall>j \<in> set isos. truthy (prop_of j ''release'') \<longrightarrow> release_of j \<noteq> HV_LEGACY_RELEASE \<longrightarrow>
         0 \<le> key_diff (hvReleaseKey (release_of i)) (hvReleaseKey (release_of j))"
    by (auto simp: hvIsoForBuild_def Let_def dest!: newest_Some split: if_splits)
qed (auto simp: hvIsoForBuild_def Let_def find_None_iff filter_empty_conv)

definition demo_isos :: "obj list" where
  "demo_isos = [[(''release'', Str ''0.1.189'')], [(''release'', Str ''0.1.248'')], [(''release'', Str ''0.1.1266'')], [(''release'', Str ''0.1.262'')]]"

theorem hyperv_iso_newest_witness:
  "hvIsoForBuild (Num 20348) demo_isos = Some [(''release'', Str ''0.1.1266'')] \<and>
   0 \<le> key_diff (hvReleaseKey ''0.1.1266'') (hvReleaseKey ''0.1.262'')"
proof -
  have c: "hvIsoForBuild (Num 20348) demo_isos = Some [(''release'', Str ''0.1.1266'')]" by code_simp
  have "\<not> is_legacy_build (Num 20348)" by code_simp
  moreover have "[(''release'', Str ''0.1.262'')] \<in> set demo_isos" by (simp add: demo_isos_def)
  moreover have "truthy (prop_of [(''release'', Str ''0.1.262'')] ''release'')" "release_of [(''release'', Str ''0.1.262'')] \<noteq> HV_LEGACY_RELEASE"
    "release_of [(''release'', Str ''0.1.262'')] = ''0.1.262''" "release_of [(''release'', Str ''0.1.1266'')] = ''0.1.1266''"
    by code_simp+
  ultimately have "0 \<le> key_diff (hvReleaseKey ''0.1.1266'') (hvReleaseKey ''0.1.262'')"
    using hyperv_iso_newest [of "Num 20348" demo_isos "[(''release'', Str ''0.1.1266'')]"] c by metis
  with c show ?thesis by simp
qed

text \<open>The start button of the wizard and the preflight panel agree: the button is enabled exactly when the report
  shown is not blocked and nothing is left to confirm.\<close>

theorem start_button_iff_ready:
  "hvMayStart planned confirmed refreshed \<longleftrightarrow>
   (case (case refreshed of Some r \<Rightarrow> Some r | None \<Rightarrow> planned) of None \<Rightarrow> True | Some r \<Rightarrow> preflight_verdict r confirmed = Ready)"
  by (auto simp: hvMayStart_def preflight_verdict_def outstanding_def filter_empty_conv list_all_iff split: option.split)

end
