(* ===== verification/Cluster_Overview.thy ===== *)
theory Cluster_Overview
  imports Hyperv_Source Complex_Main
begin

text \<open>
  The overview of all clusters (\<open>fetchClusters\<close> in web/src/dashboard.js): the list of clusters, the two reads of
  every connected one side by side, the pause for a cluster that fails, and the busiest guests; further the
  state of the QDevices and what the event stream is told about the clusters shown. A read is an entry of its round until it is
  answered. Loads are rational numbers, times milliseconds.
\<close>

section \<open>State\<close>

record row =
  rw_fields :: obj
  rw_cpu :: rat
  rw_mem :: rat
  rw_maxmem :: rat

text \<open>A cluster waits for its datacenter status, then for its resources.\<close>

datatype cluster_read = Read_Status obj | Read_Resources obj

record read_round =
  ro_reads :: "cluster_read list"
  ro_guests :: "row list"

record overview =
  ov_clusters :: "obj list"
  ov_selected :: "obj option"
  ov_fails :: "(string \<times> nat \<times> int) list"
  ov_metrics :: "(string \<times> obj) list"
  ov_resources :: "(string \<times> row list) list"
  ov_top :: "row list"
  ov_lists :: nat
  ov_rounds :: "read_round list"
  ov_clock :: int

definition overview_new :: overview where
  "overview_new = \<lparr>ov_clusters = [], ov_selected = None, ov_fails = [], ov_metrics = [], ov_resources = [], ov_top = [], ov_lists = 0,
     ov_rounds = [], ov_clock = 0\<rparr>"

definition cid :: "obj \<Rightarrow> string" where
  "cid c = to_str (prop_of c ''id'')"

section \<open>Reading the clusters\<close>

definition connected_clusters :: "obj list \<Rightarrow> obj list" where
  "connected_clusters data =
     filter (\<lambda>c. hvType (Some c) \<noteq> ''hyperv'') (filter (\<lambda>c. truthy (prop_of c ''connected'') \<and> prop_of c ''cluster_type'' \<noteq> Str ''esxi'') data)"

definition cooling :: "overview \<Rightarrow> int \<Rightarrow> obj \<Rightarrow> bool" where
  "cooling s now c = (case map_of (ov_fails s) (cid c) of None \<Rightarrow> False | Some (n, u) \<Rightarrow> now < u)"

definition asked_clusters :: "overview \<Rightarrow> int \<Rightarrow> obj list \<Rightarrow> obj list" where
  "asked_clusters s now data = filter (\<lambda>c. \<not> cooling s now c) (connected_clusters data)"

text \<open>\<open>bumpBackoff\<close>.\<close>

definition bumpBackoff :: "string \<Rightarrow> int \<Rightarrow> overview \<Rightarrow> overview" where
  "bumpBackoff c now s =
     (let n = min ((case map_of (ov_fails s) c of None \<Rightarrow> 0 | Some (k, u) \<Rightarrow> k) + 1) 6
      in s\<lparr>ov_fails := AList.update c (n, now + 5000 * 2 ^ (n - 1)) (ov_fails s)\<rparr>)"

definition load_score :: "row \<Rightarrow> rat" where
  "load_score r = rw_cpu r * 100 + (if 0 < rw_maxmem r then rw_mem r / rw_maxmem r * 100 else 0)"

definition load_cmp :: "row \<Rightarrow> row \<Rightarrow> int" where
  "load_cmp a b = (if load_score b < load_score a then -1 else if load_score a < load_score b then 1 else 0)"

definition top_guests :: "row list \<Rightarrow> row list" where
  "top_guests rs = take 10 (js_sort load_cmp (filter (\<lambda>r. prop_of (rw_fields r) ''status'' = Str ''running'') rs))"

text \<open>The guests of a cluster, with its id and name.\<close>

definition cluster_guests :: "obj \<Rightarrow> row list \<Rightarrow> row list" where
  "cluster_guests c rs =
     map (\<lambda>r. r\<lparr>rw_fields := spread (rw_fields r) [(''cluster_id'', prop_of c ''id''), (''cluster_name'', or_else (prop_of c ''display_name'') (prop_of c ''name''))]\<rparr>)
       (filter (\<lambda>r. prop_of (rw_fields r) ''type'' \<in> {Str ''qemu'', Str ''lxc''}) rs)"

text \<open>\<open>Promise.allSettled\<close>: a round without reads is over.\<close>

definition end_round :: "nat \<Rightarrow> overview \<Rightarrow> overview" where
  "end_round i s =
     (if ro_reads (ov_rounds s ! i) = []
      then s\<lparr>ov_top := top_guests (ro_guests (ov_rounds s ! i)), ov_rounds := take i (ov_rounds s) @ drop (Suc i) (ov_rounds s)\<rparr> else s)"

definition fetchClusters :: "overview \<Rightarrow> overview" where
  "fetchClusters s = s\<lparr>ov_lists := ov_lists s + 1\<rparr>"

definition keep_selected :: "obj list \<Rightarrow> obj option \<Rightarrow> obj option" where
  "keep_selected data sel =
     (case sel of None \<Rightarrow> None
      | Some c \<Rightarrow> (case find (\<lambda>d. prop_of d ''id'' = prop_of c ''id'') data of Some u \<Rightarrow> Some u | None \<Rightarrow> Some c))"

definition clusters_answer :: "obj list option \<Rightarrow> int \<Rightarrow> overview \<Rightarrow> overview" where
  "clusters_answer a now s =
     (let s1 = s\<lparr>ov_lists := ov_lists s - 1\<rparr>
      in case a of None \<Rightarrow> s1
         | Some data \<Rightarrow>
             end_round (length (ov_rounds s1))
               (s1\<lparr>ov_clusters := data, ov_selected := keep_selected data (ov_selected s1),
                   ov_rounds := ov_rounds s1 @ [\<lparr>ro_reads = map Read_Status (asked_clusters s1 now data), ro_guests = []\<rparr>]\<rparr>))"

text \<open>An answer: none, or its status, whether it is \<open>ok\<close>, and its body unless that is no JSON.\<close>

type_synonym 'a answer = "(nat \<times> bool \<times> 'a option) option"

definition set_round :: "nat \<Rightarrow> (read_round \<Rightarrow> read_round) \<Rightarrow> overview \<Rightarrow> overview" where
  "set_round i f s = s\<lparr>ov_rounds := (ov_rounds s)[i := f (ov_rounds s ! i)]\<rparr>"

definition drop_read :: "nat \<Rightarrow> read_round \<Rightarrow> read_round" where
  "drop_read j r = r\<lparr>ro_reads := take j (ro_reads r) @ drop (Suc j) (ro_reads r)\<rparr>"

definition status_answer :: "nat \<Rightarrow> nat \<Rightarrow> obj \<Rightarrow> obj answer \<Rightarrow> int \<Rightarrow> overview \<Rightarrow> overview" where
  "status_answer i j c a now s =
     (let go_on = set_round i (\<lambda>r. r\<lparr>ro_reads := (ro_reads r)[j := Read_Resources c]\<rparr>)
      in case a of
           None \<Rightarrow> go_on (bumpBackoff (cid c) now s)
         | Some (st, good, body) \<Rightarrow>
             if good
             then (case body of None \<Rightarrow> end_round i (set_round i (drop_read j) s)
                   | Some d \<Rightarrow> go_on (s\<lparr>ov_metrics := AList.update (cid c) d (ov_metrics s), ov_fails := AList.delete (cid c) (ov_fails s)\<rparr>))
             else if st \<in> {502, 503, 504} then go_on (bumpBackoff (cid c) now s) else go_on s)"

definition resources_read :: "nat \<Rightarrow> nat \<Rightarrow> obj \<Rightarrow> row list answer \<Rightarrow> overview \<Rightarrow> overview" where
  "resources_read i j c a s =
     (case a of
        Some (st, True, Some rs) \<Rightarrow>
          end_round i (set_round i (\<lambda>r. (drop_read j r)\<lparr>ro_guests := ro_guests r @ cluster_guests c rs\<rparr>)
            (s\<lparr>ov_resources := AList.update (cid c) rs (ov_resources s)\<rparr>))
      | _ \<Rightarrow> end_round i (set_round i (drop_read j) s))"

datatype ov_event =
    Ask_Clusters
  | Clusters_Answer "obj list option"
  | Status_Answer nat nat "obj answer"
  | Resources_Answer nat nat "row list answer"
  | Select "obj option"

definition the_read :: "overview \<Rightarrow> nat \<Rightarrow> nat \<Rightarrow> cluster_read option" where
  "the_read s i j = (if i < length (ov_rounds s) \<and> j < length (ro_reads (ov_rounds s ! i)) then Some (ro_reads (ov_rounds s ! i) ! j) else None)"

text \<open>An event comes at a time not before the last one.\<close>

definition overview_exec :: "overview \<Rightarrow> ov_event \<times> int \<Rightarrow> overview option" where
  "overview_exec s ev =
     (let (e, now) = ev; s' = s\<lparr>ov_clock := now\<rparr>
      in if now < ov_clock s then None
         else case e of
           Ask_Clusters \<Rightarrow> Some (fetchClusters s')
         | Clusters_Answer a \<Rightarrow> if 0 < ov_lists s then Some (clusters_answer a now s') else None
         | Status_Answer i j a \<Rightarrow> (case the_read s i j of Some (Read_Status c) \<Rightarrow> Some (status_answer i j c a now s') | _ \<Rightarrow> None)
         | Resources_Answer i j a \<Rightarrow> (case the_read s i j of Some (Read_Resources c) \<Rightarrow> Some (resources_read i j c a s') | _ \<Rightarrow> None)
         | Select c \<Rightarrow> Some (s'\<lparr>ov_selected := c\<rparr>))"

section \<open>QDevices\<close>

text \<open>Which clusters are asked: the selected one and, in the corporate tree, those that are open, unless one refused.\<close>

definition qdevice_round :: "obj option \<Rightarrow> bool \<Rightarrow> (string \<times> bool) list \<Rightarrow> (string \<times> obj) list \<Rightarrow> string list" where
  "qdevice_round sel corporate expanded seen =
     (let ids = (case sel of None \<Rightarrow> [] | Some c \<Rightarrow> if truthy (prop_of c ''id'') then [cid c] else []) @
                (if corporate then map fst (filter snd expanded) else [])
      in filter (\<lambda>c. case map_of seen c of None \<Rightarrow> True | Some q \<Rightarrow> \<not> truthy (prop_of q ''refused'')) (rev (remdups (rev ids))))"

definition fetchQdevice :: "obj list \<Rightarrow> bool \<Rightarrow> string \<Rightarrow> bool" where
  "fetchQdevice clusters can_view c =
     (case find (\<lambda>x. cid x = c) clusters of None \<Rightarrow> False
      | Some x \<Rightarrow> prop_of x ''cluster_type'' \<noteq> Str ''xcpng'' \<and> prop_of x ''connected'' \<noteq> Bool False \<and> can_view)"

definition qdevice_stale :: "string \<Rightarrow> (string \<times> obj) list \<Rightarrow> (string \<times> obj) list" where
  "qdevice_stale c seen =
     (case map_of seen c of None \<Rightarrow> seen
      | Some q \<Rightarrow> if truthy (prop_of q ''present'') \<and> \<not> truthy (prop_of q ''stale'') then AList.update c (spread q [(''stale'', Bool True)]) seen else seen)"

definition qdevice_answer :: "string \<Rightarrow> obj answer \<Rightarrow> (string \<times> obj) list \<Rightarrow> (string \<times> obj) list" where
  "qdevice_answer c a seen =
     (case a of
        None \<Rightarrow> qdevice_stale c seen
      | Some (st, good, body) \<Rightarrow>
          if good then (case body of Some d \<Rightarrow> AList.update c d seen | None \<Rightarrow> qdevice_stale c seen)
          else if st = 403 \<or> st = 404 then AList.update c [(''present'', Bool False), (''refused'', Bool True)] seen
          else qdevice_stale c seen)"

section \<open>The tree and the event stream\<close>

text \<open>\<open>toggleSidebarCluster\<close>: the open clusters, and whether the data of this one is read.\<close>

definition toggleSidebarCluster :: "obj option \<Rightarrow> string \<Rightarrow> (string \<times> bool) list \<Rightarrow> (string \<times> bool) list \<times> bool" where
  "toggleSidebarCluster sel c expanded =
     (if map_of expanded c = Some True then (AList.delete c expanded, False)
      else (AList.update c True expanded, case sel of None \<Rightarrow> True | Some x \<Rightarrow> cid x \<noteq> c))"

text \<open>The clusters in the body of \<open>/sse/subscribe\<close>, after 300 ms without another change; \<open>None\<close> for all.\<close>

definition subscribed :: "obj option \<Rightarrow> obj option \<Rightarrow> (string \<times> bool) list \<Rightarrow> string list option" where
  "subscribed sel hv expanded =
     (let id_of = (\<lambda>c. case c of None \<Rightarrow> [] | Some x \<Rightarrow> if truthy (prop_of x ''id'') then [cid x] else []);
          ids = rev (remdups (rev (id_of sel @ id_of hv @ map fst (filter snd expanded))))
      in if ids = [] then None else Some ids)"

section \<open>The pause of a failing cluster\<close>

definition backoff_inv :: "overview \<Rightarrow> bool" where
  "backoff_inv s \<longleftrightarrow> (\<forall>(c, n, u) \<in> set (ov_fails s). 1 \<le> n \<and> n \<le> 6 \<and> u \<le> ov_clock s + 5000 * 2 ^ (n - 1))"

lemma backoff_later: "backoff_inv s \<Longrightarrow> ov_clock s \<le> now \<Longrightarrow> backoff_inv (s\<lparr>ov_clock := now\<rparr>)"
  by (fastforce simp: backoff_inv_def)

lemma backoff_same: "ov_fails s' = ov_fails s \<Longrightarrow> ov_clock s' = ov_clock s \<Longrightarrow> backoff_inv s' = backoff_inv s"
  by (simp add: backoff_inv_def)

lemma end_round_fails [simp]: "ov_fails (end_round i s) = ov_fails s" "ov_clock (end_round i s) = ov_clock s"
  "ov_fails (set_round i f s) = ov_fails s" "ov_clock (set_round i f s) = ov_clock s"
  by (simp_all add: end_round_def set_round_def)

lemma backoff_bump:
  assumes "backoff_inv s"
  shows "backoff_inv (bumpBackoff c (ov_clock s) s)"
proof -
  let ?n = "min ((case map_of (ov_fails s) c of None \<Rightarrow> 0 | Some (k, u) \<Rightarrow> k) + 1) 6"
  have "1 \<le> ?n" "?n \<le> 6" by auto
  with assms set_alist_update [of c "(?n, ov_clock s + 5000 * 2 ^ (?n - 1))" "ov_fails s"] show ?thesis
    unfolding backoff_inv_def bumpBackoff_def Let_def by fastforce
qed

lemma backoff_delete: "backoff_inv s \<Longrightarrow> backoff_inv (s\<lparr>ov_metrics := m, ov_fails := AList.delete c (ov_fails s)\<rparr>)"
  by (auto simp: backoff_inv_def AList.delete_eq)

lemma backoff_status: "backoff_inv s \<Longrightarrow> backoff_inv (status_answer i j c a (ov_clock s) s) \<and> ov_clock (status_answer i j c a (ov_clock s) s) = ov_clock s"
proof -
  assume b: "backoff_inv s"
  have bc: "ov_clock (bumpBackoff x t s) = ov_clock s" for x t by (simp add: bumpBackoff_def Let_def)
  have sr: "backoff_inv (set_round i f t) = backoff_inv t" for f t by (rule backoff_same) simp_all
  have er: "backoff_inv (end_round i t) = backoff_inv t" for t by (rule backoff_same) simp_all
  show ?thesis
  proof (cases a)
    case None
    with b show ?thesis by (simp add: status_answer_def sr backoff_bump bc)
  next
    case (Some x)
    then obtain st good body where x: "a = Some (st, good, body)" by (cases x) auto
    show ?thesis
    proof (cases good)
      case True
      then show ?thesis using b backoff_delete [OF b] by (cases body) (simp_all add: x status_answer_def sr er)
    next
      case False
      then show ?thesis using b backoff_bump [OF b] by (simp add: x status_answer_def sr bc Let_def)
    qed
  qed
qed

lemma overview_fails_same:
  "ov_fails (clusters_answer a now s) = ov_fails s" "ov_clock (clusters_answer a now s) = ov_clock s"
  "ov_fails (resources_read i j c r s) = ov_fails s" "ov_clock (resources_read i j c r s) = ov_clock s"
  by (auto simp: clusters_answer_def resources_read_def Let_def split: option.split bool.split)

lemma backoff_step:
  assumes b: "backoff_inv s" and step: "overview_exec s ev = Some s'"
  shows "backoff_inv s'"
proof -
  obtain e now where ev: "ev = (e, now)" by (cases ev)
  let ?s = "s\<lparr>ov_clock := now\<rparr>"
  from step ev have "ov_clock s \<le> now" by (auto simp: overview_exec_def Let_def split: if_splits)
  from backoff_later [OF b this] have b': "backoff_inv ?s" .
  show ?thesis
  proof (cases e)
    case (Status_Answer i j a)
    with step ev obtain c where "s' = status_answer i j c a (ov_clock ?s) ?s"
      by (auto simp: overview_exec_def Let_def split: if_splits option.splits cluster_read.splits)
    with backoff_status [OF b'] show ?thesis by blast
  qed (use step ev b' in \<open>auto simp: overview_exec_def Let_def fetchClusters_def backoff_inv_def overview_fails_same
         split: if_splits option.splits cluster_read.splits\<close>)
qed

interpretation overview: step_machine "\<lambda>s e s'. overview_exec s e = Some s'" "\<lambda>s. s = overview_new" backoff_inv
  by unfold_locales (simp add: backoff_inv_def overview_new_def, rule backoff_step)

section \<open>Properties\<close>

text \<open>C39. A cluster that fails pauses for at most 160 seconds, however often it failed; so a list of clusters that comes that long after the
  last event asks every connected cluster.\<close>

theorem overview_backoff_bounded:
  assumes "steps (\<lambda>s e s'. overview_exec s e = Some s') overview_new es s"
  shows "(\<forall>(c, n, u) \<in> set (ov_fails s). 1 \<le> n \<and> n \<le> 6 \<and> u \<le> ov_clock s + 160000) \<and>
         (ov_clock s + 160000 \<le> now \<longrightarrow> asked_clusters s now data = connected_clusters data)"
proof -
  have "backoff_inv s" by (rule overview.inv_run [OF refl assms])
  moreover have "(5000 :: int) * 2 ^ (n - 1) \<le> 160000" if "n \<le> 6" for n :: nat
  proof -
    have "(2 :: int) ^ (n - 1) \<le> 2 ^ 5" by (rule power_increasing) (use that in auto)
    then show ?thesis by simp
  qed
  ultimately have f: "\<forall>(c, n, u) \<in> set (ov_fails s). 1 \<le> n \<and> n \<le> 6 \<and> u \<le> ov_clock s + 160000"
    unfolding backoff_inv_def by fastforce
  moreover have "\<not> cooling s now c" if "ov_clock s + 160000 \<le> now" for c
    using f that by (auto simp: cooling_def split: option.split dest!: map_of_SomeD)
  ultimately show ?thesis by (simp add: asked_clusters_def)
qed

definition demo_cluster :: "obj list" where
  "demo_cluster = [[(''id'', Str ''a''), (''connected'', Bool True)], [(''id'', Str ''b''), (''connected'', Bool True), (''cluster_type'', Str ''esxi'')]]"

definition demo_overview :: "(ov_event \<times> int) list" where
  "demo_overview = [(Ask_Clusters, 0), (Clusters_Answer (Some demo_cluster), 1000), (Status_Answer 0 0 None, 13000),
     (Resources_Answer 0 0 None, 13500), (Ask_Clusters, 15000), (Clusters_Answer (Some demo_cluster), 16000)]"

lemma overview_run: "run_exec overview_exec s es = Some s' \<Longrightarrow> steps (\<lambda>s e s'. overview_exec s e = Some s') s es s'"
  by (rule steps_run_exec) simp_all

theorem overview_backoff_bounded_witness:
  "run_ends overview_exec overview_new demo_overview
     (\<lambda>s. ov_fails s = [(''a'', 1, 18000)] \<and> asked_clusters s 16000 demo_cluster = [] \<and> asked_clusters s 176000 demo_cluster = connected_clusters demo_cluster)"
proof -
  have "run_ends overview_exec overview_new demo_overview
     (\<lambda>s. ov_clock s = 16000 \<and> ov_fails s = [(''a'', 1, 18000)] \<and> asked_clusters s 16000 demo_cluster = [])" by code_simp
  then obtain s where s: "run_exec overview_exec overview_new demo_overview = Some s" "ov_clock s = 16000" "ov_fails s = [(''a'', 1, 18000)]"
    "asked_clusters s 16000 demo_cluster = []" unfolding run_ends_iff by (elim exE conjE)
  have "asked_clusters s 176000 demo_cluster = connected_clusters demo_cluster"
    using overview_backoff_bounded [OF overview_run [OF s(1)], of 176000 demo_cluster] s(2) by simp
  with s(1,3,4) show ?thesis unfolding run_ends_iff by (intro exI [of _ s] conjI)
qed

text \<open>The guests shown are at most ten, run, and stand in the order of their load.\<close>

lemma top_guests_sorted: "sorted_wrt (\<lambda>a b. load_score b \<le> load_score a) (top_guests rs) \<and> length (top_guests rs) \<le> 10"
proof -
  have ins: "sorted_wrt (\<lambda>a b. load_score b \<le> load_score a) (insert_cmp load_cmp x ys)"
    if "sorted_wrt (\<lambda>a b. load_score b \<le> load_score a) ys" for x ys
    using that
  proof (induction ys)
    case (Cons y ys)
    have "set (insert_cmp load_cmp x ys) = insert x (set ys)"
      by (metis mset_insert_cmp set_mset_add_mset_insert set_mset_mset)
    moreover have "load_cmp x y \<le> 0 \<longleftrightarrow> load_score y \<le> load_score x" by (simp add: load_cmp_def)
    ultimately show ?case using Cons by (auto simp: not_le less_imp_le)
  qed simp
  have "sorted_wrt (\<lambda>a b. load_score b \<le> load_score a) (js_sort load_cmp xs)" for xs
    unfolding js_sort_def by (induction xs) (auto intro: ins)
  then show ?thesis by (simp add: top_guests_def sorted_wrt_take)
qed

end
