(* ===== verification/Service_Worker.thy ===== *)
theory Service_Worker
  imports Js_Values
begin

text \<open>
  The service worker (web/sw.js): which requests it answers, what it keeps in its caches, the notification of a
  push and the tab a click on it opens. A cache is a list of pages with their responses, a page being a path with its query; a
  request the worker passes on leaves no trace. \<open>caches.match\<close> looks through the caches in the order they were created.
\<close>

section \<open>Caches\<close>

record sw_request =
  rq_origin :: string
  rq_method :: string
  rq_path :: string
  rq_query :: string

record sw_response =
  rs_ok :: bool
  rs_basic :: bool
  rs_text :: string

type_synonym page = "string \<times> string"

type_synonym sw_cache = "(page \<times> sw_response) list"

record worker =
  sw_origin :: string
  sw_caches :: "(string \<times> sw_cache) list"
  sw_replies :: "sw_response option list"

definition CACHE_NAME :: string where
  "CACHE_NAME = ''pegaprox-shell-v3''"

definition SHELL_ASSETS :: "string list" where
  "SHELL_ASSETS = [''/'', ''/manifest.webmanifest'', ''/images/pegaprox.png'', ''/favicon.ico'']"

definition open_cache :: "string \<Rightarrow> (string \<times> sw_cache) list \<Rightarrow> sw_cache" where
  "open_cache n cs = (case map_of cs n of None \<Rightarrow> [] | Some c \<Rightarrow> c)"

definition cache_put :: "page \<Rightarrow> sw_response \<Rightarrow> (string \<times> sw_cache) list \<Rightarrow> (string \<times> sw_cache) list" where
  "cache_put u r cs = AList.update CACHE_NAME (AList.update u r (open_cache CACHE_NAME cs)) cs"

fun caches_match :: "page \<Rightarrow> (string \<times> sw_cache) list \<Rightarrow> sw_response option" where
  "caches_match u [] = None"
| "caches_match u ((n, c) # cs) = (case map_of c u of Some r \<Rightarrow> Some r | None \<Rightarrow> caches_match u cs)"

text \<open>\<open>install\<close>: each asset is added if the server answers it with success (\<open>c.add\<close> refuses everything else).\<close>

definition sw_install :: "(string \<Rightarrow> sw_response option) \<Rightarrow> worker \<Rightarrow> worker" where
  "sw_install net s =
     s\<lparr>sw_caches := fold (\<lambda>u cs. case net u of None \<Rightarrow> cs | Some r \<Rightarrow> if rs_ok r then cache_put (u, []) r cs else cs) SHELL_ASSETS
         (AList.update CACHE_NAME (open_cache CACHE_NAME (sw_caches s)) (sw_caches s))\<rparr>"

definition sw_activate :: "worker \<Rightarrow> worker" where
  "sw_activate s = s\<lparr>sw_caches := filter (\<lambda>(n, c). n = CACHE_NAME) (sw_caches s)\<rparr>"

definition live_path :: "string \<Rightarrow> bool" where
  "live_path p \<longleftrightarrow> starts_with p ''/api/'' \<or> starts_with p ''/ws'' \<or> starts_with p ''/.well-known/''"

definition sw_handles :: "worker \<Rightarrow> sw_request \<Rightarrow> bool" where
  "sw_handles s q \<longleftrightarrow> rq_origin q = sw_origin s \<and> rq_method q = ''GET'' \<and> \<not> live_path (rq_path q)"

text \<open>\<open>fetch\<close>: the network first, then the caches, then the page itself. Keeping a response may fail, which nobody notices.\<close>

definition sw_fetch :: "sw_request \<Rightarrow> sw_response option \<Rightarrow> bool \<Rightarrow> worker \<Rightarrow> worker" where
  "sw_fetch q net kept s =
     (if \<not> sw_handles s q then s
      else case net of
        Some r \<Rightarrow>
          (if rs_ok r \<and> rs_basic r \<and> kept then s\<lparr>sw_caches := cache_put (rq_path q, rq_query q) r (sw_caches s)\<rparr> else s)\<lparr>sw_replies := sw_replies s @ [Some r]\<rparr>
      | None \<Rightarrow>
          s\<lparr>sw_replies := sw_replies s @ [case caches_match (rq_path q, rq_query q) (sw_caches s) of Some r \<Rightarrow> Some r | None \<Rightarrow> caches_match (''/'', []) (sw_caches s)]\<rparr>)"

datatype sw_event =
    Install "string \<Rightarrow> sw_response option"
  | Activate
  | Fetch sw_request "sw_response option" bool

definition sw_step :: "worker \<Rightarrow> sw_event \<Rightarrow> worker" where
  "sw_step s e = (case e of Install net \<Rightarrow> sw_install net s | Activate \<Rightarrow> sw_activate s | Fetch q net kept \<Rightarrow> sw_fetch q net kept s)"

section \<open>Notifications\<close>

record notification =
  no_title :: string
  no_body :: string
  no_tag :: string
  no_stays :: bool
  no_url :: string

text \<open>What a push shows for the answer of the inbox: \<open>None\<close> if the request or its body failed, the body otherwise (the items are
  empty where the answer is no success).\<close>

definition sw_push :: "obj list option \<Rightarrow> notification" where
  "sw_push a =
     (case a of
        None \<Rightarrow> \<lparr>no_title = ''PegaProx'', no_body = ''New activity (open the app to view)'', no_tag = ''pegaprox-fallback'', no_stays = False, no_url = []\<rparr>
      | Some [] \<Rightarrow> \<lparr>no_title = ''PegaProx'', no_body = ''You have a new alert'', no_tag = ''pegaprox-generic'', no_stays = False, no_url = []\<rparr>
      | Some (i # rest) \<Rightarrow>
          \<lparr>no_title = to_str (or_else (prop_of i ''title'') (Str ''PegaProx'')), no_body = to_str (or_else (prop_of i ''body'') (Str [])),
           no_tag = to_str (or_else (prop_of i ''tag'') (Str (''pegaprox-'' @ to_str (prop_of i ''id'')))),
           no_stays = (to_lower (to_str (or_else (prop_of i ''severity'') (Str ''info''))) = ''critical''),
           no_url = to_str (or_else (prop_of i ''url'') (Str ''/''))\<rparr>)"

datatype click_result = Focus nat "string option" | Open_Window string

text \<open>A click: the first tab of this origin is focused (and sent to the page, if it can be), else a window is opened.\<close>

definition sw_click :: "string \<Rightarrow> string \<Rightarrow> (string \<times> bool) list \<Rightarrow> click_result" where
  "sw_click origin url clients =
     (let target = (if url \<noteq> [] then url else ''/'')
      in case find_index (\<lambda>(u, nav). starts_with u origin) clients of
           Some i \<Rightarrow> Focus i (if snd (clients ! i) then Some target else None)
         | None \<Rightarrow> Open_Window target)"

section \<open>What is kept\<close>

definition entry_fit :: "page \<times> sw_response \<Rightarrow> bool" where
  "entry_fit e \<longleftrightarrow> \<not> live_path (fst (fst e)) \<and> rs_ok (snd e)"

definition caches_fit :: "(string \<times> sw_cache) list \<Rightarrow> bool" where
  "caches_fit cs \<longleftrightarrow> (\<forall>(n, c) \<in> set cs. list_all entry_fit c)"

lemma fit_open: "caches_fit cs \<Longrightarrow> list_all entry_fit (open_cache n cs)"
  by (auto simp: caches_fit_def open_cache_def split: option.split dest!: map_of_SomeD)

lemma fit_update: "caches_fit cs \<Longrightarrow> list_all entry_fit c \<Longrightarrow> caches_fit (AList.update n c cs)"
  using set_alist_update [of n c cs] by (auto simp: caches_fit_def)

lemma fit_put:
  assumes "caches_fit cs" and "\<not> live_path (fst u)" and "rs_ok r"
  shows "caches_fit (cache_put u r cs)"
  unfolding cache_put_def
proof (rule fit_update [OF assms(1)])
  show "list_all entry_fit (AList.update u r (open_cache CACHE_NAME cs))"
    using fit_open [OF assms(1), of CACHE_NAME] set_alist_update [of u r "open_cache CACHE_NAME cs"] assms(2,3)
    by (auto simp: list_all_iff entry_fit_def)
qed

lemma assets_not_live: "u \<in> set SHELL_ASSETS \<Longrightarrow> \<not> live_path u"
  by (auto simp: SHELL_ASSETS_def live_path_def)

lemma fit_install: "caches_fit (sw_caches s) \<Longrightarrow> caches_fit (sw_caches (sw_install net s))"
proof -
  let ?f = "\<lambda>u cs. case net u of None \<Rightarrow> cs | Some r \<Rightarrow> if rs_ok r then cache_put (u, []) r cs else cs"
  have "caches_fit cs \<Longrightarrow> \<forall>u \<in> set us. \<not> live_path u \<Longrightarrow> caches_fit (fold ?f us cs)" for us cs
    by (induction us arbitrary: cs) (auto simp: fit_put split: option.split)
  moreover assume "caches_fit (sw_caches s)"
  ultimately show ?thesis using assets_not_live by (simp add: sw_install_def fit_update fit_open)
qed

lemma fit_step: "caches_fit (sw_caches s) \<Longrightarrow> caches_fit (sw_caches (sw_step s e))"
proof (cases e)
  case (Fetch q net kept)
  assume "caches_fit (sw_caches s)"
  then show ?thesis by (auto simp: Fetch sw_step_def sw_fetch_def sw_handles_def fit_put split: option.split)
next
  case Activate
  assume "caches_fit (sw_caches s)"
  then show ?thesis by (auto simp: Activate sw_step_def sw_activate_def caches_fit_def)
qed (simp add: sw_step_def fit_install)

interpretation worker: step_machine "\<lambda>s e s'. s' = sw_step s e" "\<lambda>s. sw_caches s = []" "\<lambda>s. caches_fit (sw_caches s)"
proof
  fix s :: worker assume "sw_caches s = []"
  then show "caches_fit (sw_caches s)" by (simp add: caches_fit_def)
qed (simp add: fit_step)

section \<open>Properties\<close>





end
