(* ===== verification/Guest_Editor.thy ===== *)
theory Guest_Editor
  imports Js_Values
begin

text \<open>
  The configuration editor of a guest (\<open>VmConfigModal\<close> in web/src/vm_config.js): the configuration it loads, the fields
  the user has changed, saving them, and what the live connection reports meanwhile. Answers of the server come as
  events in any order, an answer that gives up (\<open>authFetch\<close> catches it and returns null) included.

  \<^item> \<open>getValue\<close>, \<open>handleChange\<close>, the check of a new name, \<open>handleSave\<close>, \<open>fetchConfig\<close> with its retries, the update by
    the live connection.
  \<^item> \<open>one_save\<close>: at most one save under way, and the button is off meanwhile. \<open>edit_shown\<close>: a field shows what
    was entered until a save succeeds. \<open>save_sends_edits\<close>: what is sent.
  \<^item> \<open>edits_lost_while_saving\<close> and \<open>lost_load_not_retried\<close>: what the code gets wrong.
\<close>

section \<open>The configuration\<close>

text \<open>The parts of a configuration: disks and network cards by their ids, the options, the lines of the file as they are,
  and every other section.\<close>

record guest_cfg =
  cfg_disks :: "string list option"
  cfg_unused :: "string list option"
  cfg_networks :: "string list option"
  cfg_options :: "obj option"
  cfg_raw :: "obj option"
  cfg_sections :: "(string \<times> obj) list"

definition section_of :: "guest_cfg \<Rightarrow> string \<Rightarrow> obj option" where
  "section_of c s = (if s = ''options'' then cfg_options c else map_of (cfg_sections c) s)"

text \<open>\<open>getValue\<close>: a change, else the section, else the line of the file, else the empty text.\<close>

definition getValue :: "obj \<Rightarrow> guest_cfg option \<Rightarrow> string \<Rightarrow> string \<Rightarrow> jval" where
  "getValue changes config section key =
     (case map_of changes key of Some v \<Rightarrow> v
      | None \<Rightarrow> (case Option.bind config (\<lambda>c. Option.bind (section_of c section) (\<lambda>s. map_of s key)) of Some v \<Rightarrow> v
         | None \<Rightarrow> (case Option.bind config (\<lambda>c. Option.bind (cfg_raw c) (\<lambda>r. map_of r key)) of Some v \<Rightarrow> (if v = Undef then Str [] else v)
            | None \<Rightarrow> Str [])))"

text \<open>The configuration the live connection brings, laid over the one that is there.\<close>

definition over :: "'a option \<Rightarrow> 'a option \<Rightarrow> 'a option" where
  "over new old = (case new of None \<Rightarrow> old | Some v \<Rightarrow> Some v)"

definition spread_opt :: "obj option \<Rightarrow> obj option \<Rightarrow> obj option" where
  "spread_opt old new = Some (spread (case old of None \<Rightarrow> [] | Some a \<Rightarrow> a) (case new of None \<Rightarrow> [] | Some b \<Rightarrow> b))"

definition empty_cfg :: guest_cfg where
  "empty_cfg = \<lparr> cfg_disks = None, cfg_unused = None, cfg_networks = None, cfg_options = None, cfg_raw = None, cfg_sections = [] \<rparr>"

definition live_merge :: "guest_cfg option \<Rightarrow> guest_cfg \<Rightarrow> guest_cfg" where
  "live_merge prev new =
     (let p = (case prev of None \<Rightarrow> empty_cfg | Some c \<Rightarrow> c)
      in \<lparr> cfg_disks = over (cfg_disks new) (cfg_disks p), cfg_unused = over (cfg_unused new) (cfg_unused p),
           cfg_networks = over (cfg_networks new) (cfg_networks p),
           cfg_options = spread_opt (cfg_options p) (cfg_options new), cfg_raw = spread_opt (cfg_raw p) (cfg_raw new),
           cfg_sections = foldl (\<lambda>ss (k, v). AList.update k v ss) (cfg_sections p) (cfg_sections new) \<rparr>)"

section \<open>A name Proxmox accepts\<close>

text \<open>\<open>[a-zA-Z0-9](?:[a-zA-Z0-9\-]{0,61}[a-zA-Z0-9])?\<close>, and labels separated by dots.\<close>

definition guest_name_label :: "string \<Rightarrow> bool" where
  "guest_name_label s \<longleftrightarrow> s \<noteq> [] \<and> length s \<le> 63 \<and> is_alnum (hd s) \<and> is_alnum (last s) \<and> list_all (\<lambda>c. is_alnum c \<or> c = CHR ''-'') s"

definition dns_name :: "string \<Rightarrow> bool" where
  "dns_name s \<longleftrightarrow> list_all guest_name_label (split_on CHR ''.'' s)"

definition name_value :: "obj \<Rightarrow> jval option" where
  "name_value changes = (case map_of changes ''name'' of Some v \<Rightarrow> Some v | None \<Rightarrow> map_of changes ''hostname'')"

definition name_refused :: "obj \<Rightarrow> bool" where
  "name_refused changes =
     (case name_value changes of None \<Rightarrow> False
      | Some v \<Rightarrow> v \<noteq> Undef \<and> v \<noteq> Str [] \<and> (\<not> dns_name (to_str v) \<or> length (to_str v) > 255))"

section \<open>The editor\<close>

text \<open>A load under way: how often it was tried before, and whether a save waits for it.\<close>

record load =
  ld_retry :: nat
  ld_save :: bool

record editor =
  ed_vmid :: string
  ed_type :: string
  ed_source :: bool
  ed_standby :: bool
  ed_config :: "guest_cfg option"
  ed_error :: bool
  ed_loading :: bool
  ed_saving :: bool
  ed_changes :: obj
  ed_has :: bool
  ed_put :: "obj option"
  ed_loads :: "load list"
  ed_timers :: "nat list"

text \<open>\<open>fetchConfig\<close> up to its request, and the editor as it opens.\<close>

definition fetchConfig :: "nat \<Rightarrow> bool \<Rightarrow> editor \<Rightarrow> editor" where
  "fetchConfig retry of_save s = s\<lparr> ed_loading := True, ed_loads := ed_loads s @ [\<lparr> ld_retry = retry, ld_save = of_save \<rparr>] \<rparr>"

definition editor_new :: "string \<Rightarrow> string \<Rightarrow> bool \<Rightarrow> bool \<Rightarrow> editor" where
  "editor_new vmid ty source standby =
     fetchConfig 0 False
       \<lparr> ed_vmid = vmid, ed_type = ty, ed_source = source, ed_standby = standby, ed_config = None, ed_error = False, ed_loading = True,
         ed_saving = False, ed_changes = [], ed_has = False, ed_put = None, ed_loads = [], ed_timers = [] \<rparr>"

definition handleChange :: "string \<Rightarrow> jval \<Rightarrow> editor \<Rightarrow> editor" where
  "handleChange key v s = s\<lparr> ed_changes := AList.update key v (ed_changes s), ed_has := True \<rparr>"

definition handleSave :: "editor \<Rightarrow> editor" where
  "handleSave s =
     (if ed_source s \<or> ed_changes s = [] \<or> name_refused (ed_changes s) then s
      else s\<lparr> ed_saving := True, ed_put := Some (ed_changes s) \<rparr>)"

datatype save_reply = Put_ok | Put_refused | Put_lost

definition save_answer :: "save_reply \<Rightarrow> editor \<Rightarrow> editor" where
  "save_answer a s =
     (case a of Put_ok \<Rightarrow> fetchConfig 0 True (s\<lparr> ed_put := None, ed_changes := [], ed_has := False \<rparr>)
      | _ \<Rightarrow> s\<lparr> ed_put := None, ed_saving := False \<rparr>)"

text \<open>The answer of a load: a configuration, an error of the server, a body that cannot be read, no answer.\<close>

datatype load_answer = Cfg guest_cfg | Load_refused | Load_broken | Load_lost

definition load_done :: "load \<Rightarrow> editor \<Rightarrow> editor" where
  "load_done l s = (if ld_save l then s\<lparr> ed_saving := False \<rparr> else s)"

definition config_answer :: "nat \<Rightarrow> load_answer \<Rightarrow> editor \<Rightarrow> editor" where
  "config_answer i a s =
     (let l = ed_loads s ! i; s' = s\<lparr> ed_loads := drop_nth i (ed_loads s) \<rparr>
      in load_done l
           (case a of Cfg c \<Rightarrow> s'\<lparr> ed_config := Some c, ed_error := False, ed_loading := False \<rparr>
            | Load_refused \<Rightarrow> s'\<lparr> ed_error := True, ed_loading := False \<rparr>
            | Load_lost \<Rightarrow> s'\<lparr> ed_loading := False \<rparr>
            | Load_broken \<Rightarrow>
                (if ld_retry l < 2 then s'\<lparr> ed_timers := ed_timers s' @ [ld_retry l + 1] \<rparr>
                 else s'\<lparr> ed_error := True, ed_loading := False \<rparr>)))"

definition live_update :: "string \<Rightarrow> string \<Rightarrow> guest_cfg \<Rightarrow> editor \<Rightarrow> editor" where
  "live_update vmid ty new s =
     (if vmid = ed_vmid s \<and> ty = ed_type s \<and> \<not> ed_has s \<and> \<not> ed_saving s then s\<lparr> ed_config := Some (live_merge (ed_config s) new) \<rparr> else s)"

text \<open>What happens to the editor. A field can be changed while the form is shown and not read-only; the button to save is
  off during a save; another part of the dialog may load the configuration again at any time; the button of the error
  does too.\<close>

datatype editor_event =
    Edit string jval
  | Click_save
  | Save_answered save_reply
  | Load_answered nat load_answer
  | Retry nat
  | Reload
  | Try_again
  | Live string string guest_cfg

definition form_open :: "editor \<Rightarrow> bool" where
  "form_open s \<longleftrightarrow> \<not> ed_loading s \<and> \<not> ed_error s \<and> ed_config s \<noteq> None \<and> \<not> ed_source s \<and> \<not> ed_standby s"

fun editor_exec :: "editor \<Rightarrow> editor_event \<Rightarrow> editor option" where
  "editor_exec s (Edit k v) = (if form_open s then Some (handleChange k v s) else None)"
| "editor_exec s Click_save = (if ed_has s \<and> \<not> ed_saving s \<and> \<not> ed_standby s \<and> \<not> ed_source s then Some (handleSave s) else None)"
| "editor_exec s (Save_answered a) = (if ed_put s \<noteq> None then Some (save_answer a s) else None)"
| "editor_exec s (Load_answered i a) = (if i < length (ed_loads s) then Some (config_answer i a s) else None)"
| "editor_exec s (Retry i) = (if i < length (ed_timers s) then Some (fetchConfig (ed_timers s ! i) False (s\<lparr> ed_timers := drop_nth i (ed_timers s) \<rparr>)) else None)"
| "editor_exec s Reload = Some (fetchConfig 0 False s)"
| "editor_exec s Try_again = (if ed_error s \<and> \<not> ed_loading s then Some (fetchConfig 0 False (s\<lparr> ed_error := False \<rparr>)) else None)"
| "editor_exec s (Live vmid ty c) = Some (live_update vmid ty c s)"

lemmas editor_defs = handleChange_def handleSave_def save_answer_def config_answer_def fetchConfig_def load_done_def live_update_def

section \<open>One save at a time\<close>

definition saves_under_way :: "editor \<Rightarrow> nat" where
  "saves_under_way s = of_bool (ed_put s \<noteq> None) + length (filter ld_save (ed_loads s))"

definition one_save :: "editor \<Rightarrow> bool" where
  "one_save s \<longleftrightarrow> saves_under_way s = of_bool (ed_saving s)"

lemma one_save_load:
  assumes "one_save s" and "i < length (ed_loads s)"
  shows "one_save (config_answer i a s)"
  using assms filter_drop_nth [OF assms(2), of ld_save]
  by (auto simp: one_save_def saves_under_way_def config_answer_def load_done_def Let_def split: load_answer.split)

lemma one_save_step:
  assumes "one_save s" and "editor_exec s e = Some s'"
  shows "one_save s'"
proof (cases e)
  case (Load_answered i a)
  with assms show ?thesis by (auto simp: one_save_load split: if_splits)
qed (use assms in \<open>auto simp: one_save_def saves_under_way_def editor_defs of_bool_def split: if_splits save_reply.splits\<close>)

interpretation editor_save: step_machine "\<lambda>s e s'. editor_exec s e = Some s'" "\<lambda>s. \<exists>v ty src sb. s = editor_new v ty src sb" one_save
proof
  fix s assume "\<exists>v ty src sb. s = editor_new v ty src sb"
  then show "one_save s" by (auto simp: one_save_def saves_under_way_def editor_new_def fetchConfig_def)
qed (rule one_save_step)

lemma one_save_run:
  assumes "run_exec editor_exec (editor_new v ty src sb) es = Some s"
  shows "saves_under_way s \<le> 1 \<and> (ed_saving s \<longleftrightarrow> saves_under_way s = 1)"
proof -
  have "one_save s"
    using assms by (auto intro!: editor_save.inv_run steps_run_exec [where f = editor_exec])
  then show ?thesis by (simp add: one_save_def)
qed

section \<open>What is entered, shown and sent\<close>

text \<open>What the user has entered since the last save that went through.\<close>

fun entered_by :: "(string \<rightharpoonup> jval) \<Rightarrow> editor_event \<Rightarrow> (string \<rightharpoonup> jval)" where
  "entered_by m (Edit k v) = m(k \<mapsto> v)"
| "entered_by m (Save_answered Put_ok) = Map.empty"
| "entered_by m e = m"

definition entered :: "editor_event list \<Rightarrow> (string \<rightharpoonup> jval)" where
  "entered es = foldl entered_by Map.empty es"

lemma entered_Nil [simp]: "entered [] = Map.empty"
  and entered_snoc [simp]: "entered (es @ [e]) = entered_by (entered es) e"
  by (simp_all add: entered_def)

definition sent :: "editor_event list \<Rightarrow> obj \<Rightarrow> bool" where
  "sent es b \<longleftrightarrow>
     (\<exists>pre post. es = pre @ Click_save # post \<and> (\<forall>a. Save_answered a \<notin> set post) \<and> map_of b = entered pre \<and> b \<noteq> [] \<and> \<not> name_refused b)"

definition editor_inv :: "editor_event list \<Rightarrow> editor \<Rightarrow> bool" where
  "editor_inv es s \<longleftrightarrow> map_of (ed_changes s) = entered es \<and> (\<forall>b. ed_put s = Some b \<longrightarrow> sent es b)"

lemma sent_more: "sent es b \<Longrightarrow> (\<And>a. e \<noteq> Save_answered a) \<Longrightarrow> sent (es @ [e]) b"
  unfolding sent_def by (elim exE conjE, rule_tac x = pre in exI, rule_tac x = "post @ [e]" in exI) auto

lemma sent_now: "map_of b = entered es \<Longrightarrow> b \<noteq> [] \<Longrightarrow> \<not> name_refused b \<Longrightarrow> sent (es @ [Click_save]) b"
  unfolding sent_def by (rule exI [of _ es], rule exI [of _ "[]"]) simp

lemma editor_inv_step:
  assumes "editor_inv es s" and "editor_exec s e = Some s'"
  shows "editor_inv (es @ [e]) s'"
proof (cases e)
  case (Edit k v)
  with assms show ?thesis by (auto simp: editor_inv_def handleChange_def update_conv' intro: sent_more split: if_splits)
next
  case Click_save
  with assms show ?thesis by (auto simp: editor_inv_def handleSave_def intro: sent_more sent_now split: if_splits)
next
  case (Save_answered a)
  with assms show ?thesis by (cases a) (auto simp: editor_inv_def save_answer_def fetchConfig_def split: if_splits)
next
  case (Load_answered i a)
  with assms show ?thesis
    by (auto simp: editor_inv_def config_answer_def load_done_def Let_def intro: sent_more split: if_splits load_answer.splits)
qed (use assms in \<open>auto simp: editor_inv_def fetchConfig_def live_update_def intro: sent_more split: if_splits\<close>)

interpretation editor_trace: trace_machine editor_exec "editor_new v ty src sb" editor_inv for v ty src sb
proof
  show "editor_inv [] (editor_new v ty src sb)" by (simp add: editor_inv_def editor_new_def fetchConfig_def)
qed (rule editor_inv_step)

text \<open>C19. A request to save holds what was entered, and is refused by no check of the name.\<close>

theorem save_sends_edits:
  assumes "run_exec editor_exec (editor_new v ty src sb) es = Some s" and "ed_put s = Some b"
  shows "\<exists>pre post. es = pre @ Click_save # post \<and> (\<forall>a. Save_answered a \<notin> set post)
           \<and> map_of b = entered pre \<and> b \<noteq> [] \<and> \<not> name_refused b"
  using editor_trace.trace_run [OF assms(1)] assms(2) unfolding editor_inv_def sent_def by blast

lemma save_sends_edits_witness:
  "\<exists>pre post. [Load_answered 0 (Cfg empty_cfg), Edit ''cores'' (Str ''4''), Edit ''name'' (Str ''web-1.lan''), Edit ''cores'' (Str ''6''), Click_save]
       = pre @ Click_save # post \<and> (\<forall>a. Save_answered a \<notin> set post)
     \<and> map_of [(''cores'', Str ''6''), (''name'', Str ''web-1.lan'')] = entered pre
     \<and> [(''cores'', Str ''6''), (''name'', Str ''web-1.lan'')] \<noteq> [] \<and> \<not> name_refused [(''cores'', Str ''6''), (''name'', Str ''web-1.lan'')]"
  by (rule save_sends_edits [where v = "''100''" and ty = "''qemu''" and src = False and sb = False])
    (simp add: editor_new_def editor_defs form_open_def name_refused_def name_value_def dns_name_def guest_name_label_def drop_nth_def
      is_alnum_def is_alpha_def is_upper_def is_lower_def is_digit_def, simp)

lemma entered_kept:
  "(\<And>w. Edit k w \<notin> set es) \<Longrightarrow> Save_answered Put_ok \<notin> set es \<Longrightarrow> entered (pre @ es) k = entered pre k"
proof (induction es rule: rev_induct)
  case (snoc e es)
  have "entered_by (entered (pre @ es)) e k = entered (pre @ es) k"
    using snoc.prems by (cases e) (auto elim: save_reply.exhaust, metis save_reply.exhaust entered_by.simps)
  with snoc show ?case by (simp flip: append_assoc)
qed simp

text \<open>C20. A field shows what was entered last until a save goes through: not a load, not the live connection, not a failed save changes it.\<close>

theorem edit_shown:
  assumes "run_exec editor_exec (editor_new vm ty src sb) (pre @ Edit k v # post) = Some s"
    and "\<And>w. Edit k w \<notin> set post" and "Save_answered Put_ok \<notin> set post"
  shows "getValue (ed_changes s) (ed_config s) section k = v"
proof -
  have "map_of (ed_changes s) k = entered ((pre @ [Edit k v]) @ post) k"
    using editor_trace.trace_run [OF assms(1)] by (simp add: editor_inv_def)
  also have "\<dots> = entered (pre @ [Edit k v]) k" by (rule entered_kept [OF assms(2,3)])
  also have "\<dots> = Some v" by simp
  finally show ?thesis by (simp add: getValue_def)
qed

lemma edit_shown_witness:
  "let s = the (run_exec editor_exec (editor_new ''100'' ''qemu'' False False)
        ([Load_answered 0 (Cfg empty_cfg)] @ Edit ''cores'' (Str ''4'')
           # [Edit ''memory'' (Str ''2048''), Click_save, Save_answered Put_refused, Reload, Live ''100'' ''qemu'' empty_cfg, Load_answered 0 Load_broken, Retry 0]))
   in getValue (ed_changes s) (ed_config s) ''hardware'' ''cores'' = Str ''4''"
  unfolding Let_def
  by (rule edit_shown [where vm = "''100''" and ty = "''qemu''" and src = False and sb = False and post = "[Edit ''memory'' (Str ''2048''), Click_save, Save_answered Put_refused, Reload, Live ''100'' ''qemu'' empty_cfg, Load_answered 0 Load_broken, Retry 0]"
        and pre = "[Load_answered 0 (Cfg empty_cfg)]"])
    (simp_all add: editor_new_def editor_defs form_open_def name_refused_def name_value_def drop_nth_def)

section \<open>What the code gets wrong\<close>

text \<open>A change made while the answer of a save is awaited was not sent, and the answer drops it.\<close>

lemma edits_lost_while_saving:
  "\<exists>s. run_exec editor_exec (editor_new ''100'' ''qemu'' False False)
         [Load_answered 0 (Cfg empty_cfg), Edit ''cores'' (Str ''4''), Click_save, Edit ''memory'' (Str ''8192''), Save_answered Put_ok] = Some s
       \<and> ed_changes s = [] \<and> \<not> ed_has s"
  by (simp add: editor_new_def editor_defs form_open_def name_refused_def name_value_def drop_nth_def)

text \<open>The comment speaks of two retries. An answer that fails to arrive is null, which is neither of the two branches: the
  dialog is left with the words for a missing configuration, no error and no button to try again.\<close>

lemma lost_load_not_retried:
  "\<exists>s. run_exec editor_exec (editor_new vm ty src sb) [Load_answered 0 Load_lost] = Some s
       \<and> ed_config s = None \<and> \<not> ed_error s \<and> \<not> ed_loading s \<and> ed_timers s = [] \<and> ed_loads s = [] \<and> editor_exec s Try_again = None"
  by (simp add: editor_new_def editor_defs drop_nth_def)

end
