(* ===== verification/Guest_Slots.thy ===== *)
theory Guest_Slots
  imports Guest_Editor
begin

text \<open>
  Slots, formats and addresses of new devices of a guest (web/src/vm_config.js): \<open>getNextDiskId\<close>, \<open>getNextNetId\<close>,
  \<open>getFirstFreeCloudInitDevice\<close>, the formats a storage can hold, \<open>generateMAC\<close>, the dialogs that add a disk
  (\<open>AddDiskModal\<close>), a cloud-init drive, and attach an unused disk again (\<open>ReattachDiskModal\<close>). Buttons send their
  request as the value of an event; random digits are an argument.

  \<^item> locale \<open>slot_series\<close>: numbered devices, and the first number none of them has.
  \<^item> \<open>next_disk_free\<close>, \<open>add_disk_ok\<close>, \<open>cloudinit_request_ok\<close>, \<open>mac_wellformed\<close>.
  \<^item> \<open>next_net_taken\<close>: with ten cards the slot of the first one is proposed again.
\<close>

section \<open>The next free slot\<close>

definition diskBusSlotLimits :: "(string \<times> nat) list" where
  "diskBusSlotLimits = [(''ide'', 4), (''scsi'', 30), (''sata'', 30), (''virtio'', 30), (''mp'', 30)]"

definition slot_limit :: "string \<Rightarrow> nat" where
  "slot_limit bus = (case map_of diskBusSlotLimits bus of Some n \<Rightarrow> n | None \<Rightarrow> 30)"

definition getDiskBusSlots :: "string \<Rightarrow> string list" where
  "getDiskBusSlots bus = map show_nat [0..<slot_limit bus]"

text \<open>The numbers in use are read with \<open>parseInt\<close>; the ids are those of the disks of the configuration.\<close>

definition getNextDiskId :: "string list option \<Rightarrow> string \<Rightarrow> string" where
  "getNextDiskId disks bus =
     (let existing = map (\<lambda>d. parse_int (replace_first d bus [])) (filter (\<lambda>d. starts_with d bus) (case disks of None \<Rightarrow> [] | Some ds \<Rightarrow> ds))
      in case List.find (\<lambda>i. Some (int i) \<notin> set existing) [0..<slot_limit bus] of Some i \<Rightarrow> bus @ show_nat i | None \<Rightarrow> bus @ ''0'')"

definition getNextNetId :: "string list option \<Rightarrow> string" where
  "getNextNetId networks =
     (let existing = map (\<lambda>n. parse_int (replace_first n ''net'' [])) (case networks of None \<Rightarrow> [] | Some ns \<Rightarrow> ns)
      in case List.find (\<lambda>i. Some (int i) \<notin> set existing) [0..<10] of Some i \<Rightarrow> ''net'' @ show_nat i | None \<Rightarrow> ''net0'')"

definition getFirstFreeCloudInitDevice :: "obj option \<Rightarrow> string \<Rightarrow> string" where
  "getFirstFreeCloudInitDevice raw bus =
     (let used = map fst (case raw of None \<Rightarrow> [] | Some r \<Rightarrow> r)
      in case List.find (\<lambda>slot. bus @ slot \<notin> set used) (getDiskBusSlots bus) of Some slot \<Rightarrow> slot | None \<Rightarrow> [])"

text \<open>Devices with a common prefix and a number.\<close>

locale slot_series =
  fixes prefix_of :: string and limit :: nat and number :: "string \<Rightarrow> int option" and propose :: "string list \<Rightarrow> string"
  assumes number_name: "number (prefix_of @ show_nat i) = Some (int i)"
    and next_found: "List.find (\<lambda>i. Some (int i) \<notin> number ` set ids) [0..<limit] = Some i \<Longrightarrow> propose ids = prefix_of @ show_nat i"
    and next_none: "List.find (\<lambda>i. Some (int i) \<notin> number ` set ids) [0..<limit] = None \<Longrightarrow> propose ids = prefix_of @ show_nat 0"
begin

lemma next_free:
  assumes "i < limit" and "Some (int i) \<notin> number ` set ids"
  shows "propose ids \<notin> set ids"
proof -
  obtain j where "List.find (\<lambda>i. Some (int i) \<notin> number ` set ids) [0..<limit] = Some j"
    using assms by (cases "List.find (\<lambda>i. Some (int i) \<notin> number ` set ids) [0..<limit]") (auto simp: find_None_iff)
  then have "propose ids = prefix_of @ show_nat j" and "Some (int j) \<notin> number ` set ids"
    using next_found by (auto simp: find_Some_iff)
  then show ?thesis by (metis image_eqI number_name)
qed

lemma free_number:
  assumes "card (number ` set ids - {None}) < limit"
  shows "\<exists>i<limit. Some (int i) \<notin> number ` set ids"
proof (rule ccontr)
  assume "\<not> (\<exists>i<limit. Some (int i) \<notin> number ` set ids)"
  then have "(\<lambda>i. Some (int i)) ` {..<limit} \<subseteq> number ` set ids - {None}" by auto
  then have "card ((\<lambda>i. Some (int i)) ` {..<limit}) \<le> card (number ` set ids - {None})" by (intro card_mono) auto
  moreover have "card ((\<lambda>i. Some (int i)) ` {..<limit}) = limit" by (subst card_image) (auto simp: inj_on_def)
  ultimately show False using assms by simp
qed

lemma next_fresh: "card (number ` set ids - {None}) < limit \<Longrightarrow> propose ids \<notin> set ids"
  using free_number next_free by blast

lemma next_taken:
  assumes "\<And>i. i < limit \<Longrightarrow> prefix_of @ show_nat i \<in> set ids" and "0 < limit"
  shows "propose ids = prefix_of @ show_nat 0 \<and> propose ids \<in> set ids"
proof -
  have "List.find (\<lambda>i. Some (int i) \<notin> number ` set ids) [0..<limit] = None"
    using assms(1) number_name by (auto simp: find_None_iff) (metis image_eqI)
  with next_none assms show ?thesis by metis
qed

end

lemma replace_prefix: "p \<noteq> [] \<Longrightarrow> replace_first (p @ s) p [] = s"
  by (cases p) auto

lemma show_zero: "show_nat 0 = ''0''"
  by code_simp

definition disk_number :: "string \<Rightarrow> string \<Rightarrow> int option" where
  "disk_number bus d = (if starts_with d bus then parse_int (replace_first d bus []) else None)"

lemma disk_numbers:
  "Some x \<in> set (map (\<lambda>d. parse_int (replace_first d bus [])) (filter (\<lambda>d. starts_with d bus) ds)) \<longleftrightarrow> Some x \<in> disk_number bus ` set ds"
  by (force simp: disk_number_def)

interpretation bus_slots: slot_series "c # cs" "slot_limit (c # cs)" "disk_number (c # cs)" "\<lambda>ids. getNextDiskId (Some ids) (c # cs)" for c cs
proof
  show "disk_number (c # cs) ((c # cs) @ show_nat i) = Some (int i)" for i
    using replace_prefix [of "c # cs"] starts_with_append [of "c # cs"] unfolding disk_number_def by simp
qed (simp_all only: getNextDiskId_def Let_def option.case disk_numbers show_zero)

interpretation net_slots: slot_series "''net''" 10 "\<lambda>n. parse_int (replace_first n ''net'' [])" "\<lambda>ids. getNextNetId (Some ids)"
proof
  show "parse_int (replace_first (''net'' @ show_nat i) ''net'' []) = Some (int i)" for i
    by (simp only: replace_prefix list.distinct simp_thms parse_int_show)
qed (simp_all only: getNextNetId_def Let_def option.case set_map show_zero append.simps)

text \<open>A proposed disk is not one the guest has, as long as the bus has room.\<close>

theorem next_disk_free:
  assumes "bus \<noteq> []" and "length (filter (\<lambda>d. starts_with d bus) ids) < slot_limit bus"
  shows "getNextDiskId (Some ids) bus \<notin> set ids"
proof -
  have "disk_number bus ` set ids - {None} \<subseteq> disk_number bus ` set (filter (\<lambda>d. starts_with d bus) ids)"
    by (auto simp: disk_number_def split: if_splits)
  then have "card (disk_number bus ` set ids - {None}) \<le> length (filter (\<lambda>d. starts_with d bus) ids)"
    by (meson List.finite_set card_image_le card_length card_mono finite_imageI order_trans)
  with assms show ?thesis by (cases bus) (auto intro!: bus_slots.next_fresh)
qed

lemma next_disk_free_witness: "getNextDiskId (Some [''scsi0'', ''scsi2'', ''ide2'']) ''scsi'' \<notin> set [''scsi0'', ''scsi2'', ''ide2'']"
  by (rule next_disk_free) (simp_all add: slot_limit_def diskBusSlotLimits_def)

text \<open>Ten cards fill the numbers the code tries: the number of the first card is proposed for the next one.\<close>

lemma next_net_taken: "getNextNetId (Some (map (\<lambda>i. ''net'' @ show_nat i) [0..<10])) = ''net0''"
proof -
  have "''net'' @ show_nat i \<in> set (map (\<lambda>i. ''net'' @ show_nat i) [0..<10])" if "i < 10" for i
    using that by (simp only: set_map image_iff set_upt) auto
  then show ?thesis using net_slots.next_taken [of "map (\<lambda>i. ''net'' @ show_nat i) [0..<10]"] show_zero by (metis append.simps zero_less_numeral)
qed

text \<open>So with four disks on the IDE bus.\<close>

lemma next_disk_taken:
  assumes "bus \<noteq> []" and "\<And>i. i < slot_limit bus \<Longrightarrow> bus @ show_nat i \<in> set ids" and "0 < slot_limit bus"
  shows "getNextDiskId (Some ids) bus \<in> set ids"
  using assms bus_slots.next_taken [of "hd bus" "tl bus" ids] by simp

section \<open>Adding a disk\<close>

text \<open>A storage by name and type.\<close>

type_synonym storages = "(string \<times> string) list"

definition formatsForStorageType :: "string \<Rightarrow> string list" where
  "formatsForStorageType st =
     (if st \<in> {''dir'', ''nfs'', ''cifs'', ''glusterfs''} then [''qcow2'', ''raw'', ''vmdk'']
      else if st = ''btrfs'' then [''raw'', ''qcow2'']
      else if st \<in> {''lvm'', ''lvmthin''} then [''qcow2'', ''raw'']
      else if st \<in> {''zfspool'', ''zfs'', ''rbd'', ''iscsi'', ''iscsidirect''} then [''raw'']
      else [''raw'', ''qcow2''])"

definition type_of_storage :: "storages \<Rightarrow> string \<Rightarrow> string" where
  "type_of_storage ss name = (case map_of ss name of None \<Rightarrow> [] | Some ty \<Rightarrow> ty)"

abbreviation availableFormats :: "storages \<Rightarrow> string \<Rightarrow> string list" where
  "availableFormats ss name \<equiv> formatsForStorageType (type_of_storage ss name)"

record disk_form =
  df_id :: string
  df_storage :: string
  df_format :: string
  df_size :: int
  df_mount :: string
  df_cache :: string
  df_iothread :: bool
  df_ssd :: bool
  df_discard :: bool

definition currentBus :: "string \<Rightarrow> string" where
  "currentBus d = filter (\<lambda>c. \<not> is_digit c) d"

definition supportsIothread :: "string \<Rightarrow> bool" where
  "supportsIothread bus \<longleftrightarrow> bus \<in> {''scsi'', ''virtio''}"

definition supportsSsd :: "string \<Rightarrow> bool" where
  "supportsSsd bus \<longleftrightarrow> bus \<in> {''scsi'', ''virtio'', ''sata''}"

text \<open>The effect on the chosen storage keeps a format that storage can hold.\<close>

definition snap_format :: "storages \<Rightarrow> disk_form \<Rightarrow> disk_form" where
  "snap_format ss f = (if df_format f \<in> set (availableFormats ss (df_storage f)) then f else f\<lparr> df_format := hd (availableFormats ss (df_storage f)) \<rparr>)"

definition add_disk_new :: "bool \<Rightarrow> storages \<Rightarrow> string list option \<Rightarrow> disk_form" where
  "add_disk_new qemu ss disks =
     snap_format ss
       \<lparr> df_id = getNextDiskId disks (if qemu then ''scsi'' else ''mp''), df_storage = (case ss of [] \<Rightarrow> ''local-lvm'' | (n, _) # _ \<Rightarrow> n),
         df_format = hd (formatsForStorageType (case ss of [] \<Rightarrow> [] | (_, ty) # _ \<Rightarrow> ty)), df_size = 32, df_mount = [],
         df_cache = [], df_iothread = True, df_ssd = False, df_discard = True \<rparr>"

definition handleBusChange :: "string list option \<Rightarrow> string \<Rightarrow> disk_form \<Rightarrow> disk_form" where
  "handleBusChange disks bus f =
     f\<lparr> df_id := getNextDiskId disks bus, df_iothread := supportsIothread bus \<and> df_iothread f, df_ssd := supportsSsd bus \<and> df_ssd f \<rparr>"

datatype disk_request =
    Mount_request string string int string
  | Disk_request string string int bool string "string option" bool bool

definition handleAdd :: "bool \<Rightarrow> storages \<Rightarrow> disk_form \<Rightarrow> disk_request option" where
  "handleAdd qemu ss f =
     (if \<not> qemu
      then (let mp = trim (df_mount f)
            in if mp = [] \<or> \<not> starts_with mp ''/'' then None else Some (Mount_request (df_id f) (df_storage f) (df_size f) mp))
      else Some (Disk_request (df_id f) (df_storage f) (df_size f) (df_discard f)
             (if df_format f \<noteq> [] then df_format f else hd (availableFormats ss (df_storage f)))
             (if df_cache f = [] then None else Some (df_cache f))
             (supportsIothread (currentBus (df_id f)) \<and> df_iothread f) (supportsSsd (currentBus (df_id f)) \<and> df_ssd f)))"

text \<open>The fields: the lists offer storages of the node and formats of the storage.\<close>

datatype disk_event =
    Pick_bus string
  | Type_id string
  | Pick_disk_storage string
  | Pick_format string
  | Type_size string
  | Type_mount string
  | Pick_cache string
  | Tick_iothread bool
  | Tick_ssd bool
  | Tick_discard bool

fun add_disk_exec :: "bool \<Rightarrow> bool \<Rightarrow> storages \<Rightarrow> string list option \<Rightarrow> disk_form \<Rightarrow> disk_event \<Rightarrow> disk_form option" where
  "add_disk_exec qemu hw ss disks f (Pick_bus bus) = (if qemu \<and> hw then Some (handleBusChange disks bus f) else None)"
| "add_disk_exec qemu hw ss disks f (Type_id s) = (if qemu \<and> hw then Some (f\<lparr> df_id := s \<rparr>) else None)"
| "add_disk_exec qemu hw ss disks f (Pick_disk_storage s) = (if s \<in> fst ` set ss then Some (snap_format ss (f\<lparr> df_storage := s \<rparr>)) else None)"
| "add_disk_exec qemu hw ss disks f (Pick_format x) =
     (if qemu \<and> x \<in> set (availableFormats ss (df_storage f)) then Some (f\<lparr> df_format := x \<rparr>) else None)"
| "add_disk_exec qemu hw ss disks f (Type_size s) = Some (f\<lparr> df_size := (case parse_int s of None \<Rightarrow> 0 | Some n \<Rightarrow> n) \<rparr>)"
| "add_disk_exec qemu hw ss disks f (Type_mount s) = (if \<not> qemu then Some (f\<lparr> df_mount := s \<rparr>) else None)"
| "add_disk_exec qemu hw ss disks f (Pick_cache s) = (if qemu \<and> hw then Some (f\<lparr> df_cache := s \<rparr>) else None)"
| "add_disk_exec qemu hw ss disks f (Tick_iothread b) = (if qemu \<and> hw \<and> supportsIothread (currentBus (df_id f)) then Some (f\<lparr> df_iothread := b \<rparr>) else None)"
| "add_disk_exec qemu hw ss disks f (Tick_ssd b) = (if qemu \<and> hw \<and> supportsSsd (currentBus (df_id f)) then Some (f\<lparr> df_ssd := b \<rparr>) else None)"
| "add_disk_exec qemu hw ss disks f (Tick_discard b) = (if qemu \<and> hw then Some (f\<lparr> df_discard := b \<rparr>) else None)"

lemma formats_not_Nil [simp]: "formatsForStorageType st \<noteq> []" and no_empty_format [simp]: "[] \<notin> set (formatsForStorageType st)"
  by (simp_all add: formatsForStorageType_def)

lemma trim_trim: "trim (trim s) = trim s"
proof -
  have "trim_start (trim_end x) = trim_end x" if "trim_start x = x" for x
  proof (cases "trim_end x")
    case (Cons c cs)
    then obtain ys where "x = c # ys" using that unfolding trim_end_def
      by (metis append_Cons rev_append rev_rev_ident takeWhile_dropWhile_id)
    with that have "\<not> is_space c" by (auto simp: trim_start_def split: if_splits) (metis dropWhile_eq_Cons_conv list.inject)
    with Cons show ?thesis by (simp add: trim_start_def)
  qed (simp add: trim_start_def)
  then show ?thesis by (simp add: trim_def trim_start_def trim_end_def)
qed

definition format_ok :: "storages \<Rightarrow> disk_form \<Rightarrow> bool" where
  "format_ok ss f \<longleftrightarrow> df_format f \<in> set (availableFormats ss (df_storage f))"

lemma format_ok_snap: "format_ok ss (snap_format ss f)"
  by (simp add: format_ok_def snap_format_def)

lemma format_ok_step: "format_ok ss f \<Longrightarrow> add_disk_exec qemu hw ss disks f e = Some f' \<Longrightarrow> format_ok ss f'"
  by (cases e) (auto simp: format_ok_snap handleBusChange_def split: if_splits, auto simp: format_ok_def)

interpretation add_disk: step_machine "\<lambda>f e f'. add_disk_exec qemu hw ss disks f e = Some f'" "\<lambda>f. f = add_disk_new qemu ss disks" "format_ok ss"
  for qemu hw ss disks
  by unfold_locales (auto simp: add_disk_new_def format_ok_snap intro: format_ok_step)

fun disk_request_ok :: "bool \<Rightarrow> storages \<Rightarrow> disk_request \<Rightarrow> bool" where
  "disk_request_ok qemu ss (Mount_request d st sz mp) \<longleftrightarrow> \<not> qemu \<and> mp = trim mp \<and> starts_with mp ''/''"
| "disk_request_ok qemu ss (Disk_request d st sz discard fmt cache io ssd) \<longleftrightarrow>
     qemu \<and> fmt \<in> set (availableFormats ss st) \<and> cache \<noteq> Some []
     \<and> (io \<longrightarrow> supportsIothread (currentBus d)) \<and> (ssd \<longrightarrow> supportsSsd (currentBus d))"

text \<open>What the dialog asks for: a container gets an absolute path; a virtual machine a format its storage holds, and an I/O
  thread or a solid state disk only on a bus that has them, whatever was ticked before and typed as id.\<close>

lemma add_disk_ok:
  assumes "run_exec (add_disk_exec qemu hw ss disks) (add_disk_new qemu ss disks) es = Some f" and "handleAdd qemu ss f = Some r"
  shows "disk_request_ok qemu ss r"
proof -
  have "format_ok ss f" using assms(1) by (auto intro!: add_disk.inv_run steps_run_exec [where f = "add_disk_exec qemu hw ss disks"])
  moreover from this have "df_format f \<noteq> []" unfolding format_ok_def by (metis no_empty_format)
  ultimately show ?thesis
    using assms(2) by (auto simp: handleAdd_def Let_def format_ok_def trim_trim split: if_splits)
qed

lemma add_disk_ok_witness:
  "disk_request_ok True [(''tank'', ''zfspool''), (''local'', ''dir'')]
     (Disk_request ''ide1'' ''tank'' 64 True ''raw'' None False False)"
  by (rule add_disk_ok [where hw = True and disks = "Some [''ide0'', ''scsi0'']"
        and es = "[Pick_disk_storage ''local'', Pick_format ''vmdk'', Tick_ssd True, Type_size ''64'', Pick_bus ''ide'', Pick_disk_storage ''tank'']"])
    (code_simp, code_simp)

section \<open>Adding a cloud-init drive\<close>

definition cloudInitFormats :: "storages \<Rightarrow> string \<Rightarrow> string list" where
  "cloudInitFormats ss name =
     (let ty = type_of_storage ss name
      in if ty \<in> {''lvm'', ''lvmthin'', ''zfspool'', ''zfs'', ''rbd'', ''iscsi'', ''iscsidirect''} then [''raw''] else [''raw'', ''qcow2''])"

record cloud_form =
  ci_storage :: string
  ci_format :: string
  ci_bus :: string
  ci_device :: string

definition cloud_new :: cloud_form where
  "cloud_new = \<lparr> ci_storage = [], ci_format = ''raw'', ci_bus = ''ide'', ci_device = ''2'' \<rparr>"

text \<open>The effects on opening the dialog and on the chosen storage.\<close>

definition cloud_opened :: "obj option \<Rightarrow> cloud_form \<Rightarrow> cloud_form" where
  "cloud_opened raw f =
     (let bus = (if getFirstFreeCloudInitDevice raw ''ide'' \<noteq> [] then ''ide''
                 else if getFirstFreeCloudInitDevice raw ''scsi'' \<noteq> [] then ''scsi'' else ''sata'')
      in f\<lparr> ci_bus := bus, ci_device := getFirstFreeCloudInitDevice raw bus \<rparr>)"

definition cloud_format_effect :: "storages \<Rightarrow> cloud_form \<Rightarrow> cloud_form" where
  "cloud_format_effect ss f =
     (if ci_storage f = [] then f\<lparr> ci_format := ''raw'' \<rparr>
      else if ci_format f \<in> set (cloudInitFormats ss (ci_storage f)) then f
      else f\<lparr> ci_format := hd (cloudInitFormats ss (ci_storage f)) \<rparr>)"

definition raw_line :: "obj option \<Rightarrow> string \<Rightarrow> jval" where
  "raw_line raw k = (case raw of None \<Rightarrow> Undef | Some r \<Rightarrow> prop_of r k)"

text \<open>The button: the line of the configuration it sets, or nothing.\<close>

definition cloud_request :: "obj option \<Rightarrow> cloud_form \<Rightarrow> (string \<times> string) option" where
  "cloud_request raw f =
     (let drive = ci_bus f @ ci_device f
      in if ci_storage f = [] \<or> ci_device f = [] \<or> truthy (raw_line raw drive) then None
         else Some (drive, ci_storage f @ '':cloudinit,format='' @ ci_format f))"

datatype cloud_event =
    Cloud_open
  | Cloud_storage string
  | Cloud_bus string
  | Cloud_device string
  | Cloud_format string
  | Cloud_added

fun cloud_exec :: "storages \<Rightarrow> obj option \<Rightarrow> cloud_form \<Rightarrow> cloud_event \<Rightarrow> cloud_form option" where
  "cloud_exec ss raw f Cloud_open = Some (cloud_opened raw f)"
| "cloud_exec ss raw f (Cloud_storage s) = (if s = [] \<or> s \<in> fst ` set ss then Some (cloud_format_effect ss (f\<lparr> ci_storage := s \<rparr>)) else None)"
| "cloud_exec ss raw f (Cloud_bus bus) =
     (if bus \<in> {''ide'', ''scsi'', ''sata''} then Some (f\<lparr> ci_bus := bus, ci_device := getFirstFreeCloudInitDevice raw bus \<rparr>) else None)"
| "cloud_exec ss raw f (Cloud_device d) =
     (if d \<in> set (getDiskBusSlots (ci_bus f)) \<and> \<not> truthy (raw_line raw (ci_bus f @ d)) then Some (f\<lparr> ci_device := d \<rparr>) else None)"
| "cloud_exec ss raw f (Cloud_format x) =
     (if x \<in> set (if ci_storage f = [] then [''raw'', ''qcow2''] else cloudInitFormats ss (ci_storage f))
      then Some (cloud_format_effect ss (f\<lparr> ci_format := x \<rparr>)) else None)"
| "cloud_exec ss raw f Cloud_added = Some (f\<lparr> ci_storage := [], ci_format := ''raw'' \<rparr>)"

lemma first_free_slot:
  "getFirstFreeCloudInitDevice raw bus = [] \<or> getFirstFreeCloudInitDevice raw bus \<in> set (getDiskBusSlots bus)"
  by (auto simp: getFirstFreeCloudInitDevice_def Let_def find_Some_iff split: option.split)

definition cloud_slot_ok :: "cloud_form \<Rightarrow> bool" where
  "cloud_slot_ok f \<longleftrightarrow> ci_bus f \<in> {''ide'', ''scsi'', ''sata''} \<and> (ci_device f = [] \<or> ci_device f \<in> set (getDiskBusSlots (ci_bus f)))"

definition cloud_ok :: "storages \<Rightarrow> cloud_form \<Rightarrow> bool" where
  "cloud_ok ss f \<longleftrightarrow> cloud_slot_ok f
     \<and> (if ci_storage f = [] then ci_format f = ''raw'' else ci_format f \<in> set (cloudInitFormats ss (ci_storage f)))"

lemma cloud_formats_not_Nil [simp]: "cloudInitFormats ss s \<noteq> []"
  by (simp add: cloudInitFormats_def Let_def)

lemma cloud_ok_effect: "cloud_slot_ok f \<Longrightarrow> cloud_ok ss (cloud_format_effect ss f)"
  by (simp add: cloud_ok_def cloud_slot_ok_def cloud_format_effect_def)

lemma cloud_ok_opened: "cloud_ok ss f \<Longrightarrow> cloud_ok ss (cloud_opened raw f)"
  using first_free_slot [of raw] by (simp add: cloud_ok_def cloud_slot_ok_def cloud_opened_def Let_def)

lemma cloud_ok_step:
  assumes "cloud_ok ss f" and "cloud_exec ss raw f e = Some f'"
  shows "cloud_ok ss f'"
proof (cases e)
  case (Cloud_storage s)
  have "cloud_slot_ok (f\<lparr> ci_storage := s \<rparr>)" using assms(1) by (simp add: cloud_ok_def cloud_slot_ok_def)
  from cloud_ok_effect [OF this] have "cloud_ok ss (cloud_format_effect ss (f\<lparr> ci_storage := s \<rparr>))" .
  with assms(2) Cloud_storage show ?thesis by (simp split: if_split_asm)
next
  case (Cloud_bus bus)
  then have "f' = f\<lparr> ci_bus := bus, ci_device := getFirstFreeCloudInitDevice raw bus \<rparr>" and "bus \<in> {''ide'', ''scsi'', ''sata''}"
    using assms(2) by (simp_all split: if_split_asm)
  then show ?thesis using assms(1) first_free_slot [of raw bus] by (simp add: cloud_ok_def cloud_slot_ok_def)
next
  case (Cloud_device d)
  then have "f' = f\<lparr> ci_device := d \<rparr>" and "d \<in> set (getDiskBusSlots (ci_bus f))" using assms(2) by (simp_all split: if_split_asm)
  then show ?thesis using assms(1) by (simp add: cloud_ok_def cloud_slot_ok_def)
next
  case (Cloud_format x)
  have "cloud_slot_ok (f\<lparr> ci_format := x \<rparr>)" using assms(1) by (simp add: cloud_ok_def cloud_slot_ok_def)
  from cloud_ok_effect [OF this] have "cloud_ok ss (cloud_format_effect ss (f\<lparr> ci_format := x \<rparr>))" .
  with assms(2) Cloud_format show ?thesis by (simp split: if_split_asm)
next
  case Cloud_added
  with assms show ?thesis by (auto simp: cloud_ok_def cloud_slot_ok_def)
qed (use assms cloud_ok_opened in auto)

interpretation cloud: step_machine "\<lambda>f e f'. \<exists>raw. cloud_exec ss raw f e = Some f'" "\<lambda>f. f = cloud_new" "cloud_ok ss" for ss
proof
  fix f assume "f = cloud_new"
  moreover have "''2'' \<in> set (getDiskBusSlots ''ide'')" by code_simp
  ultimately show "cloud_ok ss f" by (auto simp: cloud_ok_def cloud_slot_ok_def cloud_new_def)
qed (use cloud_ok_step in blast)

text \<open>A drive is asked for on a bus and slot that exist and are not in use by what the editor knows now, in a format the storage holds,
  though the configuration may change while the dialog is open.\<close>

lemma cloudinit_request_ok:
  assumes "steps (\<lambda>f e f'. \<exists>raw. cloud_exec ss raw f e = Some f') cloud_new es f" and "cloud_request raw f = Some (d, v)"
  shows "\<exists>bus\<in>{''ide'', ''scsi'', ''sata''}. \<exists>slot\<in>set (getDiskBusSlots bus). \<exists>x\<in>set (cloudInitFormats ss (ci_storage f)).
           d = bus @ slot \<and> \<not> truthy (raw_line raw d) \<and> v = ci_storage f @ '':cloudinit,format='' @ x"
proof -
  have "cloud_ok ss f" using cloud.inv_run [OF refl assms(1)] .
  with assms(2) show ?thesis unfolding cloud_ok_def cloud_slot_ok_def cloud_request_def Let_def by (auto split: if_splits)
qed

section \<open>Attaching an unused disk\<close>

record reattach =
  ra_bus :: string
  ra_id :: string
  ra_iothread :: bool
  ra_ssd :: bool
  ra_discard :: bool
  ra_loading :: bool

definition reattach_new :: "string list option \<Rightarrow> reattach" where
  "reattach_new disks = \<lparr> ra_bus = ''scsi'', ra_id = getNextDiskId disks ''scsi'', ra_iothread = True, ra_ssd = False, ra_discard = True, ra_loading = False \<rparr>"

definition reattach_bus :: "string list option \<Rightarrow> string \<Rightarrow> reattach \<Rightarrow> reattach" where
  "reattach_bus disks bus r =
     r\<lparr> ra_bus := bus, ra_id := getNextDiskId disks bus, ra_iothread := supportsIothread bus \<and> ra_iothread r, ra_ssd := supportsSsd bus \<and> ra_ssd r \<rparr>"

definition reattach_options :: "reattach \<Rightarrow> string list" where
  "reattach_options r =
     (if supportsIothread (ra_bus r) \<and> ra_iothread r then [''iothread=1''] else [])
     @ (if supportsSsd (ra_bus r) \<and> ra_ssd r then [''ssd=1''] else []) @ (if ra_discard r then [''discard=on''] else [])"

text \<open>\<open>handleReattach\<close>: the line of the configuration, and the button off until the answer.\<close>

definition handleReattach :: "string \<Rightarrow> reattach \<Rightarrow> (string \<times> string) option \<times> reattach" where
  "handleReattach value r =
     (if ra_loading r then (None, r)
      else (Some (ra_id r, if reattach_options r \<noteq> [] then value @ '','' @ join '','' (reattach_options r) else value), r\<lparr> ra_loading := True \<rparr>))"

text \<open>The value sent is the volume with the ticked options behind it, and reads back as such.\<close>

lemma reattach_reads_back:
  assumes "CHR '','' \<notin> set value" and "handleReattach value r = (Some (d, line), r')"
  shows "split_on CHR '','' line = value # reattach_options r \<and> d = ra_id r"
proof -
  have "\<forall>w \<in> set (reattach_options r). CHR '','' \<notin> set w" by (auto simp: reattach_options_def)
  then have "split_on CHR '','' (join '','' (reattach_options r)) = reattach_options r" if "reattach_options r \<noteq> []"
    using that split_on_join by blast
  with assms show ?thesis
    by (auto simp: handleReattach_def split_on_Cons_sep split_on_plain split: if_splits)
qed

section \<open>A random address\<close>

definition two_hex :: "string \<Rightarrow> bool" where
  "two_hex s \<longleftrightarrow> length s = 2 \<and> list_all is_hex s"

text \<open>\<open>/^[A-Fa-f0-9]{2}(:[A-Fa-f0-9]{2}){0,2}$/\<close>.\<close>

definition mac_prefix_ok :: "string \<Rightarrow> bool" where
  "mac_prefix_ok p \<longleftrightarrow> list_all two_hex (split_on CHR '':'' p) \<and> length (split_on CHR '':'' p) \<le> 3"

definition random_octet :: "(nat \<Rightarrow> nat) \<Rightarrow> nat \<Rightarrow> string" where
  "random_octet rnd i = [hex_digit (rnd (2 * i)), hex_digit (rnd (2 * i + 1))]"

text \<open>\<open>rnd i\<close> is the random digit drawn as the \<open>i\<close>-th one.\<close>

definition mac_parts :: "string \<Rightarrow> (nat \<Rightarrow> nat) \<Rightarrow> string list" where
  "mac_parts dcMacPrefix rnd =
     (let pre = trim dcMacPrefix;
          parts = (if mac_prefix_ok pre then split_on CHR '':'' (to_upper pre) else [''02''])
      in parts @ map (random_octet rnd) [0..<6 - length parts])"

definition generateMAC :: "string \<Rightarrow> (nat \<Rightarrow> nat) \<Rightarrow> string" where
  "generateMAC dcMacPrefix rnd = join '':'' (mac_parts dcMacPrefix rnd)"

definition upper_hex :: "char \<Rightarrow> bool" where
  "upper_hex c \<longleftrightarrow> is_digit c \<or> code_of c \<in> {65..70}"

lemma upper_hex_digit: "n < 16 \<Longrightarrow> upper_hex (hex_digit n)"
  by (auto simp: upper_hex_def hex_digit_def is_digit_def)

lemma upper_hex_upper: "is_hex c \<Longrightarrow> upper_hex (upper_char c)"
  by (auto simp: upper_hex_def is_hex_def upper_char_def is_digit_def is_lower_def is_upper_def)

lemma upper_char_colon: "upper_char c = CHR '':'' \<longleftrightarrow> c = CHR '':''"
  by (cases c) (auto simp: upper_char_def is_lower_def char_of_def elim!: )

lemma split_on_upper: "split_on CHR '':'' (to_upper s) = map to_upper (split_on CHR '':'' s)"
  by (induction s) (auto simp: upper_char_colon split: list.split)

abbreviation hex_octet :: "string \<Rightarrow> bool" where
  "hex_octet w \<equiv> length w = 2 \<and> list_all upper_hex w"

lemma upper_hex_no_colon: "\<not> upper_hex CHR '':''"
  by (simp add: upper_hex_def is_digit_def)

lemma octet_plain: "hex_octet w \<Longrightarrow> CHR '':'' \<notin> set w"
  using upper_hex_no_colon by (auto simp: list_all_iff)

lemma mac_parts_octets:
  assumes "\<And>i. rnd i < 16"
  shows "length (mac_parts p rnd) = 6 \<and> (\<forall>w\<in>set (mac_parts p rnd). hex_octet w)"
proof -
  have "hex_octet (random_octet rnd i)" for i using assms by (simp add: random_octet_def upper_hex_digit)
  moreover have "hex_octet ''02''" by (simp add: upper_hex_def is_digit_def)
  moreover have "\<forall>w\<in>set (split_on CHR '':'' (to_upper q)). hex_octet w" if "mac_prefix_ok q" for q
    using that by (auto simp: mac_prefix_ok_def split_on_upper two_hex_def list_all_iff upper_hex_upper)
  ultimately show ?thesis
    by (auto simp: mac_parts_def Let_def mac_prefix_ok_def split_on_upper)
qed

text \<open>Whatever prefix the data centre is set to, the address has six octets in upper case; it starts with the prefix where that has
  one to three octets, and with the octet 02 of local addresses otherwise.\<close>

lemma mac_wellformed:
  assumes "\<And>i. rnd i < 16"
  shows "split_on CHR '':'' (generateMAC p rnd) = mac_parts p rnd \<and> length (mac_parts p rnd) = 6 \<and> (\<forall>w\<in>set (mac_parts p rnd). hex_octet w)
         \<and> prefix (if mac_prefix_ok (trim p) then split_on CHR '':'' (to_upper (trim p)) else [''02'']) (mac_parts p rnd)"
proof -
  have o: "\<forall>w\<in>set (mac_parts p rnd). hex_octet w" and l: "length (mac_parts p rnd) = 6" using mac_parts_octets [OF assms] by auto
  then have "split_on CHR '':'' (generateMAC p rnd) = mac_parts p rnd"
    unfolding generateMAC_def by (intro split_on_join) (use octet_plain in auto)
  moreover have "prefix (if mac_prefix_ok (trim p) then split_on CHR '':'' (to_upper (trim p)) else [''02'']) (mac_parts p rnd)"
    by (simp add: mac_parts_def Let_def)
  ultimately show ?thesis using o l by blast
qed

lemma mac_wellformed_witness:
  "split_on CHR '':'' (generateMAC '' bc:24 '' (\<lambda>i. i mod 16)) = mac_parts '' bc:24 '' (\<lambda>i. i mod 16)"
  using mac_wellformed [of "\<lambda>i. i mod 16" "'' bc:24 ''"] by simp

end
