(* ===== verification/Boot_Order.thy ===== *)
theory Boot_Order
  imports Guest_Config Guest_Editor
begin

text \<open>
  The boot order in the editor of a virtual machine (web/src/vm_config.js): the devices that can be started from, the
  order read from the field \<open>boot\<close> in its two forms, old letters and a list, the rows shown, and the buttons that
  switch a device on or off and move it. They write the field through \<open>handleChange\<close> and read it through \<open>getValue\<close>
  of \<open>Guest_Editor\<close>.

  \<^item> \<open>toggle_reads_back\<close>, \<open>move_reads_back\<close>: what a button writes is read back as the changed list, \<open>move_back\<close>: up undoes down.
  \<^item> \<open>rows_numbered\<close>: every device once, those switched on first, numbered as they will be tried.
  \<^item> \<open>order_after_legacy\<close>: a list does not take precedence over letters, as a comment says.
\<close>

section \<open>Devices\<close>

text \<open>A list of devices, each added once.\<close>

definition add_new :: "string list \<Rightarrow> string \<Rightarrow> string list" where
  "add_new ds d = (if d \<in> set ds then ds else ds @ [d])"

definition raw_of :: "guest_cfg \<Rightarrow> obj" where
  "raw_of c = (case cfg_raw c of None \<Rightarrow> [] | Some r \<Rightarrow> r)"

definition all_bootable :: "guest_cfg \<Rightarrow> string list" where
  "all_bootable c =
     (let disks = filter (\<lambda>d. \<not> js_includes d ''cloudinit'') (case cfg_disks c of None \<Rightarrow> [] | Some ds \<Rightarrow> ds);
          nets = (case cfg_networks c of None \<Rightarrow> [] | Some ns \<Rightarrow> ns)
      in foldl (\<lambda>ds d. if truthy (prop_of (raw_of c) d) then add_new ds d else ds) (disks @ nets)
           [''ide2'', ''ide0'', ''sata0'', ''scsi0'', ''virtio0'', ''net0''])"

section \<open>The field\<close>

text \<open>\<open>part.split('order=')[1]\<close>, and the two readings of the parts between commas.\<close>

definition order_text :: "string \<Rightarrow> string" where
  "order_text part = (case after_first ''order='' part of None \<Rightarrow> [] | Some r \<Rightarrow> before_first ''order='' r)"

definition boot_parts :: "string \<Rightarrow> string list" where
  "boot_parts boot = (if boot = [] then [] else split_on CHR '','' boot)"

definition order_devices :: "string \<Rightarrow> string list" where
  "order_devices boot =
     foldl (\<lambda>ds part. if starts_with part ''order='' then filter (\<lambda>d. d \<noteq> []) (split_on CHR '';'' (order_text part)) else ds) [] (boot_parts boot)"

definition legacy_chars :: "string \<Rightarrow> string" where
  "legacy_chars boot =
     concat (map (\<lambda>part. filter (\<lambda>ch. ch \<in> set ''acdn'') (to_lower (if starts_with part ''legacy='' then drop 7 part else part)))
       (filter (\<lambda>part. \<not> starts_with part ''order='') (boot_parts boot)))"

definition is_cdrom :: "guest_cfg \<Rightarrow> string \<Rightarrow> bool" where
  "is_cdrom c d \<longleftrightarrow> d = ''ide2'' \<or> (truthy (prop_of (raw_of c) d) \<and> js_includes (to_str (prop_of (raw_of c) d)) ''media=cdrom'')"

definition resolve_legacy :: "guest_cfg \<Rightarrow> string \<Rightarrow> string list \<Rightarrow> char \<Rightarrow> string list" where
  "resolve_legacy c bootdisk bs ch =
     (if ch = CHR ''c'' \<and> bootdisk \<noteq> [] \<and> bootdisk \<in> set (all_bootable c) then add_new bs bootdisk
      else if ch = CHR ''d'' then foldl (\<lambda>bs d. if is_cdrom c d then add_new bs d else bs) bs (all_bootable c)
      else if ch = CHR ''n'' then foldl (\<lambda>bs d. if numbered_key [''net''] d then add_new bs d else bs) bs (all_bootable c)
      else bs)"

definition bootDevices :: "guest_cfg \<Rightarrow> string \<Rightarrow> string \<Rightarrow> string list" where
  "bootDevices c boot bootdisk =
     foldl (\<lambda>bs d. if d \<in> set (all_bootable c) then add_new bs d else bs)
       (foldl (resolve_legacy c bootdisk) [] (legacy_chars boot)) (order_devices boot)"

text \<open>The order as the editor shows it.\<close>

definition text_field :: "editor \<Rightarrow> string \<Rightarrow> string" where
  "text_field s key = to_str (or_else (getValue (ed_changes s) (ed_config s) ''options'' key) (Str []))"

definition boot_list :: "editor \<Rightarrow> guest_cfg \<Rightarrow> string list" where
  "boot_list s c = bootDevices c (text_field s ''boot'') (text_field s ''bootdisk'')"

section \<open>The rows and their buttons\<close>

fun uniq_from :: "string list \<Rightarrow> string list \<Rightarrow> string list" where
  "uniq_from seen [] = []"
| "uniq_from seen (d # ds) = (if d \<in> set seen then uniq_from seen ds else d # uniq_from (d # seen) ds)"

definition sorted_devices :: "string list \<Rightarrow> string list \<Rightarrow> string list" where
  "sorted_devices all bs = uniq_from [] (filter (\<lambda>d. d \<in> set all) bs @ filter (\<lambda>d. d \<notin> set bs) all)"

record boot_row =
  br_device :: string
  br_on :: bool
  br_number :: nat

text \<open>\<open>enabledCounter\<close> runs along the rows.\<close>

fun rows_from :: "nat \<Rightarrow> string list \<Rightarrow> string list \<Rightarrow> boot_row list" where
  "rows_from n bs [] = []"
| "rows_from n bs (d # ds) =
     (let n' = (if d \<in> set bs then Suc n else n) in \<lparr> br_device = d, br_on = d \<in> set bs, br_number = n' \<rparr> # rows_from n' bs ds)"

definition boot_rows :: "editor \<Rightarrow> guest_cfg \<Rightarrow> boot_row list" where
  "boot_rows s c = rows_from 0 (boot_list s c) (sorted_devices (all_bootable c) (boot_list s c))"

definition order_value :: "string list \<Rightarrow> string" where
  "order_value ds = (if ds \<noteq> [] then ''order='' @ join '';'' ds else [])"

definition toggled :: "string \<Rightarrow> string list \<Rightarrow> string list" where
  "toggled d bs = (if d \<in> set bs then filter (\<lambda>x. x \<noteq> d) bs else bs @ [d])"

definition toggleDevice :: "guest_cfg \<Rightarrow> string \<Rightarrow> editor \<Rightarrow> editor" where
  "toggleDevice c d s = handleChange ''boot'' (Str (order_value (toggled d (boot_list s c)))) s"

definition swapped :: "nat \<Rightarrow> nat \<Rightarrow> 'a list \<Rightarrow> 'a list" where
  "swapped i j xs = xs[i := xs ! j, j := xs ! i]"

definition move_to :: "bool \<Rightarrow> string \<Rightarrow> string list \<Rightarrow> string list option" where
  "move_to up d bs =
     (case find_index (\<lambda>x. x = d) bs of None \<Rightarrow> None
      | Some i \<Rightarrow> (if up then (if i = 0 then None else Some (swapped i (i - 1) bs))
                   else if length bs \<le> i + 1 then None else Some (swapped i (i + 1) bs)))"

definition moveDevice :: "guest_cfg \<Rightarrow> string \<Rightarrow> bool \<Rightarrow> editor \<Rightarrow> editor" where
  "moveDevice c d up s =
     (case move_to up d (boot_list s c) of None \<Rightarrow> s | Some ds \<Rightarrow> handleChange ''boot'' (Str (''order='' @ join '';'' ds)) s)"

section \<open>What is read\<close>

lemma add_new_ok [simp]: "set (add_new ds d) = insert d (set ds)" and "distinct ds \<Longrightarrow> distinct (add_new ds d)"
  by (auto simp: add_new_def)

definition boot_ok :: "guest_cfg \<Rightarrow> string list \<Rightarrow> bool" where
  "boot_ok c bs \<longleftrightarrow> distinct bs \<and> set bs \<subseteq> set (all_bootable c)"

lemma boot_ok_add: "boot_ok c bs \<Longrightarrow> d \<in> set (all_bootable c) \<Longrightarrow> boot_ok c (add_new bs d)"
  by (auto simp: boot_ok_def add_new_def)

lemma boot_ok_adds: "boot_ok c bs \<Longrightarrow> set ds \<subseteq> set (all_bootable c) \<Longrightarrow> boot_ok c (foldl (\<lambda>bs d. if P d then add_new bs d else bs) bs ds)"
  by (induction ds arbitrary: bs) (auto simp: boot_ok_add)

lemma boot_ok_legacy: "boot_ok c bs \<Longrightarrow> boot_ok c (resolve_legacy c bootdisk bs ch)"
  unfolding resolve_legacy_def by (auto simp: boot_ok_add boot_ok_adds)

lemma boot_ok_bootDevices: "boot_ok c (bootDevices c boot bootdisk)"
proof -
  have "boot_ok c (foldl (resolve_legacy c bootdisk) bs chs)" if "boot_ok c bs" for bs chs
    using that by (induction chs arbitrary: bs) (auto simp: boot_ok_legacy)
  moreover have "boot_ok c (foldl (\<lambda>bs d. if d \<in> set (all_bootable c) then add_new bs d else bs) bs ds)" if "boot_ok c bs" for bs ds
    using that by (induction ds arbitrary: bs) (auto simp: boot_ok_add)
  ultimately show ?thesis unfolding bootDevices_def by (simp add: boot_ok_def)
qed

text \<open>A device name as Proxmox has them: no separator of the field in it.\<close>

definition plain_device :: "string \<Rightarrow> bool" where
  "plain_device d \<longleftrightarrow> d \<noteq> [] \<and> CHR '';'' \<notin> set d \<and> CHR '','' \<notin> set d \<and> CHR ''='' \<notin> set d"

lemma before_first_none: "\<not> js_includes s p \<Longrightarrow> before_first p s = s"
  by (induction s) auto

lemma order_devices_value:
  assumes "\<forall>d\<in>set ds. plain_device d" and "ds \<noteq> []"
  shows "order_devices (''order='' @ join '';'' ds) = ds \<and> legacy_chars (''order='' @ join '';'' ds) = []"
proof -
  let ?v = "''order='' @ join '';'' ds"
  have "CHR '','' \<notin> set (join '';'' ds)" and eq: "CHR ''='' \<notin> set (join '';'' ds)"
    using assms(1) by (auto dest!: join_chars simp: plain_device_def)
  then have "split_on CHR '','' ?v = [?v]" by (intro split_on_plain) auto
  then have parts: "boot_parts ?v = [?v]" by (simp add: boot_parts_def)
  have "\<not> js_includes (join '';'' ds) ''order=''" using eq by (auto simp: includes_iff sublist_def)
  then have "order_text ?v = join '';'' ds" by (simp add: order_text_def before_first_none)
  moreover have "split_on CHR '';'' (join '';'' ds) = ds" using assms by (intro split_on_join) (auto simp: plain_device_def)
  moreover have "filter (\<lambda>d. d \<noteq> []) ds = ds" using assms(1) by (auto simp: filter_id_conv plain_device_def)
  moreover have "starts_with ?v ''order=''" by simp
  ultimately have "order_devices ?v = ds" and "legacy_chars ?v = []"
    unfolding order_devices_def legacy_chars_def parts by (simp_all only: foldl.simps filter.simps if_True not_True_eq_False if_False list.map concat.simps)
  then show ?thesis by blast
qed

lemma uniq_from_keeps: "distinct (seen @ ds) \<Longrightarrow> uniq_from seen ds = ds"
  by (induction ds arbitrary: seen) auto

text \<open>What \<open>handleChange\<close> writes into a field is what \<open>getValue\<close> reads; the other fields are not touched.\<close>

lemma text_field_change:
  "text_field (handleChange k (Str v) s) k' = (if k' = k then v else text_field s k')"
  by (simp add: text_field_def handleChange_def getValue_def update_conv' or_else_def)

lemma boot_list_written:
  assumes "\<forall>d\<in>set (all_bootable c). plain_device d" and "distinct ds" and "set ds \<subseteq> set (all_bootable c)"
  shows "boot_list (handleChange ''boot'' (Str (order_value ds)) s) c = ds"
proof -
  have add: "foldl (\<lambda>bs d. if d \<in> set (all_bootable c) then add_new bs d else bs) bs xs = bs @ xs"
    if "distinct (bs @ xs)" and "set xs \<subseteq> set (all_bootable c)" for bs xs
    using that by (induction xs arbitrary: bs) (auto simp: add_new_def)
  show ?thesis
  proof (cases "ds = []")
    case True
    then show ?thesis by (simp add: boot_list_def text_field_change order_value_def bootDevices_def legacy_chars_def order_devices_def boot_parts_def)
  next
    case False
    then have "order_devices (order_value ds) = ds \<and> legacy_chars (order_value ds) = []"
      using order_devices_value assms unfolding order_value_def by auto
    then show ?thesis using add [of "[]" ds] assms(2,3) by (simp add: boot_list_def text_field_change bootDevices_def)
  qed
qed

lemma boot_list_ok: "boot_ok c (boot_list s c)"
  unfolding boot_list_def by (rule boot_ok_bootDevices)

text \<open>C32. Ticking a device on or off: the next order read is the old one without it, or with it at the end.\<close>

theorem toggle_reads_back:
  assumes "\<forall>x\<in>set (all_bootable c). plain_device x" and "d \<in> set (all_bootable c)"
  shows "boot_list (toggleDevice c d s) c = toggled d (boot_list s c)"
  unfolding toggleDevice_def
  by (rule boot_list_written) (use assms boot_list_ok [of c s] in \<open>auto simp: toggled_def boot_ok_def\<close>)

lemma set_swapped: "i < length xs \<Longrightarrow> j < length xs \<Longrightarrow> set (swapped i j xs) = set xs"
  and distinct_swapped: "i < length xs \<Longrightarrow> j < length xs \<Longrightarrow> distinct (swapped i j xs) = distinct xs"
  by (simp_all add: swapped_def)

lemma move_to_Some:
  assumes "move_to up d bs = Some ds"
  obtains i j where "find_index (\<lambda>x. x = d) bs = Some i" and "i < length bs" and "j < length bs" and "bs ! i = d"
    and "ds = swapped i j bs" and "if up then Suc j = i else j = Suc i"
  using assms by (auto simp: move_to_def split: option.splits if_splits dest!: find_index_Some)

text \<open>Moving a device: the next order read has it and its neighbour swapped, and nothing else changed.\<close>

lemma move_reads_back:
  assumes "\<forall>x\<in>set (all_bootable c). plain_device x"
  shows "boot_list (moveDevice c d up s) c = (case move_to up d (boot_list s c) of None \<Rightarrow> boot_list s c | Some ds \<Rightarrow> ds)"
proof (cases "move_to up d (boot_list s c)")
  case (Some ds)
  then obtain i j where "i < length (boot_list s c)" "j < length (boot_list s c)" "ds = swapped i j (boot_list s c)"
    by (elim move_to_Some)
  then have "distinct ds" and "set ds = set (boot_list s c)" and "ds \<noteq> []"
    using boot_list_ok [of c s] by (auto simp: boot_ok_def distinct_swapped set_swapped) (auto simp: swapped_def)
  then have "boot_list (handleChange ''boot'' (Str (order_value ds)) s) c = ds"
    using boot_list_ok [of c s] assms by (intro boot_list_written) (auto simp: boot_ok_def)
  with Some \<open>ds \<noteq> []\<close> show ?thesis by (simp add: moveDevice_def order_value_def)
qed (simp add: moveDevice_def)

lemma find_index_distinct: "distinct xs \<Longrightarrow> i < length xs \<Longrightarrow> find_index (\<lambda>x. x = xs ! i) xs = Some i"
proof (induction xs arbitrary: i)
  case (Cons x xs)
  then show ?case by (cases i) auto
qed simp

text \<open>Moving a device and moving it the other way is nothing.\<close>

lemma move_back:
  assumes "distinct bs" and "move_to up d bs = Some ds"
  shows "move_to (\<not> up) d ds = Some bs"
proof -
  obtain i j where ij: "find_index (\<lambda>x. x = d) bs = Some i" "i < length bs" "j < length bs" "bs ! i = d"
    and ds: "ds = swapped i j bs" and up: "if up then Suc j = i else j = Suc i"
    using assms(2) by (elim move_to_Some)
  have ne: "i \<noteq> j" using up by (auto split: if_splits)
  have len: "length ds = length bs" and "ds ! j = d" using ij ds ne by (auto simp: swapped_def nth_list_update)
  moreover have "distinct ds" using ds assms(1) ij by (simp add: distinct_swapped)
  ultimately have f: "find_index (\<lambda>x. x = d) ds = Some j" using ij find_index_distinct [of ds j] by simp
  have "swapped j i ds = bs" using ij ds ne by (auto simp: swapped_def intro!: nth_equalityI simp: nth_list_update)
  then show ?thesis using f up ij len by (auto simp: move_to_def split: if_splits)
qed

section \<open>The rows\<close>

lemma rows_from_on: "set ds \<subseteq> set bs \<Longrightarrow> distinct ds \<Longrightarrow> i < length ds \<Longrightarrow> rows_from n bs (ds @ es) ! i = \<lparr> br_device = ds ! i, br_on = True, br_number = n + i + 1 \<rparr>"
proof (induction ds arbitrary: i n)
  case (Cons d ds)
  then show ?case by (cases i) (auto simp: Let_def)
qed simp

lemma map_rows_from: "map br_device (rows_from n bs ds) = ds"
  by (induction ds arbitrary: n) (auto simp: Let_def)

lemma sorted_devices_split:
  assumes "boot_ok c bs" and "distinct (all_bootable c)"
  shows "sorted_devices (all_bootable c) bs = bs @ filter (\<lambda>d. d \<notin> set bs) (all_bootable c)"
proof -
  have "filter (\<lambda>d. d \<in> set (all_bootable c)) bs = bs" using assms(1) by (auto simp: boot_ok_def filter_id_conv)
  then show ?thesis using assms unfolding sorted_devices_def by (simp only:) (rule uniq_from_keeps, auto simp: boot_ok_def)
qed

text \<open>Every device has one row; the devices switched on come first and carry the number at which they are tried.\<close>

lemma rows_numbered:
  assumes "distinct (all_bootable c)"
  shows "distinct (map br_device (boot_rows s c)) \<and> set (map br_device (boot_rows s c)) = set (all_bootable c)
         \<and> (\<forall>i<length (boot_list s c). boot_rows s c ! i = \<lparr> br_device = boot_list s c ! i, br_on = True, br_number = i + 1 \<rparr>)"
proof -
  have ok: "boot_ok c (boot_list s c)" by (rule boot_list_ok)
  have sd: "sorted_devices (all_bootable c) (boot_list s c) = boot_list s c @ filter (\<lambda>d. d \<notin> set (boot_list s c)) (all_bootable c)"
    by (rule sorted_devices_split [OF ok assms])
  then have "map br_device (boot_rows s c) = boot_list s c @ filter (\<lambda>d. d \<notin> set (boot_list s c)) (all_bootable c)"
    by (simp add: boot_rows_def map_rows_from)
  moreover have "boot_rows s c ! i = \<lparr> br_device = boot_list s c ! i, br_on = True, br_number = i + 1 \<rparr>" if "i < length (boot_list s c)" for i
    using that ok by (simp add: boot_rows_def sd rows_from_on boot_ok_def)
  ultimately show ?thesis using ok assms by (auto simp: boot_ok_def)
qed

text \<open>The comment at the list says that it takes precedence; the devices of the letters stay in front of it.\<close>

lemma order_after_legacy:
  "bootDevices (empty_cfg\<lparr> cfg_disks := Some [''scsi0''], cfg_networks := Some [''net0''] \<rparr>) ''legacy=n,order=scsi0'' []
   = [''net0'', ''scsi0'']"
  by code_simp

text \<open>A machine with two disks and a card.\<close>

definition some_cfg :: guest_cfg where
  "some_cfg = empty_cfg\<lparr> cfg_disks := Some [''scsi0'', ''scsi1''], cfg_networks := Some [''net0''],
      cfg_options := Some [(''boot'', Str ''order=scsi0;net0'')] \<rparr>"

lemma some_cfg_devices: "all_bootable some_cfg = [''scsi0'', ''scsi1'', ''net0'']"
  by code_simp

definition some_editor :: editor where
  "some_editor = (editor_new ''100'' ''qemu'' False False)\<lparr> ed_config := Some some_cfg, ed_loading := False, ed_loads := [] \<rparr>"

lemma toggle_reads_back_witness:
  "boot_list (toggleDevice some_cfg ''scsi1'' some_editor) some_cfg = toggled ''scsi1'' (boot_list some_editor some_cfg)"
  by (rule toggle_reads_back) (simp_all add: some_cfg_devices plain_device_def)

lemma move_reads_back_witness:
  "boot_list (moveDevice some_cfg ''net0'' True some_editor) some_cfg
   = (case move_to True ''net0'' (boot_list some_editor some_cfg) of None \<Rightarrow> boot_list some_editor some_cfg | Some ds \<Rightarrow> ds)"
  by (rule move_reads_back) (simp add: some_cfg_devices plain_device_def)

lemma rows_numbered_witness:
  "distinct (map br_device (boot_rows some_editor some_cfg))"
  using rows_numbered [of some_cfg some_editor] by (simp add: some_cfg_devices)

end
