(* ===== verification/File_Restore.thy ===== *)
theory File_Restore
  imports Vnc_Frames Js_Values
begin

text \<open>
  Restoring a single file from a backup (web/src/vm_config.js, \<open>handleOpenFileRestore\<close> to \<open>handleFileRestoreSubmit\<close>):
  the browser through the folders of a backup with its requests under way, the path in the guest proposed for a
  picked file, and the request that restores it. What the server lists is the argument \<open>listing\<close>, of a backup and a
  path; \<open>compare\<close> is \<open>localeCompare\<close>; \<open>utf8\<close> is \<open>TextDecoder\<close>.

  \<^item> \<open>guest_path_read\<close>: the path inside the archive comes out of Proxmox's encoded one.
  \<^item> \<open>list_of_folder\<close>, \<open>restores_listed_file\<close>: what is shown and sent belongs to the backup, when no other backup is opened
    while an answer is on its way. \<open>file_of_other_backup\<close>: otherwise it may not.
\<close>

section \<open>The path in the guest\<close>

definition byte_text :: "byte list \<Rightarrow> string" where
  "byte_text bs = map (\<lambda>b. char_of (unat b)) bs"

definition text_bytes :: "string \<Rightarrow> byte list" where
  "text_bytes s = map (\<lambda>c. of_nat (code_of c)) s"

definition img_depth :: "string \<Rightarrow> nat option" where
  "img_depth kind = find_index (\<lambda>k. k = kind) [''raw'', ''part'', ''lvm'']"

definition fileRestoreGuestPath :: "(byte list \<Rightarrow> string) \<Rightarrow> string \<Rightarrow> string" where
  "fileRestoreGuestPath utf8 filepath =
     (case atob filepath of None \<Rightarrow> []
      | Some bytes \<Rightarrow>
        (let parts = filter (\<lambda>p. p \<noteq> []) (split_on CHR ''/'' (utf8 bytes));
             archive = (case parts of [] \<Rightarrow> [] | p # _ \<Rightarrow> p); rest = tl parts
         in if ends_with archive ''.img.fidx''
            then (case img_depth (case rest of [] \<Rightarrow> ''undefined'' | k # _ \<Rightarrow> k) of None \<Rightarrow> []
                  | Some depth \<Rightarrow> (let names = drop depth (tl rest) in if names \<noteq> [] then CHR ''/'' # join ''/'' names else []))
            else if \<not> (ends_with archive ''.pxar.didx'' \<or> ends_with archive ''.mpxar.didx'') then []
            else if rest \<noteq> [] then CHR ''/'' # join ''/'' rest else []))"

text \<open>How Proxmox names a file: the archive, for a disk where the file system sits, the names, all in Base64.\<close>

datatype place = Archive string | Disk_raw string | Disk_part string string | Disk_lvm string string string

fun place_parts :: "place \<Rightarrow> string list" where
  "place_parts (Archive a) = [a @ ''.pxar.didx'']"
| "place_parts (Disk_raw d) = [d @ ''.img.fidx'', ''raw'']"
| "place_parts (Disk_part d n) = [d @ ''.img.fidx'', ''part'', n]"
| "place_parts (Disk_lvm d vg lv) = [d @ ''.img.fidx'', ''lvm'', vg, lv]"

definition listed_path :: "place \<Rightarrow> string list \<Rightarrow> string" where
  "listed_path p names = btoa (text_bytes (CHR ''/'' # join ''/'' (place_parts p @ names)))"

definition ascii :: "string \<Rightarrow> bool" where
  "ascii s \<longleftrightarrow> list_all (\<lambda>c. code_of c < (128 :: nat)) s"

definition path_name :: "string \<Rightarrow> bool" where
  "path_name s \<longleftrightarrow> s \<noteq> [] \<and> CHR ''/'' \<notin> set s \<and> ascii s"

lemma ascii_join: "ascii sep \<Longrightarrow> \<forall>w\<in>set ws. ascii w \<Longrightarrow> ascii (join sep ws)"
  by (auto simp: ascii_def list_all_iff dest!: join_chars)

lemma img_no_pxar: "ends_with (d @ ''.img.fidx'') ''.img.fidx''" and pxar_no_img: "\<not> ends_with (a @ ''.pxar.didx'') ''.img.fidx''"
  and pxar_pxar: "ends_with (a @ ''.pxar.didx'') ''.pxar.didx''"
  by (auto simp: ends_with_iff suffix_def dest: arg_cong [of _ _ rev])

lemma split_path:
  assumes "\<forall>p\<in>set ps. path_name p"
  shows "filter (\<lambda>p. p \<noteq> []) (split_on CHR ''/'' (CHR ''/'' # join ''/'' ps)) = ps"
proof (cases "ps = []")
  case False
  then have "split_on CHR ''/'' (join ''/'' ps) = ps" using assms by (intro split_on_join) (auto simp: path_name_def)
  moreover have "filter (\<lambda>p. p \<noteq> []) ps = ps" using assms by (auto simp: filter_id_conv path_name_def)
  ultimately show ?thesis by simp
qed simp

text \<open>\<open>TextDecoder\<close> reads an ASCII byte as its character.\<close>

lemma guest_path_read:
  assumes utf8: "\<And>s. ascii s \<Longrightarrow> utf8 (text_bytes s) = s"
    and names: "\<forall>x\<in>set (place_parts p @ names). path_name x" and "names \<noteq> []"
  shows "fileRestoreGuestPath utf8 (listed_path p names) = CHR ''/'' # join ''/'' names"
proof -
  have "ascii (CHR ''/'' # join ''/'' (place_parts p @ names))"
    using names ascii_join [of "''/''"] by (simp add: path_name_def) (simp add: ascii_def)
  then have "filter (\<lambda>p. p \<noteq> []) (split_on CHR ''/'' (utf8 (text_bytes (CHR ''/'' # join ''/'' (place_parts p @ names))))) = place_parts p @ names"
    using split_path [OF names] utf8 by simp
  then show ?thesis
    using assms(3) unfolding fileRestoreGuestPath_def listed_path_def atob_btoa option.case
    by (cases p) (simp_all add: Let_def img_depth_def img_no_pxar pxar_no_img pxar_pxar del: split_on.simps join.simps)
qed

text \<open>Reading a byte as the character of its code has this property.\<close>

lemma byte_text_bytes: "byte_text (text_bytes s) = s"
  by (induction s) (simp_all add: byte_text_def text_bytes_def unat_of_nat)

lemma guest_path_read_witness:
  "fileRestoreGuestPath byte_text (listed_path (Disk_part ''drive-scsi0'' ''2'') [''etc'', ''hosts'']) = CHR ''/'' # join ''/'' [''etc'', ''hosts'']"
  by (rule guest_path_read [OF byte_text_bytes]) (simp_all add: path_name_def ascii_def)

section \<open>The browser\<close>

text \<open>An entry the server lists: its name, its path (missing where Proxmox gives none), whether it is a file.\<close>

record entry =
  en_text :: string
  en_filepath :: "string option"
  en_leaf :: bool
  en_dir :: bool

text \<open>\<open>backup\<close> by its volume, the folders walked, the list or an error, the picked file, requests under way.\<close>

record file_browser =
  fb_open :: "string option"
  fb_stack :: "(string \<times> string option) list"
  fb_list :: "entry list"
  fb_error :: bool
  fb_selected :: "entry option"
  fb_dest :: string
  fb_loading :: bool
  fb_requests :: "(string \<times> string option) list"
  fb_restoring :: bool

definition browser_new :: file_browser where
  "browser_new = \<lparr> fb_open = None, fb_stack = [], fb_list = [], fb_error = False, fb_selected = None, fb_dest = [], fb_loading = False,
     fb_requests = [], fb_restoring = False \<rparr>"

definition fetchList :: "string \<Rightarrow> string option \<Rightarrow> file_browser \<Rightarrow> file_browser" where
  "fetchList volid path s = s\<lparr> fb_loading := True, fb_requests := fb_requests s @ [(volid, path)] \<rparr>"

definition top_path :: "(string \<times> string option) list \<Rightarrow> string option" where
  "top_path stack = (if stack = [] then None else snd (last stack))"

definition handleOpen :: "string \<Rightarrow> file_browser \<Rightarrow> file_browser" where
  "handleOpen volid s = fetchList volid None
     (s\<lparr> fb_open := Some volid, fb_stack := [], fb_selected := None, fb_dest := [], fb_list := [], fb_error := False \<rparr>)"

text \<open>The comparison: folders first, then by name.\<close>

definition entry_cmp :: "(string \<Rightarrow> string \<Rightarrow> int) \<Rightarrow> entry \<Rightarrow> entry \<Rightarrow> int" where
  "entry_cmp compare a b = (if en_dir a \<noteq> en_dir b then (if en_dir a then -1 else 1) else compare (en_text a) (en_text b))"

datatype listing_answer = Listed | List_refused | List_lost

definition list_answered :: "(string \<Rightarrow> string \<Rightarrow> int) \<Rightarrow> (string \<Rightarrow> string option \<Rightarrow> entry list) \<Rightarrow> nat \<Rightarrow> listing_answer \<Rightarrow> file_browser \<Rightarrow> file_browser" where
  "list_answered compare listing i a s =
     (let (v, p) = fb_requests s ! i; s' = s\<lparr> fb_requests := drop_nth i (fb_requests s), fb_loading := False \<rparr>
      in if a = Listed then s'\<lparr> fb_list := js_sort (entry_cmp compare) (listing v p), fb_error := False \<rparr>
         else s'\<lparr> fb_list := [], fb_error := True \<rparr>)"

text \<open>Some handlers use the backup that is open; the buttons are not there otherwise.\<close>

definition walk_to :: "(string \<times> string option) list \<Rightarrow> file_browser \<Rightarrow> file_browser" where
  "walk_to stack s = fetchList (the (fb_open s)) (top_path stack) (s\<lparr> fb_stack := stack, fb_selected := None \<rparr>)"

definition handleNavigate :: "(byte list \<Rightarrow> string) \<Rightarrow> entry \<Rightarrow> file_browser \<Rightarrow> file_browser" where
  "handleNavigate utf8 it s =
     (if \<not> en_leaf it then walk_to (fb_stack s @ [(en_text it, en_filepath it)]) s
      else s\<lparr> fb_selected := Some it,
              fb_dest := fileRestoreGuestPath utf8 (case en_filepath it of None \<Rightarrow> [] | Some f \<Rightarrow> f) \<rparr>)"

definition handleGoUp :: "file_browser \<Rightarrow> file_browser" where
  "handleGoUp s = (if fb_stack s = [] then s else walk_to (butlast (fb_stack s)) s)"

text \<open>\<open>handleFileRestoreGoToIndex\<close>: \<open>None\<close> is the index -1.\<close>

definition handleGoToIndex :: "nat option \<Rightarrow> file_browser \<Rightarrow> file_browser" where
  "handleGoToIndex idx s = walk_to (case idx of None \<Rightarrow> [] | Some i \<Rightarrow> take (i + 1) (fb_stack s)) s"

text \<open>The request that restores: volume, path in the backup, path in the guest.\<close>

definition restore_request :: "file_browser \<Rightarrow> (string \<times> string \<times> string) option" where
  "restore_request s =
     (case (fb_selected s, fb_open s) of
        (Some it, Some v) \<Rightarrow>
          (if fb_dest s = [] then None else Some (v, (case en_filepath it of None \<Rightarrow> en_text it | Some f \<Rightarrow> f), fb_dest s))
      | _ \<Rightarrow> None)"

datatype browser_event =
    Open_backup string
  | Close_browser
  | List_answered nat listing_answer
  | Navigate entry
  | Go_up
  | Go_to "nat option"
  | Unselect
  | Type_dest string
  | Submit_restore
  | Restore_answered bool

text \<open>While a list is on its way the entries are not shown and the buttons are off.\<close>

fun browser_exec :: "(byte list \<Rightarrow> string) \<Rightarrow> (string \<Rightarrow> string \<Rightarrow> int) \<Rightarrow> (string \<Rightarrow> string option \<Rightarrow> entry list) \<Rightarrow>
    file_browser \<Rightarrow> browser_event \<Rightarrow> file_browser option" where
  "browser_exec u cmp ls s (Open_backup v) = (if fb_open s = None then Some (handleOpen v s) else None)"
| "browser_exec u cmp ls s Close_browser = (if fb_open s \<noteq> None then Some (s\<lparr> fb_open := None \<rparr>) else None)"
| "browser_exec u cmp ls s (List_answered i a) = (if i < length (fb_requests s) then Some (list_answered cmp ls i a s) else None)"
| "browser_exec u cmp ls s (Navigate it) =
     (if fb_open s \<noteq> None \<and> \<not> fb_loading s \<and> \<not> fb_error s \<and> it \<in> set (fb_list s) then Some (handleNavigate u it s) else None)"
| "browser_exec u cmp ls s Go_up = (if fb_open s \<noteq> None \<and> \<not> fb_loading s \<and> fb_stack s \<noteq> [] then Some (handleGoUp s) else None)"
| "browser_exec u cmp ls s (Go_to idx) =
     (if fb_open s \<noteq> None \<and> \<not> fb_loading s \<and> (case idx of None \<Rightarrow> True | Some i \<Rightarrow> i < length (fb_stack s)) then Some (handleGoToIndex idx s) else None)"
| "browser_exec u cmp ls s Unselect = Some (s\<lparr> fb_selected := None \<rparr>)"
| "browser_exec u cmp ls s (Type_dest d) = Some (s\<lparr> fb_dest := d \<rparr>)"
| "browser_exec u cmp ls s Submit_restore =
     (if restore_request s \<noteq> None \<and> \<not> fb_restoring s \<and> starts_with (fb_dest s) ''/'' then Some (s\<lparr> fb_restoring := True \<rparr>) else None)"
| "browser_exec u cmp ls s (Restore_answered ok) =
     (if fb_restoring s then Some (if ok then s\<lparr> fb_restoring := False, fb_open := None \<rparr> else s\<lparr> fb_restoring := False \<rparr>) else None)"

section \<open>What belongs together\<close>

text \<open>A step that does not open a backup while an answer for another one is on its way.\<close>

definition calm :: "file_browser \<Rightarrow> browser_event \<Rightarrow> bool" where
  "calm s e \<longleftrightarrow> (\<forall>v. e = Open_backup v \<longrightarrow> fb_requests s = [])"

definition browser_inv :: "(string \<Rightarrow> string \<Rightarrow> int) \<Rightarrow> (string \<Rightarrow> string option \<Rightarrow> entry list) \<Rightarrow> file_browser \<Rightarrow> bool" where
  "browser_inv cmp ls s \<longleftrightarrow>
     fb_loading s = (fb_requests s \<noteq> []) \<and> length (fb_requests s) \<le> 1
   \<and> (\<forall>v. fb_open s = Some v \<longrightarrow>
         (\<forall>r\<in>set (fb_requests s). r = (v, top_path (fb_stack s)))
       \<and> (fb_requests s = [] \<and> \<not> fb_error s \<longrightarrow> fb_list s = js_sort (entry_cmp cmp) (ls v (top_path (fb_stack s))))
       \<and> (\<forall>it. fb_selected s = Some it \<longrightarrow> en_leaf it \<and> (\<exists>p. it \<in> set (ls v p))))"

lemma browser_inv_walk:
  "browser_inv cmp ls s \<Longrightarrow> fb_open s \<noteq> None \<Longrightarrow> \<not> fb_loading s \<Longrightarrow> browser_inv cmp ls (walk_to stack s)"
  by (auto simp: browser_inv_def walk_to_def fetchList_def)

lemma browser_inv_answer:
  assumes "browser_inv cmp ls s" and "i < length (fb_requests s)"
  shows "browser_inv cmp ls (list_answered cmp ls i a s)"
proof -
  obtain v p where r: "fb_requests s = [(v, p)]" and "i = 0"
    using assms by (cases "fb_requests s") (auto simp: browser_inv_def)
  then show ?thesis using assms(1) by (cases a) (auto simp: browser_inv_def list_answered_def drop_nth_def)
qed

lemma browser_inv_step:
  assumes "browser_inv cmp ls s" and "calm s e" and "browser_exec u cmp ls s e = Some s'"
  shows "browser_inv cmp ls s'"
proof (cases e)
  case (Navigate it)
  with assms show ?thesis
    by (auto simp: handleNavigate_def browser_inv_walk split: if_splits) (auto simp: browser_inv_def)
next
  case (List_answered i a)
  with assms show ?thesis by (auto simp: browser_inv_answer split: if_splits)
next
  case Go_up
  with assms show ?thesis by (auto simp: handleGoUp_def browser_inv_walk split: if_splits)
next
  case (Go_to idx)
  with assms show ?thesis by (auto simp: handleGoToIndex_def browser_inv_walk split: if_splits)
next
  case (Open_backup v)
  with assms show ?thesis by (auto simp: handleOpen_def fetchList_def browser_inv_def calm_def top_path_def split: if_splits)
qed (use assms in \<open>auto simp: browser_inv_def split: if_splits\<close>)

interpretation browser: step_machine "\<lambda>s e s'. calm s e \<and> browser_exec u cmp ls s e = Some s'" "\<lambda>s. s = browser_new" "browser_inv cmp ls"
  for u cmp ls
proof
  fix s assume "s = browser_new"
  then show "browser_inv cmp ls s" by (simp add: browser_new_def browser_inv_def)
qed (blast intro: browser_inv_step)

text \<open>The list shown is that of the folder the path names, sorted, in the backup that is open.\<close>

lemma list_of_folder:
  assumes "steps (\<lambda>s e s'. calm s e \<and> browser_exec u cmp ls s e = Some s') browser_new es s"
    and "fb_open s = Some v" and "\<not> fb_loading s" and "\<not> fb_error s"
  shows "fb_list s = js_sort (entry_cmp cmp) (ls v (top_path (fb_stack s)))"
  using browser.inv_run [OF refl assms(1)] assms(2-4) by (auto simp: browser_inv_def)

text \<open>C21. A restore names a file which the server listed for that very backup, and an absolute path.\<close>

theorem restores_listed_file:
  assumes "steps (\<lambda>s e s'. calm s e \<and> browser_exec u cmp ls s e = Some s') browser_new es s"
    and "browser_exec u cmp ls s Submit_restore = Some s'" and "restore_request s = Some (v, f, dest)"
  shows "(\<exists>p. \<exists>it\<in>set (ls v p). en_leaf it \<and> f = (case en_filepath it of None \<Rightarrow> en_text it | Some g \<Rightarrow> g)) \<and> starts_with dest ''/''"
proof -
  obtain it where "fb_selected s = Some it" and "fb_open s = Some v" and "dest = fb_dest s"
    and "f = (case en_filepath it of None \<Rightarrow> en_text it | Some g \<Rightarrow> g)"
    using assms(3) by (auto simp: restore_request_def split: option.splits if_splits)
  moreover from this have "en_leaf it \<and> (\<exists>p. it \<in> set (ls v p))"
    using browser.inv_run [OF refl assms(1)] unfolding browser_inv_def by blast
  moreover have "starts_with (fb_dest s) ''/''" using assms(2) by (simp split: if_splits)
  ultimately show ?thesis by blast
qed

text \<open>A server with two backups, for the runs below.\<close>

definition two_backups :: "string \<Rightarrow> string option \<Rightarrow> entry list" where
  "two_backups v p =
     (if v = ''a'' then [\<lparr> en_text = ''old.conf'', en_filepath = Some ''L2E='', en_leaf = True, en_dir = False \<rparr>]
      else [\<lparr> en_text = ''new.conf'', en_filepath = Some ''L2I='', en_leaf = True, en_dir = False \<rparr>])"

abbreviation "old_conf \<equiv> \<lparr> en_text = ''old.conf'', en_filepath = Some ''L2E='', en_leaf = True, en_dir = False \<rparr>"

lemma restores_listed_file_witness:
  "let s = (browser_new\<lparr> fb_open := Some ''a'', fb_list := [old_conf], fb_selected := Some old_conf, fb_dest := ''/etc/a'' \<rparr>)
   in (\<exists>p. \<exists>it\<in>set (two_backups ''a'' p). en_leaf it \<and> ''L2E='' = (case en_filepath it of None \<Rightarrow> en_text it | Some g \<Rightarrow> g)) \<and> starts_with ''/etc/a'' ''/''"
proof -
  let ?exec = "browser_exec byte_text (\<lambda>a b. 0) two_backups"
  let ?es = "[Open_backup ''a'', List_answered 0 Listed, Navigate old_conf, Type_dest ''/etc/a'']"
  let ?s = "browser_new\<lparr> fb_open := Some ''a'', fb_list := [old_conf], fb_selected := Some old_conf, fb_dest := ''/etc/a'' \<rparr>"
  have "steps (\<lambda>s e s'. calm s e \<and> ?exec s e = Some s') browser_new ?es ?s"
    by (simp add: calm_def browser_new_def handleOpen_def fetchList_def list_answered_def drop_nth_def two_backups_def js_sort_def handleNavigate_def)
  moreover have "?exec ?s Submit_restore = Some (?s\<lparr> fb_restoring := True \<rparr>)" and "restore_request ?s = Some (''a'', ''L2E='', ''/etc/a'')"
    by (simp_all add: restore_request_def browser_new_def)
  ultimately show ?thesis unfolding Let_def by (rule restores_listed_file)
qed

text \<open>Closing the window and opening another backup before the first list is there: the late list of the first shows in the
  second, and a file picked from it is asked for in the second.\<close>

lemma file_of_other_backup:
  "\<exists>s. run_exec (browser_exec byte_text (\<lambda>a b. 0) two_backups) browser_new
         [Open_backup ''a'', Close_browser, Open_backup ''b'', List_answered 1 Listed, List_answered 0 Listed, Navigate old_conf, Type_dest ''/etc/a''] = Some s
       \<and> restore_request s = Some (''b'', ''L2E='', ''/etc/a'')"
  by (simp add: browser_new_def handleOpen_def fetchList_def list_answered_def drop_nth_def two_backups_def js_sort_def handleNavigate_def restore_request_def)

end
