(* ===== verification/Chart_Zoom.thy ===== *)
theory Chart_Zoom
  imports Js_Values Complex_Main
begin

text \<open>
  Zooming into the charts of one view (\<open>useChartZoom\<close> and \<open>zoomPoints\<close> in web/src/ui.js): a range picked on a chart may
  bring finer data, first of a shorter preset, then of the stored history, and each chart takes the source with the
  most samples in the range. Loads answer in any order; a number per selection (\<open>seqRef\<close>) tells late ones. Times and
  samples are rational numbers; a promise is an index into the loads, so that selections share a cached one.

  \<^item> \<open>zoom_inv_run\<close>: the finer data belong to the range shown, and the wheel turns as long as a load of this very selection is awaited.
  \<^item> \<open>source_most\<close>: no other source has more samples of the first series.
\<close>

section \<open>Samples in a range\<close>

record chart_data =
  cd_times :: "rat list option"
  cd_metrics :: "(string \<times> rat option list) list option"
  cd_history :: bool

definition series_of :: "chart_data option \<Rightarrow> string \<Rightarrow> rat option list option" where
  "series_of src key = Option.bind src (\<lambda>d. Option.bind (cd_metrics d) (\<lambda>m. map_of m key))"

definition zoomPoints :: "chart_data option \<Rightarrow> string \<Rightarrow> rat \<Rightarrow> rat \<Rightarrow> int" where
  "zoomPoints src key from to =
     (case (Option.bind src cd_times, series_of src key) of
        (Some ts, Some vals) \<Rightarrow>
          (if length vals \<noteq> length ts then -1
           else int (length (filter (\<lambda>(t, v). from \<le> t \<and> t \<le> to \<and> v \<noteq> None) (zip ts vals))))
      | _ \<Rightarrow> -1)"

section \<open>Presets\<close>

definition CHART_PRESET_SECONDS :: "(string \<times> rat) list" where
  "CHART_PRESET_SECONDS = [(''hour'', 3600), (''day'', 86400), (''week'', 7 * 86400), (''month'', 30 * 86400), (''year'', 365 * 86400)]"

definition ZOOM_ENOUGH_POINTS :: int where "ZOOM_ENOUGH_POINTS = 40"
definition HISTORY_STEP :: rat where "HISTORY_STEP = 300"
definition HISTORY_ROWS :: rat where "HISTORY_ROWS = 200"

text \<open>The finest preset before the one loaded that reaches back to the range; an unknown preset gives all but the last.\<close>

definition finer_preset :: "string \<Rightarrow> rat \<Rightarrow> rat \<Rightarrow> string option" where
  "finer_preset preset now from =
     (let names = map fst CHART_PRESET_SECONDS;
          n = (case find_index (\<lambda>p. p = preset) names of Some i \<Rightarrow> i | None \<Rightarrow> length names - 1)
      in map_option fst (List.find (\<lambda>(p, secs). now - secs \<le> from) (take n CHART_PRESET_SECONDS)))"

definition wants_history :: "rat \<Rightarrow> rat \<Rightarrow> int \<Rightarrow> bool" where
  "wants_history from to best \<longleftrightarrow> best < ZOOM_ENOUGH_POINTS \<and> 2 * HISTORY_STEP \<le> to - from
     \<and> of_int best * (3 / 2) < min ((to - from) / HISTORY_STEP) HISTORY_ROWS"

section \<open>Selections\<close>

text \<open>What the view hands the hook, and a selection that waits: its number and range, the best source so far, the data found,
  whether the history can be loaded, and what it awaits: a promise for a preset, or its own load of the history.\<close>

record view =
  vw_preset :: string
  vw_loaded :: "chart_data option"
  vw_can_preset :: bool
  vw_can_range :: bool

datatype awaits = Preset_load nat | Range_load

record selection =
  sl_seq :: nat
  sl_from :: rat
  sl_to :: rat
  sl_best :: int
  sl_got :: "chart_data list"
  sl_range :: bool
  sl_awaits :: awaits

record zoom =
  zm_view :: view
  zm_range :: "(rat \<times> rat) option"
  zm_finer :: "chart_data list"
  zm_busy :: bool
  zm_seq :: nat
  zm_cache :: "(string \<times> nat) list"
  zm_loads :: "chart_data option option list"
  zm_waiting :: "selection list"

definition zoom_new :: "view \<Rightarrow> zoom" where
  "zoom_new v = \<lparr> zm_view = v, zm_range = None, zm_finer = [], zm_busy = False, zm_seq = 0, zm_cache = [], zm_loads = [], zm_waiting = [] \<rparr>"

definition reset :: "zoom \<Rightarrow> zoom" where
  "reset z = z\<lparr> zm_seq := zm_seq z + 1, zm_cache := [], zm_range := None, zm_finer := [], zm_busy := False \<rparr>"

text \<open>The end of \<open>select\<close> (its \<open>finally\<close>), and the part after the preset.\<close>

definition select_end :: "selection \<Rightarrow> zoom \<Rightarrow> zoom" where
  "select_end sl z = (if sl_seq sl = zm_seq z then z\<lparr> zm_finer := sl_got sl, zm_busy := False \<rparr> else z)"

definition try_history :: "selection \<Rightarrow> zoom \<Rightarrow> zoom" where
  "try_history sl z =
     (if sl_range sl \<and> wants_history (sl_from sl) (sl_to sl) (sl_best sl)
      then z\<lparr> zm_waiting := zm_waiting z @ [sl\<lparr> sl_awaits := Range_load \<rparr>] \<rparr>
      else select_end sl z)"

definition select :: "rat \<Rightarrow> rat \<Rightarrow> rat \<Rightarrow> zoom \<Rightarrow> zoom" where
  "select from to now z =
     (let z' = z\<lparr> zm_seq := zm_seq z + 1, zm_range := Some (from, to), zm_finer := [] \<rparr>;
          cur = zm_view z; best = zoomPoints (vw_loaded cur) ''cpu'' from to;
          sl = \<lparr> sl_seq = zm_seq z', sl_from = from, sl_to = to, sl_best = best, sl_got = [], sl_range = vw_can_range cur, sl_awaits = Range_load \<rparr>
      in if ZOOM_ENOUGH_POINTS \<le> best then z'\<lparr> zm_busy := False \<rparr>
         else (case (if vw_can_preset cur then finer_preset (vw_preset cur) now from else None) of
                 None \<Rightarrow> try_history sl (z'\<lparr> zm_busy := True \<rparr>)
               | Some tf \<Rightarrow>
                   (case map_of (zm_cache z') tf of
                      Some p \<Rightarrow> z'\<lparr> zm_busy := True, zm_waiting := zm_waiting z' @ [sl\<lparr> sl_awaits := Preset_load p \<rparr>] \<rparr>
                    | None \<Rightarrow> z'\<lparr> zm_busy := True, zm_cache := (tf, length (zm_loads z')) # zm_cache z', zm_loads := zm_loads z' @ [None],
                                 zm_waiting := zm_waiting z' @ [sl\<lparr> sl_awaits := Preset_load (length (zm_loads z')) \<rparr>] \<rparr>)))"

text \<open>A selection goes on when its promise is settled; a failed load is \<open>null\<close>.\<close>

definition take_preset :: "selection \<Rightarrow> chart_data option \<Rightarrow> selection" where
  "take_preset sl d =
     (let n = zoomPoints d ''cpu'' (sl_from sl) (sl_to sl)
      in if sl_best sl < n then sl\<lparr> sl_got := sl_got sl @ [the d], sl_best := n \<rparr> else sl)"

definition preset_resumed :: "selection \<Rightarrow> chart_data option \<Rightarrow> zoom \<Rightarrow> zoom" where
  "preset_resumed sl d z = (if sl_seq sl \<noteq> zm_seq z then z else try_history (take_preset sl d) z)"

definition range_resumed :: "selection \<Rightarrow> chart_data option \<Rightarrow> zoom \<Rightarrow> zoom" where
  "range_resumed sl d z =
     (if sl_seq sl \<noteq> zm_seq z then z
      else select_end (if sl_best sl < zoomPoints d ''cpu'' (sl_from sl) (sl_to sl) then sl\<lparr> sl_got := sl_got sl @ [the d] \<rparr> else sl) z)"

datatype zoom_event =
    Select rat rat rat
  | Reset
  | Loads "chart_data option"
  | Changes string bool bool
  | Settled nat "chart_data option"
  | Resume nat
  | Range_settled nat "chart_data option"

text \<open>\<open>Loads\<close>: the view's data are refreshed. \<open>Changes\<close>: another preset, guest or node, with the effect that resets.\<close>

fun zoom_exec :: "zoom \<Rightarrow> zoom_event \<Rightarrow> zoom option" where
  "zoom_exec z (Select from to now) = Some (select from to now z)"
| "zoom_exec z Reset = Some (reset z)"
| "zoom_exec z (Loads d) = Some (z\<lparr> zm_view := (zm_view z)\<lparr> vw_loaded := d \<rparr> \<rparr>)"
| "zoom_exec z (Changes preset cp cr) =
     Some (reset (z\<lparr> zm_view := \<lparr> vw_preset = preset, vw_loaded = vw_loaded (zm_view z), vw_can_preset = cp, vw_can_range = cr \<rparr> \<rparr>))"
| "zoom_exec z (Settled p d) = (if p < length (zm_loads z) \<and> zm_loads z ! p = None then Some (z\<lparr> zm_loads := (zm_loads z)[p := Some d] \<rparr>) else None)"
| "zoom_exec z (Resume i) =
     (if i < length (zm_waiting z)
      then (case sl_awaits (zm_waiting z ! i) of
              Preset_load p \<Rightarrow>
                (case zm_loads z ! p of None \<Rightarrow> None
                 | Some d \<Rightarrow> (if p < length (zm_loads z)
                     then Some (preset_resumed (zm_waiting z ! i) d (z\<lparr> zm_waiting := drop_nth i (zm_waiting z) \<rparr>)) else None))
            | Range_load \<Rightarrow> None)
      else None)"
| "zoom_exec z (Range_settled i d) =
     (if i < length (zm_waiting z) \<and> sl_awaits (zm_waiting z ! i) = Range_load
      then Some (range_resumed (zm_waiting z ! i) d (z\<lparr> zm_waiting := drop_nth i (zm_waiting z) \<rparr>)) else None)"

section \<open>Which source a chart takes\<close>

definition no_data :: chart_data where
  "no_data = \<lparr> cd_times = None, cd_metrics = Some [], cd_history = False \<rparr>"

definition source_base :: "chart_data option \<Rightarrow> chart_data" where
  "source_base loaded = (case loaded of Some d \<Rightarrow> (if cd_metrics d \<noteq> None then d else no_data) | None \<Rightarrow> no_data)"

definition better :: "string list \<Rightarrow> rat \<times> rat \<Rightarrow> chart_data \<times> int \<Rightarrow> chart_data \<Rightarrow> chart_data \<times> int" where
  "better keys r pn d =
     (let m = zoomPoints (Some d) (hd keys) (fst r) (snd r)
      in if list_all (\<lambda>k. series_of (Some d) k \<noteq> None) keys \<and> snd pn < m then (d, m) else pn)"

definition chart_source :: "zoom \<Rightarrow> string list \<Rightarrow> chart_data" where
  "chart_source z keys =
     (let loaded = vw_loaded (zm_view z); base = source_base loaded
      in case zm_range z of None \<Rightarrow> base
         | Some r \<Rightarrow> (if zm_finer z = [] then base
                      else fst (foldl (better keys r) (base, zoomPoints loaded (hd keys) (fst r) (snd r)) (zm_finer z))))"

section \<open>The data belong to the range\<close>

definition points :: "rat \<times> rat \<Rightarrow> chart_data \<Rightarrow> int" where
  "points r d = zoomPoints (Some d) ''cpu'' (fst r) (snd r)"

text \<open>Sources with ever more samples in the range.\<close>

definition ascending :: "rat \<times> rat \<Rightarrow> chart_data list \<Rightarrow> bool" where
  "ascending r ds \<longleftrightarrow> sorted_wrt (<) (map (points r) ds) \<and> (\<forall>d\<in>set ds. 0 \<le> points r d)"

definition waiting_ok :: "nat \<Rightarrow> selection \<Rightarrow> bool" where
  "waiting_ok n sl \<longleftrightarrow> (\<forall>p. sl_awaits sl = Preset_load p \<longrightarrow> p < n) \<and> -1 \<le> sl_best sl
     \<and> ascending (sl_from sl, sl_to sl) (sl_got sl) \<and> (\<forall>d\<in>set (sl_got sl). points (sl_from sl, sl_to sl) d \<le> sl_best sl)"

definition zoom_inv :: "zoom \<Rightarrow> bool" where
  "zoom_inv z \<longleftrightarrow>
     (\<forall>sl\<in>set (zm_waiting z). sl_seq sl \<le> zm_seq z \<and> waiting_ok (length (zm_loads z)) sl
        \<and> (sl_seq sl = zm_seq z \<longrightarrow> zm_range z = Some (sl_from sl, sl_to sl)))
   \<and> length (filter (\<lambda>sl. sl_seq sl = zm_seq z) (zm_waiting z)) = of_bool (zm_busy z)
   \<and> (\<forall>(tf, p)\<in>set (zm_cache z). p < length (zm_loads z))
   \<and> (zm_finer z \<noteq> [] \<longrightarrow> (\<exists>r. zm_range z = Some r \<and> ascending r (zm_finer z)))"

lemma zoomPoints_low: "-1 \<le> zoomPoints d key from to"
  by (auto simp: zoomPoints_def split: option.split)

lemma zoomPoints_None: "zoomPoints None key from to = -1"
  by (simp add: zoomPoints_def series_of_def)

lemma ascending_snoc:
  "ascending r ds \<Longrightarrow> \<forall>d\<in>set ds. points r d \<le> b \<Longrightarrow> -1 \<le> b \<Longrightarrow> b < points r d' \<Longrightarrow> ascending r (ds @ [d'])"
  by (auto simp: ascending_def sorted_wrt_append)

lemma take_preset_ok:
  assumes "waiting_ok n sl"
  shows "waiting_ok n (take_preset sl d)"
proof (cases "sl_best sl < zoomPoints d ''cpu'' (sl_from sl) (sl_to sl)")
  case True
  then obtain d' where d: "d = Some d'" using zoomPoints_None assms by (cases d) (auto simp: waiting_ok_def)
  let ?r = "(sl_from sl, sl_to sl)"
  have more: "sl_best sl < points ?r d'" using True d by (simp add: points_def)
  have "ascending ?r (sl_got sl @ [d'])"
    using assms more by (intro ascending_snoc [where b = "sl_best sl"]) (auto simp: waiting_ok_def)
  then show ?thesis using assms True d more by (auto simp: take_preset_def waiting_ok_def points_def)
qed (use assms in \<open>simp add: take_preset_def\<close>)

lemma take_preset_sel [simp]:
  "sl_seq (take_preset sl d) = sl_seq sl" "sl_from (take_preset sl d) = sl_from sl" "sl_to (take_preset sl d) = sl_to sl"
  "sl_range (take_preset sl d) = sl_range sl" "sl_awaits (take_preset sl d) = sl_awaits sl"
  by (simp_all add: take_preset_def Let_def)

text \<open>A selection of the current number, taken out of the list of those that wait.\<close>

definition resumed_inv :: "selection \<Rightarrow> zoom \<Rightarrow> bool" where
  "resumed_inv sl z \<longleftrightarrow> sl_seq sl = zm_seq z \<and> waiting_ok (length (zm_loads z)) sl \<and> zm_range z = Some (sl_from sl, sl_to sl)
     \<and> (\<forall>s\<in>set (zm_waiting z). sl_seq s < zm_seq z \<and> waiting_ok (length (zm_loads z)) s)
     \<and> zm_busy z \<and> (\<forall>(tf, p)\<in>set (zm_cache z). p < length (zm_loads z)) \<and> (zm_finer z \<noteq> [] \<longrightarrow> ascending (sl_from sl, sl_to sl) (zm_finer z))"

lemma none_waits: "\<forall>s\<in>set ws. sl_seq s < n \<Longrightarrow> filter (\<lambda>s. sl_seq s = n) ws = []"
  by (auto simp: filter_empty_conv)

lemma select_end_inv: "resumed_inv sl z \<Longrightarrow> zoom_inv (select_end sl z)"
  by (auto simp: resumed_inv_def select_end_def zoom_inv_def none_waits waiting_ok_def dest: less_imp_le)

lemma try_history_inv: "resumed_inv sl z \<Longrightarrow> zoom_inv (try_history sl z)"
  using select_end_inv [of sl z]
  by (auto simp: try_history_def) (auto simp: resumed_inv_def zoom_inv_def none_waits waiting_ok_def dest: less_imp_le)

lemma resumed:
  assumes "zoom_inv z" and "i < length (zm_waiting z)" and "sl_seq (zm_waiting z ! i) = zm_seq z"
  shows "resumed_inv (zm_waiting z ! i) (z\<lparr> zm_waiting := drop_nth i (zm_waiting z) \<rparr>)"
proof -
  let ?rest = "drop_nth i (zm_waiting z)"
  have "length (filter (\<lambda>sl. sl_seq sl = zm_seq z) (zm_waiting z)) = Suc (length (filter (\<lambda>sl. sl_seq sl = zm_seq z) ?rest))"
    using filter_drop_nth [OF assms(2), of "\<lambda>sl. sl_seq sl = zm_seq z"] assms(3) by simp
  then have "zm_busy z" and "filter (\<lambda>sl. sl_seq sl = zm_seq z) ?rest = []"
    using assms(1) by (auto simp: zoom_inv_def of_bool_def split: if_splits)
  then have "\<forall>s\<in>set ?rest. sl_seq s \<noteq> zm_seq z" by (simp add: filter_empty_conv)
  moreover have "\<forall>s\<in>set ?rest. sl_seq s \<le> zm_seq z \<and> waiting_ok (length (zm_loads z)) s"
    using set_drop_nth [of i "zm_waiting z"] assms(1) by (auto simp: zoom_inv_def)
  ultimately have "\<forall>s\<in>set ?rest. sl_seq s < zm_seq z \<and> waiting_ok (length (zm_loads z)) s"
    by (auto intro: le_neq_implies_less)
  moreover have "waiting_ok (length (zm_loads z)) (zm_waiting z ! i)"
    and "zm_range z = Some (sl_from (zm_waiting z ! i), sl_to (zm_waiting z ! i))"
    using assms nth_mem [OF assms(2)] by (simp_all add: zoom_inv_def)
  ultimately show ?thesis using assms(1,3) \<open>zm_busy z\<close> by (simp add: resumed_inv_def zoom_inv_def)
qed

lemma dropped:
  assumes "zoom_inv z" and "i < length (zm_waiting z)" and "sl_seq (zm_waiting z ! i) \<noteq> zm_seq z"
  shows "zoom_inv (z\<lparr> zm_waiting := drop_nth i (zm_waiting z) \<rparr>)"
  using assms filter_drop_nth [OF assms(2), of "\<lambda>sl. sl_seq sl = zm_seq z"] set_drop_nth [of i "zm_waiting z"]
  by (auto simp: zoom_inv_def)

lemma zoom_inv_reset: "zoom_inv z \<Longrightarrow> zoom_inv (reset z)"
  by (fastforce simp: zoom_inv_def reset_def filter_empty_conv)

lemma waiting_ok_more: "waiting_ok n sl \<Longrightarrow> n \<le> m \<Longrightarrow> waiting_ok m sl"
  by (fastforce simp: waiting_ok_def)

text \<open>A new selection, before it waits for anything.\<close>

lemma zoom_inv_select:
  assumes "zoom_inv z"
  shows "zoom_inv (select from to now z)"
proof -
  let ?best = "zoomPoints (vw_loaded (zm_view z)) ''cpu'' from to"
  let ?sl = "\<lambda>a. \<lparr> sl_seq = zm_seq z + 1, sl_from = from, sl_to = to, sl_best = ?best, sl_got = [], sl_range = vw_can_range (zm_view z), sl_awaits = a \<rparr>"
  let ?z = "z\<lparr> zm_seq := zm_seq z + 1, zm_range := Some (from, to), zm_finer := [], zm_busy := True \<rparr>"
  have old: "\<forall>s\<in>set (zm_waiting z). sl_seq s < Suc (zm_seq z) \<and> waiting_ok (length (zm_loads z)) s"
    and cache: "\<forall>(tf, p)\<in>set (zm_cache z). p < length (zm_loads z)"
    using assms by (auto simp: zoom_inv_def le_imp_less_Suc)
  have ok: "waiting_ok n (?sl a)" if "\<And>p. a = Preset_load p \<Longrightarrow> p < n" for a n
    using that zoomPoints_low by (auto simp: waiting_ok_def ascending_def)
  have "zoom_inv (try_history (?sl Range_load) ?z)"
    by (rule try_history_inv) (use old cache ok [of Range_load] in \<open>simp add: resumed_inv_def\<close>)
  moreover have "zoom_inv (?z\<lparr> zm_waiting := zm_waiting z @ [?sl (Preset_load p)] \<rparr>)" if "p < length (zm_loads z)" for p
    using old cache ok [of "Preset_load p" "length (zm_loads z)"] that
    by (auto simp: zoom_inv_def none_waits)
  moreover have "zoom_inv (?z\<lparr> zm_cache := (tf, length (zm_loads z)) # zm_cache z, zm_loads := zm_loads z @ [None],
      zm_waiting := zm_waiting z @ [?sl (Preset_load (length (zm_loads z)))] \<rparr>)" for tf
    using old cache ok [of "Preset_load (length (zm_loads z))" "Suc (length (zm_loads z))"]
    by (auto simp: zoom_inv_def none_waits intro: waiting_ok_more)
  moreover have "zoom_inv (?z\<lparr> zm_busy := False \<rparr>)"
    using old cache by (auto simp: zoom_inv_def none_waits)
  moreover have "p < length (zm_loads z)" if "map_of (zm_cache z) tf = Some p" for tf p
    using cache map_of_SomeD [OF that] by auto
  ultimately show ?thesis by (auto simp: select_def Let_def split: option.split)
qed

lemma zoom_inv_step:
  assumes "zoom_inv z" and "zoom_exec z e = Some z'"
  shows "zoom_inv z'"
proof (cases e)
  case (Resume i)
  then obtain p d where i: "i < length (zm_waiting z)" and "z' = preset_resumed (zm_waiting z ! i) d (z\<lparr> zm_waiting := drop_nth i (zm_waiting z) \<rparr>)"
    using assms(2) by (auto split: if_splits awaits.splits option.splits)
  moreover have "resumed_inv (take_preset (zm_waiting z ! i) d) (z\<lparr> zm_waiting := drop_nth i (zm_waiting z) \<rparr>)"
    if "sl_seq (zm_waiting z ! i) = zm_seq z"
    using resumed [OF assms(1) i that] by (simp add: resumed_inv_def take_preset_ok)
  ultimately show ?thesis
    using dropped [OF assms(1) i] by (auto simp: preset_resumed_def try_history_inv)
next
  case (Range_settled i d)
  let ?sl = "zm_waiting z ! i" and ?z = "z\<lparr> zm_waiting := drop_nth i (zm_waiting z) \<rparr>"
  have i: "i < length (zm_waiting z)" and z': "z' = range_resumed ?sl d ?z"
    using assms(2) Range_settled by (auto split: if_splits)
  have "zoom_inv (select_end (if sl_best ?sl < zoomPoints d ''cpu'' (sl_from ?sl) (sl_to ?sl) then ?sl\<lparr> sl_got := sl_got ?sl @ [the d] \<rparr> else ?sl) ?z)"
    if "sl_seq ?sl = zm_seq z"
  proof -
    have "zoom_inv (select_end (take_preset ?sl d) ?z)"
      using resumed [OF assms(1) i that] by (intro select_end_inv) (simp add: resumed_inv_def take_preset_ok)
    then show ?thesis using that by (auto simp: select_end_def take_preset_def Let_def)
  qed
  then show ?thesis using dropped [OF assms(1) i] z' by (auto simp: range_resumed_def)
next
  case (Changes preset cp cr)
  moreover have "zoom_inv (z\<lparr> zm_view := v \<rparr>)" for v using assms(1) by (simp add: zoom_inv_def)
  ultimately show ?thesis using assms(2) zoom_inv_reset by auto
next
  case (Select a b c)
  with assms show ?thesis by (auto simp: zoom_inv_select)
next
  case Reset
  with assms show ?thesis by (auto simp: zoom_inv_reset)
next
  case (Settled p d)
  with assms show ?thesis by (simp split: if_split_asm) (auto simp: zoom_inv_def)
next
  case (Loads d)
  with assms show ?thesis by (auto simp: zoom_inv_def)
qed

interpretation zooming: step_machine "\<lambda>z e z'. zoom_exec z e = Some z'" "\<lambda>z. \<exists>v. z = zoom_new v" zoom_inv
proof
  fix z assume "\<exists>v. z = zoom_new v"
  then show "zoom_inv z" by (auto simp: zoom_inv_def zoom_new_def)
qed (rule zoom_inv_step)

lemma zoom_inv_exec: "run_exec zoom_exec (zoom_new v) es = Some z \<Longrightarrow> zoom_inv z"
  by (auto intro!: zooming.inv_run steps_run_exec [where f = zoom_exec])

text \<open>C30. In every run the finer data shown belong to the range shown, each source with more samples in it than the one before; and the
  view is busy exactly while a load of the last selection is awaited.\<close>

theorem zoom_inv_run:
  assumes "run_exec zoom_exec (zoom_new v) es = Some z"
  shows "(zm_busy z \<longleftrightarrow> (\<exists>sl\<in>set (zm_waiting z). sl_seq sl = zm_seq z))
         \<and> (zm_finer z \<noteq> [] \<longrightarrow> (\<exists>r. zm_range z = Some r \<and> ascending r (zm_finer z)))"
proof -
  have inv: "zoom_inv z" by (rule zoom_inv_exec [OF assms])
  then have "length (filter (\<lambda>sl. sl_seq sl = zm_seq z) (zm_waiting z)) = of_bool (zm_busy z)" by (simp add: zoom_inv_def)
  then have "zm_busy z \<longleftrightarrow> filter (\<lambda>sl. sl_seq sl = zm_seq z) (zm_waiting z) \<noteq> []" by (auto simp: of_bool_def split: if_splits)
  with inv show ?thesis by (auto simp: filter_empty_conv zoom_inv_def)
qed

section \<open>Loads come to an end\<close>

fun is_answer :: "zoom_event \<Rightarrow> bool" where
  "is_answer (Settled p d) = True"
| "is_answer (Resume i) = True"
| "is_answer (Range_settled i d) = True"
| "is_answer e = False"

definition wait_weight :: "selection \<Rightarrow> nat" where
  "wait_weight sl = (if sl_awaits sl = Range_load then 1 else 2)"

definition load_weight :: "zoom \<Rightarrow> nat" where
  "load_weight z = length (filter (\<lambda>l. l = None) (zm_loads z)) + sum_list (map wait_weight (zm_waiting z))"

lemma sum_list_drop_nth: "i < length xs \<Longrightarrow> sum_list (map f xs) = f (xs ! i) + (sum_list (map f (drop_nth i xs)) :: nat)"
proof -
  assume "i < length xs"
  then have "sum_list (map f xs) = sum_list (map f (take i xs @ xs ! i # drop (Suc i) xs))" by (simp add: id_take_nth_drop [symmetric])
  then show ?thesis by (simp add: drop_nth_def)
qed

lemma load_weight_end [simp]: "load_weight (select_end sl z) = load_weight z"
  by (simp add: load_weight_def select_end_def)

lemma load_weight_history: "load_weight (try_history sl z) \<le> load_weight z + 1"
  using load_weight_end [of sl z] by (simp add: try_history_def) (simp add: load_weight_def wait_weight_def)

lemma settle_weight:
  assumes "p < length ls" and "ls ! p = None"
  shows "length (filter (\<lambda>l. l = None) (ls[p := Some d])) < length (filter (\<lambda>l. l = None) ls)"
  using filter_drop_nth [OF assms(1), of "\<lambda>l. l = None"] assms by (simp add: upd_conv_take_nth_drop drop_nth_def)

lemma answer_lowers:
  assumes "is_answer e" and "zoom_exec z e = Some z'"
  shows "load_weight z' < load_weight z"
proof (cases e)
  case (Settled p d)
  with assms show ?thesis using settle_weight [of p "zm_loads z" d] by (auto simp: load_weight_def split: if_splits)
next
  case (Resume i)
  let ?z = "z\<lparr> zm_waiting := drop_nth i (zm_waiting z) \<rparr>"
  obtain p d where i: "i < length (zm_waiting z)" "sl_awaits (zm_waiting z ! i) = Preset_load p" and z': "z' = preset_resumed (zm_waiting z ! i) d ?z"
    using assms(2) Resume by (auto split: if_splits awaits.splits option.splits)
  have "load_weight z = load_weight ?z + 2"
    using sum_list_drop_nth [OF i(1), of wait_weight] i(2) by (simp add: load_weight_def wait_weight_def)
  moreover have "load_weight z' \<le> load_weight ?z + 1" using z' load_weight_history by (simp add: preset_resumed_def)
  ultimately show ?thesis by simp
next
  case (Range_settled i d)
  let ?z = "z\<lparr> zm_waiting := drop_nth i (zm_waiting z) \<rparr>"
  have i: "i < length (zm_waiting z)" "sl_awaits (zm_waiting z ! i) = Range_load" and z': "z' = range_resumed (zm_waiting z ! i) d ?z"
    using assms(2) Range_settled by (auto split: if_splits)
  have "load_weight z = load_weight ?z + 1"
    using sum_list_drop_nth [OF i(1), of wait_weight] i(2) by (simp add: load_weight_def wait_weight_def)
  moreover have "load_weight z' = load_weight ?z" using z' by (simp add: range_resumed_def)
  ultimately show ?thesis by simp
qed (use assms in simp_all)

lemma answers_bounded: "list_all is_answer es \<Longrightarrow> run_exec zoom_exec z es = Some z' \<Longrightarrow> load_weight z' + length es \<le> load_weight z"
proof (induction es arbitrary: z)
  case (Cons e es)
  then obtain z1 where "zoom_exec z e = Some z1" and "run_exec zoom_exec z1 es = Some z'" by (auto split: option.splits)
  with Cons show ?case using answer_lowers [of e z z1] by fastforce
qed simp

lemma all_answered:
  assumes "zoom_inv z" and "\<And>e. is_answer e \<Longrightarrow> zoom_exec z e = None"
  shows "\<not> zm_busy z"
proof
  assume "zm_busy z"
  then have "zm_waiting z \<noteq> []" using assms(1) by (auto simp: zoom_inv_def)
  then have w: "0 < length (zm_waiting z)" by simp
  show False
  proof (cases "sl_awaits (zm_waiting z ! 0)")
    case (Preset_load p)
    moreover have "p < length (zm_loads z)" using assms(1) nth_mem [OF w] Preset_load by (auto simp: zoom_inv_def waiting_ok_def)
    ultimately show False using assms(2) [of "Resume 0"] assms(2) [of "Settled p None"] w by (auto split: option.splits)
  next
    case Range_load
    then show False using assms(2) [of "Range_settled 0 None"] w by simp
  qed
qed

text \<open>C31. From any state of the view only so many answers can come, and when all have come the view is not busy.\<close>

theorem zoom_settles:
  assumes "run_exec zoom_exec (zoom_new v) es = Some z" and "list_all is_answer as" and "run_exec zoom_exec z as = Some z'"
  shows "length as \<le> load_weight z \<and> ((\<forall>e. is_answer e \<longrightarrow> zoom_exec z' e = None) \<longrightarrow> \<not> zm_busy z')"
proof -
  have "steps (\<lambda>z e z'. zoom_exec z e = Some z') z as z'" by (rule steps_run_exec [where f = zoom_exec]) (simp_all add: assms(3))
  then have "zoom_inv z'" by (rule zooming.inv_steps) (rule zoom_inv_exec [OF assms(1)])
  then show ?thesis using answers_bounded [OF assms(2,3)] all_answered [of z'] by auto
qed

section \<open>The source of a chart\<close>

lemma better_most:
  assumes "zoomPoints (Some (fst pn)) (hd keys) (fst r) (snd r) = snd pn"
  shows "let qn = foldl (better keys r) pn ds
         in zoomPoints (Some (fst qn)) (hd keys) (fst r) (snd r) = snd qn \<and> snd pn \<le> snd qn
          \<and> (\<forall>d\<in>set ds. list_all (\<lambda>k. series_of (Some d) k \<noteq> None) keys \<longrightarrow> zoomPoints (Some d) (hd keys) (fst r) (snd r) \<le> snd qn)
          \<and> (fst qn = fst pn \<or> (fst qn \<in> set ds \<and> list_all (\<lambda>k. series_of (Some (fst qn)) k \<noteq> None) keys))"
  using assms
proof (induction ds arbitrary: pn)
  case (Cons d ds)
  have "zoomPoints (Some (fst (better keys r pn d))) (hd keys) (fst r) (snd r) = snd (better keys r pn d)"
    using Cons.prems by (simp add: better_def Let_def)
  from Cons.IH [OF this] show ?case by (auto simp: Let_def better_def split: if_splits)
qed (simp add: Let_def)

text \<open>While a range is picked, no source that has all series of a chart has more samples of its first one, the one taken has them all or is
  the loaded preset.\<close>

lemma source_most:
  fixes z keys
  defines "p \<equiv> chart_source z keys"
  assumes "zm_range z = Some r"
  shows "(\<forall>d\<in>set (zm_finer z). list_all (\<lambda>k. series_of (Some d) k \<noteq> None) keys
            \<longrightarrow> zoomPoints (Some d) (hd keys) (fst r) (snd r) \<le> zoomPoints (Some p) (hd keys) (fst r) (snd r))
       \<and> zoomPoints (vw_loaded (zm_view z)) (hd keys) (fst r) (snd r) \<le> zoomPoints (Some p) (hd keys) (fst r) (snd r)
       \<and> (p = source_base (vw_loaded (zm_view z)) \<or> p \<in> set (zm_finer z) \<and> list_all (\<lambda>k. series_of (Some p) k \<noteq> None) keys)"
proof -
  let ?l = "vw_loaded (zm_view z)"
  have "zoomPoints (Some (source_base ?l)) k (fst r) (snd r) = zoomPoints ?l k (fst r) (snd r)" for k
    by (auto simp: source_base_def no_data_def zoomPoints_def series_of_def split: option.split)
  then have base: "zoomPoints (Some (fst (source_base ?l, zoomPoints ?l (hd keys) (fst r) (snd r)))) (hd keys) (fst r) (snd r)
      = snd (source_base ?l, zoomPoints ?l (hd keys) (fst r) (snd r))" by simp
  define qn where "qn = foldl (better keys r) (source_base ?l, zoomPoints ?l (hd keys) (fst r) (snd r)) (zm_finer z)"
  have p: "p = fst qn" using assms(2) by (simp add: p_def chart_source_def qn_def Let_def)
  note most = better_most [OF base, of "zm_finer z", folded qn_def, unfolded Let_def, folded qn_def p, unfolded fst_conv snd_conv]
  then have "zoomPoints (Some p) (hd keys) (fst r) (snd r) = snd qn" by (rule conjunct1)
  with most show ?thesis by presburger
qed

text \<open>A view of a day without data yet, a range of ten minutes, and the answers to its loads.\<close>

definition some_view :: view where
  "some_view = \<lparr> vw_preset = ''day'', vw_loaded = None, vw_can_preset = True, vw_can_range = True \<rparr>"

definition hour_data :: chart_data where
  "hour_data = \<lparr> cd_times = Some [60, 120, 700], cd_metrics = Some [(''cpu'', [Some 1, None, Some 2])], cd_history = False \<rparr>"

definition picked :: zoom where
  "picked = the (run_exec zoom_exec (zoom_new some_view) [Select 0 600 1000])"

lemmas zoom_eval = select_def zoom_new_def some_view_def zoomPoints_def series_of_def finer_preset_def CHART_PRESET_SECONDS_def
  try_history_def wants_history_def ZOOM_ENOUGH_POINTS_def HISTORY_STEP_def HISTORY_ROWS_def select_end_def preset_resumed_def
  range_resumed_def take_preset_def hour_data_def drop_nth_def Let_def

lemma picked_run: "run_exec zoom_exec (zoom_new some_view) [Select 0 600 1000] = Some picked"
  by (simp add: picked_def)

definition answered :: zoom where
  "answered = the (run_exec zoom_exec picked [Settled 0 (Some hour_data), Resume 0, Range_settled 0 None])"

lemma answered_run: "run_exec zoom_exec picked [Settled 0 (Some hour_data), Resume 0, Range_settled 0 None] = Some answered"
  by (simp add: answered_def picked_def zoom_eval)

lemma answered_whole: "run_exec zoom_exec (zoom_new some_view) [Select 0 600 1000, Settled 0 (Some hour_data), Resume 0, Range_settled 0 None] = Some answered"
  using answered_run picked_run by (simp split: option.splits)

lemma answered_finer: "zm_finer answered = [hour_data]"
  by (simp add: answered_def picked_def zoom_eval)

lemma zoom_inv_run_witness:
  "zm_busy picked \<and> \<not> zm_busy answered
   \<and> (\<exists>r. zm_range answered = Some r \<and> ascending r (zm_finer answered))"
proof -
  have "zm_busy picked" and "zm_waiting answered = []" by (simp_all add: answered_def picked_def zoom_eval)
  with zoom_inv_run [OF answered_whole] answered_finer show ?thesis by simp
qed

lemma zoom_settles_witness: "3 \<le> load_weight picked"
  using zoom_settles [OF picked_run _ answered_run] by simp

lemma source_most_witness:
  "zoomPoints (Some hour_data) ''cpu'' 0 600 \<le> zoomPoints (Some (chart_source answered [''cpu''])) ''cpu'' 0 600"
proof -
  have "zm_range answered = Some (0, 600)" and f: "zm_finer answered = [hour_data]" and "series_of (Some hour_data) ''cpu'' \<noteq> None"
    by (simp_all add: answered_def picked_def zoom_eval)
  with source_most [of answered "(0, 600)" "[''cpu'']"] show ?thesis by simp
qed

end
