(* ===== verification/Guest_Table.thy ===== *)
theory Guest_Table
  imports Js_Values Complex_Main
begin

text \<open>
  The table of the guests of a cluster (\<open>ResourceTable\<close> in web/src/tables.js, with the address cache above it): the addresses
  asked of guest agents, a few at a time; filter, sort and pages; the picked guests; the rates of disk access.
  Rendering is left out; \<open>compare\<close> is \<open>localeCompare\<close>; times are milliseconds.

  \<^item> \<open>one_request_per_guest\<close>: no guest is asked twice at once, and one walk has at most six requests out.
    \<open>walks_add_up\<close>: the walks together have more. \<open>address_blanks\<close>: a refresh hides the known address.
  \<^item> \<open>pages_cover\<close>: the pages are the filtered guests in their order. \<open>table_sorted_by_ip\<close>, \<open>highlight_other_page\<close>.
  \<^item> \<open>io_rate\<close>: a rate is the growth of a counter over the uptime passed, and never negative.
\<close>

section \<open>The cache of addresses\<close>

datatype ip_entry = Loading | Found "string option" int

definition IP_CACHE_TTL_MS :: int where "IP_CACHE_TTL_MS = 300000"
definition IP_CACHE_RETRY_MS :: int where "IP_CACHE_RETRY_MS = 120000"
definition IP_CACHE_MAX_PARALLEL :: nat where "IP_CACHE_MAX_PARALLEL = 6"

type_synonym ip_cache = "string \<rightharpoonup> ip_entry"

definition ipCacheKey :: "string \<Rightarrow> string \<Rightarrow> string" where
  "ipCacheKey cluster vmid = cluster @ ''/'' @ vmid"

definition ipCacheEntry :: "ip_cache \<Rightarrow> int \<Rightarrow> string \<Rightarrow> ip_entry option" where
  "ipCacheEntry c now k =
     (case c k of None \<Rightarrow> None | Some Loading \<Rightarrow> Some Loading
      | Some (Found ip since) \<Rightarrow> (if (if ip = None then IP_CACHE_RETRY_MS else IP_CACHE_TTL_MS) < now - since then None else Some (Found ip since)))"

definition ipCacheValue :: "ip_cache \<Rightarrow> string \<Rightarrow> string" where
  "ipCacheValue c k = (case c k of Some (Found (Some ip) since) \<Rightarrow> ip | _ \<Rightarrow> [])"

text \<open>A row of the page: its key, type and status, and the address the list itself carries.\<close>

record ip_row =
  ir_key :: string
  ir_type :: string
  ir_status :: string
  ir_ip :: string

definition to_fetch :: "ip_cache \<Rightarrow> int \<Rightarrow> ip_row list \<Rightarrow> string list" where
  "to_fetch c now rows =
     map ir_key (filter (\<lambda>r. ir_type r = ''qemu'' \<and> ir_status r = ''running'' \<and> ir_ip r = [] \<and> ipCacheEntry c now (ir_key r) = None) rows)"

text \<open>The guests the last walk has still to ask, and the requests out, each of some walk. A walk that is not the last is cancelled.\<close>

record ip_walks =
  iw_cache :: ip_cache
  iw_left :: "string list"
  iw_walk :: nat
  iw_flying :: "(string \<times> nat) list"

definition walks_new :: ip_walks where
  "walks_new = \<lparr> iw_cache = Map.empty, iw_left = [], iw_walk = 0, iw_flying = [] \<rparr>"

definition runNext :: "nat \<Rightarrow> ip_walks \<Rightarrow> ip_walks" where
  "runNext w s =
     (if w \<noteq> iw_walk s then s
      else (case iw_left s of [] \<Rightarrow> s
            | k # ks \<Rightarrow> s\<lparr> iw_cache := (iw_cache s)(k \<mapsto> Loading), iw_left := ks, iw_flying := iw_flying s @ [(k, w)] \<rparr>))"

text \<open>The effect on the page: the walk before is cancelled, a new one starts.\<close>

definition walk_effect :: "ip_row list \<Rightarrow> int \<Rightarrow> ip_walks \<Rightarrow> ip_walks" where
  "walk_effect rows now s =
     (let ks = to_fetch (iw_cache s) now rows; w = iw_walk s + 1
      in (runNext w ^^ min IP_CACHE_MAX_PARALLEL (length ks)) (s\<lparr> iw_walk := w, iw_left := ks \<rparr>))"

text \<open>The answer of a guest: an address, none, or no answer at all.\<close>

definition ip_answered :: "nat \<Rightarrow> string option \<Rightarrow> int \<Rightarrow> ip_walks \<Rightarrow> ip_walks" where
  "ip_answered i ip now s =
     (let (k, w) = iw_flying s ! i
      in runNext w (s\<lparr> iw_cache := (iw_cache s)(k \<mapsto> Found ip now), iw_flying := drop_nth i (iw_flying s) \<rparr>))"

datatype ip_event = Effect "ip_row list" int | Ip_answer nat "string option" int

fun ip_exec :: "ip_walks \<Rightarrow> ip_event \<Rightarrow> ip_walks option" where
  "ip_exec s (Effect rows now) = Some (walk_effect rows now s)"
| "ip_exec s (Ip_answer i ip now) = (if i < length (iw_flying s) then Some (ip_answered i ip now s) else None)"

section \<open>One request per guest\<close>

definition of_walk :: "nat \<Rightarrow> (string \<times> nat) list \<Rightarrow> nat" where
  "of_walk w fl = length (filter (\<lambda>f. snd f = w) fl)"

definition walks_inv :: "ip_walks \<Rightarrow> bool" where
  "walks_inv s \<longleftrightarrow> distinct (map fst (iw_flying s) @ iw_left s)
     \<and> (\<forall>k. iw_cache s k = Some Loading \<longleftrightarrow> k \<in> fst ` set (iw_flying s))
     \<and> (\<forall>f\<in>set (iw_flying s). snd f \<le> iw_walk s) \<and> (\<forall>w. of_walk w (iw_flying s) \<le> IP_CACHE_MAX_PARALLEL)"

lemma runNext_inv:
  assumes "walks_inv s" and "of_walk w (iw_flying s) < IP_CACHE_MAX_PARALLEL"
  shows "walks_inv (runNext w s)"
proof (cases "w = iw_walk s \<and> iw_left s \<noteq> []")
  case True
  then obtain k ks where "iw_left s = k # ks" by (cases "iw_left s") auto
  with True assms show ?thesis by (auto simp: runNext_def walks_inv_def of_walk_def)
qed (use assms in \<open>auto simp: runNext_def split: list.split\<close>)

lemma runNext_count: "of_walk w (iw_flying (runNext w s)) \<le> of_walk w (iw_flying s) + 1"
  by (auto simp: runNext_def of_walk_def split: list.split)

lemma runNext_times:
  assumes "walks_inv s" and "of_walk w (iw_flying s) + n \<le> IP_CACHE_MAX_PARALLEL"
  shows "walks_inv ((runNext w ^^ n) s) \<and> of_walk w (iw_flying ((runNext w ^^ n) s)) \<le> of_walk w (iw_flying s) + n"
  using assms(2)
proof (induction n)
  case (Suc n)
  then show ?case using runNext_inv [of "(runNext w ^^ n) s" w] runNext_count [of w "(runNext w ^^ n) s"] by simp
qed (simp add: assms(1))

lemma to_fetch_new:
  assumes "distinct (map ir_key rows)"
  shows "distinct (to_fetch c now rows) \<and> (\<forall>k\<in>set (to_fetch c now rows). c k \<noteq> Some Loading)"
  using assms by (auto simp: to_fetch_def distinct_map ipCacheEntry_def intro: inj_on_subset distinct_filter)

lemma walks_inv_effect:
  assumes "walks_inv s" and "distinct (map ir_key rows)"
  shows "walks_inv (walk_effect rows now s)"
proof -
  let ?ks = "to_fetch (iw_cache s) now rows"
  let ?s = "s\<lparr> iw_walk := iw_walk s + 1, iw_left := ?ks \<rparr>"
  have "walks_inv ?s" using assms(1) to_fetch_new [OF assms(2), of "iw_cache s" now]
    by (force simp: walks_inv_def)
  moreover have "of_walk (iw_walk s + 1) (iw_flying s) = 0"
    using assms(1) by (auto simp: of_walk_def walks_inv_def filter_empty_conv)
  ultimately show ?thesis
    unfolding walk_effect_def Let_def using runNext_times [of ?s "iw_walk s + 1" "min IP_CACHE_MAX_PARALLEL (length ?ks)"] by simp
qed

lemma walks_inv_answer:
  assumes "walks_inv s" and "i < length (iw_flying s)"
  shows "walks_inv (ip_answered i ip now s)"
proof -
  obtain k w where kw: "iw_flying s ! i = (k, w)" by (cases "iw_flying s ! i")
  let ?s = "s\<lparr> iw_cache := (iw_cache s)(k \<mapsto> Found ip now), iw_flying := drop_nth i (iw_flying s) \<rparr>"
  have split: "iw_flying s = take i (iw_flying s) @ (k, w) # drop (Suc i) (iw_flying s)"
    using assms(2) kw by (metis id_take_nth_drop)
  have "distinct (map fst (take i (iw_flying s) @ (k, w) # drop (Suc i) (iw_flying s)) @ iw_left s)"
    using assms(1) split by (simp add: walks_inv_def)
  then have d: "distinct (map fst (drop_nth i (iw_flying s)) @ iw_left s)" and k: "k \<notin> fst ` set (drop_nth i (iw_flying s))"
    by (auto simp: drop_nth_def)
  have "fst ` set (iw_flying s) = insert k (fst ` set (drop_nth i (iw_flying s)))"
    by (subst split) (auto simp: drop_nth_def)
  moreover have count: "of_walk v (iw_flying s) = of_bool (w = v) + of_walk v (drop_nth i (iw_flying s))" for v
    using filter_drop_nth [OF assms(2), of "\<lambda>f. snd f = v"] kw by (simp add: of_walk_def)
  moreover have "of_walk v (drop_nth i (iw_flying s)) \<le> IP_CACHE_MAX_PARALLEL" for v
    using count [of v] assms(1) unfolding walks_inv_def by (metis le_add2 order_trans)
  ultimately have "walks_inv ?s" using assms(1) d k set_drop_nth [of i "iw_flying s"] by (auto simp: walks_inv_def)
  moreover have "of_walk w (drop_nth i (iw_flying s)) < IP_CACHE_MAX_PARALLEL"
    using count [of w] assms(1) unfolding walks_inv_def by (metis Suc_eq_plus1_left Suc_le_lessD of_bool_eq(2))
  ultimately show ?thesis using runNext_inv [of ?s w] by (simp add: ip_answered_def kw)
qed

text \<open>The list of a cluster has every guest once.\<close>

definition once_listed :: "ip_event \<Rightarrow> bool" where
  "once_listed e \<longleftrightarrow> (\<forall>rows now. e = Effect rows now \<longrightarrow> distinct (map ir_key rows))"

interpretation walks: step_machine "\<lambda>s e s'. once_listed e \<and> ip_exec s e = Some s'" "\<lambda>s. s = walks_new" walks_inv
proof
  fix s assume "s = walks_new"
  then show "walks_inv s" by (simp add: walks_inv_def walks_new_def of_walk_def)
next
  fix s e s' assume "walks_inv s" and "once_listed e \<and> ip_exec s e = Some s'"
  then show "walks_inv s'" by (cases e) (auto simp: once_listed_def walks_inv_effect walks_inv_answer split: if_splits)
qed

text \<open>C22. However the page changes and in whatever order guests answer: a guest has at most one request out, it is marked as loading exactly as long,
  and one walk has at most six out.\<close>

theorem one_request_per_guest:
  assumes "steps (\<lambda>s e s'. once_listed e \<and> ip_exec s e = Some s') walks_new es s"
  shows "distinct (map fst (iw_flying s)) \<and> (\<forall>k. iw_cache s k = Some Loading \<longleftrightarrow> k \<in> fst ` set (iw_flying s))
         \<and> (\<forall>w. of_walk w (iw_flying s) \<le> 6)"
  using walks.inv_run [OF refl assms] by (simp add: walks_inv_def IP_CACHE_MAX_PARALLEL_def)

definition running_vm :: "string \<Rightarrow> ip_row" where
  "running_vm k = \<lparr> ir_key = k, ir_type = ''qemu'', ir_status = ''running'', ir_ip = [] \<rparr>"

lemma one_request_per_guest_witness:
  "let s = walk_effect [running_vm ''c/1'', running_vm ''c/2''] 0 walks_new
   in distinct (map fst (iw_flying s)) \<and> (\<forall>k. iw_cache s k = Some Loading \<longleftrightarrow> k \<in> fst ` set (iw_flying s)) \<and> (\<forall>w. of_walk w (iw_flying s) \<le> 6)"
  unfolding Let_def
  by (rule one_request_per_guest [where es = "[Effect [running_vm ''c/1'', running_vm ''c/2''] 0]"]) (simp add: once_listed_def running_vm_def)

text \<open>The comment promises six requests at a time. An answer changes the page, which starts another walk beside the requests of the last one:
  with eight guests seven are out after the first answer.\<close>

lemma walks_add_up:
  defines "rows \<equiv> map running_vm [''a'', ''b'', ''c'', ''d'', ''e'', ''f'', ''g'', ''h'']"
  shows "\<exists>s. run_exec ip_exec walks_new [Effect rows 0, Ip_answer 0 (Some ''10.0.0.1'') 50, Effect rows 60] = Some s \<and> length (iw_flying s) = 7"
  unfolding rows_def
  by (simp add: walks_new_def walk_effect_def to_fetch_def running_vm_def ipCacheEntry_def ip_answered_def runNext_def drop_nth_def
      IP_CACHE_MAX_PARALLEL_def IP_CACHE_TTL_MS_def eval_nat_numeral Let_def)

text \<open>The comment at \<open>_ipCacheValue\<close> says that a row keeps its address while it is refreshed. The mark of the request takes its place.\<close>

lemma address_blanks:
  assumes "iw_cache s k = Some (Found (Some ip) since)" and "300000 < now - since"
  shows "ipCacheValue (iw_cache s) k = ip \<and> ipCacheValue (iw_cache (walk_effect [running_vm k] now s)) k = []"
  using assms
  by (simp add: ipCacheValue_def walk_effect_def to_fetch_def running_vm_def ipCacheEntry_def IP_CACHE_TTL_MS_def IP_CACHE_MAX_PARALLEL_def runNext_def)

section \<open>Filter and sort\<close>

datatype tags = No_tags | Tag_text string | Tag_list "string list"

record guest_row =
  gr_fields :: obj
  gr_tags :: tags

abbreviation row_text :: "guest_row \<Rightarrow> string \<Rightarrow> string" where
  "row_text r k \<equiv> to_str (or_else (prop_of (gr_fields r) k) (Str []))"

definition row_tags :: "guest_row \<Rightarrow> string list" where
  "row_tags r = (case gr_tags r of No_tags \<Rightarrow> split_on CHR '';'' [] | Tag_text s \<Rightarrow> split_on CHR '';'' s | Tag_list ts \<Rightarrow> ts)"

text \<open>\<open>None\<close>: \<open>toLowerCase\<close> of a list of tags is an error.\<close>

definition matchesSearch :: "string \<Rightarrow> guest_row \<Rightarrow> bool option" where
  "matchesSearch search r =
     (let s = to_lower search; has = (\<lambda>x. js_includes (to_lower x) s)
      in if search = [] then Some True
         else if (prop_of (gr_fields r) ''name'' \<noteq> Undef \<and> has (to_str (prop_of (gr_fields r) ''name'')))
              \<or> (prop_of (gr_fields r) ''vmid'' \<noteq> Undef \<and> js_includes (to_str (prop_of (gr_fields r) ''vmid'')) s)
              \<or> has (row_text r ''node'') \<or> has (row_text r ''ip'') then Some True
         else (case gr_tags r of No_tags \<Rightarrow> Some False | Tag_text t \<Rightarrow> Some (has t) | Tag_list ts \<Rightarrow> None))"

definition matchesFilter :: "string \<Rightarrow> guest_row \<Rightarrow> bool" where
  "matchesFilter f r \<longleftrightarrow> f = ''all''
     \<or> (f \<in> {''running'', ''stopped''} \<and> prop_of (gr_fields r) ''status'' = Str f)
     \<or> (f = ''vm'' \<and> prop_of (gr_fields r) ''type'' = Str ''qemu'') \<or> (f = ''lxc'' \<and> prop_of (gr_fields r) ''type'' = Str ''lxc'')"

definition matchesNode :: "string \<Rightarrow> guest_row \<Rightarrow> bool" where
  "matchesNode n r \<longleftrightarrow> n = ''all'' \<or> prop_of (gr_fields r) ''node'' = Str n"

definition matchesTag :: "string \<Rightarrow> guest_row \<Rightarrow> bool" where
  "matchesTag tag r \<longleftrightarrow> tag = ''all'' \<or> list_ex (\<lambda>t. to_lower (trim t) = to_lower tag) (row_tags r)"

fun filter_rows :: "string \<Rightarrow> string \<Rightarrow> string \<Rightarrow> string \<Rightarrow> guest_row list \<Rightarrow> guest_row list option" where
  "filter_rows search f n tag [] = Some []"
| "filter_rows search f n tag (r # rs) =
     (case matchesSearch search r of None \<Rightarrow> None
      | Some m \<Rightarrow> map_option (\<lambda>rest. if m \<and> matchesFilter f r \<and> matchesNode n r \<and> matchesTag tag r then r # rest else rest)
                   (filter_rows search f n tag rs))"

text \<open>\<open>/^(\d{1,3})\.(\d{1,3})\.(\d{1,3})\.(\d{1,3})/\<close>; \<open>Number.MAX_SAFE_INTEGER\<close> where it does not match.\<close>

fun octets_from :: "nat \<Rightarrow> string \<Rightarrow> nat list option" where
  "octets_from 0 s = (let ds = takeWhile is_digit s in if ds = [] then None else Some [nat_of_digits (take 3 ds)])"
| "octets_from (Suc n) s =
     (let ds = takeWhile is_digit s; rest = dropWhile is_digit s
      in if ds \<noteq> [] \<and> length ds \<le> 3 \<and> rest \<noteq> [] \<and> hd rest = CHR ''.''
         then map_option (\<lambda>os. nat_of_digits ds # os) (octets_from n (tl rest)) else None)"

definition max_safe :: int where "max_safe = 9007199254740991"

definition ipSortKey :: "string \<Rightarrow> int" where
  "ipSortKey ip = (case octets_from 3 ip of None \<Rightarrow> max_safe | Some os \<Rightarrow> foldl (\<lambda>a o'. a * 256 + int o') 0 os)"

definition VM_LIST_EXTRA_COLS :: "string list" where
  "VM_LIST_EXTRA_COLS = [''agent'', ''diskio'']"

definition toggleExtraCol :: "string \<Rightarrow> string list \<Rightarrow> string list" where
  "toggleExtraCol key cols = filter (\<lambda>k. (k = key) \<noteq> (k \<in> set cols)) VM_LIST_EXTRA_COLS"

definition agentRank :: "guest_row \<Rightarrow> int" where
  "agentRank r = (if prop_of (gr_fields r) ''agent_running'' = Bool True then 2
                  else if prop_of (gr_fields r) ''agent_running'' = Bool False then 1 else 0)"

definition sign :: "rat \<Rightarrow> int" where
  "sign x = (if x < 0 then -1 else if x = 0 then 0 else 1)"

text \<open>The comparison. \<open>getIp\<close> and \<open>ioTotal\<close> are those of the table; a number less a text that is none counts as zero.\<close>

definition column_cmp :: "(string \<Rightarrow> string \<Rightarrow> int) \<Rightarrow> (guest_row \<Rightarrow> string) \<Rightarrow> (guest_row \<Rightarrow> rat) \<Rightarrow> string \<Rightarrow> guest_row \<Rightarrow> guest_row \<Rightarrow> int" where
  "column_cmp compare getIp ioTotal by a b =
     (if by = ''ip'' then ipSortKey (getIp a) - ipSortKey (getIp b)
      else if by = ''agent'' then agentRank a - agentRank b
      else if by = ''diskio'' then sign (ioTotal a - ioTotal b)
      else (case prop_of (gr_fields a) by of
              Num x \<Rightarrow> (case prop_of (gr_fields b) by of Num y \<Rightarrow> x - y | _ \<Rightarrow> 0)
            | v \<Rightarrow> compare (to_str v) (to_str (prop_of (gr_fields b) by))))"

definition sort_column :: "string list \<Rightarrow> string \<Rightarrow> string" where
  "sort_column extra by = (if by \<in> set VM_LIST_EXTRA_COLS \<and> by \<notin> set extra then ''vmid'' else by)"

definition sort_rows :: "(string \<Rightarrow> string \<Rightarrow> int) \<Rightarrow> (guest_row \<Rightarrow> string) \<Rightarrow> (guest_row \<Rightarrow> rat) \<Rightarrow> string list \<Rightarrow> string \<Rightarrow> string \<Rightarrow> guest_row list \<Rightarrow> guest_row list" where
  "sort_rows compare getIp ioTotal extra by dir rows =
     js_sort (\<lambda>a b. column_cmp compare getIp ioTotal (sort_column extra by) a b * (if dir = ''asc'' then 1 else -1)) rows"

text \<open>A click on a column.\<close>

definition handleSort :: "string \<Rightarrow> string \<times> string \<Rightarrow> string \<times> string" where
  "handleSort col s = (if fst s = col then (col, if snd s = ''asc'' then ''desc'' else ''asc'') else (col, ''asc''))"

lemma filter_rows_subseq: "filter_rows search f n tag rs = Some xs \<Longrightarrow> subseq xs rs"
  by (induction rs arbitrary: xs) (auto split: option.splits if_splits)

lemma table_sorted_by_ip:
  "sorted (map (ipSortKey \<circ> getIp) (sort_rows compare getIp ioTotal extra ''ip'' ''asc'' rows))
   \<and> mset (sort_rows compare getIp ioTotal extra ''ip'' ''asc'' rows) = mset rows"
proof -
  let ?key = "\<lambda>r. ipSortKey (getIp r)"
  have "sort_rows compare getIp ioTotal extra ''ip'' ''asc'' rows = js_sort (\<lambda>a b. ?key a - ?key b) rows"
    by (simp add: sort_rows_def column_cmp_def sort_column_def VM_LIST_EXTRA_COLS_def)
  moreover have "sorted (map ?key (js_sort (\<lambda>a b. ?key a - ?key b) rows))" by (rule sorted_js_sort) auto
  ultimately show ?thesis by (simp add: comp_def)
qed

text \<open>In the other direction the guests without an address come first, against the comment that puts them last.\<close>

lemma ip_blanks_first:
  assumes "getIp a = ''10.0.0.2''" and "getIp b = []" and "getIp c = ''10.0.0.9''"
  shows "sort_rows compare getIp io [] ''ip'' ''desc'' [a, b, c] = [b, c, a]"
proof -
  have "ipSortKey ''10.0.0.2'' = 167772162" and "ipSortKey ''10.0.0.9'' = 167772169" and "ipSortKey [] = max_safe"
    by code_simp+
  then show ?thesis
    by (simp add: assms sort_rows_def js_sort_def column_cmp_def sort_column_def VM_LIST_EXTRA_COLS_def max_safe_def)
qed

section \<open>Pages\<close>

definition totalPages :: "nat \<Rightarrow> nat \<Rightarrow> nat" where
  "totalPages n per = max 1 ((n + per - 1) div per)"

definition effectivePage :: "nat \<Rightarrow> nat \<Rightarrow> nat" where
  "effectivePage current pages = max 1 (min current pages)"

definition page_rows :: "'a list \<Rightarrow> nat \<Rightarrow> nat \<Rightarrow> 'a list" where
  "page_rows rows per current =
     (let start = (effectivePage current (totalPages (length rows) per) - 1) * per in take per (drop start rows))"

text \<open>The page a highlighted guest is looked for: its place in the list of the server.\<close>

definition highlight_page :: "guest_row list \<Rightarrow> jval \<Rightarrow> nat \<Rightarrow> nat option" where
  "highlight_page resources vmid per =
     map_option (\<lambda>i. i div per + 1) (find_index (\<lambda>r. prop_of (gr_fields r) ''vmid'' = vmid) resources)"

lemma chunks: "concat (map (\<lambda>p. take per (drop ((p - 1) * per) xs)) [1..<Suc m]) = take (m * per) xs"
proof (induction m)
  case (Suc m)
  have "take (m * per) xs @ take per (drop (m * per) xs) = take (m * per + per) xs" by (simp add: take_add)
  with Suc show ?case by (simp add: add.commute)
qed simp

lemma totalPages_enough: "0 < per \<Longrightarrow> n \<le> totalPages n per * per"
proof -
  assume "0 < per"
  then have "n + per - 1 < (n + per - 1) div per * per + per" using dividend_less_div_times [of per "n + per - 1"] by simp
  moreover have "(n + per - 1) div per * per \<le> totalPages n per * per" by (simp add: totalPages_def)
  ultimately show ?thesis using \<open>0 < per\<close> by linarith
qed

lemma page_rows_in: "1 \<le> p \<Longrightarrow> p \<le> totalPages (length rows) per \<Longrightarrow> page_rows rows per p = take per (drop ((p - 1) * per) rows)"
  by (simp add: page_rows_def effectivePage_def Let_def min_def max_def)

text \<open>The pages one after the other are the rows in their order; none has more than its size, none but the only one is empty; a page number out of
  range shows the first or last page.\<close>

theorem pages_cover:
  assumes "0 < per"
  shows "concat (map (page_rows rows per) [1..<Suc (totalPages (length rows) per)]) = rows
         \<and> (\<forall>p. length (page_rows rows per p) \<le> per)
         \<and> (\<forall>p. rows \<noteq> [] \<longrightarrow> page_rows rows per p \<noteq> [])
         \<and> (\<forall>p. \<exists>q\<in>{1..totalPages (length rows) per}. page_rows rows per p = page_rows rows per q)"
proof -
  let ?n = "totalPages (length rows) per"
  have "map (page_rows rows per) [1..<Suc ?n] = map (\<lambda>p. take per (drop ((p - 1) * per) rows)) [1..<Suc ?n]"
    by (rule map_cong) (auto simp: page_rows_in)
  then have cover: "concat (map (page_rows rows per) [1..<Suc ?n]) = rows"
    unfolding \<open>map (page_rows rows per) [1..<Suc ?n] = _\<close> chunks using totalPages_enough [OF assms] by simp
  have eff: "effectivePage p ?n \<in> {1..?n}" for p by (simp add: effectivePage_def totalPages_def)
  have same: "page_rows rows per p = page_rows rows per (effectivePage p ?n)" for p
    using eff [of p] by (simp add: page_rows_def effectivePage_def Let_def min_def max_def)
  have "page_rows rows per q \<noteq> []" if "rows \<noteq> []" and "q \<in> {1..?n}" for q
  proof -
    have "(q - 1) * per < length rows"
    proof (cases "q = 1")
      case False
      then have "q \<le> (length rows + per - 1) div per" using that(2) by (auto simp: totalPages_def max_def split: if_splits)
      then have "q * per \<le> length rows + per - 1" by (metis div_times_less_eq_dividend mult_le_mono1 order_trans)
      moreover have "q * per = (q - 1) * per + per" using that(2) by (cases q) auto
      ultimately show ?thesis using assms that(1) by (cases rows) auto
    qed (use that(1) in simp)
    then show ?thesis using that(2) assms by (simp add: page_rows_in)
  qed
  then have "page_rows rows per p \<noteq> []" if "rows \<noteq> []" for p using that eff same by metis
  moreover have "length (page_rows rows per p) \<le> per" for p by (simp add: page_rows_def Let_def)
  ultimately show ?thesis using cover eff same by blast
qed

lemma pages_cover_witness:
  "concat (map (page_rows [''a'', ''b'', ''c''] 2) [1..<Suc (totalPages (length [''a'', ''b'', ''c'']) 2)]) = [''a'', ''b'', ''c'']"
  using pages_cover [of 2 "[''a'', ''b'', ''c'']"] by simp

text \<open>The page is computed from the list of the server, the pages are cut from the sorted one.\<close>

definition numbered_guest :: "int \<Rightarrow> guest_row" where
  "numbered_guest i = \<lparr> gr_fields = [(''vmid'', Num i)], gr_tags = No_tags \<rparr>"

lemma highlight_other_page:
  "let resources = map numbered_guest (900 # [100..149]);
       rows = sort_rows (\<lambda>a b. 0) (\<lambda>r. []) (\<lambda>r. 0) [] ''vmid'' ''asc'' resources
   in highlight_page resources (Num 900) 50 = Some 1 \<and> numbered_guest 900 \<notin> set (page_rows rows 50 1)"
  by code_simp

text \<open>The page numbers offered beside the arrows: at most five, around the page shown.\<close>

definition page_numbers :: "nat \<Rightarrow> nat \<Rightarrow> nat list" where
  "page_numbers page pages =
     map (\<lambda>i. if pages \<le> 5 then i + 1
              else if page \<le> 3 then i + 1
              else if pages - 2 \<le> page then pages - 4 + i
              else page - 2 + i) [0..<min 5 pages]"

lemma page_numbers_ok:
  assumes "page \<in> {1..pages}"
  shows "page \<in> set (page_numbers page pages) \<and> set (page_numbers page pages) \<subseteq> {1..pages} \<and> distinct (page_numbers page pages)"
proof -
  have five: "[0..<5] = [0, 1, 2, 3, 4 :: nat]" by (simp add: upt_rec)
  show ?thesis
  proof (cases "pages \<le> 5")
    case True
    then have "page_numbers page pages = map Suc [0..<pages]" by (simp add: page_numbers_def)
    then show ?thesis using assms by (auto simp: map_Suc_upt)
  next
    case False
    then have "min 5 pages = 5" by simp
    with False assms show ?thesis unfolding page_numbers_def \<open>min 5 pages = 5\<close> five by auto
  qed
qed

section \<open>Picked guests\<close>

record picked_guest =
  pg_vmid :: string
  pg_node :: string
  pg_type :: string
  pg_name :: string

definition toggleSelect :: "picked_guest \<Rightarrow> picked_guest list \<Rightarrow> picked_guest list" where
  "toggleSelect g picked =
     (if find_index (\<lambda>v. pg_vmid v = pg_vmid g) picked \<noteq> None then filter (\<lambda>v. pg_vmid v \<noteq> pg_vmid g) picked else picked @ [g])"

definition toggleSelectAll :: "picked_guest list \<Rightarrow> picked_guest list \<Rightarrow> picked_guest list" where
  "toggleSelectAll rows picked = (if length picked = length rows then [] else rows)"

text \<open>\<open>openBulk\<close>: the row a picked guest has now, the last one of its number, or what was kept of it.\<close>

definition openBulk :: "picked_guest list \<Rightarrow> picked_guest list \<Rightarrow> picked_guest list" where
  "openBulk resources picked =
     map (\<lambda>s. case map_of (rev (map (\<lambda>r. (pg_vmid r, r)) resources)) (pg_vmid s) of Some r \<Rightarrow> r | None \<Rightarrow> s) picked"

lemma find_index_None: "find_index p xs = None \<longleftrightarrow> (\<forall>x\<in>set xs. \<not> p x)"
  by (induction xs) auto

text \<open>Ticking a guest changes its own tick only and picks none twice; what goes to the bulk dialog are the picked guests in their order,
  each as the list has it now.\<close>

lemma toggle_picks:
  assumes "distinct (map pg_vmid picked)"
  shows "distinct (map pg_vmid (toggleSelect g picked))
         \<and> pg_vmid ` set (toggleSelect g picked)
           = (if pg_vmid g \<in> pg_vmid ` set picked then pg_vmid ` set picked - {pg_vmid g} else insert (pg_vmid g) (pg_vmid ` set picked))"
proof (cases "pg_vmid g \<in> pg_vmid ` set picked")
  case True
  then have "find_index (\<lambda>v. pg_vmid v = pg_vmid g) picked \<noteq> None" unfolding find_index_None by auto
  with True assms show ?thesis by (auto simp: toggleSelect_def distinct_map intro: inj_on_subset)
next
  case False
  then have "find_index (\<lambda>v. pg_vmid v = pg_vmid g) picked = None" unfolding find_index_None by (metis image_eqI)
  then have "toggleSelect g picked = picked @ [g]" by (simp add: toggleSelect_def)
  with False assms show ?thesis by simp
qed

definition live_row :: "picked_guest list \<Rightarrow> picked_guest \<Rightarrow> picked_guest" where
  "live_row resources s = (case map_of (rev (map (\<lambda>r. (pg_vmid r, r)) resources)) (pg_vmid s) of Some r \<Rightarrow> r | None \<Rightarrow> s)"

lemma live_row:
  "pg_vmid (live_row resources s) = pg_vmid s
   \<and> (live_row resources s \<in> set resources \<or> live_row resources s = s \<and> pg_vmid s \<notin> pg_vmid ` set resources)"
proof (cases "map_of (rev (map (\<lambda>r. (pg_vmid r, r)) resources)) (pg_vmid s)")
  case None
  then have "pg_vmid s \<notin> pg_vmid ` set resources" by (simp add: map_of_eq_None_iff image_image)
  with None show ?thesis by (simp add: live_row_def)
next
  case (Some r)
  from map_of_SomeD [OF Some] have "pg_vmid r = pg_vmid s \<and> r \<in> set resources" by auto
  with Some show ?thesis by (simp add: live_row_def)
qed

lemma bulk_rows: "map pg_vmid (openBulk resources picked) = map pg_vmid picked
    \<and> (\<forall>g\<in>set (openBulk resources picked). g \<in> set resources \<or> (g \<in> set picked \<and> pg_vmid g \<notin> pg_vmid ` set resources))"
proof -
  have "openBulk resources picked = map (live_row resources) picked" unfolding openBulk_def live_row_def ..
  then show ?thesis using live_row [of resources] by (auto simp: comp_def) metis+
qed

text \<open>The box for all guests compares only numbers: with as many guests picked as are shown, it clears the choice although none of them is shown.\<close>

lemma select_all_counts:
  "length rows = length picked \<Longrightarrow> toggleSelectAll rows picked = []"
  by (simp add: toggleSelectAll_def)

section \<open>Rates of disk access\<close>

record io_sample =
  io_up :: rat
  io_rd :: rat
  io_wr :: rat
  io_read :: "rat option"
  io_write :: "rat option"

text \<open>A number that is not finite is \<open>None\<close>. \<open>None\<close> of the result is \<open>null\<close>.\<close>

definition guestIoSample :: "io_sample option \<Rightarrow> rat option \<Rightarrow> rat option \<Rightarrow> rat option \<Rightarrow> io_sample option" where
  "guestIoSample prev up rd wr =
     (case (up, rd, wr) of
        (Some up, Some rd, Some wr) \<Rightarrow>
          (let fresh = \<lparr> io_up = up, io_rd = rd, io_wr = wr, io_read = None, io_write = None \<rparr>
           in if \<not> 0 < up then None
              else (case prev of None \<Rightarrow> Some fresh
                    | Some p \<Rightarrow>
                       (if up = io_up p then Some p
                        else if up < io_up p then Some (if io_up p - up \<le> 30 then p else fresh)
                        else if rd < io_rd p \<or> wr < io_wr p then Some fresh
                        else let dt = up - io_up p
                             in Some \<lparr> io_up = up, io_rd = rd, io_wr = wr, io_read = Some ((rd - io_rd p) / dt), io_write = Some ((wr - io_wr p) / dt) \<rparr>)))
      | _ \<Rightarrow> None)"

record io_row =
  ior_key :: string
  ior_running :: bool
  ior_up :: "rat option"
  ior_rd :: "rat option"
  ior_wr :: "rat option"

type_synonym io_seen = "(string \<times> io_sample) list"

definition feed_row :: "io_seen \<Rightarrow> io_seen \<times> bool \<Rightarrow> io_row \<Rightarrow> io_seen \<times> bool" where
  "feed_row seen nm r =
     (if \<not> ior_running r then nm
      else (let prev = map_of seen (ior_key r)
            in case guestIoSample prev (ior_up r) (ior_rd r) (ior_wr r) of
                 None \<Rightarrow> (fst nm, True)
               | Some s \<Rightarrow> (AList.update (ior_key r) s (fst nm), snd nm \<or> prev \<noteq> Some s)))"

definition feedIo :: "io_row list \<Rightarrow> io_seen \<Rightarrow> io_seen \<times> bool" where
  "feedIo rows seen = (let (nxt, moved) = foldl (feed_row seen) ([], False) rows in (nxt, moved \<or> length nxt \<noteq> length seen))"

definition io_ok :: "io_sample \<Rightarrow> bool" where
  "io_ok s \<longleftrightarrow> 0 < io_up s \<and> (io_read s = None \<longleftrightarrow> io_write s = None) \<and> (\<forall>x. io_read s = Some x \<or> io_write s = Some x \<longrightarrow> 0 \<le> x)"

lemma io_ok_sample: "(\<And>p. prev = Some p \<Longrightarrow> io_ok p) \<Longrightarrow> guestIoSample prev up rd wr = Some s \<Longrightarrow> io_ok s"
  by (cases prev) (auto simp: guestIoSample_def io_ok_def Let_def split: option.splits if_splits)

lemma io_ok_feed:
  assumes "\<forall>(k, s)\<in>set seen. io_ok s"
  shows "\<forall>(k, s)\<in>set (fst (feedIo rows seen)). io_ok s"
proof -
  have "\<forall>(k, s)\<in>set (fst (foldl (feed_row seen) nm rows)). io_ok s" if "\<forall>(k, s)\<in>set (fst nm). io_ok s" for nm
    using that
  proof (induction rows arbitrary: nm)
    case (Cons r rows)
    have "io_ok s" if "guestIoSample (map_of seen (ior_key r)) (ior_up r) (ior_rd r) (ior_wr r) = Some s" for s
      using io_ok_sample [OF _ that] assms by (auto dest: map_of_SomeD)
    then have "\<forall>(k, s)\<in>set (fst (feed_row seen nm r)). io_ok s"
      using Cons.prems set_alist_update [of "ior_key r" _ "fst nm"] by (auto simp: feed_row_def Let_def split: option.split)
    with Cons.IH show ?case by simp
  qed simp
  from this [of "([], False)"] show ?thesis by (simp add: feedIo_def Let_def split: prod.splits)
qed

text \<open>Whatever frames come, in any order and from any guests: both rates of a guest or none, and none is negative.\<close>

lemma io_rates_ok: "\<forall>(k, s)\<in>set (foldl (\<lambda>seen rows. fst (feedIo rows seen)) [] frames). io_ok s"
proof -
  have "\<forall>(k, s)\<in>set (foldl (\<lambda>seen rows. fst (feedIo rows seen)) seen frames). io_ok s" if "\<forall>(k, s)\<in>set seen. io_ok s" for seen
    using that
  proof (induction frames arbitrary: seen)
    case (Cons rows frames)
    from Cons.IH [OF io_ok_feed [OF Cons.prems, of rows]] show ?case by simp
  qed simp
  from this [of "[]"] show ?thesis by simp
qed

text \<open>A new rate is the growth over the uptime that passed; a frame with the same sample changes nothing.\<close>

lemma io_rate:
  assumes "guestIoSample (Some p) (Some up) (Some rd) (Some wr) = Some s" and "s \<noteq> p" and "io_read s = Some x"
  shows "io_up p < up \<and> x * (up - io_up p) = rd - io_rd p \<and> io_rd p \<le> rd"
  using assms by (auto simp: guestIoSample_def Let_def split: if_splits)



end
