(* ===== verification/Node_Shell.thy ===== *)
theory Node_Shell
  imports Js_Values
begin

text \<open>
  The terminals of web/src/node_modals.js: the SSH shell of a node (\<open>NodeShellTerminal\<close>) and the terminal of a
  container (\<open>PveTermProxyTerminal\<close>). Both load their scripts, ask the server for what the connection needs and open a
  WebSocket; the shell of a node also logs in with what its form holds. Answers, socket events, renders, timers and
  the user come in any order; what goes over the socket is logged in \<open>sh_sent\<close>. Texts written to the screen are left out.

  \<^item> \<open>typed_after_connected\<close>: nothing typed leaves before the server reported the shell.
  \<^item> \<open>credentials_as_submitted\<close>: what is sent to log in is what was submitted, in that order and each once.
  \<^item> \<open>no_session_left\<close>: a closed tab opens no socket and leaves none open; the terminal of a container can (\<open>pty_session_left\<close>).
\<close>

section \<open>Scripts\<close>

text \<open>The flag of a mode without internet; no value also stands for a storage that throws.\<close>

definition air_gap :: "string option \<Rightarrow> bool" where
  "air_gap v \<longleftrightarrow> v = Some ''1''"

text \<open>One script or style sheet: the addresses asked for and whether it loaded.\<close>

definition load_asset :: "bool \<Rightarrow> (string \<Rightarrow> bool) \<Rightarrow> string \<times> string \<Rightarrow> string list \<times> bool" where
  "load_asset air ok urls =
     (if ok (fst urls) then ([fst urls], True)
      else if air then ([fst urls], False)
      else ([fst urls, snd urls], ok (snd urls)))"

definition xterm_css :: "string \<times> string" where
  "xterm_css = (''/static/css/xterm.min.css'', ''https://cdn.jsdelivr.net/npm/xterm@5.3.0/css/xterm.min.css'')"

definition xterm_js :: "string \<times> string" where
  "xterm_js = (''/static/js/xterm.min.js'', ''https://cdn.jsdelivr.net/npm/xterm@5.3.0/lib/xterm.min.js'')"

definition xterm_fit :: "string \<times> string" where
  "xterm_fit = (''/static/js/xterm-addon-fit.min.js'', ''https://cdn.jsdelivr.net/npm/xterm-addon-fit@0.8.0/lib/xterm-addon-fit.min.js'')"

text \<open>What is on the page already is not asked for again; the style sheet is not waited for, a script that fails ends the load.\<close>

definition load_assets :: "bool \<Rightarrow> (string \<Rightarrow> bool) \<Rightarrow> bool \<Rightarrow> bool \<Rightarrow> bool \<Rightarrow> string list \<times> bool" where
  "load_assets air ok has_css has_term has_fit =
     (let c = (if has_css then ([], True) else load_asset air ok xterm_css);
          x = (if has_term then ([], True) else load_asset air ok xterm_js);
          f = (if has_fit then ([], True) else load_asset air ok xterm_fit)
      in (fst c @ fst x @ (if snd x then fst f else []), snd x \<and> snd f))"

lemma own_first: "starts_with (fst xterm_css) ''/static/''" "starts_with (fst xterm_js) ''/static/''" "starts_with (fst xterm_fit) ''/static/''"
  by (simp_all add: xterm_css_def xterm_js_def xterm_fit_def)

lemma load_asset_asks: "x \<in> set (fst (load_asset air ok u)) \<Longrightarrow> x = fst u \<or> \<not> air \<and> x = snd u \<and> \<not> ok (fst u)"
  by (auto simp: load_asset_def split: if_split_asm)

text \<open>A terminal asks another server for a script only where the own one failed to give this very script, and never in the
  mode without internet.\<close>

theorem no_cdn_in_air_gap:
  assumes "x \<in> set (fst (load_assets (air_gap v) ok has_css has_term has_fit))"
  shows "starts_with x ''/static/''
         \<or> v \<noteq> Some ''1'' \<and> (\<exists>u. u \<in> {xterm_css, xterm_js, xterm_fit} \<and> x = snd u \<and> \<not> ok (fst u))"
proof -
  from assms obtain u where u: "u \<in> {xterm_css, xterm_js, xterm_fit}" and "x \<in> set (fst (load_asset (air_gap v) ok u))"
    by (cases has_css; cases has_term; cases has_fit; cases "snd (load_asset (air_gap v) ok xterm_js)")
       (simp_all add: load_assets_def Let_def, blast+)
  from load_asset_asks [OF this(2)] have "x = fst u \<or> v \<noteq> Some ''1'' \<and> x = snd u \<and> \<not> ok (fst u)"
    by (simp add: air_gap_def)
  with u own_first show ?thesis by blast
qed

lemma no_cdn_in_air_gap_witness: "starts_with (fst xterm_js) ''/static/''"
  using no_cdn_in_air_gap [of "fst xterm_js" "Some ''1''" "\<lambda>_. False" True False True]
  by (simp add: load_assets_def load_asset_def air_gap_def)

section \<open>Addresses\<close>

text \<open>The port: the one of the page, or two above it where the shell has its own server.\<close>

definition main_port :: "bool \<Rightarrow> string \<Rightarrow> int" where
  "main_port https port =
     (case parse_int port of Some p \<Rightarrow> if p = 0 then if https then 443 else 80 else p | None \<Rightarrow> if https then 443 else 80)"

definition ssh_port :: "bool \<Rightarrow> bool \<Rightarrow> string \<Rightarrow> int" where
  "ssh_port proxied https port = (if proxied then main_port https port else main_port https port + 2)"

definition shell_url :: "bool \<Rightarrow> string \<Rightarrow> int \<Rightarrow> string \<Rightarrow> string \<Rightarrow> string \<Rightarrow> string" where
  "shell_url https host port cid node token =
     (if https then ''wss:'' else ''ws:'') @ ''//'' @ host @ '':'' @ show_int port @ ''/api/clusters/'' @ cid
     @ ''/nodes/'' @ node @ ''/shellws?token='' @ encodeURIComponent token"

text \<open>The address shown in the form: the one of the node, never that of the connection, which stands in for an unknown one.\<close>

definition shown_ip :: "string option \<Rightarrow> string option \<Rightarrow> string" where
  "shown_ip source ip = (if ends_with (case source of None \<Rightarrow> [] | Some x \<Rightarrow> x) ''_fallback'' then []
                         else case ip of None \<Rightarrow> [] | Some a \<Rightarrow> a)"

definition getNodeProxmoxUrl :: "string \<Rightarrow> string \<Rightarrow> string option" where
  "getNodeProxmoxUrl ip name =
     (if ip = [] \<or> name = [] then None
      else Some (''https://'' @ trim ip @ '':8006/#v1:0:='' @ encodeURIComponent (''node/'' @ name)
                 @ '':4:=aptrepositories:=contentIso:::9::''))"

section \<open>State of the shell of a node\<close>

datatype shell_status = SLoading | SConnecting | SLogin | SConnected | SError | SDisconnected

datatype login_method = Password | Key

record creds =
  cr_user :: string
  cr_pass :: string
  cr_key :: string
  cr_method :: login_method

record auth =
  au_user :: string
  au_pass :: string
  au_key :: string
  au_host :: string

datatype frame = Auth auth | Input string | Resize nat nat

text \<open>How far \<open>loadTerminal\<close> is, and the socket. After a failure the close event is still to come.\<close>

datatype stage = Loading_scripts | Asking_ip | Asking_token | Linked | Ended
datatype sock = No_socket | Opening | Open | Closing | Failing | Closed

record shell =
  sh_target :: string
  sh_stage :: stage
  sh_sock :: sock
  sh_status :: shell_status
  sh_seen :: shell_status
  sh_login :: bool
  sh_node :: string
  sh_ip :: string
  sh_creds :: creds
  sh_pending :: "auth option"
  sh_box :: "(nat \<times> nat) option"
  sh_told :: "(nat \<times> nat) option"
  sh_timers :: nat
  sh_gone :: bool
  sh_sent :: "frame list"

definition creds_new :: creds where
  "creds_new = \<lparr> cr_user = ''root'', cr_pass = [], cr_key = [], cr_method = Password \<rparr>"

definition shell_new :: "string \<Rightarrow> (nat \<times> nat) option \<Rightarrow> shell" where
  "shell_new target box =
     \<lparr> sh_target = target, sh_stage = Loading_scripts, sh_sock = No_socket, sh_status = SLoading, sh_seen = SLoading,
       sh_login = False, sh_node = [], sh_ip = [], sh_creds = creds_new, sh_pending = None, sh_box = box,
       sh_told = None, sh_timers = 0, sh_gone = False, sh_sent = [] \<rparr>"

section \<open>Logging in\<close>

definition auth_data :: "creds \<Rightarrow> string \<Rightarrow> auth" where
  "auth_data c ip =
     \<lparr> au_user = cr_user c,
       au_pass = (if cr_method c = Password then cr_pass c else []),
       au_key = (if cr_method c = Key then cr_key c else []),
       au_host = ip \<rparr>"

definition flush_auth :: "auth \<Rightarrow> shell \<Rightarrow> shell option" where
  "flush_auth a s =
     (if sh_sock s = Open
      then Some (s\<lparr> sh_sent := sh_sent s @ [Auth a], sh_pending := None, sh_login := False, sh_status := SConnecting \<rparr>)
      else None)"

definition sendCredentials :: "shell \<Rightarrow> shell" where
  "sendCredentials s =
     (let a = auth_data (sh_creds s) (sh_ip s)
      in case flush_auth a s of
           Some s' \<Rightarrow> s'
         | None \<Rightarrow> s\<lparr> sh_pending := Some a, sh_status := SConnecting, sh_login := False \<rparr>)"

text \<open>When the button of the form is on; the Enter key asks the same.\<close>

definition can_submit :: "creds \<Rightarrow> bool" where
  "can_submit c = (case cr_method c of Password \<Rightarrow> cr_pass c \<noteq> [] | Key \<Rightarrow> cr_key c \<noteq> [])"

definition close_sock :: "sock \<Rightarrow> sock" where
  "close_sock k = (if k = Opening \<or> k = Open then Closing else k)"

section \<open>What the server says\<close>

record server_msg =
  sm_status :: string
  sm_node :: string
  sm_ip :: string
  sm_text :: "string option"

text \<open>Data of the socket: not a string, a string that is no object, an object that does not parse, or a parsed object.\<close>

datatype sock_data = Binary | Plain | Bad_json | Parsed server_msg

text \<open>\<open>handleResize\<close>: the terminal fits itself to its box, and the server hears of a size it was not told last.\<close>

definition handleResize :: "shell \<Rightarrow> shell" where
  "handleResize s =
     (case sh_box s of
        None \<Rightarrow> s
      | Some d \<Rightarrow> if sh_sock s = Open \<and> sh_seen s = SConnected \<and> sh_told s \<noteq> Some d
                  then s\<lparr> sh_told := Some d, sh_sent := sh_sent s @ [Resize (fst d) (snd d)] \<rparr> else s)"

definition login_refused :: "string \<Rightarrow> bool" where
  "login_refused x \<longleftrightarrow> js_includes x ''Login'' \<or> js_includes x ''auth'' \<or> js_includes x ''Host''"

definition shell_message :: "server_msg \<Rightarrow> shell \<Rightarrow> shell" where
  "shell_message m s =
     (if sm_status m = ''need_credentials''
      then s\<lparr> sh_node := sm_node m, sh_ip := sm_ip m, sh_login := True, sh_status := SLogin \<rparr>
      else if sm_status m = ''connecting'' then s
      else if sm_status m = ''connected'' then handleResize (s\<lparr> sh_status := SConnected, sh_seen := SConnected \<rparr>)
      else if sm_status m = ''error''
      then (let s' = s\<lparr> sh_login := False, sh_status := SError \<rparr>
            in case sm_text m of
                 None \<Rightarrow> s'
               | Some x \<Rightarrow> if login_refused x then s'\<lparr> sh_timers := Suc (sh_timers s) \<rparr> else s')
      else s)"

definition shell_wire :: "sock_data \<Rightarrow> shell \<Rightarrow> shell" where
  "shell_wire w s = (case w of Parsed m \<Rightarrow> shell_message m s | _ \<Rightarrow> s)"

section \<open>Steps of the shell\<close>

datatype shell_event =
    Scripts bool
  | Ip_answer "(string option \<times> string option) option"
  | Token_answer
  | Opened
  | Message sock_data
  | Sock_failed
  | Sock_closed
  | Typed string
  | Resized "(nat \<times> nat) option"
  | Edit creds
  | Submit
  | Cancel
  | Rendered
  | Relogin
  | Left

definition scripts_loaded :: "bool \<Rightarrow> shell \<Rightarrow> shell" where
  "scripts_loaded ok s =
     (if \<not> ok then s\<lparr> sh_stage := Ended, sh_status := SError \<rparr>
      else if sh_gone s then s\<lparr> sh_stage := Ended \<rparr>
      else s\<lparr> sh_stage := Asking_ip, sh_status := SConnecting \<rparr>)"

definition ip_known :: "(string option \<times> string option) option \<Rightarrow> shell \<Rightarrow> shell" where
  "ip_known r s = s\<lparr> sh_stage := Asking_token, sh_node := sh_target s,
     sh_ip := (case r of None \<Rightarrow> [] | Some (source, ip) \<Rightarrow> shown_ip source ip), sh_login := True, sh_status := SLogin \<rparr>"

definition token_known :: "shell \<Rightarrow> shell" where
  "token_known s = (if sh_gone s then s\<lparr> sh_stage := Ended \<rparr> else s\<lparr> sh_stage := Linked, sh_sock := Opening \<rparr>)"

definition sock_opened :: "shell \<Rightarrow> shell" where
  "sock_opened s =
     (let s' = s\<lparr> sh_sock := Open \<rparr>
      in case sh_pending s of None \<Rightarrow> s' | Some a \<Rightarrow> (case flush_auth a s' of None \<Rightarrow> s' | Some s'' \<Rightarrow> s''))"

text \<open>\<open>onerror\<close> and \<open>onclose\<close>.\<close>

definition sock_ends :: "sock \<Rightarrow> shell_status \<Rightarrow> shell \<Rightarrow> shell" where
  "sock_ends k st s = (if sh_gone s then s\<lparr> sh_sock := k \<rparr> else s\<lparr> sh_sock := k, sh_status := st \<rparr>)"

definition typed :: "string \<Rightarrow> shell \<Rightarrow> shell" where
  "typed x s = (if sh_sock s = Open \<and> sh_seen s = SConnected then s\<lparr> sh_sent := sh_sent s @ [Input x] \<rparr> else s)"

definition cancel_login :: "shell \<Rightarrow> shell" where
  "cancel_login s = s\<lparr> sh_login := False, sh_status := SDisconnected, sh_sock := close_sock (sh_sock s) \<rparr>"

fun shell_exec :: "shell \<Rightarrow> shell_event \<Rightarrow> shell option" where
  "shell_exec s (Scripts ok) = (if sh_stage s = Loading_scripts then Some (scripts_loaded ok s) else None)"
| "shell_exec s (Ip_answer r) = (if sh_stage s = Asking_ip then Some (ip_known r s) else None)"
| "shell_exec s Token_answer = (if sh_stage s = Asking_token then Some (token_known s) else None)"
| "shell_exec s Opened = (if sh_sock s = Opening then Some (sock_opened s) else None)"
| "shell_exec s (Message w) = (if sh_sock s = Open then Some (shell_wire w s) else None)"
| "shell_exec s Sock_failed =
     (if sh_sock s \<in> {Opening, Open, Closing}
      then Some (sock_ends Failing SError s) else None)"
| "shell_exec s Sock_closed =
     (if sh_sock s \<in> {Open, Closing, Failing}
      then Some (sock_ends Closed SDisconnected s) else None)"
| "shell_exec s (Typed x) = (if sh_stage s = Linked \<and> \<not> sh_gone s then Some (typed x s) else None)"
| "shell_exec s (Resized d) =
     Some (if sh_stage s = Linked \<and> \<not> sh_gone s then handleResize (s\<lparr> sh_box := d \<rparr>) else s\<lparr> sh_box := d \<rparr>)"
| "shell_exec s (Edit c) = (if sh_login s then Some (s\<lparr> sh_creds := c \<rparr>) else None)"
| "shell_exec s Submit = (if sh_login s \<and> can_submit (sh_creds s) then Some (sendCredentials s) else None)"
| "shell_exec s Cancel = (if sh_login s then Some (cancel_login s) else None)"
| "shell_exec s Rendered = Some (s\<lparr> sh_seen := sh_status s \<rparr>)"
| "shell_exec s Relogin =
     (if 0 < sh_timers s then Some (s\<lparr> sh_timers := sh_timers s - 1, sh_login := True, sh_status := SLogin \<rparr>) else None)"
| "shell_exec s Left = (if sh_gone s then None else Some (s\<lparr> sh_gone := True, sh_sock := close_sock (sh_sock s) \<rparr>))"

section \<open>What leaves over the socket\<close>

fun is_auth :: "frame \<Rightarrow> bool" where
  "is_auth (Auth a) = True"
| "is_auth _ = False"

definition auths :: "frame list \<Rightarrow> auth list" where
  "auths fs = concat (map (\<lambda>f. case f of Auth a \<Rightarrow> [a] | _ \<Rightarrow> []) fs)"

definition sizes :: "frame list \<Rightarrow> (nat \<times> nat) list" where
  "sizes fs = concat (map (\<lambda>f. case f of Resize c r \<Rightarrow> [(c, r)] | _ \<Rightarrow> []) fs)"

lemma auths_simps [simp]: "auths [] = []" "auths (fs @ gs) = auths fs @ auths gs"
  "auths [Auth a] = [a]" "auths [Input x] = []" "auths [Resize c r] = []"
  by (simp_all add: auths_def)

lemma sizes_simps [simp]: "sizes [] = []" "sizes (fs @ gs) = sizes fs @ sizes gs"
  "sizes [Auth a] = []" "sizes [Input x] = []" "sizes [Resize c r] = [(c, r)]"
  by (simp_all add: sizes_def)

definition reported :: "shell_event list \<Rightarrow> bool" where
  "reported es \<longleftrightarrow> list_ex (\<lambda>e. case e of Message (Parsed m) \<Rightarrow> sm_status m = ''connected'' | _ \<Rightarrow> False) es"

lemma reported_snoc [simp]: "reported [] = False"
  "reported (es @ [e]) \<longleftrightarrow> reported es \<or> (case e of Message (Parsed m) \<Rightarrow> sm_status m = ''connected'' | _ \<Rightarrow> False)"
  by (simp_all add: reported_def)

text \<open>The invariant: what was seen of the server, the sizes told, and the socket of a tab that is gone.\<close>

definition shell_inv :: "shell_event list \<Rightarrow> shell \<Rightarrow> bool" where
  "shell_inv es s \<longleftrightarrow>
     (sh_seen s = SConnected \<longrightarrow> reported es) \<and> (sh_status s = SConnected \<longrightarrow> reported es)
     \<and> (\<forall>f \<in> set (sh_sent s). is_auth f \<or> reported es)
     \<and> distinct_adj (sizes (sh_sent s))
     \<and> (sizes (sh_sent s) \<noteq> [] \<longrightarrow> sh_told s = Some (last (sizes (sh_sent s))))
     \<and> (sh_gone s \<longrightarrow> sh_sock s \<noteq> Opening \<and> sh_sock s \<noteq> Open)
     \<and> (sh_stage s \<noteq> Linked \<longrightarrow> sh_sock s = No_socket)"

lemmas shell_steps = scripts_loaded_def ip_known_def token_known_def sock_opened_def flush_auth_def typed_def
  cancel_login_def sendCredentials_def shell_wire_def shell_message_def handleResize_def close_sock_def Let_def

lemma shell_inv_handleResize: "shell_inv es s \<Longrightarrow> shell_inv es (handleResize s)"
  by (auto simp: shell_inv_def handleResize_def distinct_adj_append_iff split: option.split if_split_asm)

text \<open>Any other message of the server leaves the frames, the socket and what was seen.\<close>

definition other_message :: "shell \<Rightarrow> shell \<Rightarrow> bool" where
  "other_message s s' \<longleftrightarrow> sh_sent s' = sh_sent s \<and> sh_told s' = sh_told s \<and> sh_gone s' = sh_gone s
     \<and> sh_sock s' = sh_sock s \<and> sh_stage s' = sh_stage s \<and> sh_seen s' = sh_seen s
     \<and> (sh_status s' = SConnected \<longrightarrow> sh_status s = SConnected) \<and> sh_pending s' = sh_pending s"

lemma other_message: "sm_status m \<noteq> ''connected'' \<Longrightarrow> other_message s (shell_message m s)"
  unfolding shell_message_def other_message_def Let_def by (simp split: option.split)

lemma other_wire: "\<nexists>m. w = Parsed m \<and> sm_status m = ''connected'' \<Longrightarrow> other_message s (shell_wire w s)"
  by (cases w) (simp_all add: shell_wire_def other_message, simp_all add: other_message_def)

lemma shell_inv_mono: "shell_inv es s \<Longrightarrow> shell_inv (es @ [e]) s"
  by (auto simp: shell_inv_def)

lemma shell_inv_wire:
  assumes "shell_inv es s" and "reported es \<or> (\<nexists>m. w = Parsed m \<and> sm_status m = ''connected'')"
  shows "shell_inv es (shell_wire w s)"
proof (cases "\<exists>m. w = Parsed m \<and> sm_status m = ''connected''")
  case True
  with assms have "shell_inv es (s\<lparr> sh_status := SConnected, sh_seen := SConnected \<rparr>)" by (auto simp: shell_inv_def)
  from shell_inv_handleResize [OF this] True show ?thesis by (auto simp: shell_wire_def shell_message_def)
next
  case False
  then have "other_message s (shell_wire w s)" by (rule other_wire)
  with assms(1) show ?thesis by (auto simp: shell_inv_def other_message_def)
qed

lemma shell_inv_ops:
  assumes "shell_inv es s"
  shows "sh_stage s = Loading_scripts \<Longrightarrow> shell_inv es (scripts_loaded ok s)"
    and "sh_stage s = Asking_ip \<Longrightarrow> shell_inv es (ip_known r s)"
    and "sh_stage s = Asking_token \<Longrightarrow> shell_inv es (token_known s)"
    and "sh_sock s = Opening \<Longrightarrow> shell_inv es (sock_opened s)"
    and "sh_sock s \<noteq> No_socket \<Longrightarrow> k \<in> {Failing, Closed} \<Longrightarrow> st \<noteq> SConnected \<Longrightarrow> shell_inv es (sock_ends k st s)"
    and "shell_inv es (typed x s)"
    and "shell_inv es (s\<lparr> sh_box := d \<rparr>)"
    and "shell_inv es (s\<lparr> sh_creds := c \<rparr>)"
    and "shell_inv es (sendCredentials s)"
    and "shell_inv es (cancel_login s)"
    and "shell_inv es (s\<lparr> sh_seen := sh_status s \<rparr>)"
    and "shell_inv es (s\<lparr> sh_timers := n, sh_login := True, sh_status := SLogin \<rparr>)"
    and "shell_inv es (s\<lparr> sh_gone := True, sh_sock := close_sock (sh_sock s) \<rparr>)"
  using assms by (auto simp: shell_inv_def shell_steps sock_ends_def split: option.split)

lemma shell_inv_exec:
  assumes inv: "shell_inv fs s" and e: "shell_exec s e = Some s'"
    and rep: "reported fs \<or> (\<nexists>m. e = Message (Parsed m) \<and> sm_status m = ''connected'')"
  shows "shell_inv fs s'"
proof (cases e)
  case (Message w)
  with e rep shell_inv_wire [OF inv, of w] show ?thesis by (auto split: if_split_asm)
qed (use e in \<open>auto intro: shell_inv_ops [OF inv] shell_inv_handleResize split: if_split_asm\<close>)

lemma shell_inv_step:
  assumes "shell_inv es s" and "shell_exec s e = Some s'"
  shows "shell_inv (es @ [e]) s'"
  by (rule shell_inv_exec [OF shell_inv_mono [OF assms(1)] assms(2)]) auto

lemma shell_inv_new: "shell_inv [] (shell_new n d)"
  by (simp add: shell_inv_def shell_new_def)

interpretation shell_trace: trace_machine shell_exec "shell_new n d" shell_inv for n d
  by unfold_locales (auto intro: shell_inv_new shell_inv_step)

text \<open>C16. Whatever the server, the user and the network do: what is typed and the sizes of the terminal go over the socket only
  after the server reported the shell, a size is not told twice in a row, and a tab that was left has no socket that is
  open or opening.\<close>

theorem typed_after_connected:
  assumes "run_exec shell_exec (shell_new n d) es = Some s"
  shows "(list_all is_auth (sh_sent s) \<or> reported es) \<and> distinct_adj (sizes (sh_sent s))
         \<and> (sh_sock s = Open \<or> sh_sock s = Opening \<longrightarrow> \<not> sh_gone s)"
  using shell_trace.trace_run [OF assms] by (auto simp: shell_inv_def list_all_iff)

section \<open>Credentials\<close>

definition pend :: "shell \<Rightarrow> auth list" where
  "pend s = (case sh_pending s of None \<Rightarrow> [] | Some a \<Rightarrow> [a])"

text \<open>What the form held at each click on its button.\<close>

fun submissions :: "shell \<Rightarrow> shell_event list \<Rightarrow> auth list" where
  "submissions s [] = []"
| "submissions s (e # es) =
     (case shell_exec s e of
        None \<Rightarrow> []
      | Some s' \<Rightarrow> (case e of Submit \<Rightarrow> [auth_data (sh_creds s) (sh_ip s)] | _ \<Rightarrow> []) @ submissions s' es)"

lemma pend_wire: "auths (sh_sent (shell_wire w s)) = auths (sh_sent s) \<and> pend (shell_wire w s) = pend s"
  by (cases w) (auto simp: shell_wire_def shell_message_def handleResize_def pend_def Let_def split: option.split)

text \<open>A step that is no click keeps the queue, or moves what waits onto the wire.\<close>

lemma quiet_step:
  assumes "shell_exec s e = Some s'" and "e \<noteq> Submit"
  shows "auths (sh_sent s') = auths (sh_sent s) \<and> pend s' = pend s
         \<or> auths (sh_sent s') = auths (sh_sent s) @ pend s \<and> pend s' = []"
  using assms
proof (cases e)
  case (Message w)
  with assms pend_wire [of w s] show ?thesis by (auto split: if_split_asm)
qed (auto simp: shell_steps sock_ends_def pend_def split: option.splits if_split_asm)

lemma submit_step:
  assumes "shell_exec s Submit = Some s'"
  shows "auths (sh_sent s') @ pend s' = auths (sh_sent s) @ [auth_data (sh_creds s) (sh_ip s)]"
  using assms by (auto simp: shell_steps pend_def split: if_split_asm)

lemma credentials_step:
  assumes "shell_exec s e = Some s'"
  shows "\<exists>n. auths (sh_sent s') = auths (sh_sent s) @ n
           \<and> subseq (n @ pend s') (pend s @ (case e of Submit \<Rightarrow> [auth_data (sh_creds s) (sh_ip s)] | _ \<Rightarrow> []))"
proof (cases "e = Submit")
  case True
  with assms obtain n where n: "auths (sh_sent s') = auths (sh_sent s) @ n" by (auto simp: shell_steps split: if_split_asm)
  with submit_step assms True have "n @ pend s' = [auth_data (sh_creds s) (sh_ip s)]" by fastforce
  with n True show ?thesis by auto
next
  case False
  then have e: "(case e of Submit \<Rightarrow> [auth_data (sh_creds s) (sh_ip s)] | _ \<Rightarrow> []) = []" by (cases e) auto
  from quiet_step [OF assms False] show ?thesis by (auto simp: e)
qed

lemma credentials_run:
  assumes "run_exec shell_exec s es = Some s'"
  shows "\<exists>n. auths (sh_sent s') = auths (sh_sent s) @ n \<and> subseq (n @ pend s') (pend s @ submissions s es)"
  using assms
proof (induction es arbitrary: s)
  case (Cons e es)
  then obtain s1 where s1: "shell_exec s e = Some s1" and r: "run_exec shell_exec s1 es = Some s'" by (auto split: option.splits)
  from credentials_step [OF s1] obtain n1 where n1: "auths (sh_sent s1) = auths (sh_sent s) @ n1"
    and q1: "subseq (n1 @ pend s1) (pend s @ (case e of Submit \<Rightarrow> [auth_data (sh_creds s) (sh_ip s)] | _ \<Rightarrow> []))" by blast
  from Cons.IH [OF r] obtain n2 where n2: "auths (sh_sent s') = auths (sh_sent s1) @ n2"
    and q2: "subseq (n2 @ pend s') (pend s1 @ submissions s1 es)" by blast
  have "subseq (n1 @ (n2 @ pend s')) (n1 @ (pend s1 @ submissions s1 es))" using q2 by (simp add: subseq_append')
  also have "subseq (n1 @ pend s1 @ submissions s1 es) (pend s @ submissions s (e # es))"
    using list_emb_append_mono [OF q1 subseq_order.refl, of "submissions s1 es"] s1 by simp
  finally show ?case using n1 n2 by auto
qed simp

lemma submissions_one_secret: "a \<in> set (submissions s es) \<Longrightarrow> au_pass a = [] \<or> au_key a = []"
  by (induction es arbitrary: s) (auto simp: auth_data_def split: option.splits shell_event.splits if_split_asm)

text \<open>C15. What is sent to log in is what the form held at a click on its button, in the order of the clicks and each click once
  at most, and no login carries both a password and a key.\<close>

theorem credentials_as_submitted:
  assumes "run_exec shell_exec (shell_new n d) es = Some s"
  shows "subseq (auths (sh_sent s)) (submissions (shell_new n d) es)
         \<and> list_all (\<lambda>a. au_pass a = [] \<or> au_key a = []) (auths (sh_sent s))"
proof -
  from credentials_run [OF assms] have "subseq (auths (sh_sent s) @ pend s) (submissions (shell_new n d) es)"
    by (auto simp: shell_new_def pend_def)
  then have sub: "subseq (auths (sh_sent s)) (submissions (shell_new n d) es)"
    using subseq_order.trans subseq_rev_drop_many by blast
  then have "a \<in> set (auths (sh_sent s)) \<Longrightarrow> a \<in> set (submissions (shell_new n d) es)" for a by (auto elim: list_emb_set)
  with sub submissions_one_secret show ?thesis by (auto simp: list_all_iff)
qed

section \<open>A login, and what goes wrong with some\<close>

definition says :: "string \<Rightarrow> shell_event" where
  "says st = Message (Parsed \<lparr> sm_status = st, sm_node = ''pve1'', sm_ip = ''10.0.0.11'', sm_text = None \<rparr>)"

definition with_password :: creds where
  "with_password = creds_new\<lparr> cr_pass := ''secret'' \<rparr>"

definition early_login :: "shell_event list" where
  "early_login = [Scripts True, Ip_answer (Some (Some ''cluster'', Some ''10.0.0.11'')), Edit with_password, Submit,
     Token_answer, Opened, says ''need_credentials'', says ''connecting'', says ''connected'', Rendered, Typed ''ls'']"

lemmas shell_eval = shell_new_def creds_new_def with_password_def says_def shell_steps sock_ends_def can_submit_def auth_data_def
  shown_ip_def ends_with_def

definition early_end :: shell where
  "early_end = the (run_exec shell_exec (shell_new ''pve1'' (Some (80, 24))) early_login)"

lemma early_run: "run_exec shell_exec (shell_new ''pve1'' (Some (80, 24))) early_login = Some early_end"
  by (simp add: early_end_def early_login_def shell_eval)

lemma early_sent:
  "sh_sent early_end = [Auth \<lparr> au_user = ''root'', au_pass = ''secret'', au_key = [], au_host = ''10.0.0.11'' \<rparr>, Resize 80 24, Input ''ls'']"
  by (simp add: early_end_def early_login_def shell_eval)

lemma typed_after_connected_witness: "reported early_login \<and> distinct_adj (sizes (sh_sent early_end))"
  using typed_after_connected [OF early_run] early_sent by simp

lemma credentials_as_submitted_witness:
  "subseq (auths (sh_sent early_end)) (submissions (shell_new ''pve1'' (Some (80, 24))) early_login) \<and> auths (sh_sent early_end) \<noteq> []"
  using credentials_as_submitted [OF early_run] early_sent by (simp add: auths_def)

text \<open>A login submitted before the socket is open is sent as soon as it is, and then the server, which asks everybody first,
  has the form shown again: it stays over the shell that is connected.\<close>

lemma dialog_over_shell: "sh_status early_end = SConnected \<and> sh_login early_end"
  by (simp add: early_end_def early_login_def shell_eval)

text \<open>The passphrase of a key: the form has a field for it, the login leaves it out.\<close>

lemma passphrase_dropped: "cr_method c = Key \<Longrightarrow> auth_data (c\<lparr> cr_pass := p \<rparr>) ip = auth_data c ip"
  by (simp add: auth_data_def)

text \<open>A closed socket stays closed, so a login submitted after it is never sent; the shell says that it connects.\<close>

lemma closed_step: "shell_exec s e = Some s' \<Longrightarrow> sh_sock s = Closed \<Longrightarrow> sh_stage s = Linked
    \<Longrightarrow> sh_sock s' = Closed \<and> sh_stage s' = Linked \<and> sh_sent s' = sh_sent s"
  by (cases e) (auto simp: shell_steps split: option.splits if_split_asm)

lemma closed_run: "run_exec shell_exec s es = Some s' \<Longrightarrow> sh_sock s = Closed \<Longrightarrow> sh_stage s = Linked \<Longrightarrow> sh_sent s' = sh_sent s"
  by (induction es arbitrary: s) (auto split: option.splits dest: closed_step)

definition late_login :: "shell_event list" where
  "late_login = [Scripts True, Ip_answer None, Token_answer, Sock_failed, Sock_closed, Edit with_password, Submit]"

lemma credentials_stuck:
  "run_ends shell_exec (shell_new ''pve1'' None) late_login
     (\<lambda>s. sh_status s = SConnecting \<and> sh_pending s \<noteq> None
          \<and> (\<forall>es s'. run_exec shell_exec s es = Some s' \<longrightarrow> sh_sent s' = []))"
proof -
  let ?s = "the (run_exec shell_exec (shell_new ''pve1'' None) late_login)"
  have r: "run_exec shell_exec (shell_new ''pve1'' None) late_login = Some ?s" "sh_status ?s = SConnecting" "sh_pending ?s \<noteq> None"
    and c: "sh_sock ?s = Closed" "sh_stage ?s = Linked" "sh_sent ?s = []"
    by (simp_all add: late_login_def shell_eval)
  from closed_run [of ?s] c have "run_exec shell_exec ?s es = Some s' \<Longrightarrow> sh_sent s' = []" for es s' by simp
  with r show ?thesis unfolding run_ends_iff by blast
qed

text \<open>A login cancelled before the socket exists does not keep it from being opened, and the form comes back.\<close>

lemma cancelled_comes_back:
  "run_ends shell_exec (shell_new ''pve1'' None)
     [Scripts True, Ip_answer None, Cancel, Token_answer, Opened, says ''need_credentials''] (\<lambda>s. sh_sock s = Open \<and> sh_login s)"
  by (simp add: run_ends_def shell_eval)

section \<open>The terminal of a container\<close>

datatype pty_stage = P_scripts | P_ticket | P_token | P_linked | P_ended

record pty =
  pt_stage :: pty_stage
  pt_sock :: sock
  pt_status :: shell_status
  pt_box :: "nat \<times> nat"
  pt_gone :: bool
  pt_sent :: "frame list"

definition pty_new :: "nat \<times> nat \<Rightarrow> pty" where
  "pty_new d = \<lparr> pt_stage = P_scripts, pt_sock = No_socket, pt_status = SLoading, pt_box = d, pt_gone = False, pt_sent = [] \<rparr>"

datatype pty_event =
    P_loaded bool
  | P_ticketed bool
  | P_tokened
  | P_opened
  | P_message sock_data
  | P_failed
  | P_closed
  | P_typed string
  | P_resized "nat \<times> nat"
  | P_left

definition pty_size :: "pty \<Rightarrow> pty" where
  "pty_size p = (if pt_sock p = Open then p\<lparr> pt_sent := pt_sent p @ [Resize (fst (pt_box p)) (snd (pt_box p))] \<rparr> else p)"

definition pty_message :: "sock_data \<Rightarrow> pty \<Rightarrow> pty" where
  "pty_message w p =
     (case w of
        Parsed m \<Rightarrow> if sm_status m = ''connected'' then pty_size (p\<lparr> pt_status := SConnected \<rparr>)
                    else if sm_status m = ''error'' then p\<lparr> pt_status := SError \<rparr> else p
      | _ \<Rightarrow> p)"

text \<open>A ticket that is refused ends the start; leaving closes the socket there is and the terminal.\<close>

fun pty_exec :: "pty \<Rightarrow> pty_event \<Rightarrow> pty option" where
  "pty_exec p (P_loaded ok) =
     (if pt_stage p = P_scripts
      then Some (if \<not> ok then p\<lparr> pt_stage := P_ended, pt_status := SError \<rparr>
                 else if pt_gone p then p\<lparr> pt_stage := P_ended \<rparr> else p\<lparr> pt_stage := P_ticket \<rparr>) else None)"
| "pty_exec p (P_ticketed ok) =
     (if pt_stage p = P_ticket
      then Some (if ok then p\<lparr> pt_stage := P_token \<rparr> else p\<lparr> pt_stage := P_ended, pt_status := SError \<rparr>) else None)"
| "pty_exec p P_tokened = (if pt_stage p = P_token then Some (p\<lparr> pt_stage := P_linked, pt_sock := Opening \<rparr>) else None)"
| "pty_exec p P_opened = (if pt_sock p = Opening then Some (p\<lparr> pt_sock := Open \<rparr>) else None)"
| "pty_exec p (P_message w) = (if pt_sock p = Open then Some (pty_message w p) else None)"
| "pty_exec p P_failed =
     (if pt_sock p \<in> {Opening, Open, Closing}
      then Some (if pt_gone p then p\<lparr> pt_sock := Failing \<rparr> else p\<lparr> pt_sock := Failing, pt_status := SError \<rparr>) else None)"
| "pty_exec p P_closed =
     (if pt_sock p \<in> {Open, Closing, Failing}
      then Some (if pt_gone p then p\<lparr> pt_sock := Closed \<rparr> else p\<lparr> pt_sock := Closed, pt_status := SDisconnected \<rparr>) else None)"
| "pty_exec p (P_typed x) =
     (if pt_stage p = P_linked \<and> \<not> pt_gone p
      then Some (if pt_sock p = Open then p\<lparr> pt_sent := pt_sent p @ [Input x] \<rparr> else p) else None)"
| "pty_exec p (P_resized d) =
     Some (if pt_stage p = P_linked then pty_size (p\<lparr> pt_box := d \<rparr>) else p\<lparr> pt_box := d \<rparr>)"
| "pty_exec p P_left = (if pt_gone p then None else Some (p\<lparr> pt_gone := True, pt_sock := close_sock (pt_sock p) \<rparr>))"

text \<open>The terminal of a container does not log in: nothing but input and sizes leaves.\<close>

lemma pty_no_login: "run_exec pty_exec p es = Some p' \<Longrightarrow> \<not> list_ex is_auth (pt_sent p) \<Longrightarrow> \<not> list_ex is_auth (pt_sent p')"
proof (induction es arbitrary: p)
  case (Cons e es)
  then obtain q where q: "pty_exec p e = Some q" "run_exec pty_exec q es = Some p'" by (auto split: option.splits)
  have "\<not> list_ex is_auth (pt_sent q)"
    using q(1) Cons.prems(2) by (cases e) (auto simp: pty_size_def pty_message_def split: if_split_asm sock_data.splits)
  with Cons.IH q show ?case by blast
qed simp

text \<open>Left while the ticket is on its way, the terminal of a container still opens its session, which nothing shows and nothing
  closes; the shell of a node looks before it opens (\<open>typed_after_connected\<close>).\<close>

lemma pty_session_left:
  "run_ends pty_exec (pty_new (80, 24)) [P_loaded True, P_left, P_ticketed True, P_tokened, P_opened] (\<lambda>p. pt_gone p \<and> pt_sock p = Open)"
  by (simp add: run_ends_def pty_new_def close_sock_def)

end
