(* ===== verification/Node_View.thy ===== *)
theory Node_View
  imports Js_Values
begin

text \<open>
  The page of one node (\<open>CorporateNodeDetailView\<close> in web/src/node_modals.js): its tabs load their data on demand, the page
  stays mounted while another node is chosen, and answers come in any order. A request carries the node it was asked for,
  the number of the visit (\<open>navGen\<close>; the set of requests under way is renewed with it) and its number among those of
  its tab. JSON is opaque: what the code looks at is a record of functions.

  \<^item> \<open>node_data_own\<close>: what the page shows was asked for the node it shows, on this visit.
  \<^item> \<open>newest_answer_shown\<close>: the last request of a tab decides, and the wheel turns exactly while one of this visit is out.
\<close>

section \<open>Addresses and fields of the tabs\<close>

definition node_endpoints :: "string \<Rightarrow> string \<Rightarrow> string \<Rightarrow> string list" where
  "node_endpoints base tf tab =
     map (\<lambda>x. base @ ''/'' @ x)
       (if tab = ''summary'' then [''summary'']
        else if tab = ''performance'' then [''rrddata?timeframe='' @ tf]
        else if tab = ''tasks'' then [''tasks?limit=50'']
        else if tab = ''network'' then [''network'']
        else if tab = ''system''
        then [''dns'', ''hosts'', ''time'', ''syslog?limit=100'', ''certificates'', ''cluster-health'', ''sensors'']
        else if tab = ''sensors'' then [''sensors'', ''temperature-history'']
        else if tab = ''disks'' then [''disks'', ''disks/lvm'', ''disks/lvmthin'', ''disks/zfs'']
        else if tab = ''repos'' then [''repos'']
        else if tab = ''subscription'' then [''subscription'']
        else if tab = ''ceph'' then [''ceph/status'', ''ceph/osd'', ''ceph/mon'', ''ceph/pool''] else [])"

record 'j json_ops =
  js_truthy :: "'j \<Rightarrow> bool"
  js_prop :: "'j \<Rightarrow> string \<Rightarrow> 'j option"
  js_string :: "'j \<Rightarrow> bool"
  js_array :: "'j \<Rightarrow> bool"

datatype 'j field = Given 'j | Null | Empty_object | Empty_list | Flag bool

text \<open>\<open>results[i]\<close>, which is null for a request that failed, \<open>results[i] || x\<close> and \<open>results[i]?.k\<close>.\<close>

definition res :: "'j option list \<Rightarrow> nat \<Rightarrow> 'j option" where
  "res rs i = (if i < length rs then rs ! i else None)"

definition raw :: "'j option \<Rightarrow> 'j field" where
  "raw r = (case r of None \<Rightarrow> Null | Some j \<Rightarrow> Given j)"

definition res_or :: "'j json_ops \<Rightarrow> 'j field \<Rightarrow> 'j option \<Rightarrow> 'j field" where
  "res_or ops d r = (case r of None \<Rightarrow> d | Some j \<Rightarrow> if js_truthy ops j then Given j else d)"

definition res_prop :: "'j json_ops \<Rightarrow> string \<Rightarrow> ('j \<Rightarrow> bool) \<Rightarrow> 'j option \<Rightarrow> 'j field" where
  "res_prop ops k ok r = (case Option.bind r (\<lambda>j. js_prop ops j k) of None \<Rightarrow> Null | Some v \<Rightarrow> if ok v then Given v else Null)"

definition tab_fields :: "'j json_ops \<Rightarrow> string \<Rightarrow> 'j option list \<Rightarrow> (string \<times> 'j field) list" where
  "tab_fields ops tab rs =
     (if tab = ''summary'' \<or> tab = ''performance'' \<or> tab = ''tasks'' \<or> tab = ''network'' then [(tab, raw (res rs 0))]
      else if tab = ''system''
      then [(''dns'', res_or ops Empty_object (res rs 0)), (''hosts'', res_prop ops ''data'' (js_string ops) (res rs 1)),
            (''time'', res_or ops Empty_object (res rs 2)), (''syslog'', res_or ops Empty_list (res rs 3)),
            (''certificates'', res_or ops Empty_list (res rs 4))]
      else if tab = ''sensors''
      then [(''sensors'', res_prop ops ''sensors'' (js_array ops) (res rs 0)),
            (''tempHistory'', res_prop ops ''series'' (js_array ops) (res rs 1))]
      else if tab = ''disks''
      then [(''disks'', res_or ops Empty_list (res rs 0)), (''lvm'', res_or ops Empty_list (res rs 1)),
            (''lvmthin'', res_or ops Empty_list (res rs 2)), (''zfs'', res_or ops Empty_list (res rs 3))]
      else if tab = ''repos''
      then [(''repos'', res_or ops Empty_list (Option.bind (res rs 0) (\<lambda>j. js_prop ops j ''repositories'')))]
      else if tab = ''subscription'' then [(''subscription'', res_or ops Empty_object (res rs 0))]
      else if tab = ''ceph''
      then [(''ceph.status'', raw (res rs 0)), (''ceph.osd'', res_or ops Empty_list (res rs 1)),
            (''ceph.mon'', res_or ops Empty_list (res rs 2)), (''ceph.pools'', res_or ops Empty_list (res rs 3)),
            (''ceph.available'', Flag (res rs 0 \<noteq> None))]
      else [])"

section \<open>State\<close>

record tab_load =
  ld_key :: string
  ld_tab :: string
  ld_gen :: nat
  ld_seq :: nat
  ld_out :: bool

record 'j nview =
  nv_key :: string
  nv_done :: string
  nv_gen :: nat
  nv_seq :: "string \<Rightarrow> nat"
  nv_loads :: "tab_load list"
  nv_loading :: bool
  nv_data :: "string \<rightharpoonup> nat \<times> 'j option list"

definition underway :: "'j nview \<Rightarrow> bool" where
  "underway s \<longleftrightarrow> list_ex (\<lambda>l. ld_out l \<and> ld_gen l = nv_gen s) (nv_loads s)"

text \<open>\<open>loadTabData\<close> up to its await, in a closure made for the node \<open>k\<close>; a tab without addresses ends at once.\<close>

definition loadTabData :: "string \<Rightarrow> string \<Rightarrow> 'j nview \<Rightarrow> 'j nview" where
  "loadTabData k tab s =
     (if nv_key s \<noteq> k then s
      else (let n = Suc (nv_seq s tab); s' = s\<lparr> nv_seq := (nv_seq s)(tab := n) \<rparr>
            in if node_endpoints [] [] tab = [] then s'\<lparr> nv_loading := underway s \<rparr>
               else s'\<lparr> nv_loads := nv_loads s @ [\<lparr> ld_key = k, ld_tab = tab, ld_gen = nv_gen s, ld_seq = n, ld_out = True \<rparr>],
                        nv_loading := True \<rparr>))"

text \<open>Its rest, once all addresses of the tab answered.\<close>

definition current_load :: "'j nview \<Rightarrow> tab_load \<Rightarrow> bool" where
  "current_load s l \<longleftrightarrow> ld_gen l = nv_gen s \<and> ld_key l = nv_key s \<and> ld_seq l = nv_seq s (ld_tab l)"

definition tab_done :: "nat \<Rightarrow> 'j option list \<Rightarrow> 'j nview \<Rightarrow> 'j nview" where
  "tab_done i rs s =
     (let l = nv_loads s ! i;
          s1 = (if current_load s l then s\<lparr> nv_data := (nv_data s)(ld_tab l \<mapsto> (i, rs)) \<rparr> else s);
          s2 = s1\<lparr> nv_loads := (nv_loads s)[i := l\<lparr> ld_out := False \<rparr>] \<rparr>
      in if ld_gen l = nv_gen s then s2\<lparr> nv_loading := underway s2 \<rparr> else s2)"

text \<open>The effects of another node: the visit ends, the data go, the first tab loads.\<close>

definition switch_effects :: "'j nview \<Rightarrow> 'j nview" where
  "switch_effects s =
     loadTabData (nv_key s) ''summary'' (s\<lparr> nv_gen := Suc (nv_gen s), nv_data := Map.empty, nv_done := nv_key s \<rparr>)"

definition nview_new :: "string \<Rightarrow> 'j nview" where
  "nview_new k = loadTabData k ''summary''
     \<lparr> nv_key = k, nv_done = k, nv_gen = 0, nv_seq = (\<lambda>_. 0), nv_loads = [], nv_loading = False, nv_data = Map.empty \<rparr>"

section \<open>What is loaded when\<close>

definition shown_field :: "'j json_ops \<Rightarrow> 'j nview \<Rightarrow> string \<Rightarrow> string \<Rightarrow> 'j field option" where
  "shown_field ops s tab f = (case nv_data s tab of None \<Rightarrow> None | Some (i, rs) \<Rightarrow> map_of (tab_fields ops tab rs) f)"

fun field_truthy :: "'j json_ops \<Rightarrow> 'j field option \<Rightarrow> bool" where
  "field_truthy ops None = False"
| "field_truthy ops (Some (Given j)) = js_truthy ops j"
| "field_truthy ops (Some Null) = False"
| "field_truthy ops (Some (Flag b)) = b"
| "field_truthy ops (Some _) = True"

text \<open>The tab an opened page asks for, if its field is not there yet.\<close>

definition wanted_tab :: "'j json_ops \<Rightarrow> 'j nview \<Rightarrow> string \<Rightarrow> string \<Rightarrow> string \<Rightarrow> string option" where
  "wanted_tab ops s active config monitor =
     (let lacks = (\<lambda>tab f. \<not> field_truthy ops (shown_field ops s tab f))
      in if active = ''summary'' \<and> lacks ''summary'' ''summary'' then Some ''summary''
         else if active = ''monitor''
         then (if monitor = ''performance'' \<and> lacks ''performance'' ''performance'' then Some ''performance''
               else if monitor = ''tasks'' \<and> lacks ''tasks'' ''tasks'' then Some ''tasks'' else None)
         else if active = ''configure''
         then (if config = ''network'' \<and> lacks ''network'' ''network'' then Some ''network''
               else if config \<in> set [''dns'', ''hosts'', ''time'', ''certs'', ''syslog''] \<and> lacks ''system'' ''dns'' then Some ''system''
               else if config \<in> set [''disks'', ''lvm'', ''lvmthin'', ''zfs''] \<and> lacks ''disks'' ''disks'' then Some ''disks''
               else if config = ''repos'' \<and> lacks ''repos'' ''repos'' then Some ''repos''
               else if config = ''ceph'' \<and> nv_data s ''ceph'' = None then Some ''ceph'' else None)
         else if active = ''hardware'' \<and> nv_data s ''sensors'' = None then Some ''sensors''
         else if active = ''subscription'' \<and> lacks ''subscription'' ''subscription'' then Some ''subscription'' else None)"

text \<open>The tab a successful save reloads.\<close>

definition reload_tab :: "string \<Rightarrow> string option" where
  "reload_tab e =
     (if list_ex (js_includes e) [''dns'', ''hosts'', ''time'', ''certificates'', ''syslog''] then Some ''system''
      else if js_includes e ''disk'' then Some ''disks''
      else if js_includes e ''repo'' then Some ''repos''
      else if js_includes e ''network'' then Some ''network'' else None)"

definition formatUptime :: "nat \<Rightarrow> string" where
  "formatUptime s =
     (if s = 0 then ''-''
      else (let d = s div 86400; h = s mod 86400 div 3600; m = s mod 3600 div 60
            in if 0 < d then show_nat d @ ''d '' @ show_nat h @ ''h '' @ show_nat m @ ''m''
               else if 0 < h then show_nat h @ ''h '' @ show_nat m @ ''m'' else show_nat m @ ''m''))"

section \<open>Steps\<close>

text \<open>Another node is rendered and its effects run before the next one is; loads come from closures of any node, of a tab that is
  opened, a period that is chosen or a save that ended.\<close>

datatype 'j nview_event = Render string | Effects | Load string string | Loaded nat "'j option list"

fun nview_exec :: "'j nview \<Rightarrow> 'j nview_event \<Rightarrow> 'j nview option" where
  "nview_exec s (Render k) = (if nv_key s = nv_done s then Some (s\<lparr> nv_key := k \<rparr>) else None)"
| "nview_exec s Effects = (if nv_key s \<noteq> nv_done s then Some (switch_effects s) else None)"
| "nview_exec s (Load k tab) = Some (loadTabData k tab s)"
| "nview_exec s (Loaded i rs) =
     (if i < length (nv_loads s) \<and> ld_out (nv_loads s ! i) then Some (tab_done i rs s) else None)"

section \<open>Invariants\<close>

text \<open>The numbers of the loads of a tab: each is above the earlier ones, the last is the current one.\<close>

definition seqs_ok :: "'j nview \<Rightarrow> bool" where
  "seqs_ok s \<longleftrightarrow>
     (\<forall>l \<in> set (nv_loads s). ld_seq l \<le> nv_seq s (ld_tab l) \<and> ld_gen l \<le> nv_gen s \<and> node_endpoints [] [] (ld_tab l) \<noteq> [])
     \<and> (\<forall>i < length (nv_loads s). (\<forall>j < length (nv_loads s). i < j \<longrightarrow> ld_tab (nv_loads s ! j) \<noteq> ld_tab (nv_loads s ! i))
          \<longrightarrow> ld_seq (nv_loads s ! i) = nv_seq s (ld_tab (nv_loads s ! i)))
     \<and> (\<forall>i j. i < j \<and> j < length (nv_loads s) \<and> ld_tab (nv_loads s ! i) = ld_tab (nv_loads s ! j)
          \<longrightarrow> ld_seq (nv_loads s ! i) < ld_seq (nv_loads s ! j))"

text \<open>The loads of this visit, and the data.\<close>

definition visit_ok :: "'j nview \<Rightarrow> bool" where
  "visit_ok s \<longleftrightarrow>
     (\<forall>l \<in> set (nv_loads s). ld_gen l = nv_gen s \<longrightarrow> ld_key l = nv_done s \<or> nv_key s \<noteq> nv_done s)
     \<and> (\<forall>tab i rs. nv_data s tab = Some (i, rs) \<longrightarrow> i < length (nv_loads s)
          \<and> ld_tab (nv_loads s ! i) = tab \<and> ld_gen (nv_loads s ! i) = nv_gen s \<and> \<not> ld_out (nv_loads s ! i)
          \<and> (ld_key (nv_loads s ! i) = nv_key s \<or> nv_key s \<noteq> nv_done s))"

definition answers_ok :: "'j nview_event list \<Rightarrow> 'j nview \<Rightarrow> bool" where
  "answers_ok es s \<longleftrightarrow>
     (\<forall>tab i rs. nv_data s tab = Some (i, rs) \<longrightarrow> Loaded i rs \<in> set es)
     \<and> (nv_key s = nv_done s \<longrightarrow> (\<forall>i < length (nv_loads s). current_load s (nv_loads s ! i) \<and> \<not> ld_out (nv_loads s ! i)
          \<longrightarrow> (\<exists>rs. nv_data s (ld_tab (nv_loads s ! i)) = Some (i, rs))))"

lemma seqs_ok_bound:
  assumes "seqs_ok s" and "i < length (nv_loads s)"
  shows "ld_seq (nv_loads s ! i) \<le> nv_seq s (ld_tab (nv_loads s ! i)) \<and> ld_gen (nv_loads s ! i) \<le> nv_gen s"
  using conjunct1 [OF assms(1) [unfolded seqs_ok_def]] nth_mem [OF assms(2)] by blast

lemma seqs_ok_load: "seqs_ok s \<Longrightarrow> seqs_ok (loadTabData k tab s)"
  unfolding loadTabData_def Let_def seqs_ok_def
  by (auto simp: nth_append less_Suc_eq le_Suc_eq split: if_split_asm) (metis le_neq_implies_less nth_mem)

lemma seqs_ok_done:
  assumes "seqs_ok s" and i: "i < length (nv_loads s)"
  shows "seqs_ok (tab_done i rs s)"
proof -
  let ?ls = "(nv_loads s)[i := (nv_loads s ! i)\<lparr> ld_out := False \<rparr>]"
  have f: "nv_loads (tab_done i rs s) = ?ls" "nv_seq (tab_done i rs s) = nv_seq s" "nv_gen (tab_done i rs s) = nv_gen s"
    by (simp_all add: tab_done_def Let_def)
  have same: "ld_tab (?ls ! j) = ld_tab (nv_loads s ! j)" "ld_seq (?ls ! j) = ld_seq (nv_loads s ! j)"
    "ld_gen (?ls ! j) = ld_gen (nv_loads s ! j)" if "j < length (nv_loads s)" for j
    using that i by (simp_all add: nth_list_update)
  have "ld_tab (?ls ! j) = ld_tab (nv_loads s ! j)" "ld_seq (?ls ! j) = ld_seq (nv_loads s ! j)"
    if "j < k" "k < length (nv_loads s)" for j k using that same less_trans by blast+
  with assms(1) show ?thesis unfolding seqs_ok_def f by (auto simp: all_set_conv_all_nth same)
qed

lemma visit_ok_load: "visit_ok s \<Longrightarrow> visit_ok (loadTabData k tab s)"
  unfolding loadTabData_def Let_def visit_ok_def
  by (auto simp: nth_append less_SucI split: if_split_asm)

lemma tab_done_fields:
  assumes "i < length (nv_loads s)"
  shows "nv_key (tab_done i rs s) = nv_key s" "nv_done (tab_done i rs s) = nv_done s" "nv_gen (tab_done i rs s) = nv_gen s"
    "nv_seq (tab_done i rs s) = nv_seq s" "length (nv_loads (tab_done i rs s)) = length (nv_loads s)"
    "nv_data (tab_done i rs s) = (if current_load s (nv_loads s ! i)
       then (nv_data s)(ld_tab (nv_loads s ! i) \<mapsto> (i, rs)) else nv_data s)"
    "\<And>j. j < length (nv_loads s) \<Longrightarrow> nv_loads (tab_done i rs s) ! j
       = (if j = i then (nv_loads s ! i)\<lparr> ld_out := False \<rparr> else nv_loads s ! j)"
  using assms by (simp_all add: tab_done_def Let_def nth_list_update)

lemma visit_ok_done:
  assumes v: "visit_ok s" and i: "i < length (nv_loads s)"
  shows "visit_ok (tab_done i rs s)"
  using assms tab_done_fields [OF i, where rs = rs]
  unfolding visit_ok_def all_set_conv_all_nth current_load_def by (auto split: if_split_asm)

lemma visit_ok_switch: "visit_ok s \<Longrightarrow> seqs_ok s \<Longrightarrow> visit_ok (switch_effects s)"
  unfolding switch_effects_def by (rule visit_ok_load) (fastforce simp: visit_ok_def seqs_ok_def)

lemma visit_ok_render: "visit_ok s \<Longrightarrow> nv_key s = nv_done s \<Longrightarrow> visit_ok (s\<lparr> nv_key := k \<rparr>)"
  unfolding visit_ok_def by auto

lemma nview_seqs_step: "nview_exec s e = Some s' \<Longrightarrow> seqs_ok s \<Longrightarrow> seqs_ok s'"
proof (cases e)
  case Effects
  assume "nview_exec s e = Some s'" and s: "seqs_ok s"
  have "seqs_ok (s\<lparr> nv_gen := Suc (nv_gen s), nv_data := Map.empty, nv_done := nv_key s \<rparr>)"
    using s by (fastforce simp: seqs_ok_def)
  with Effects \<open>nview_exec s e = Some s'\<close> show ?thesis
    by (auto simp: switch_effects_def intro: seqs_ok_load split: if_split_asm)
next
  case (Render k)
  assume "nview_exec s e = Some s'" and s: "seqs_ok s"
  with Render show ?thesis by (auto simp: seqs_ok_def split: if_split_asm)
qed (auto intro: seqs_ok_load seqs_ok_done split: if_split_asm)

lemma nview_visit_step: "nview_exec s e = Some s' \<Longrightarrow> seqs_ok s \<Longrightarrow> visit_ok s \<Longrightarrow> visit_ok s'"
  by (cases e) (auto intro: visit_ok_load visit_ok_done visit_ok_switch visit_ok_render split: if_split_asm)

lemma current_unique:
  assumes "seqs_ok s" and "i < length (nv_loads s)" and "j < length (nv_loads s)"
    and "current_load s (nv_loads s ! i)" and "current_load s (nv_loads s ! j)"
    and "ld_tab (nv_loads s ! i) = ld_tab (nv_loads s ! j)"
  shows "i = j"
proof (rule ccontr)
  assume "i \<noteq> j"
  then consider "i < j" | "j < i" by linarith
  then have "ld_seq (nv_loads s ! i) \<noteq> ld_seq (nv_loads s ! j)"
    using assms(1,2,3,6) unfolding seqs_ok_def by (metis nat_less_le)
  with assms(4,5,6) show False by (simp add: current_load_def)
qed

lemma answers_ok_done:
  assumes a: "answers_ok es s" and q: "seqs_ok s" and i: "i < length (nv_loads s)"
  shows "answers_ok (es @ [Loaded i rs]) (tab_done i rs s)"
proof -
  note f = tab_done_fields [OF i, where rs = rs]
  have cur: "current_load (tab_done i rs s) l \<longleftrightarrow> current_load s l" for l by (simp add: current_load_def f)
  have drop: "current_load s (l\<lparr> ld_out := b \<rparr>) \<longleftrightarrow> current_load s l" for l b by (simp add: current_load_def)
  show ?thesis
    unfolding answers_ok_def f cur
  proof (intro conjI allI impI)
    fix tab k rs'
    assume "(if current_load s (nv_loads s ! i) then (nv_data s)(ld_tab (nv_loads s ! i) \<mapsto> (i, rs)) else nv_data s) tab = Some (k, rs')"
    with a show "Loaded k rs' \<in> set (es @ [Loaded i rs])" by (auto simp: answers_ok_def split: if_split_asm)
  next
    fix j
    assume n: "nv_key s = nv_done s" and j: "j < length (nv_loads s)"
      and h: "current_load s (nv_loads (tab_done i rs s) ! j) \<and> \<not> ld_out (nv_loads (tab_done i rs s) ! j)"
    show "\<exists>rs'. (if current_load s (nv_loads s ! i) then (nv_data s)(ld_tab (nv_loads s ! i) \<mapsto> (i, rs)) else nv_data s)
              (ld_tab (nv_loads (tab_done i rs s) ! j)) = Some (j, rs')"
    proof (cases "j = i")
      case True
      with h j show ?thesis by (simp add: f drop)
    next
      case False
      with h j have c: "current_load s (nv_loads s ! j)" "\<not> ld_out (nv_loads s ! j)" by (simp_all add: f)
      with a n j obtain rs' where "nv_data s (ld_tab (nv_loads s ! j)) = Some (j, rs')" unfolding answers_ok_def by blast
      with False j current_unique [OF q i j] c show ?thesis by (auto simp: f)
    qed
  qed
qed

lemma answers_ok_load:
  assumes a: "answers_ok es s" and q: "seqs_ok s"
  shows "answers_ok es (loadTabData k tab s)"
proof -
  let ?t = "loadTabData k tab s"
  have d: "nv_data ?t = nv_data s" "nv_key ?t = nv_key s" "nv_done ?t = nv_done s" by (simp_all add: loadTabData_def Let_def)
  have le: "ld_seq (nv_loads s ! j) \<noteq> Suc (nv_seq s (ld_tab (nv_loads s ! j)))" if "j < length (nv_loads s)" for j
    using seqs_ok_bound [OF q that] by linarith
  have old: "j < length (nv_loads s) \<and> nv_loads ?t ! j = nv_loads s ! j \<and> current_load s (nv_loads s ! j)"
    if "j < length (nv_loads ?t)" and "current_load ?t (nv_loads ?t ! j) \<and> \<not> ld_out (nv_loads ?t ! j)" for j
    using that le [of j] by (auto simp: loadTabData_def Let_def current_load_def nth_append split: if_split_asm)
  show ?thesis
    unfolding answers_ok_def d
  proof (intro conjI allI impI)
    show "nv_data s tab' = Some (j, rs) \<Longrightarrow> Loaded j rs \<in> set es" for tab' j rs using a unfolding answers_ok_def by blast
    fix j assume n: "nv_key s = nv_done s" and j: "j < length (nv_loads ?t)" "current_load ?t (nv_loads ?t ! j) \<and> \<not> ld_out (nv_loads ?t ! j)"
    from old [OF j] j(2) a n show "\<exists>rs. nv_data s (ld_tab (nv_loads ?t ! j)) = Some (j, rs)"
      unfolding answers_ok_def by metis
  qed
qed

lemma answers_ok_mono: "answers_ok es s \<Longrightarrow> answers_ok (es @ [e]) s"
  unfolding answers_ok_def by auto

lemma answers_ok_switch:
  assumes "seqs_ok s"
  shows "answers_ok es (switch_effects s)"
  unfolding switch_effects_def
proof (rule answers_ok_load)
  let ?s = "s\<lparr> nv_gen := Suc (nv_gen s), nv_data := Map.empty, nv_done := nv_key s \<rparr>"
  show "seqs_ok ?s" using assms by (fastforce simp: seqs_ok_def)
  have "ld_gen (nv_loads s ! i) \<noteq> Suc (nv_gen s)" if "i < length (nv_loads s)" for i
    using seqs_ok_bound [OF assms that] by linarith
  then show "answers_ok es ?s" by (simp add: answers_ok_def current_load_def)
qed

lemma answers_ok_render:
  assumes a: "answers_ok es s" and v: "visit_ok s" and n: "nv_key s = nv_done s"
  shows "answers_ok es (s\<lparr> nv_key := k \<rparr>)"
proof (cases "k = nv_key s")
  case False
  with a n show ?thesis by (simp add: answers_ok_def)
qed (use a in simp)

definition nview_inv :: "'j nview_event list \<Rightarrow> 'j nview \<Rightarrow> bool" where
  "nview_inv es s \<longleftrightarrow> seqs_ok s \<and> visit_ok s \<and> answers_ok es s \<and> (nv_loading s \<longleftrightarrow> underway s)"

lemma spin_load: "nv_loading s = underway s \<Longrightarrow> nv_loading (loadTabData k tab s) = underway (loadTabData k tab s)"
  by (auto simp: loadTabData_def Let_def underway_def)

lemma spin_step:
  assumes "nview_exec s e = Some s'" and "nv_loading s = underway s" and "seqs_ok s"
  shows "nv_loading s' = underway s'"
proof (cases e)
  case (Render k)
  with assms show ?thesis by (auto simp: underway_def split: if_split_asm)
next
  case Effects
  with assms(1) have "s' = switch_effects s" by (simp split: if_split_asm)
  then show ?thesis by (simp add: switch_effects_def loadTabData_def Let_def underway_def node_endpoints_def)
next
  case (Loaded i rs)
  with assms(1) have i: "i < length (nv_loads s)" and s': "s' = tab_done i rs s" by (simp_all split: if_split_asm)
  show ?thesis
  proof (cases "ld_gen (nv_loads s ! i) = nv_gen s")
    case False
    with i have "list_ex (\<lambda>l. ld_out l \<and> ld_gen l = nv_gen s) ((nv_loads s)[i := (nv_loads s ! i)\<lparr> ld_out := False \<rparr>])
        = list_ex (\<lambda>l. ld_out l \<and> ld_gen l = nv_gen s) (nv_loads s)"
      unfolding list_ex_length length_list_update by (metis (no_types, lifting) tab_load.simps(4) tab_load.select_convs(3) nth_list_update nth_list_update_neq tab_load.surjective tab_load.update_convs(5))
    with False assms(2) show ?thesis unfolding s' by (simp add: tab_done_def Let_def underway_def)
  qed (simp add: s' tab_done_def Let_def underway_def)
qed (use assms spin_load in auto)

lemma nview_inv_step:
  assumes "nview_inv es s" and e: "nview_exec s e = Some s'"
  shows "nview_inv (es @ [e]) s'"
proof -
  from assms(1) have q: "seqs_ok s" and v: "visit_ok s" and a: "answers_ok es s" and n: "nv_loading s = underway s"
    by (simp_all add: nview_inv_def)
  have "answers_ok (es @ [e]) s'"
    using e a q v by (cases e) (auto intro: answers_ok_load answers_ok_done answers_ok_switch answers_ok_render answers_ok_mono split: if_split_asm)
  with e q v n spin_step nview_seqs_step nview_visit_step show ?thesis unfolding nview_inv_def by blast
qed

lemma nview_inv_new: "nview_inv [] (nview_new k)"
  by (simp add: nview_inv_def nview_new_def loadTabData_def Let_def seqs_ok_def visit_ok_def answers_ok_def underway_def node_endpoints_def)

interpretation nview_trace: trace_machine nview_exec "nview_new k" nview_inv for k
  by unfold_locales (rule nview_inv_new, rule nview_inv_step)


text \<open>C28. If the last request of a tab belongs to this visit and was answered, its answer is what the tab shows, in whatever order
  the answers came; and the wheel turns exactly while a request of this visit is out.\<close>

theorem newest_answer_shown:
  assumes "run_exec nview_exec (nview_new k) es = Some s" and "nv_key s = nv_done s" and "i < length (nv_loads s)"
    and "ld_gen (nv_loads s ! i) = nv_gen s" and "\<not> ld_out (nv_loads s ! i)"
    and "\<And>j. i < j \<Longrightarrow> j < length (nv_loads s) \<Longrightarrow> ld_tab (nv_loads s ! j) \<noteq> ld_tab (nv_loads s ! i)"
  shows "(\<exists>rs. nv_data s (ld_tab (nv_loads s ! i)) = Some (i, rs) \<and> Loaded i rs \<in> set es) \<and> (nv_loading s \<longleftrightarrow> underway s)"
proof -
  from nview_trace.trace_run [OF assms(1)] have q: "seqs_ok s" and v: "visit_ok s" and a: "answers_ok es s"
    and n: "nv_loading s \<longleftrightarrow> underway s" by (simp_all add: nview_inv_def)
  from v assms(2,3,4) have "ld_key (nv_loads s ! i) = nv_key s" by (auto simp: visit_ok_def)
  moreover from q assms(3,6) have "ld_seq (nv_loads s ! i) = nv_seq s (ld_tab (nv_loads s ! i))" unfolding seqs_ok_def by blast
  ultimately have "current_load s (nv_loads s ! i)" using assms(4) by (simp add: current_load_def)
  with a assms(2,3,5) n show ?thesis unfolding answers_ok_def by blast
qed

section \<open>A visit of two nodes, and requests for nothing\<close>

definition two_visits :: "nat nview_event list" where
  "two_visits = [Render ''b'', Effects, Load ''b'' ''network'', Load ''a'' ''disks'', Loaded 1 [Some 1], Loaded 0 [Some 7], Loaded 2 [Some 2]]"

definition at_b :: "nat nview" where
  "at_b = the (run_exec nview_exec (nview_new ''a'') two_visits)"

lemmas nview_eval = nview_new_def loadTabData_def switch_effects_def tab_done_def current_load_def underway_def node_endpoints_def Let_def

lemma two_visits_run: "run_exec nview_exec (nview_new ''a'') two_visits = Some at_b"
  by (simp add: at_b_def two_visits_def nview_eval)

lemma at_b_state:
  "nv_key at_b = ''b''" "nv_done at_b = ''b''" "nv_data at_b ''summary'' = Some (1, [Some 1])" "\<not> nv_loading at_b"
  "map ld_tab (nv_loads at_b) = [''summary'', ''summary'', ''network'']" "map ld_gen (nv_loads at_b) = [0, 1, 1]"
  "map ld_out (nv_loads at_b) = [False, False, False]" "nv_gen at_b = 1"
  by (simp_all add: at_b_def two_visits_def nview_eval)


lemma newest_answer_shown_witness: "\<exists>rs. nv_data at_b ''network'' = Some (2, rs) \<and> Loaded 2 rs \<in> set two_visits"
proof -
  have n: "length (nv_loads at_b) = 3" using arg_cong [OF at_b_state(5), of length] by simp
  have t: "ld_tab (nv_loads at_b ! 2) = ''network''" "ld_gen (nv_loads at_b ! 2) = 1" "\<not> ld_out (nv_loads at_b ! 2)"
    using arg_cong [OF at_b_state(5), of "\<lambda>xs. xs ! 2"] arg_cong [OF at_b_state(6), of "\<lambda>xs. xs ! 2"]
      arg_cong [OF at_b_state(7), of "\<lambda>xs. xs ! 2"] n by simp_all
  show ?thesis using newest_answer_shown [OF two_visits_run, of 2] n t at_b_state(1,2,8) by simp
qed

text \<open>The page asks twice for its first tab: the effect of the node asks, and the effect of the tab finds no data yet.\<close>

lemma first_tab_twice:
  "wanted_tab ops (nview_new k :: 'j nview) ''summary'' c m = Some ''summary''
   \<and> map ld_tab (nv_loads (loadTabData k ''summary'' (nview_new k :: 'j nview))) = [''summary'', ''summary'']"
  by (simp add: wanted_tab_def shown_field_def nview_eval)

text \<open>Of the seven answers it waits for, the page of the system uses five.\<close>

lemma system_answers_dropped: "tab_fields ops ''system'' rs = tab_fields ops ''system'' (take 5 rs)"
  by (simp add: tab_fields_def res_def)

end
