(* ===== verification/Evacuation.thy ===== *)
theory Evacuation
  imports Js_Values
begin

text \<open>
  Taking a node into maintenance (web/src/security.js): the wording of the reasons of the server (\<open>countKey\<close>, \<open>sayReason\<close>),
  the dialog with its check (\<open>MaintenanceDialog\<close>, \<open>maintPreviewText\<close>), the plan of an evacuation (\<open>useEvacPlan\<close>) and what
  the options say about it (\<open>EvacOptions\<close>). The translation \<open>t\<close> is a function of its key. Layout is left out.

  \<^item> \<open>blocked_needs_tick\<close>: a node whose check says blocked is taken only after a tick that followed the verdict.
  \<^item> \<open>plan_of_url\<close>: the plan shown while the dialog is open was answered for the address it is open with.
  \<^item> \<open>reason_has_no_hole\<close>: a reason never shows a hole of its wording.
\<close>

section \<open>Wordings with holes\<close>

datatype piece = Lit char | Hole string

text \<open>The rest of \<open>{\w+}\<close> after the brace: the name and what follows.\<close>

definition hole_at :: "string \<Rightarrow> (string \<times> string) option" where
  "hole_at s =
     (let w = takeWhile word_char s; r = dropWhile word_char s
      in if w = [] then None else case r of [] \<Rightarrow> None | c # cs \<Rightarrow> if c = CHR 0x7D then Some (w, cs) else None)"

lemma hole_at_shorter [termination_simp]: "hole_at s = Some (w, r) \<Longrightarrow> length r < length s"
proof -
  assume "hole_at s = Some (w, r)"
  then obtain c where "dropWhile word_char s = c # r" by (auto simp: hole_at_def Let_def split: if_split_asm list.splits)
  then show ?thesis using length_dropWhile_le [of word_char s] by simp
qed

fun pieces :: "string \<Rightarrow> piece list" where
  "pieces [] = []"
| "pieces (c # cs) =
     (if c = CHR 0x7B
      then case hole_at cs of None \<Rightarrow> Lit c # pieces cs | Some (w, r) \<Rightarrow> Hole w # pieces r
      else Lit c # pieces cs)"

definition holes :: "string \<Rightarrow> string list" where
  "holes s = concat (map (\<lambda>p. case p of Hole w \<Rightarrow> [w] | Lit c \<Rightarrow> []) (pieces s))"

definition fill_with :: "(string \<Rightarrow> string) \<Rightarrow> string \<Rightarrow> string" where
  "fill_with f s = concat (map (\<lambda>p. case p of Hole w \<Rightarrow> f w | Lit c \<Rightarrow> [c]) (pieces s))"

section \<open>Reasons of the server\<close>

text \<open>A value of a reason: one, or a list.\<close>

datatype arg = One jval | Many "jval list"

definition list_text :: "string \<Rightarrow> jval list \<Rightarrow> string" where
  "list_text sep vs = join sep (map (\<lambda>v. if v = Undef then [] else to_str v) vs)"

text \<open>\<open>String(v)\<close>, and the text in a wording.\<close>

fun arg_string :: "arg \<Rightarrow> string" where
  "arg_string (One v) = to_str v"
| "arg_string (Many vs) = list_text '','' vs"

fun arg_text :: "arg \<Rightarrow> string" where
  "arg_text (One v) = to_str v"
| "arg_text (Many vs) = list_text '', '' vs"

record reason =
  rs_code :: string
  rs_variant :: string
  rs_args :: "(string \<times> arg) list"
  rs_text :: string

definition countKey :: "(string \<Rightarrow> string) \<Rightarrow> string \<Rightarrow> string \<Rightarrow> string" where
  "countKey t key n = (if n = ''1'' \<and> t (key @ ''_one'') \<noteq> key @ ''_one'' then key @ ''_one'' else key)"

definition count_of :: "(string \<times> arg) list \<Rightarrow> string" where
  "count_of args = (case map_of args ''count'' of None \<Rightarrow> ''undefined'' | Some a \<Rightarrow> arg_string a)"

definition reason_key :: "(string \<Rightarrow> string) \<Rightarrow> string \<Rightarrow> reason \<Rightarrow> string" where
  "reason_key t pre r =
     countKey t (pre @ rs_code r @ (if rs_variant r = [] then [] else ''_'' @ rs_variant r)) (count_of (rs_args r))"

definition arg_value :: "(string \<times> arg) list \<Rightarrow> string \<Rightarrow> string" where
  "arg_value args k = (case map_of args k of None \<Rightarrow> ''undefined'' | Some a \<Rightarrow> arg_text a)"

definition sayReason :: "(string \<Rightarrow> string) \<Rightarrow> string \<Rightarrow> reason \<Rightarrow> string" where
  "sayReason t pre r =
     (let key = reason_key t pre r; wording = t key
      in if wording = [] \<or> wording = key then rs_text r
         else if list_ex (\<lambda>k. map_of (rs_args r) k = None) (holes wording) then rs_text r
         else fill_with (arg_value (rs_args r)) wording)"

text \<open>\<open>fill\<close> of the dialog leaves a hole without a value as it is.\<close>

definition fill :: "string \<Rightarrow> (string \<times> jval) list \<Rightarrow> string" where
  "fill s vars = fill_with (\<lambda>w. case map_of vars w of Some v \<Rightarrow> if v = Undef then CHR 0x7B # w @ [CHR 0x7D] else to_str v
                                | None \<Rightarrow> CHR 0x7B # w @ [CHR 0x7D]) s"

subsection \<open>Their laws\<close>

lemma hole_at_text:
  assumes "hole_at s = Some (w, r)"
  shows "s = w @ CHR 0x7D # r"
proof -
  from assms have "takeWhile word_char s = w" "dropWhile word_char s = CHR 0x7D # r"
    by (auto simp: hole_at_def Let_def split: if_split_asm list.splits)
  with takeWhile_dropWhile_id [of word_char s] show ?thesis by metis
qed

lemma pieces_text: "concat (map (\<lambda>p. case p of Hole w \<Rightarrow> CHR 0x7B # w @ [CHR 0x7D] | Lit c \<Rightarrow> [c]) (pieces s)) = s"
proof (induction s rule: pieces.induct)
  case (2 c cs)
  show ?case
  proof (cases "c = CHR 0x7B")
    case True
    show ?thesis
    proof (cases "hole_at cs")
      case (Some p)
      obtain w r where p: "p = (w, r)" by (cases p)
      with hole_at_text Some have "cs = w @ CHR 0x7D # r" by simp
      with 2(2) [OF True Some p [symmetric]] True Some p show ?thesis by simp
    qed (use 2 True in simp)
  next
    case False
    with 2 show ?thesis by simp
  qed
qed simp

text \<open>A value without a brace cannot make a hole of its own.\<close>

lemma brace_in_fill:
  assumes "CHR 0x7B \<in> set (fill_with f s)"
  shows "Lit (CHR 0x7B) \<in> set (pieces s) \<or> (\<exists>w \<in> set (holes s). CHR 0x7B \<in> set (f w))"
proof -
  from assms obtain p where p: "p \<in> set (pieces s)" and c: "CHR 0x7B \<in> set (case p of Hole w \<Rightarrow> f w | Lit c \<Rightarrow> [c])"
    unfolding fill_with_def by auto
  show ?thesis
  proof (cases p)
    case (Hole w)
    with p have "w \<in> set (holes s)" unfolding holes_def by force
    with Hole c show ?thesis by auto
  next
    case (Lit d)
    with p c show ?thesis by simp
  qed
qed

lemma holes_need_brace: "CHR 0x7B \<notin> set s \<Longrightarrow> holes s = []"
  by (induction s) (auto simp: holes_def)

lemma brace_in_join: "c \<in> set (join sep ws) \<Longrightarrow> c \<notin> set sep \<Longrightarrow> \<exists>w \<in> set ws. c \<in> set w"
  using join_chars by blast

text \<open>A reason reads without a hole: it is the English text of the server, or a wording all of whose holes were filled,
  as long as the wording has no other brace and the values have none.\<close>

theorem reason_has_no_hole:
  assumes "Lit (CHR 0x7B) \<notin> set (pieces (t (reason_key t pre r)))"
    and "\<And>k a. (k, a) \<in> set (rs_args r) \<Longrightarrow> CHR 0x7B \<notin> set (arg_text a)"
  shows "sayReason t pre r = rs_text r
         \<or> holes (sayReason t pre r) = [] \<and> set (holes (t (reason_key t pre r))) \<subseteq> fst ` set (rs_args r)"
proof (cases "sayReason t pre r = rs_text r")
  case False
  let ?w = "t (reason_key t pre r)"
  from False have s: "sayReason t pre r = fill_with (arg_value (rs_args r)) ?w"
    and h: "\<not> list_ex (\<lambda>k. map_of (rs_args r) k = None) (holes ?w)"
    by (auto simp: sayReason_def Let_def split: if_split_asm)
  have sub: "set (holes ?w) \<subseteq> fst ` set (rs_args r)" using h by (auto simp: list_ex_iff map_of_eq_None_iff)
  have "CHR 0x7B \<notin> set (arg_value (rs_args r) w)" if "w \<in> set (holes ?w)" for w
  proof -
    from h that obtain a where "map_of (rs_args r) w = Some a" by (auto simp: list_ex_iff)
    with assms(2) map_of_SomeD [OF this] show ?thesis by (simp add: arg_value_def)
  qed
  with brace_in_fill [of "arg_value (rs_args r)" ?w] assms(1) s have "CHR 0x7B \<notin> set (sayReason t pre r)" by metis
  with sub show ?thesis by (simp add: holes_need_brace)
qed simp

section \<open>The check of the dialog\<close>

record preview =
  pv_reason :: string
  pv_guests :: int
  pv_headroom :: bool
  pv_over :: "string list"

definition maintPreviewText :: "(string \<Rightarrow> string) \<Rightarrow> preview option \<Rightarrow> string" where
  "maintPreviewText t p =
     (case p of
        None \<Rightarrow> []
      | Some v \<Rightarrow>
          if pv_reason v = ''no_target_nodes'' \<and> 0 < pv_guests v then t ''maintPreviewNoTargets''
          else if \<not> pv_headroom v then t ''maintPreviewNoHeadroom'' @ '' '' @ t ''maintPreviewProceed''
          else if pv_over v \<noteq> [] then t ''maintPreviewOverThreshold'' @ join '', '' (pv_over v) @ '' '' @ t ''maintPreviewProceed''
          else [])"

record hit_guest =
  gr_name :: string
  gr_vmid :: int
  gr_critical :: bool
  gr_restore :: string
  gr_outcome :: string

record node_row =
  nr_node :: string
  nr_hot :: bool

record whatif_report =
  rp_level :: string
  rp_guests :: "hit_guest list"
  rp_moved :: int
  rp_restarted :: int
  rp_tenants :: "(string \<times> int) list"
  rp_nodes :: "node_row list"

datatype check = Checking | Checked whatif_report | Fallback string

datatype asking = Asking_whatif | Asking_preview | Asked

record maint =
  mt_check :: check
  mt_ack :: bool
  mt_asking :: asking
  mt_gone :: bool
  mt_confirmed :: nat

definition maint_new :: maint where
  "maint_new = \<lparr> mt_check = Checking, mt_ack = False, mt_asking = Asking_whatif, mt_gone = False, mt_confirmed = 0 \<rparr>"

definition blocked :: "maint \<Rightarrow> bool" where
  "blocked m = (case mt_check m of Checked r \<Rightarrow> rp_level r = ''blocked'' | _ \<Rightarrow> False)"

text \<open>No report also stands for a refusal, a lost answer and one without a verdict.\<close>

definition whatif_answer :: "whatif_report option \<Rightarrow> maint \<Rightarrow> maint" where
  "whatif_answer r m =
     (case r of
        Some rp \<Rightarrow> if rp_level rp \<noteq> []
                   then (if mt_gone m then m\<lparr> mt_asking := Asked \<rparr> else m\<lparr> mt_asking := Asked, mt_check := Checked rp \<rparr>)
                   else m\<lparr> mt_asking := Asking_preview \<rparr>
      | None \<Rightarrow> m\<lparr> mt_asking := Asking_preview \<rparr>)"

definition preview_answer :: "(string \<Rightarrow> string) \<Rightarrow> preview option \<Rightarrow> maint \<Rightarrow> maint" where
  "preview_answer t p m =
     (if mt_gone m then m\<lparr> mt_asking := Asked \<rparr>
      else m\<lparr> mt_asking := Asked, mt_check := Fallback (maintPreviewText t p) \<rparr>)"

datatype maint_event = Whatif "whatif_report option" | Preview "preview option" | Tick bool | Confirm | Gone

fun maint_exec :: "(string \<Rightarrow> string) \<Rightarrow> maint \<Rightarrow> maint_event \<Rightarrow> maint option" where
  "maint_exec t m (Whatif r) = (if mt_asking m = Asking_whatif then Some (whatif_answer r m) else None)"
| "maint_exec t m (Preview p) = (if mt_asking m = Asking_preview then Some (preview_answer t p m) else None)"
| "maint_exec t m (Tick b) = (if blocked m \<and> \<not> mt_gone m then Some (m\<lparr> mt_ack := b \<rparr>) else None)"
| "maint_exec t m Confirm =
     (if mt_gone m \<or> blocked m \<and> \<not> mt_ack m then None else Some (m\<lparr> mt_confirmed := Suc (mt_confirmed m) \<rparr>))"
| "maint_exec t m Gone = (if mt_gone m then None else Some (m\<lparr> mt_gone := True \<rparr>))"

text \<open>What the run says: a verdict that blocks, and the last tick after it.\<close>

definition says_blocked :: "maint_event \<Rightarrow> bool" where
  "says_blocked e = (case e of Whatif (Some r) \<Rightarrow> rp_level r = ''blocked'' | _ \<Rightarrow> False)"

fun ticked_last :: "maint_event list \<Rightarrow> bool" where
  "ticked_last [] = False"
| "ticked_last (Tick b # es) = b"
| "ticked_last (_ # es) = ticked_last es"

definition maint_inv :: "maint_event list \<Rightarrow> maint \<Rightarrow> bool" where
  "maint_inv es m \<longleftrightarrow>
     mt_ack m = ticked_last (rev es) \<and> (blocked m \<longrightarrow> list_ex says_blocked es)
     \<and> (\<not> mt_gone m \<and> list_ex says_blocked es \<longrightarrow> blocked m)
     \<and> (mt_asking m \<noteq> Asked \<longrightarrow> mt_check m = Checking \<and> \<not> list_ex says_blocked es)
     \<and> (mt_asking m = Asked \<and> \<not> mt_gone m \<longrightarrow> mt_check m \<noteq> Checking)"

lemmas maint_inv_defs = maint_inv_def blocked_def says_blocked_def

lemma maint_inv_step:
  assumes inv: "maint_inv es m" and e: "maint_exec t m e = Some m'"
  shows "maint_inv (es @ [e]) m'"
proof (cases e)
  case (Whatif r)
  with e have m': "m' = whatif_answer r m" and "mt_asking m = Asking_whatif" by (simp_all split: if_split_asm)
  with inv show ?thesis unfolding m' Whatif by (cases r) (simp_all add: maint_inv_defs whatif_answer_def)
next
  case (Preview p)
  with e have m': "m' = preview_answer t p m" and "mt_asking m = Asking_preview" by (simp_all split: if_split_asm)
  with inv show ?thesis unfolding m' Preview by (simp add: maint_inv_defs preview_answer_def)
next
  case (Tick b)
  with e have m': "m' = m\<lparr> mt_ack := b \<rparr>" by (simp split: if_split_asm)
  from inv show ?thesis unfolding m' Tick by (simp add: maint_inv_defs)
next
  case Confirm
  with e have m': "m' = m\<lparr> mt_confirmed := Suc (mt_confirmed m) \<rparr>" by (simp split: if_split_asm)
  from inv show ?thesis unfolding m' Confirm by (simp add: maint_inv_defs)
next
  case Gone
  with e have m': "m' = m\<lparr> mt_gone := True \<rparr>" by (simp split: if_split_asm)
  from inv show ?thesis unfolding m' Gone by (simp add: maint_inv_defs)
qed

interpretation maint_trace: trace_machine "maint_exec t" maint_new maint_inv for t
  by unfold_locales (simp add: maint_inv_defs maint_new_def, rule maint_inv_step)

text \<open>C29. Once the check said blocked, a node is taken into maintenance only while the tick is set; a refused or lost check
  leaves the button usable, and when both questions are answered the dialog does not say any more that it checks.\<close>

theorem blocked_needs_tick:
  assumes "run_exec (maint_exec t) maint_new es = Some m"
  shows "(maint_exec t m Confirm \<noteq> None \<longleftrightarrow> \<not> mt_gone m \<and> (list_ex says_blocked es \<longrightarrow> ticked_last (rev es)))
         \<and> (mt_check m = Checking \<longrightarrow> mt_asking m \<noteq> Asked \<or> mt_gone m)"
  using maint_trace.trace_run [OF assms] by (auto simp: maint_inv_def)

section \<open>What the dialog names\<close>

definition MAX_NAMED :: nat where "MAX_NAMED = 8"

definition named_guest :: "hit_guest \<Rightarrow> string" where
  "named_guest g = (if gr_name g = [] then show_int (gr_vmid g) else gr_name g) @ '' ('' @ show_int (gr_vmid g) @ '')''"

definition named :: "(string \<Rightarrow> string) \<Rightarrow> hit_guest list \<Rightarrow> string" where
  "named t gs =
     join '', '' (map named_guest (take MAX_NAMED gs))
     @ (if MAX_NAMED < length gs
        then '', '' @ fill (t ''maintDlgMore'') [(''n'', Num (int (length gs) - int MAX_NAMED))] else [])"

definition critical_guests :: "whatif_report \<Rightarrow> hit_guest list" where
  "critical_guests r = filter gr_critical (rp_guests r)"

definition unproven_guests :: "whatif_report \<Rightarrow> hit_guest list" where
  "unproven_guests r = filter (\<lambda>g. gr_restore g = ''not_proven'' \<or> gr_restore g = ''failing'') (rp_guests r)"

definition down_guests :: "whatif_report \<Rightarrow> hit_guest list" where
  "down_guests r = filter (\<lambda>g. gr_outcome g = ''down'') (rp_guests r)"

definition moving_guests :: "whatif_report \<Rightarrow> int" where
  "moving_guests r = rp_moved r + rp_restarted r"

definition tenants_hit :: "whatif_report \<Rightarrow> string list" where
  "tenants_hit r = map fst (filter (\<lambda>(n, a). 0 < a) (rp_tenants r))"

definition hot_nodes :: "whatif_report \<Rightarrow> string list" where
  "hot_nodes r = map nr_node (filter nr_hot (rp_nodes r))"

section \<open>The plan of an evacuation\<close>

record template_row =
  tp_vmid :: int
  tp_name :: string
  tp_node :: string
  tp_reason :: string
  tp_code :: string
  tp_drive :: string
  tp_storage :: string
  tp_storages :: string
  tp_targets :: "string list"

record rule_row =
  rl_rule :: string
  rl_resources :: "string list"
  rl_blocks :: bool

record held_rule =
  hd_rule :: string
  hd_nodes :: "string list"
  hd_rolling :: bool

record plan =
  pl_error :: bool
  pl_supported :: bool
  pl_templates :: "template_row list"
  pl_rules :: "rule_row list option"
  pl_own :: nat
  pl_still_off :: "string list"
  pl_held :: "held_rule list"
  pl_balancer :: bool

definition error_plan :: plan where
  "error_plan = \<lparr> pl_error = True, pl_supported = True, pl_templates = [], pl_rules = None, pl_own = 0, pl_still_off = [],
     pl_held = [], pl_balancer = False \<rparr>"

text \<open>The hook: whether the dialog is open and for which address, the plan, the request that may still set it, and the address
  of every request made.\<close>

record evac =
  ep_open :: bool
  ep_url :: string
  ep_plan :: "plan option"
  ep_cur :: "nat option"
  ep_asked :: "string list"

definition evac_effect :: "evac \<Rightarrow> evac" where
  "evac_effect s =
     (if ep_open s then s\<lparr> ep_plan := None, ep_cur := Some (length (ep_asked s)), ep_asked := ep_asked s @ [ep_url s] \<rparr>
      else s\<lparr> ep_cur := None \<rparr>)"

definition evac_new :: "bool \<Rightarrow> string \<Rightarrow> evac" where
  "evac_new opn url = evac_effect \<lparr> ep_open = opn, ep_url = url, ep_plan = None, ep_cur = None, ep_asked = [] \<rparr>"

datatype evac_event = Props bool string | Plan_answer nat "plan option" | Unmounted

definition settled_plan :: "plan option \<Rightarrow> plan" where
  "settled_plan r = (case r of None \<Rightarrow> error_plan | Some p \<Rightarrow> p)"

fun evac_exec :: "evac \<Rightarrow> evac_event \<Rightarrow> evac option" where
  "evac_exec s (Props opn url) =
     Some (if opn = ep_open s \<and> url = ep_url s then s else evac_effect (s\<lparr> ep_open := opn, ep_url := url \<rparr>))"
| "evac_exec s (Plan_answer i r) =
     (if i < length (ep_asked s)
      then Some (if ep_cur s = Some i then s\<lparr> ep_plan := Some (settled_plan r) \<rparr> else s) else None)"
| "evac_exec s Unmounted = Some (s\<lparr> ep_cur := None \<rparr>)"

definition evac_inv :: "evac_event list \<Rightarrow> evac \<Rightarrow> bool" where
  "evac_inv es s \<longleftrightarrow>
     (\<forall>i. ep_cur s = Some i \<longrightarrow> i < length (ep_asked s) \<and> ep_asked s ! i = ep_url s \<and> ep_open s)
     \<and> (ep_open s \<longrightarrow> (\<forall>p. ep_plan s = Some p \<longrightarrow>
          (\<exists>i r. i < length (ep_asked s) \<and> ep_asked s ! i = ep_url s \<and> Plan_answer i r \<in> set es \<and> p = settled_plan r)))"

lemma evac_inv_effect: "evac_inv es s \<Longrightarrow> evac_inv es' (evac_effect (s\<lparr> ep_open := opn, ep_url := url \<rparr>))"
  by (simp add: evac_inv_def evac_effect_def nth_append)

lemma evac_inv_mono: "evac_inv es s \<Longrightarrow> evac_inv (es @ [e]) s"
  unfolding evac_inv_def by (simp, blast)

lemma evac_inv_step:
  assumes inv: "evac_inv es s" and e: "evac_exec s e = Some s'"
  shows "evac_inv (es @ [e]) s'"
proof (cases e)
  case (Props opn url)
  with e evac_inv_effect [OF inv] evac_inv_mono [OF inv, of e] show ?thesis by (auto split: if_split_asm)
next
  case (Plan_answer i r)
  show ?thesis
  proof (cases "ep_cur s = Some i")
    case True
    with Plan_answer e have s': "s' = s\<lparr> ep_plan := Some (settled_plan r) \<rparr>" by (simp split: if_split_asm)
    from True inv show ?thesis unfolding s' Plan_answer evac_inv_def by auto
  next
    case False
    with Plan_answer e evac_inv_mono [OF inv, of e] show ?thesis by (simp split: if_split_asm)
  qed
next
  case Unmounted
  with e have s': "s' = s\<lparr> ep_cur := None \<rparr>" by simp
  from evac_inv_mono [OF inv, of e] show ?thesis unfolding s' by (simp add: evac_inv_def)
qed

interpretation evac_trace: trace_machine evac_exec "evac_new opn url" evac_inv for opn url
  by unfold_locales (simp add: evac_inv_def evac_new_def evac_effect_def, rule evac_inv_step)

text \<open>While the dialog is open, the plan it shows is the answer to a request for the address it is open with, however the
  answers of earlier openings and other nodes come in.\<close>

theorem plan_of_url:
  assumes "run_exec evac_exec (evac_new opn url) es = Some s" and "ep_open s" and "ep_plan s = Some p"
  shows "\<exists>i r. ep_asked s ! i = ep_url s \<and> i < length (ep_asked s) \<and> Plan_answer i r \<in> set es \<and> p = settled_plan r"
  using evac_trace.trace_run [OF assms(1)] assms(2,3) unfolding evac_inv_def by blast

section \<open>What the options say about the plan\<close>

datatype evac_kind = Rolling | Schedule | Maint

definition put :: "string \<Rightarrow> string \<Rightarrow> string \<Rightarrow> string" where
  "put k v s = replace_first s (CHR 0x7B # k @ [CHR 0x7D]) v"

definition why_key :: "string \<Rightarrow> string option" where
  "why_key code = map_of [(''storage_list'', ''rollEvacWhyStorageList''), (''config'', ''rollEvacWhyConfig''),
     (''local_image'', ''rollEvacWhyLocalImage''), (''storage_missing'', ''rollEvacWhyStorageMissing''),
     (''storage_split'', ''rollEvacWhyStorageSplit'')] code"

definition templateWhy :: "(string \<Rightarrow> string) \<Rightarrow> template_row \<Rightarrow> string" where
  "templateWhy t tp =
     (case why_key (tp_code tp) of
        None \<Rightarrow> tp_reason tp
      | Some k \<Rightarrow> if t k = [] then tp_reason tp
                  else put ''storages'' (tp_storages tp) (put ''storage'' (tp_storage tp) (put ''drive'' (tp_drive tp) (t k))))"

definition template_line :: "(string \<Rightarrow> string) \<Rightarrow> template_row \<Rightarrow> string" where
  "template_line t tp = tp_name tp @ '' ('' @ show_int (tp_vmid tp) @ '', '' @ tp_node tp @ ''): ''
     @ (if tp_reason tp \<noteq> [] then templateWhy t tp else put ''nodes'' (join '', '' (tp_targets tp)) (t ''rollEvacTemplateMoves''))"

definition more_line :: "(string \<Rightarrow> string) \<Rightarrow> 'a list \<Rightarrow> string list" where
  "more_line t xs = (if 8 < length xs then [put ''n'' (show_nat (length xs - 8)) (t ''rollEvacMore'')] else [])"

definition planTemplates :: "(string \<Rightarrow> string) \<Rightarrow> evac_kind \<Rightarrow> bool \<Rightarrow> plan option \<Rightarrow> string list" where
  "planTemplates t kind migrate p =
     (case p of
        None \<Rightarrow> [t ''rollEvacPlanLoading'']
      | Some pl \<Rightarrow>
          if pl_error pl then [t ''rollEvacPlanError'']
          else if pl_templates pl = [] then [t (if kind = Maint then ''maintEvacNoTemplates'' else ''rollEvacNoTemplates'')]
          else if \<not> migrate
          then [put ''n'' (show_nat (length (pl_templates pl))) (t (if kind = Maint then ''maintEvacTemplatesStay'' else ''rollEvacTemplatesStay''))]
          else map (template_line t) (take 8 (pl_templates pl)) @ more_line t (pl_templates pl))"

definition rule_line :: "(string \<Rightarrow> string) \<Rightarrow> rule_row \<Rightarrow> string" where
  "rule_line t r = rl_rule r @ '': '' @ join '', '' (rl_resources r) @ (if rl_blocks r then '' - '' @ t ''rollEvacRuleBlocks'' else [])"

definition rules_off_key :: "evac_kind \<Rightarrow> bool \<Rightarrow> string" where
  "rules_off_key kind relax = (if \<not> relax then ''rollEvacRulesOn'' else if kind = Maint then ''maintEvacRulesOff'' else ''rollEvacRulesOff'')"

definition rule_lines :: "(string \<Rightarrow> string) \<Rightarrow> evac_kind \<Rightarrow> bool \<Rightarrow> rule_row list option \<Rightarrow> string list" where
  "rule_lines t kind relax rules =
     (case rules of
        None \<Rightarrow> [t ''rollEvacRulesUnreadable'']
      | Some rs \<Rightarrow>
          if rs = [] then [t (if kind = Maint then ''maintEvacNoRules'' else ''rollEvacNoRules'')]
          else t (rules_off_key kind relax) # map (rule_line t) (take 8 rs) @ more_line t rs)"

definition held_lines :: "(string \<Rightarrow> string) \<Rightarrow> held_rule list \<Rightarrow> string list" where
  "held_lines t hs =
     (let by_maint = filter (\<lambda>h. hd_nodes h \<noteq> []) hs; by_roll = filter hd_rolling hs
      in (if by_maint \<noteq> []
          then [put ''rules'' (join '', '' (map hd_rule by_maint))
                 (put ''nodes'' (join '', '' (rev (remdups (rev (concat (map hd_nodes by_maint)))))) (t ''evacHeldMaintenance''))] else [])
         @ (if by_roll \<noteq> [] then [put ''rules'' (join '', '' (map hd_rule by_roll)) (t ''evacHeldRolling'')] else []))"

definition own_key :: "evac_kind \<Rightarrow> bool \<Rightarrow> bool \<Rightarrow> string" where
  "own_key kind relax balancer =
     (if kind = Maint \<or> \<not> relax then ''rollEvacOwnEnforced'' else if balancer then ''rollEvacOwnHeld'' else ''rollEvacOwnHeldNoBalancer'')"

definition planRules :: "(string \<Rightarrow> string) \<Rightarrow> evac_kind \<Rightarrow> bool \<Rightarrow> plan option \<Rightarrow> string list" where
  "planRules t kind relax p =
     (case p of
        None \<Rightarrow> [t ''rollEvacPlanLoading'']
      | Some pl \<Rightarrow>
          if pl_error pl then [t ''rollEvacPlanError'']
          else rule_lines t kind relax (pl_rules pl) @ held_lines t (pl_held pl)
               @ (if 0 < pl_own pl then [put ''n'' (show_nat (pl_own pl)) (t (own_key kind relax (pl_balancer pl)))] else [])
               @ (if pl_still_off pl \<noteq> [] then [put ''rules'' (join '', '' (pl_still_off pl)) (t ''rollEvacStillOff'')] else []))"

text \<open>What is hidden: nothing of a plan the server does not support, the plans of a run that skips the evacuation.\<close>

definition evac_sections :: "(string \<Rightarrow> string) \<Rightarrow> evac_kind \<Rightarrow> bool \<Rightarrow> bool \<Rightarrow> bool \<Rightarrow> plan option \<Rightarrow> (string list \<times> string list) option" where
  "evac_sections t kind skip migrate relax p =
     (case p of
        Some pl \<Rightarrow> if \<not> pl_supported pl then None
                   else Some (if skip then ([], []) else (planTemplates t kind migrate p, planRules t kind relax p))
      | None \<Rightarrow> Some (if skip then ([], []) else (planTemplates t kind migrate p, planRules t kind relax p)))"

text \<open>The options of a maintenance; a tick sets its own and leaves the other.\<close>

record maint_options =
  mo_migrate_templates :: bool
  mo_relax :: bool

definition tick_templates :: "bool \<Rightarrow> maint_options \<Rightarrow> maint_options" where
  "tick_templates on v = v\<lparr> mo_migrate_templates := on \<rparr>"

definition tick_relax :: "bool \<Rightarrow> maint_options \<Rightarrow> maint_options" where
  "tick_relax on v = v\<lparr> mo_relax := on \<rparr>"

section \<open>Concrete runs\<close>

definition few_cpus :: reason where
  "few_cpus = \<lparr> rs_code = ''cpu'', rs_variant = [], rs_args = [(''count'', One (Num 2)), (''nodes'', Many [Str ''a'', Str ''b''])],
     rs_text = ''2 nodes'' \<rparr>"

definition english :: "string \<Rightarrow> string" where
  "english k = (if k = ''pf_cpu'' then CHR 0x7B # ''nodes'' @ [CHR 0x7D] else k)"

lemma few_cpus_key: "reason_key english ''pf_'' few_cpus = ''pf_cpu''"
  by code_simp

lemma few_cpus_said: "sayReason english ''pf_'' few_cpus = ''a, b''"
  by code_simp

lemma few_cpus_pieces: "pieces (english ''pf_cpu'') = [Hole ''nodes'']"
  by code_simp

lemma reason_has_no_hole_witness: "holes (sayReason english ''pf_'' few_cpus) = []"
proof -
  have "CHR 0x7B \<notin> set (arg_text a)" if "(k, a) \<in> set (rs_args few_cpus)" for k a
  proof -
    from that have "a = One (Num 2) \<or> a = Many [Str ''a'', Str ''b'']" by (auto simp: few_cpus_def)
    moreover have "CHR 0x7B \<notin> set (arg_text (One (Num 2)))" "CHR 0x7B \<notin> set (arg_text (Many [Str ''a'', Str ''b'']))"
      by code_simp+
    ultimately show ?thesis by blast
  qed
  then have "sayReason english ''pf_'' few_cpus = rs_text few_cpus \<or> holes (sayReason english ''pf_'' few_cpus) = []"
    using reason_has_no_hole [of english "''pf_''" few_cpus] by (auto simp: few_cpus_key few_cpus_pieces)
  moreover have "rs_text few_cpus = ''2 nodes''" by (simp add: few_cpus_def)
  ultimately show ?thesis by (simp add: few_cpus_said)
qed

definition no_room :: whatif_report where
  "no_room = \<lparr> rp_level = ''blocked'', rp_guests = [], rp_moved = 0, rp_restarted = 0, rp_tenants = [], rp_nodes = [] \<rparr>"

definition stopped :: maint where
  "stopped = maint_new\<lparr> mt_check := Checked no_room, mt_asking := Asked \<rparr>"

lemma stopped_run: "run_exec (maint_exec english) maint_new [Whatif (Some no_room)] = Some stopped"
  by (simp add: maint_new_def whatif_answer_def no_room_def stopped_def)

lemma blocked_needs_tick_witness: "maint_exec english stopped Confirm = None"
  using blocked_needs_tick [OF stopped_run] by (simp add: says_blocked_def no_room_def)

definition two_nodes :: evac where
  "two_nodes = \<lparr> ep_open = True, ep_url = ''b'', ep_plan = Some error_plan, ep_cur = Some 1, ep_asked = [''a'', ''b''] \<rparr>"

lemma two_nodes_run:
  "run_exec evac_exec (evac_new True ''a'')
     [Props True ''b'', Plan_answer 1 None, Plan_answer 0 (Some (error_plan\<lparr> pl_error := False \<rparr>))] = Some two_nodes"
  by (simp add: evac_new_def evac_effect_def two_nodes_def settled_plan_def)

lemma plan_of_url_witness: "\<exists>i. ep_asked two_nodes ! i = ''b'' \<and> i < 2"
proof -
  have "ep_open two_nodes" "ep_plan two_nodes = Some error_plan" by (simp_all add: two_nodes_def)
  from plan_of_url [OF two_nodes_run this] show ?thesis by (auto simp: two_nodes_def)
qed

end
