(* ===== verification/Guest_Create.thy ===== *)
theory Guest_Create
  imports Js_Values Complex_Main
begin

text \<open>
  The wizard that creates a guest (\<open>CreateVmModal\<close> in web/src/create_modals.js, with \<open>handleCreateVm\<close> of
  web/src/dashboard.js): six pages over one configuration, lists that are asked for whenever the node changes, and a
  request with the whole configuration at the end. A request for a list keeps the configuration of the render that made
  it, because its answer looks at that one. Pages are markup; a field is set by its name. Amounts of memory are rational.

  \<^item> \<open>named_guest_created\<close>: with the pages in a row, a guest without a name is not created.
  \<^item> \<open>typed_fields_kept\<close>: no answer touches a field but the four the wizard fills itself.
\<close>

section \<open>Lists of a node\<close>

record store =
  st_storage :: string
  st_type :: string
  st_content :: string

record bridge =
  br_iface :: string
  br_type :: string
  br_source :: string

definition STORAGE_FORMATS :: "(string \<times> string list) list" where
  "STORAGE_FORMATS =
     [(''zfspool'', [''raw'']), (''zfs'', [''raw'']), (''lvm'', [''qcow2'', ''raw'']), (''lvmthin'', [''qcow2'', ''raw'']),
      (''rbd'', [''raw'']), (''iscsi'', [''raw'']), (''iscsidirect'', [''raw'']), (''dir'', [''raw'', ''qcow2'', ''vmdk'']),
      (''nfs'', [''raw'', ''qcow2'', ''vmdk'']), (''cifs'', [''raw'', ''qcow2'', ''vmdk'']),
      (''glusterfs'', [''raw'', ''qcow2'', ''vmdk'']), (''cephfs'', [''raw'', ''qcow2'', ''vmdk'']),
      (''btrfs'', [''raw'', ''qcow2'', ''vmdk''])]"

definition getAllowedFormats :: "store list \<Rightarrow> string \<Rightarrow> string list" where
  "getAllowedFormats ss name =
     (case find (\<lambda>s. st_storage s = name) ss of
        None \<Rightarrow> [''raw'', ''qcow2'', ''vmdk'']
      | Some s \<Rightarrow> (case map_of STORAGE_FORMATS (st_type s) of None \<Rightarrow> [''raw'', ''qcow2'', ''vmdk''] | Some f \<Rightarrow> f))"

text \<open>The value the field of the format shows.\<close>

definition shown_format :: "store list \<Rightarrow> string \<Rightarrow> string \<Rightarrow> string" where
  "shown_format ss storage f = (if length (getAllowedFormats ss storage) = 1 then [] else f)"

definition diskStorages :: "store list \<Rightarrow> store list" where
  "diskStorages = filter (\<lambda>s. js_includes (st_content s) ''images'' \<or> js_includes (st_content s) ''rootdir''
     \<or> st_type s \<in> set [''lvmthin'', ''lvm'', ''zfspool'', ''rbd'', ''dir''])"

definition defaultStorage :: "store list \<Rightarrow> string" where
  "defaultStorage ss = (case find (\<lambda>s. st_storage s = ''local-lvm'') ss of Some s \<Rightarrow> st_storage s | None \<Rightarrow> st_storage (hd ss))"

definition defaultBridge :: "bridge list \<Rightarrow> string" where
  "defaultBridge bs =
     (case find (\<lambda>b. br_iface b = ''vmbr0'') bs of
        Some b \<Rightarrow> br_iface b
      | None \<Rightarrow> (case find (\<lambda>b. br_type b = ''bridge'' \<or> br_type b = ''OVSBridge'') bs of
          Some b \<Rightarrow> br_iface b
        | None \<Rightarrow> (case find (\<lambda>b. br_source b = ''sdn'') bs of Some b \<Rightarrow> br_iface b | None \<Rightarrow> br_iface (hd bs))))"

section \<open>The configuration\<close>

text \<open>\<open>setConfig({...config, k: v})\<close>.\<close>

definition set_field :: "string \<Rightarrow> jval \<Rightarrow> obj \<Rightarrow> obj" where
  "set_field k v c = spread c [(k, v)]"

definition field_of :: "obj \<Rightarrow> string \<Rightarrow> string" where
  "field_of c k = (case prop_of c k of Str s \<Rightarrow> s | _ \<Rightarrow> [])"

definition config_new :: "bool \<Rightarrow> string \<Rightarrow> obj" where
  "config_new isQemu node =
     [(''node'', Str node), (''vmid'', Str []), (''name'', Str []), (''ostype'', Str ''l26''), (''iso'', Str []), (''virtio_iso'', Str []),
      (''template'', Str []), (''password'', Str []), (''cores'', Num 2), (''sockets'', Num 1), (''memory'', Num 2048),
      (''memoryUnit'', Str ''GB''), (''cpu_affinity'', Str []), (''numa'', Bool False), (''min_memory'', Str []),
      (''min_memoryUnit'', Str ''MB''), (''ballooning'', Bool True), (''shares'', Num 1000), (''storage'', Str ''local-lvm''),
      (''disk_size'', Str (if isQemu then ''32'' else ''8'')), (''disk_type'', Str ''scsi''), (''disk_format'', Str []), (''disk_cache'', Str []),
      (''disk_discard'', Bool True), (''disk_iothread'', Bool True), (''disk_ssd'', Bool False), (''net_bridge'', Str ''vmbr0''),
      (''net_model'', Str ''virtio''), (''net_firewall'', Bool True), (''net_tag'', Str []), (''net_ip'', Str ''dhcp''), (''net_gw'', Str []),
      (''net_macaddr'', Str []), (''net_disconnect'', Bool False), (''net_mtu'', Str []), (''net_rate'', Str []), (''cpu'', Str ''host''),
      (''bios'', Str ''seabios''), (''machine'', Str ''i440fx''), (''scsihw'', Str ''virtio-scsi-single''), (''vga'', Str ''std''),
      (''agent'', Bool True), (''efi_storage'', Str []), (''efi_pre_enroll'', Bool True), (''efi_format'', Str []), (''tpm_storage'', Str []),
      (''tpm_version'', Str ''v2.0''), (''tpm_format'', Str []), (''ha_enabled'', Bool False), (''ha_group'', Str []),
      (''unprivileged'', Bool True), (''nesting'', Bool False), (''keyctl'', Bool False), (''fuse'', Bool False), (''swap'', Num 512),
      (''swapUnit'', Str ''MB''), (''ssh_public_keys'', Str []), (''net_ip_type'', Str ''dhcp''), (''net_ip6_type'', Str ''dhcp''),
      (''net_ip6'', Str []), (''net_gw6'', Str []), (''net_disconnected'', Bool False), (''dns_domain'', Str []), (''dns_servers'', Str []),
      (''onboot'', Bool False), (''start'', Bool False), (''install_method'', Str ''template''), (''os_type'', Str ''linux''),
      (''iso_uuid'', Str []), (''boot_order'', Str ''dc'')]"

text \<open>The quick templates.\<close>

definition VM_PRESETS :: "(string \<times> obj) list" where
  "VM_PRESETS =
     [(''Ubuntu 24.04 LTS'',
       [(''ostype'', Str ''l26''), (''cores'', Num 2), (''sockets'', Num 1), (''memory'', Num 2048), (''disk_size'', Str ''32''), (''cpu'', Str ''host''),
        (''agent'', Bool True), (''bios'', Str ''seabios''), (''machine'', Str ''i440fx''), (''scsihw'', Str ''virtio-scsi-single''),
        (''net_model'', Str ''virtio''), (''disk_type'', Str ''scsi''), (''disk_discard'', Bool True), (''disk_iothread'', Bool True)]),
      (''Windows Server 2022'',
       [(''ostype'', Str ''win11''), (''cores'', Num 4), (''sockets'', Num 1), (''memory'', Num 4096), (''disk_size'', Str ''64''), (''cpu'', Str ''host''),
        (''agent'', Bool True), (''bios'', Str ''ovmf''), (''machine'', Str ''q35''), (''scsihw'', Str ''virtio-scsi-single''),
        (''net_model'', Str ''virtio''), (''disk_type'', Str ''scsi''), (''disk_discard'', Bool True)]),
      (''Windows 11'',
       [(''ostype'', Str ''win11''), (''cores'', Num 4), (''sockets'', Num 1), (''memory'', Num 8192), (''disk_size'', Str ''64''), (''cpu'', Str ''host''),
        (''agent'', Bool True), (''bios'', Str ''ovmf''), (''machine'', Str ''q35''), (''scsihw'', Str ''virtio-scsi-single''),
        (''net_model'', Str ''virtio''), (''disk_type'', Str ''scsi''), (''tpm_version'', Str ''v2.0'')]),
      (''Minimal Linux'',
       [(''ostype'', Str ''l26''), (''cores'', Num 1), (''sockets'', Num 1), (''memory'', Num 512), (''disk_size'', Str ''8''), (''cpu'', Str ''host''),
        (''agent'', Bool False), (''bios'', Str ''seabios''), (''net_model'', Str ''virtio''), (''disk_type'', Str ''virtio'')])]"

text \<open>Fields that set others.\<close>

definition set_bios :: "string \<Rightarrow> obj \<Rightarrow> obj" where
  "set_bios b c = spread c [(''bios'', Str b), (''machine'', if b = ''ovmf'' then Str ''q35'' else prop_of c ''machine''),
     (''efi_storage'', if b = ''ovmf'' then prop_of c ''storage'' else Str [])]"

definition set_tpm :: "bool \<Rightarrow> obj \<Rightarrow> obj" where
  "set_tpm on c = set_field ''tpm_storage'' (if on then prop_of c ''storage'' else Str []) c"

definition set_ip_type :: "string \<Rightarrow> obj \<Rightarrow> obj" where
  "set_ip_type ty c = spread c [(''net_ip_type'', Str ty), (''net_ip'', Str (if ty = ''dhcp'' then ''dhcp'' else []))]"

definition set_ip6_type :: "string \<Rightarrow> obj \<Rightarrow> obj" where
  "set_ip6_type ty c = spread c [(''net_ip6_type'', Str ty),
     (''net_ip6'', Str (if ty = ''dhcp'' then ''dhcp'' else if ty = ''slaac'' then ''auto'' else []))]"

definition add_ssh_keys :: "string \<Rightarrow> obj \<Rightarrow> obj" where
  "add_ssh_keys x c = set_field ''ssh_public_keys''
     (Str (if field_of c ''ssh_public_keys'' \<noteq> [] then field_of c ''ssh_public_keys'' @ [CHR 0x0A] @ trim x else trim x)) c"

text \<open>\<open>Math.round(val * 1024)\<close> where the unit is GB; the field itself shows megabytes divided again.\<close>

definition memory_megabytes :: "string \<Rightarrow> rat \<Rightarrow> rat" where
  "memory_megabytes unit v = (if unit = ''GB'' then of_int \<lfloor>v * 1024 + 1 / 2\<rfloor> else v)"

definition memory_shown :: "string \<Rightarrow> rat \<Rightarrow> rat" where
  "memory_shown unit m = (if unit = ''GB'' then m / 1024 else m)"

text \<open>A whole or half number of gigabytes is shown as it was entered.\<close>

lemma memory_reads_back: "2 * v = of_int n \<Longrightarrow> memory_shown u (memory_megabytes u v) = v"
proof -
  assume n: "2 * v = of_int n"
  have "v * 1024 = of_int (512 * n)" using n by simp
  then have "\<lfloor>v * 1024 + 1 / 2\<rfloor> = 512 * n" by linarith
  moreover have "of_int (512 * n) / 1024 = v" using n by simp
  ultimately show ?thesis by (simp add: memory_shown_def memory_megabytes_def)
qed

section \<open>State\<close>

datatype ask_kind = Ask_storages | Ask_bridges | Ask_isos | Ask_templates | Ask_nextid | Ask_ostypes

record list_ask =
  ak_kind :: ask_kind
  ak_node :: jval
  ak_cfg :: obj
  ak_open :: bool

record wizard_kind =
  wk_qemu :: bool
  wk_xcpng :: bool
  wk_corporate :: bool

record create_state =
  cw_step :: nat
  cw_loading :: bool
  cw_error :: "string option"
  cw_nodes :: "string list"
  cw_asked_nodes :: bool
  cw_storages :: "store list"
  cw_bridges :: "bridge list"
  cw_lists :: "(ask_kind \<times> obj list) list"
  cw_next :: jval
  cw_cfg :: obj
  cw_disks :: "obj list"
  cw_asks :: "list_ask list"
  cw_sent :: "(obj \<times> obj list) list"

definition last_page :: nat where "last_page = 5"

text \<open>The effect of another node: all its lists are asked for.\<close>

definition node_kinds :: "wizard_kind \<Rightarrow> ask_kind list" where
  "node_kinds w = [Ask_storages, Ask_bridges]
     @ (if wk_qemu w then Ask_isos # (if wk_xcpng w then [Ask_templates] else []) else [Ask_templates])
     @ [Ask_nextid] @ (if wk_xcpng w \<and> wk_qemu w then [Ask_ostypes] else [])"

definition load_node :: "wizard_kind \<Rightarrow> create_state \<Rightarrow> create_state" where
  "load_node w s =
     (if truthy (prop_of (cw_cfg s) ''node'')
      then s\<lparr> cw_asks := cw_asks s @ map (\<lambda>k. \<lparr> ak_kind = k, ak_node = prop_of (cw_cfg s) ''node'', ak_cfg = cw_cfg s, ak_open = True \<rparr>) (node_kinds w) \<rparr>
      else s)"

definition set_config :: "wizard_kind \<Rightarrow> obj \<Rightarrow> create_state \<Rightarrow> create_state" where
  "set_config w c s =
     (let s' = s\<lparr> cw_cfg := c \<rparr>
      in if prop_of c ''node'' = prop_of (cw_cfg s) ''node'' then s' else load_node w s')"

definition create_new :: "wizard_kind \<Rightarrow> string list \<Rightarrow> create_state" where
  "create_new w ns = load_node w
     \<lparr> cw_step = 0, cw_loading = False, cw_error = None, cw_nodes = ns, cw_asked_nodes = (ns = []), cw_storages = [], cw_bridges = [],
       cw_lists = [], cw_next = Str [], cw_cfg = config_new (wk_qemu w) (if ns = [] then [] else hd ns), cw_disks = [],
       cw_asks = [], cw_sent = [] \<rparr>"

section \<open>Answers\<close>

datatype list_payload = Storages "store list" | Bridges "bridge list" | Rows "obj list" | Next_id jval

definition storage_list_answer :: "obj \<Rightarrow> store list \<Rightarrow> create_state \<Rightarrow> create_state" where
  "storage_list_answer c d s =
     (let s' = s\<lparr> cw_storages := d \<rparr>
      in if d \<noteq> [] \<and> find (\<lambda>x. Str (st_storage x) = prop_of c ''storage'') d = None
         then s'\<lparr> cw_cfg := set_field ''storage'' (Str (defaultStorage d)) (cw_cfg s) \<rparr> else s')"

definition bridges_answer :: "obj \<Rightarrow> bridge list \<Rightarrow> create_state \<Rightarrow> create_state" where
  "bridges_answer c d s =
     (let s' = s\<lparr> cw_bridges := d \<rparr>
      in if d \<noteq> [] \<and> find (\<lambda>x. Str (br_iface x) = prop_of c ''net_bridge'') d = None
         then s'\<lparr> cw_cfg := set_field ''net_bridge'' (Str (defaultBridge d)) (cw_cfg s) \<rparr> else s')"

definition nextid_answer :: "obj \<Rightarrow> jval \<Rightarrow> create_state \<Rightarrow> create_state" where
  "nextid_answer c v s =
     (let s' = s\<lparr> cw_next := v \<rparr>
      in if truthy (prop_of c ''vmid'') then s' else s'\<lparr> cw_cfg := set_field ''vmid'' v (cw_cfg s) \<rparr>)"

text \<open>An answer that fits its question; none stands for a refusal or a lost one.\<close>

fun fill_list :: "list_ask \<Rightarrow> list_payload option \<Rightarrow> create_state \<Rightarrow> create_state option" where
  "fill_list a None s = Some s"
| "fill_list a (Some (Storages d)) s = (if ak_kind a = Ask_storages then Some (storage_list_answer (ak_cfg a) d s) else None)"
| "fill_list a (Some (Bridges d)) s = (if ak_kind a = Ask_bridges then Some (bridges_answer (ak_cfg a) d s) else None)"
| "fill_list a (Some (Next_id v)) s = (if ak_kind a = Ask_nextid then Some (nextid_answer (ak_cfg a) v s) else None)"
| "fill_list a (Some (Rows r)) s =
     (if ak_kind a \<in> {Ask_isos, Ask_templates, Ask_ostypes} then Some (s\<lparr> cw_lists := AList.update (ak_kind a) r (cw_lists s) \<rparr>) else None)"

definition node_names_answer :: "wizard_kind \<Rightarrow> string list option \<Rightarrow> create_state \<Rightarrow> create_state" where
  "node_names_answer w r s =
     (case r of
        None \<Rightarrow> s\<lparr> cw_asked_nodes := False \<rparr>
      | Some ns \<Rightarrow>
          (let ns' = filter (\<lambda>n. n \<noteq> []) ns; s' = s\<lparr> cw_asked_nodes := False, cw_nodes := ns' \<rparr>
           in if ns' = [] then s' else set_config w (set_field ''node'' (Str (hd ns')) (cw_cfg s)) s'))"

section \<open>Pages and the request\<close>

definition has_name :: "obj \<Rightarrow> bool" where
  "has_name c \<longleftrightarrow> trim (field_of c ''name'') \<noteq> []"

definition validateCreateStep :: "wizard_kind \<Rightarrow> nat \<Rightarrow> create_state \<Rightarrow> string option" where
  "validateCreateStep w n s =
     (if n = 0 \<and> \<not> has_name (cw_cfg s) then Some ''name''
      else if n = 3 \<and> wk_qemu w \<and> \<not> wk_xcpng w \<and> \<not> truthy (prop_of (cw_cfg s) ''storage'') then Some ''storage'' else None)"

definition next_step :: "wizard_kind \<Rightarrow> create_state \<Rightarrow> create_state" where
  "next_step w s =
     (let e = validateCreateStep w (cw_step s) s; s' = s\<lparr> cw_error := e \<rparr>
      in if e = None then s'\<lparr> cw_step := Suc (cw_step s) \<rparr> else s')"

text \<open>\<open>handleCreate\<close> and what \<open>handleCreateVm\<close> posts: the node of the address and the whole configuration.\<close>

definition can_create :: "wizard_kind \<Rightarrow> create_state \<Rightarrow> bool" where
  "can_create w s \<longleftrightarrow> cw_step s = last_page \<and> \<not> cw_loading s \<and> (wk_qemu w \<or> truthy (prop_of (cw_cfg s) ''template''))"

definition handleCreate :: "create_state \<Rightarrow> create_state" where
  "handleCreate s = s\<lparr> cw_loading := True, cw_sent := cw_sent s @ [(cw_cfg s, cw_disks s)] \<rparr>"

definition create_url :: "string \<Rightarrow> bool \<Rightarrow> obj \<Rightarrow> string" where
  "create_url base qemu c = base @ ''/nodes/'' @ to_str (prop_of c ''node'') @ (if qemu then ''/qemu'' else ''/lxc'')"

section \<open>Disks\<close>

definition append_disk :: "wizard_kind \<Rightarrow> create_state \<Rightarrow> create_state" where
  "append_disk w s = s\<lparr> cw_disks := cw_disks s @
     [if wk_qemu w
      then [(''type'', Str ''scsi''), (''storage'', prop_of (cw_cfg s) ''storage''), (''size'', Str ''32''), (''format'', Str []), (''cache'', Str []),
            (''discard'', Bool True), (''iothread'', Bool True), (''ssd'', Bool False)]
      else [(''storage'', prop_of (cw_cfg s) ''storage''), (''size'', Str ''8''),
            (''path'', Str (''/mnt/data'' @ show_nat (length (cw_disks s))))]] \<rparr>"

definition drop_disk :: "nat \<Rightarrow> create_state \<Rightarrow> create_state" where
  "drop_disk i s = s\<lparr> cw_disks := drop_nth i (cw_disks s) \<rparr>"

definition set_disk :: "nat \<Rightarrow> string \<Rightarrow> jval \<Rightarrow> create_state \<Rightarrow> create_state" where
  "set_disk i k v s = s\<lparr> cw_disks := (cw_disks s)[i := set_field k v (cw_disks s ! i)] \<rparr>"

section \<open>Steps\<close>

text \<open>Name and identifier are fields of the first page; a list of disks is no field.\<close>

datatype create_event =
    Field string jval
  | Bios string
  | Tpm bool
  | Ip_type string
  | Ip6_type string
  | Ssh_file string
  | Preset nat
  | Add_disk
  | Remove_disk nat
  | Disk_field nat string jval
  | Goto nat
  | Back
  | Next
  | Create
  | Created
  | Answer nat "list_payload option"
  | Nodes "string list option"

fun create_exec :: "wizard_kind \<Rightarrow> create_state \<Rightarrow> create_event \<Rightarrow> create_state option" where
  "create_exec w s (Field k v) =
     (if k = ''additional_disks'' \<or> (k \<in> {''node'', ''vmid'', ''name''} \<and> cw_step s \<noteq> 0) then None
      else Some (set_config w (set_field k v (cw_cfg s))
             (if k = ''name'' \<and> cw_error s = Some ''name'' then s\<lparr> cw_error := None \<rparr> else s)))"
| "create_exec w s (Bios b) = Some (s\<lparr> cw_cfg := set_bios b (cw_cfg s) \<rparr>)"
| "create_exec w s (Tpm on) = Some (s\<lparr> cw_cfg := set_tpm on (cw_cfg s) \<rparr>)"
| "create_exec w s (Ip_type ty) = Some (s\<lparr> cw_cfg := set_ip_type ty (cw_cfg s) \<rparr>)"
| "create_exec w s (Ip6_type ty) = Some (s\<lparr> cw_cfg := set_ip6_type ty (cw_cfg s) \<rparr>)"
| "create_exec w s (Ssh_file x) = Some (s\<lparr> cw_cfg := add_ssh_keys x (cw_cfg s) \<rparr>)"
| "create_exec w s (Preset i) =
     (if wk_qemu w \<and> cw_step s = 0 \<and> i < length VM_PRESETS
      then Some (s\<lparr> cw_cfg := spread (cw_cfg s) (snd (VM_PRESETS ! i)) \<rparr>) else None)"
| "create_exec w s Add_disk = Some (append_disk w s)"
| "create_exec w s (Remove_disk i) = (if i < length (cw_disks s) then Some (drop_disk i s) else None)"
| "create_exec w s (Disk_field i k v) = (if i < length (cw_disks s) then Some (set_disk i k v s) else None)"
| "create_exec w s (Goto n) =
     (if last_page < n \<or> wk_corporate w \<and> cw_step s < n then None else Some (s\<lparr> cw_step := n \<rparr>))"
| "create_exec w s Back = (if cw_step s = 0 then None else Some (s\<lparr> cw_step := cw_step s - 1 \<rparr>))"
| "create_exec w s Next = (if cw_step s < last_page then Some (next_step w s) else None)"
| "create_exec w s Create = (if can_create w s then Some (handleCreate s) else None)"
| "create_exec w s Created = (if cw_loading s then Some (s\<lparr> cw_loading := False \<rparr>) else None)"
| "create_exec w s (Answer i r) =
     (if i < length (cw_asks s) \<and> ak_open (cw_asks s ! i)
      then fill_list (cw_asks s ! i) r (s\<lparr> cw_asks := (cw_asks s)[i := (cw_asks s ! i)\<lparr> ak_open := False \<rparr>] \<rparr>) else None)"
| "create_exec w s (Nodes r) = (if cw_asked_nodes s then Some (node_names_answer w r s) else None)"

section \<open>Fields\<close>

lemma prop_of_set_field: "prop_of (set_field k v c) f = (if f = k then v else prop_of c f)"
  by (simp add: set_field_def spread_def prop_of_update)

lemma prop_of_bios: "prop_of (set_bios b c) f = (if f = ''bios'' then Str b
    else if f = ''machine'' then (if b = ''ovmf'' then Str ''q35'' else prop_of c ''machine'')
    else if f = ''efi_storage'' then (if b = ''ovmf'' then prop_of c ''storage'' else Str []) else prop_of c f)"
  by (simp add: set_bios_def spread_def prop_of_update)

lemma prop_of_ip: "prop_of (set_ip_type ty c) f = (if f = ''net_ip_type'' then Str ty
    else if f = ''net_ip'' then Str (if ty = ''dhcp'' then ''dhcp'' else []) else prop_of c f)"
  by (simp add: set_ip_type_def spread_def prop_of_update)

lemma prop_of_ip6: "prop_of (set_ip6_type ty c) f = (if f = ''net_ip6_type'' then Str ty
    else if f = ''net_ip6'' then Str (if ty = ''dhcp'' then ''dhcp'' else if ty = ''slaac'' then ''auto'' else []) else prop_of c f)"
  by (simp add: set_ip6_type_def spread_def prop_of_update)

lemma preset_fields: "list_all (\<lambda>p. distinct (map fst (snd p)) \<and> ''name'' \<notin> set (map fst (snd p)) \<and> ''node'' \<notin> set (map fst (snd p))) VM_PRESETS"
  by code_simp

lemma prop_of_preset:
  assumes "i < length VM_PRESETS"
  shows "prop_of (spread c (snd (VM_PRESETS ! i))) f
         = (if f \<in> fst ` set (snd (VM_PRESETS ! i)) then prop_of (snd (VM_PRESETS ! i)) f else prop_of c f)"
    and "''name'' \<notin> fst ` set (snd (VM_PRESETS ! i))"
  using preset_fields assms nth_mem [OF assms] by (auto simp: list_all_iff prop_of_spread)

lemmas field_simps' = prop_of_set_field prop_of_bios prop_of_ip prop_of_ip6

lemma load_node_keeps [simp]:
  "cw_cfg (load_node w s) = cw_cfg s" "cw_step (load_node w s) = cw_step s" "cw_sent (load_node w s) = cw_sent s"
  by (simp_all add: load_node_def)

lemma set_config_keeps [simp]:
  "cw_cfg (set_config w c s) = c" "cw_step (set_config w c s) = cw_step s" "cw_sent (set_config w c s) = cw_sent s"
  by (simp_all add: set_config_def Let_def)

text \<open>The fields the wizard fills itself, and those that copy one of them.\<close>

definition filled :: "string set" where
  "filled = {''node'', ''vmid'', ''storage'', ''net_bridge'', ''efi_storage'', ''tpm_storage''}"

lemma list_answer_keeps:
  assumes "fill_list a r s = Some s'"
  shows "cw_step s' = cw_step s" and "cw_sent s' = cw_sent s" and "f \<notin> filled \<Longrightarrow> prop_of (cw_cfg s') f = prop_of (cw_cfg s) f"
  using assms
  by (induction a r s rule: fill_list.induct)
     (auto simp: storage_list_answer_def bridges_answer_def nextid_answer_def Let_def prop_of_set_field filled_def split: if_split_asm)

lemma node_names_answer_keeps:
  "cw_step (node_names_answer w r s) = cw_step s" "cw_sent (node_names_answer w r s) = cw_sent s"
  "f \<notin> filled \<Longrightarrow> prop_of (cw_cfg (node_names_answer w r s)) f = prop_of (cw_cfg s) f"
  by (auto simp: node_names_answer_def Let_def prop_of_set_field filled_def split: option.split)

section \<open>What the user entered\<close>

fun typed_in :: "create_event \<Rightarrow> obj \<Rightarrow> obj" where
  "typed_in (Field k v) c = set_field k v c"
| "typed_in (Bios b) c = set_bios b c"
| "typed_in (Tpm on) c = set_tpm on c"
| "typed_in (Ip_type ty) c = set_ip_type ty c"
| "typed_in (Ip6_type ty) c = set_ip6_type ty c"
| "typed_in (Ssh_file x) c = add_ssh_keys x c"
| "typed_in (Preset i) c = spread c (snd (VM_PRESETS ! i))"
| "typed_in _ c = c"

definition agree :: "obj \<Rightarrow> obj \<Rightarrow> bool" where
  "agree c d \<longleftrightarrow> (\<forall>f. f \<notin> filled \<longrightarrow> prop_of c f = prop_of d f)"

lemma agree_typed:
  assumes "agree c d" and "\<And>i. e = Preset i \<Longrightarrow> i < length VM_PRESETS"
  shows "agree (typed_in e c) (typed_in e d)"
proof (cases e)
  case (Preset i)
  with assms(2) have i: "i < length VM_PRESETS" by simp
  from assms(1) show ?thesis unfolding Preset typed_in.simps agree_def prop_of_preset(1) [OF i] by simp
next
  case (Ssh_file x)
  have "field_of c ''ssh_public_keys'' = field_of d ''ssh_public_keys''"
    using assms(1) by (simp add: agree_def field_of_def filled_def)
  with Ssh_file assms(1) show ?thesis by (simp add: agree_def add_ssh_keys_def prop_of_set_field)
next
  case (Bios b)
  from assms(1) show ?thesis unfolding Bios typed_in.simps agree_def prop_of_bios by (simp add: filled_def)
next
  case (Tpm on)
  from assms(1) show ?thesis unfolding Tpm typed_in.simps agree_def set_tpm_def prop_of_set_field by (simp add: filled_def)
qed (use assms(1) in \<open>simp_all add: agree_def prop_of_set_field prop_of_ip prop_of_ip6\<close>)

lemma create_step_typed:
  assumes "create_exec w s e = Some s'"
  shows "agree (cw_cfg s') (typed_in e (cw_cfg s))"
proof (cases e)
  case (Answer i r)
  with assms have "fill_list (cw_asks s ! i) r (s\<lparr> cw_asks := (cw_asks s)[i := (cw_asks s ! i)\<lparr> ak_open := False \<rparr>] \<rparr>) = Some s'"
    by (simp split: if_split_asm)
  from list_answer_keeps(3) [OF this] Answer show ?thesis by (simp add: agree_def)
qed (use assms in \<open>auto simp: agree_def node_names_answer_keeps append_disk_def drop_disk_def set_disk_def next_step_def handleCreate_def Let_def
       split: if_split_asm\<close>)

text \<open>C27. Every field but those the wizard fills itself is what the user entered last, as if no list had been asked for: the
  answers of the server, their number and their order do not matter.\<close>

theorem typed_fields_kept:
  assumes "run_exec (create_exec w) (create_new w ns) es = Some s" and "f \<notin> filled"
  shows "prop_of (cw_cfg s) f = prop_of (fold typed_in es (config_new (wk_qemu w) [])) f"
proof -
  have "agree (cw_cfg s) (fold typed_in es d)"
    if "run_exec (create_exec w) s0 es = Some s" and "agree (cw_cfg s0) d" for s0 d
    using that
  proof (induction es arbitrary: s0 d)
    case (Cons e es)
    then obtain s1 where s1: "create_exec w s0 e = Some s1" and r: "run_exec (create_exec w) s1 es = Some s" by (auto split: option.splits)
    have "\<And>i. e = Preset i \<Longrightarrow> i < length VM_PRESETS" using s1 by (auto split: if_split_asm)
    with create_step_typed [OF s1] agree_typed [OF Cons.prems(2)] have "agree (cw_cfg s1) (typed_in e d)"
      unfolding agree_def by metis
    from Cons.IH [OF r this] show ?case by simp
  qed simp
  moreover have "agree (cw_cfg (create_new w ns)) (config_new (wk_qemu w) [])"
    by (simp add: create_new_def agree_def config_new_def prop_of_def filled_def)
  ultimately show ?thesis using assms by (auto simp: agree_def)
qed

section \<open>A name for every guest\<close>

definition names_ok :: "create_state \<Rightarrow> bool" where
  "names_ok s \<longleftrightarrow> (0 < cw_step s \<longrightarrow> has_name (cw_cfg s)) \<and> list_all (\<lambda>(c, d). has_name c) (cw_sent s)"

lemma named_cong: "prop_of c ''name'' = prop_of d ''name'' \<Longrightarrow> has_name c = has_name d"
  by (simp add: has_name_def field_of_def)

lemma name_not_filled: "''name'' \<notin> filled"
  by (simp add: filled_def)

text \<open>A field away from the first page, and every other event that enters something, leaves the name.\<close>

lemma name_kept:
  assumes "create_exec w s e = Some s'" and "0 < cw_step s \<or> (\<forall>k v. e \<noteq> Field k v)"
  shows "has_name (cw_cfg s') = has_name (cw_cfg s)"
proof -
  have "prop_of (typed_in e (cw_cfg s)) ''name'' = prop_of (cw_cfg s) ''name''"
  proof (cases e)
    case (Field k v)
    with assms have "k \<noteq> ''name''" by (auto split: if_split_asm)
    with Field show ?thesis by (simp add: prop_of_set_field)
  next
    case (Preset i)
    with assms(1) have i: "i < length VM_PRESETS" by (simp split: if_split_asm)
    from prop_of_preset(2) [OF this] show ?thesis unfolding Preset typed_in.simps prop_of_preset(1) [OF i] by simp
  qed (simp_all add: prop_of_set_field prop_of_bios prop_of_ip prop_of_ip6 set_tpm_def add_ssh_keys_def)
  moreover from create_step_typed [OF assms(1)] name_not_filled
  have "prop_of (cw_cfg s') ''name'' = prop_of (typed_in e (cw_cfg s)) ''name''" unfolding agree_def by blast
  ultimately show ?thesis by (intro named_cong) simp
qed

lemma create_exec_sent:
  assumes "create_exec w s e = Some s'"
  shows "cw_sent s' = cw_sent s \<or> cw_sent s' = cw_sent s @ [(cw_cfg s, cw_disks s)] \<and> 0 < cw_step s"
proof (cases e)
  case (Answer i r)
  with assms have "fill_list (cw_asks s ! i) r (s\<lparr> cw_asks := (cw_asks s)[i := (cw_asks s ! i)\<lparr> ak_open := False \<rparr>] \<rparr>) = Some s'"
    by (simp split: if_split_asm)
  from list_answer_keeps(2) [OF this] show ?thesis by simp
next
  case (Nodes r)
  with assms have "s' = node_names_answer w r s" by (simp split: if_split_asm)
  then show ?thesis by (simp add: node_names_answer_keeps)
next
  case Create
  with assms have "s' = handleCreate s" "can_create w s" by (simp_all split: if_split_asm)
  then show ?thesis by (simp add: handleCreate_def can_create_def last_page_def)
qed (use assms in \<open>auto simp: append_disk_def drop_disk_def set_disk_def next_step_def Let_def split: if_split_asm\<close>)

lemma create_exec_pages:
  assumes "wk_corporate w" and "create_exec w s e = Some s'"
  shows "cw_step s' \<le> cw_step s \<or> (cw_step s = 0 \<longrightarrow> has_name (cw_cfg s))"
proof (cases e)
  case (Answer i r)
  with assms have "fill_list (cw_asks s ! i) r (s\<lparr> cw_asks := (cw_asks s)[i := (cw_asks s ! i)\<lparr> ak_open := False \<rparr>] \<rparr>) = Some s'"
    by (simp split: if_split_asm)
  from list_answer_keeps(1) [OF this] show ?thesis by simp
next
  case (Nodes r)
  with assms have "s' = node_names_answer w r s" by (simp split: if_split_asm)
  then show ?thesis by (simp add: node_names_answer_keeps)
next
  case Next
  with assms have "s' = next_step w s" by (simp split: if_split_asm)
  then show ?thesis by (simp add: next_step_def validateCreateStep_def Let_def split: if_split_asm)
qed (use assms in \<open>auto simp: append_disk_def drop_disk_def set_disk_def handleCreate_def split: if_split_asm\<close>)

lemma names_ok_step:
  assumes "wk_corporate w" and n: "names_ok s" and e: "create_exec w s e = Some s'"
  shows "names_ok s'"
proof (cases "\<exists>k v. e = Field k v \<and> cw_step s = 0")
  case True
  then obtain k v where f: "e = Field k v" "cw_step s = 0" by blast
  from create_exec_sent [OF e] f(2) n have "list_all (\<lambda>(c, d). has_name c) (cw_sent s')" by (auto simp: names_ok_def)
  moreover from e f have "cw_step s' = 0" by (auto split: if_split_asm)
  ultimately show ?thesis by (simp add: names_ok_def)
next
  case False
  then have "0 < cw_step s \<or> (\<forall>k v. e \<noteq> Field k v)" by auto
  from name_kept [OF e this] have keep: "has_name (cw_cfg s') = has_name (cw_cfg s)" .
  have sent: "cw_sent s' = cw_sent s \<or> cw_sent s' = cw_sent s @ [(cw_cfg s, cw_disks s)] \<and> 0 < cw_step s"
    and step: "cw_step s' \<le> cw_step s \<or> has_name (cw_cfg s)"
    using create_exec_sent [OF e] create_exec_pages [OF assms(1) e] n by (auto simp: names_ok_def)
  from sent have "list_all (\<lambda>(c, d). has_name c) (cw_sent s')" using n by (auto simp: names_ok_def)
  moreover have "0 < cw_step s' \<longrightarrow> has_name (cw_cfg s')" using step n keep by (auto simp: names_ok_def)
  ultimately show ?thesis by (simp add: names_ok_def)
qed

lemma names_ok_new: "names_ok (create_new w ns)"
  by (simp add: names_ok_def create_new_def)

interpretation create_machine: step_machine
  "\<lambda>s e s'. create_exec w s e = Some s'" "\<lambda>s. wk_corporate w \<and> (\<exists>ns. s = create_new w ns)" "\<lambda>s. wk_corporate w \<and> names_ok s" for w
  by unfold_locales (auto intro: names_ok_step names_ok_new)

text \<open>C18. In the layout whose pages come in a row, no guest is created without a name: whatever is typed, answered and clicked,
  every configuration that is posted has one.\<close>

theorem named_guest_created:
  assumes "wk_corporate w" and "run_exec (create_exec w) (create_new w ns) es = Some s" and "(c, d) \<in> set (cw_sent s)"
  shows "trim (field_of c ''name'') \<noteq> []"
proof -
  have "names_ok s"
    using create_machine.inv_run [OF _ steps_run_exec [OF _ assms(2)]] assms(1) by blast
  with assms(3) show ?thesis by (auto simp: names_ok_def has_name_def list_all_iff)
qed

section \<open>Runs of the wizard\<close>

definition corp_vm :: wizard_kind where
  "corp_vm = \<lparr> wk_qemu = True, wk_xcpng = False, wk_corporate = True \<rparr>"

definition plain_vm :: wizard_kind where
  "plain_vm = corp_vm\<lparr> wk_corporate := False \<rparr>"

definition plain_ct :: wizard_kind where
  "plain_ct = plain_vm\<lparr> wk_qemu := False \<rparr>"

lemmas create_eval = create_new_def load_node_def set_config_def node_kinds_def next_step_def validateCreateStep_def has_name_def can_create_def
  handleCreate_def storage_list_answer_def nextid_answer_def last_page_def field_of_def set_field_def spread_def config_new_def
  prop_of_def corp_vm_def plain_vm_def plain_ct_def Let_def

definition one_guest :: "create_event list" where
  "one_guest = [Field ''name'' (Str ''web''), Next, Answer 3 (Some (Next_id (Num 101))), Next, Next, Next, Next, Create]"

definition one_created :: create_state where
  "one_created = the (run_exec (create_exec corp_vm) (create_new corp_vm [''a'']) one_guest)"

lemma one_guest_run: "run_exec (create_exec corp_vm) (create_new corp_vm [''a'']) one_guest = Some one_created"
  and one_guest_sent: "map (\<lambda>(c, d). (field_of c ''name'', d)) (cw_sent one_created) = [(''web'', [])]"
  unfolding one_created_def one_guest_def by code_simp+

lemma typed_fields_kept_witness: "prop_of (cw_cfg one_created) ''name'' = Str ''web''"
  using typed_fields_kept [OF one_guest_run, of "''name''"] by (simp add: one_guest_def filled_def prop_of_set_field)

lemma named_guest_created_witness: "\<exists>c d. (c, d) \<in> set (cw_sent one_created) \<and> trim (field_of c ''name'') \<noteq> []"
proof -
  obtain c d where "(c, d) \<in> set (cw_sent one_created)" using one_guest_sent by (cases "cw_sent one_created") auto
  moreover have "wk_corporate corp_vm" by (simp add: corp_vm_def)
  ultimately show ?thesis using named_guest_created [OF _ one_guest_run] by blast
qed

text \<open>In the other layout the tabs of the pages lead past the check: a guest without a name is posted.\<close>

lemma tabs_skip_check:
  "run_ends (create_exec plain_vm) (create_new plain_vm [''a'']) [Goto 5, Create]
     (\<lambda>s. map (\<lambda>(c, d). field_of c ''name'') (cw_sent s) = [[]])"
  by code_simp

text \<open>The identifier typed while the next free one is asked for is replaced by the answer.\<close>

lemma typed_vmid_lost:
  "run_ends (create_exec plain_vm) (create_new plain_vm [''a'']) [Field ''vmid'' (Str ''500''), Answer 3 (Some (Next_id (Num 101)))]
     (\<lambda>s. prop_of (cw_cfg s) ''vmid'' = Num 101)"
  by code_simp

text \<open>The storages of the node chosen first may come after those of the node chosen then, and stay.\<close>

lemma storages_of_other_node:
  "run_ends (create_exec plain_vm) (create_new plain_vm [''a'', ''b''])
     [Field ''node'' (Str ''b''),
      Answer 4 (Some (Storages [\<lparr> st_storage = ''b-disk'', st_type = ''dir'', st_content = ''images'' \<rparr>])),
      Answer 0 (Some (Storages [\<lparr> st_storage = ''a-disk'', st_type = ''dir'', st_content = ''images'' \<rparr>]))]
     (\<lambda>s. prop_of (cw_cfg s) ''node'' = Str ''b'' \<and> prop_of (cw_cfg s) ''storage'' = Str ''a-disk''
          \<and> map st_storage (cw_storages s) = [''a-disk''])"
  by code_simp

text \<open>A format picked for one storage is posted for another that cannot have it; the field shows none.\<close>

lemma format_of_other_storage:
  "run_ends (create_exec plain_vm) (create_new plain_vm [''a''])
     [Answer 0 (Some (Storages [\<lparr> st_storage = ''files'', st_type = ''dir'', st_content = ''images'' \<rparr>,
                                \<lparr> st_storage = ''tank'', st_type = ''zfspool'', st_content = ''images'' \<rparr>])),
      Field ''disk_format'' (Str ''vmdk''), Field ''storage'' (Str ''tank''), Goto 5, Create]
     (\<lambda>s. shown_format (cw_storages s) ''tank'' (field_of (cw_cfg s) ''disk_format'') = []
          \<and> map (\<lambda>(c, d). (field_of c ''storage'', field_of c ''disk_format'')) (cw_sent s) = [(''tank'', ''vmdk'')])"
  by code_simp

text \<open>A mount point added after one was removed can get the path of one that is there.\<close>

lemma mount_path_twice:
  "run_ends (create_exec plain_ct) (create_new plain_ct [''a'']) [Add_disk, Add_disk, Remove_disk 0, Add_disk]
     (\<lambda>s. map (\<lambda>d. field_of d ''path'') (cw_disks s) = [''/mnt/data1'', ''/mnt/data1''])"
  by code_simp

end
