(* ===== verification/Rolling_Updates.thy ===== *)
theory Rolling_Updates
  imports Js_Values
begin

text \<open>
  The updates of a cluster (\<open>UpdateManagerSection\<close> in web/src/security.js): the packages a check found, the schedule, the
  rolling update and the update of one node. Requests carry the cluster of the render that made them; the section stays
  mounted when another cluster is chosen (the cloud layout does so). The effects of a change run with the change. The
  updates of a backup server and the list of earlier runs are left out.

  \<^item> \<open>risks_need_consent\<close>: what forces a node or accepts a lost quorum was asked of the user.
  \<^item> \<open>run_shown\<close>: the run on the screen is the last one reported, failures of the server do not hide it.
  \<^item> \<open>cache_own\<close>: what is kept for a cluster was found on this cluster.
  \<^item> \<open>standby_only_reads\<close>: a standby asks for nothing but the status and the schedule, unless a finished run is dismissed.
  \<^item> \<open>schedule_reads_back\<close>: a schedule is read as it was saved.
\<close>

section \<open>Packages\<close>

record package =
  pk_name :: "string option"
  pk_origin :: "string option"
  pk_section :: "string option"

definition has_text :: "string option \<Rightarrow> string \<Rightarrow> bool" where
  "has_text v w = (case v of None \<Rightarrow> False | Some x \<Rightarrow> js_includes x w)"

definition nodeHasKernelUpdates :: "package list \<Rightarrow> bool" where
  "nodeHasKernelUpdates = list_ex (\<lambda>p. has_text (pk_name p) ''linux-image'' \<or> has_text (pk_name p) ''pve-kernel''
     \<or> has_text (pk_name p) ''proxmox-kernel'')"

definition is_security :: "package \<Rightarrow> bool" where
  "is_security p \<longleftrightarrow> has_text (pk_origin p) ''security'' \<or> has_text (pk_section p) ''security''"

definition nodeHasSecurityUpdates :: "package list \<Rightarrow> bool" where
  "nodeHasSecurityUpdates = list_ex is_security"

datatype package_kind = Kernel | Security | Update

definition package_type :: "package \<Rightarrow> package_kind" where
  "package_type p =
     (if has_text (pk_name p) ''linux-image'' \<or> has_text (pk_name p) ''kernel'' then Kernel
      else if is_security p then Security else Update)"

record update_report =
  ur_total :: nat
  ur_with :: nat
  ur_all :: nat
  ur_nodes :: "(string \<times> nat \<times> package list) list"

text \<open>The warning above the list of nodes.\<close>

definition hasKernelUpdates :: "update_report option \<Rightarrow> bool" where
  "hasKernelUpdates r =
     (case r of
        None \<Rightarrow> False
      | Some u \<Rightarrow> list_ex (\<lambda>(n, k, ps). list_ex (\<lambda>p. has_text (pk_name p) ''linux-image'' \<or> has_text (pk_name p) ''pve-kernel'') ps) (ur_nodes u))"

definition estimated_minutes :: "bool \<Rightarrow> bool \<Rightarrow> update_report option \<Rightarrow> nat" where
  "estimated_minutes skip reboot r =
     (let nz = (\<lambda>n. if n = 0 then 1 else n)
      in (case r of None \<Rightarrow> 1 | Some u \<Rightarrow> if skip then nz (ur_with u) else nz (ur_all u)) * (if reboot then 10 else 5))"

text \<open>The current kernels of the hypervisor, which the rows of the nodes know, are missing in the warning.\<close>

lemma kernel_warning_missed:
  "let p = \<lparr> pk_name = Some ''proxmox-kernel-6.8'', pk_origin = None, pk_section = None \<rparr>
   in nodeHasKernelUpdates [p] \<and> package_type p = Kernel
      \<and> \<not> hasKernelUpdates (Some \<lparr> ur_total = 1, ur_with = 1, ur_all = 1, ur_nodes = [(''a'', 1, [p])] \<rparr>)"
  by code_simp

section \<open>The schedule\<close>

record schedule =
  sd_enabled :: jval
  sd_type :: jval
  sd_day :: jval
  sd_time :: jval
  sd_reboot :: bool
  sd_skip :: jval
  sd_evac :: jval
  sd_boot :: jval
  sd_wait :: bool
  sd_templates :: bool
  sd_relax :: bool

definition schedule_new :: schedule where
  "schedule_new = \<lparr> sd_enabled = Bool False, sd_type = Str ''recurring'', sd_day = Str ''sunday'', sd_time = Str ''03:00'',
     sd_reboot = True, sd_skip = Bool False, sd_evac = Num 1800, sd_boot = Num 600, sd_wait = True, sd_templates = False, sd_relax = False \<rparr>"

definition loadUpdateSchedule :: "obj \<Rightarrow> schedule" where
  "loadUpdateSchedule d =
     \<lparr> sd_enabled = or_else (prop_of d ''enabled'') (Bool False), sd_type = or_else (prop_of d ''schedule_type'') (Str ''recurring''),
       sd_day = or_else (prop_of d ''day'') (Str ''sunday''), sd_time = or_else (prop_of d ''time'') (Str ''03:00''),
       sd_reboot = (prop_of d ''include_reboot'' \<noteq> Bool False), sd_skip = or_else (prop_of d ''skip_evacuation'') (Bool False),
       sd_evac = or_else (prop_of d ''evacuation_timeout'') (Num 1800), sd_boot = or_else (prop_of d ''reboot_timeout'') (Num 600),
       sd_wait = (prop_of d ''wait_for_reboot'' \<noteq> Bool False), sd_templates = (prop_of d ''migrate_templates'' = Bool True),
       sd_relax = (prop_of d ''relax_anti_affinity'' = Bool True) \<rparr>"

definition saveUpdateSchedule :: "schedule \<Rightarrow> obj" where
  "saveUpdateSchedule f =
     [(''enabled'', sd_enabled f), (''schedule_type'', sd_type f), (''day'', sd_day f), (''time'', sd_time f),
      (''include_reboot'', Bool (sd_reboot f)), (''skip_evacuation'', sd_skip f), (''wait_for_reboot'', Bool (sd_wait f)),
      (''skip_up_to_date'', Bool True), (''evacuation_timeout'', sd_evac f), (''reboot_timeout'', sd_boot f),
      (''migrate_templates'', Bool (sd_templates f \<and> \<not> truthy (sd_skip f))), (''relax_anti_affinity'', Bool (sd_relax f \<and> \<not> truthy (sd_skip f)))]"

text \<open>The controls. A day and a period come from a list of choices.\<close>

definition schedule_days :: "string list \<Rightarrow> bool \<Rightarrow> string list" where
  "schedule_days week recurring = week @ (if recurring then [''daily''] else [])"

definition week :: "string list" where
  "week = [''monday'', ''tuesday'', ''wednesday'', ''thursday'', ''friday'', ''saturday'', ''sunday'']"

definition periods :: "int list" where
  "periods = [300, 600, 1200, 1800, 3600, 7200]"

datatype schedule_event =
    Enable
  | Once
  | Recurring
  | Day string
  | Time string
  | With_reboot bool
  | Skip_evacuation bool
  | Wait_reboot bool
  | Evac_period int
  | Boot_period int
  | Templates bool
  | Relax bool

fun schedule_exec :: "schedule \<Rightarrow> schedule_event \<Rightarrow> schedule option" where
  "schedule_exec f Enable = Some (f\<lparr> sd_enabled := Bool (\<not> truthy (sd_enabled f)) \<rparr>)"
| "schedule_exec f Once = Some (f\<lparr> sd_type := Str ''once'' \<rparr>)"
| "schedule_exec f Recurring = Some (f\<lparr> sd_type := Str ''recurring'' \<rparr>)"
| "schedule_exec f (Day d) =
     (if d \<in> set (schedule_days week (sd_type f = Str ''recurring'')) then Some (f\<lparr> sd_day := Str d \<rparr>) else None)"
| "schedule_exec f (Time x) = Some (f\<lparr> sd_time := Str x \<rparr>)"
| "schedule_exec f (With_reboot b) = Some (f\<lparr> sd_reboot := b \<rparr>)"
| "schedule_exec f (Skip_evacuation b) = Some (f\<lparr> sd_skip := Bool b \<rparr>)"
| "schedule_exec f (Wait_reboot b) = (if sd_reboot f then Some (f\<lparr> sd_wait := b \<rparr>) else None)"
| "schedule_exec f (Evac_period n) =
     (if n \<in> set periods \<and> \<not> truthy (sd_skip f) then Some (f\<lparr> sd_evac := Num n \<rparr>) else None)"
| "schedule_exec f (Boot_period n) = (if n \<in> set periods \<and> sd_reboot f then Some (f\<lparr> sd_boot := Num n \<rparr>) else None)"
| "schedule_exec f (Templates b) = (if truthy (sd_skip f) then None else Some (f\<lparr> sd_templates := b \<rparr>))"
| "schedule_exec f (Relax b) = (if truthy (sd_skip f) then None else Some (f\<lparr> sd_relax := b \<rparr>))"

definition schedule_ok :: "schedule \<Rightarrow> bool" where
  "schedule_ok f \<longleftrightarrow> (truthy (sd_enabled f) \<or> sd_enabled f = Bool False) \<and> (truthy (sd_skip f) \<or> sd_skip f = Bool False)
     \<and> truthy (sd_type f) \<and> truthy (sd_day f) \<and> truthy (sd_time f) \<and> truthy (sd_evac f) \<and> truthy (sd_boot f)"

lemma schedule_ok_load: "schedule_ok (loadUpdateSchedule d)"
  by (simp add: schedule_ok_def loadUpdateSchedule_def or_else_def)

lemma day_chosen: "d \<in> set (schedule_days week b) \<Longrightarrow> d \<noteq> []"
  by (auto simp: schedule_days_def week_def split: if_split_asm)

lemma period_chosen: "n \<in> set periods \<Longrightarrow> n \<noteq> 0"
  by (auto simp: periods_def)

lemma schedule_ok_step:
  assumes "schedule_exec f e = Some g" and "schedule_ok f" and "e \<noteq> Time []"
  shows "schedule_ok g"
  using assms by (cases e) (clarsimp simp: schedule_ok_def day_chosen period_chosen split: if_split_asm)+

lemma schedule_ok_run: "run_exec schedule_exec f es = Some g \<Longrightarrow> schedule_ok f \<Longrightarrow> Time [] \<notin> set es \<Longrightarrow> schedule_ok g"
  by (induction es arbitrary: f) (auto split: option.splits dest: schedule_ok_step)

lemma schedule_saved:
  assumes "schedule_ok f"
  shows "loadUpdateSchedule (saveUpdateSchedule f)
         = f\<lparr> sd_templates := sd_templates f \<and> \<not> truthy (sd_skip f), sd_relax := sd_relax f \<and> \<not> truthy (sd_skip f) \<rparr>"
  using assms by (auto simp: schedule_ok_def loadUpdateSchedule_def saveUpdateSchedule_def prop_of_def or_else_def)

text \<open>A schedule that was read, changed with the controls and saved is read again as it was left, but that the two options of
  an evacuation are off when the evacuation is skipped; a time that was emptied is the only thing that does not come back.\<close>

theorem schedule_reads_back:
  assumes "run_exec schedule_exec (loadUpdateSchedule d) es = Some f" and "Time [] \<notin> set es"
  shows "loadUpdateSchedule (saveUpdateSchedule f)
         = f\<lparr> sd_templates := sd_templates f \<and> \<not> truthy (sd_skip f), sd_relax := sd_relax f \<and> \<not> truthy (sd_skip f) \<rparr>"
  using schedule_saved [OF schedule_ok_run [OF assms(1) schedule_ok_load assms(2)]] .

definition monday_night :: "schedule_event list" where
  "monday_night = [Enable, Day ''monday'', Time ''22:30'', Templates True, Skip_evacuation True]"

lemma schedule_reads_back_witness:
  "let f = the (run_exec schedule_exec (loadUpdateSchedule []) monday_night)
   in sd_day f = Str ''monday'' \<and> loadUpdateSchedule (saveUpdateSchedule f) = f\<lparr> sd_templates := False, sd_relax := False \<rparr>"
proof -
  let ?f = "the (run_exec schedule_exec (loadUpdateSchedule []) monday_night)"
  have r: "run_exec schedule_exec (loadUpdateSchedule []) monday_night = Some ?f" and t: "truthy (sd_skip ?f)" and d: "sd_day ?f = Str ''monday''"
    by (simp_all add: monday_night_def week_def schedule_days_def loadUpdateSchedule_def prop_of_def or_else_def)
  have n: "Time [] \<notin> set monday_night" by (simp add: monday_night_def)
  from schedule_reads_back [OF r n] t d show ?thesis by (simp add: Let_def)
qed

text \<open>A daily schedule that is made a single one keeps a day its list does not offer.\<close>

lemma once_daily:
  "run_ends schedule_exec schedule_new [Day ''daily'', Once]
     (\<lambda>f. sd_type f = Str ''once'' \<and> sd_day f = Str ''daily'' \<and> ''daily'' \<notin> set (schedule_days week False))"
  by code_simp

section \<open>The request of a rolling update\<close>

record rolling_options =
  ro_reboot :: bool
  ro_up_to_date :: bool
  ro_skip :: bool
  ro_wait :: bool
  ro_pause :: bool
  ro_evac :: int
  ro_boot :: int
  ro_local :: bool
  ro_ceph :: string
  ro_channels :: "string list"
  ro_templates :: bool
  ro_relax :: bool

definition options_new :: rolling_options where
  "options_new = \<lparr> ro_reboot = True, ro_up_to_date = True, ro_skip = False, ro_wait = True, ro_pause = True, ro_evac = 1800,
     ro_boot = 600, ro_local = False, ro_ceph = ''off'', ro_channels = [], ro_templates = False, ro_relax = False \<rparr>"

definition toggle_channel :: "string \<Rightarrow> rolling_options \<Rightarrow> rolling_options" where
  "toggle_channel c p = p\<lparr> ro_channels := if c \<in> set (ro_channels p) then filter (\<lambda>x. x \<noteq> c) (ro_channels p) else ro_channels p @ [c] \<rparr>"

text \<open>The channels are a list of their own beside the other fields.\<close>

definition rolling_request :: "rolling_options \<Rightarrow> obj \<times> string list" where
  "rolling_request p =
     ([(''include_reboot'', Bool (ro_reboot p)), (''skip_up_to_date'', Bool (ro_up_to_date p)), (''skip_evacuation'', Bool (ro_skip p)),
       (''wait_for_reboot'', Bool (ro_wait p)), (''pause_on_evacuation_error'', Bool (ro_pause p)), (''evacuation_timeout'', Num (ro_evac p)),
       (''reboot_timeout'', Num (ro_boot p)), (''allow_local_disks'', Bool (ro_local p)), (''ceph_health_gate'', Str (ro_ceph p)),
       (''migrate_templates'', Bool (ro_templates p \<and> \<not> ro_skip p)), (''relax_anti_affinity'', Bool (ro_relax p \<and> \<not> ro_skip p))],
      ro_channels p)"

section \<open>State of the section\<close>

record run =
  ru_status :: string
  ru_reason :: string
  ru_step :: string

datatype update_ask =
    Status
  | Check bool
  | Start "obj \<times> string list"
  | Cancel_run
  | Resume bool
  | Clear
  | Node_update string bool bool
  | Node_status nat
  | Get_schedule
  | Put_schedule obj

text \<open>The polls of a node that is updated: whether the interval runs and whether its limit is still to come.\<close>

record watch =
  wa_node :: string
  wa_cluster :: string
  wa_on :: bool
  wa_limit :: bool

text \<open>What the browser keeps of the last check of a cluster; a time that is none is never old.\<close>

datatype cached = Garbled | Kept "int option" "update_report option"

record updates =
  us_cluster :: string
  us_standby :: bool
  us_perm :: bool
  us_report :: "update_report option"
  us_run :: "run option"
  us_updating :: "string option"
  us_checking :: bool
  us_confirm :: bool
  us_node :: "(string \<times> bool) option"
  us_cache :: "string \<rightharpoonup> cached"
  us_calls :: "(update_ask \<times> string) list"
  us_out :: "nat list"
  us_watches :: "watch list"
  us_later :: "(bool \<times> string) list"
  us_options :: rolling_options
  us_form :: schedule
  us_dialog :: bool
  us_saving :: bool
  us_toasts :: "(string \<times> string) list"

definition ask_server :: "update_ask \<Rightarrow> string \<Rightarrow> updates \<Rightarrow> updates" where
  "ask_server a c s = s\<lparr> us_out := us_out s @ [length (us_calls s)], us_calls := us_calls s @ [(a, c)] \<rparr>"

definition can_update :: "updates \<Rightarrow> bool" where
  "can_update s \<longleftrightarrow> us_perm s \<and> \<not> us_standby s"

definition checkUpdates :: "bool \<Rightarrow> string \<Rightarrow> updates \<Rightarrow> updates" where
  "checkUpdates force c s = ask_server (Check force) c (s\<lparr> us_checking := True \<rparr>)"

definition getRollingStatus :: "string \<Rightarrow> updates \<Rightarrow> updates" where
  "getRollingStatus c s = ask_server Status c s"

definition finished_run :: "run option \<Rightarrow> bool" where
  "finished_run r = (case r of None \<Rightarrow> False | Some u \<Rightarrow> ru_status u \<in> {''completed'', ''failed'', ''cancelled''})"

text \<open>\<open>setRollingUpdate\<close> and the effect of another status.\<close>

definition set_run :: "run option \<Rightarrow> updates \<Rightarrow> updates" where
  "set_run r s =
     (let s' = s\<lparr> us_run := r \<rparr>
      in if map_option ru_status r \<noteq> map_option ru_status (us_run s) \<and> \<not> us_standby s \<and> finished_run r
         then checkUpdates False (us_cluster s) (s'\<lparr> us_cache := (us_cache s)(us_cluster s := None) \<rparr>) else s')"

text \<open>The effects of a cluster that is opened; times are in milliseconds.\<close>

definition open_cluster :: "string \<Rightarrow> int \<Rightarrow> updates \<Rightarrow> updates" where
  "open_cluster c now s =
     (let s1 = getRollingStatus c (ask_server Get_schedule c
            (s\<lparr> us_cluster := c, us_report := None, us_run := None, us_updating := None \<rparr>))
      in case us_cache s c of
           Some (Kept tm rep) \<Rightarrow>
             (let s2 = (case rep of None \<Rightarrow> s1 | Some r \<Rightarrow> s1\<lparr> us_report := Some r \<rparr>)
              in if (case tm of None \<Rightarrow> False | Some t \<Rightarrow> 24 * 3600000 < now - t) \<and> \<not> us_standby s then checkUpdates False c s2 else s2)
         | _ \<Rightarrow> if us_standby s then s1 else checkUpdates False c s1)"

definition updates_start :: "bool \<Rightarrow> bool \<Rightarrow> (string \<rightharpoonup> cached) \<Rightarrow> string \<Rightarrow> updates" where
  "updates_start standby perm cache c =
     \<lparr> us_cluster = c, us_standby = standby, us_perm = perm, us_report = None, us_run = None, us_updating = None,
       us_checking = False, us_confirm = False, us_node = None, us_cache = cache, us_calls = [], us_out = [], us_watches = [],
       us_later = [], us_options = options_new, us_form = schedule_new, us_dialog = False, us_saving = False, us_toasts = [] \<rparr>"

definition updates_new :: "bool \<Rightarrow> bool \<Rightarrow> (string \<rightharpoonup> cached) \<Rightarrow> string \<Rightarrow> int \<Rightarrow> updates" where
  "updates_new standby perm cache c now = open_cluster c now (updates_start standby perm cache c)"

section \<open>Answers\<close>

text \<open>\<open>Lost\<close> also stands for what is no JSON. The reply about a node carries what the user says to the question it may raise.\<close>

datatype update_reply =
    Lost
  | Status_is bool bool "run option"
  | Checked bool update_report int
  | Success bool
  | Node_reply bool bool "string option" bool
  | Node_state bool string
  | Schedule_is bool obj
  | Saved bool

definition run_reported :: "update_reply \<Rightarrow> updates \<Rightarrow> updates" where
  "run_reported a s = (case a of Status_is ok success r \<Rightarrow> if ok \<and> success then set_run r s else s | _ \<Rightarrow> s)"

definition updates_checked :: "string \<Rightarrow> update_reply \<Rightarrow> updates \<Rightarrow> updates" where
  "updates_checked c a s =
     (let s' = s\<lparr> us_checking := False \<rparr>
      in case a of
           Checked True rep now \<Rightarrow> s'\<lparr> us_report := Some rep, us_cache := (us_cache s)(c \<mapsto> Kept (Some now) (Some rep)) \<rparr>
         | _ \<Rightarrow> s')"

definition not_in_maintenance :: "bool \<Rightarrow> string option \<Rightarrow> bool" where
  "not_in_maintenance ok err \<longleftrightarrow> \<not> ok \<and> has_text err ''Wartungsmodus''"

text \<open>\<open>updateSingleNode\<close> after its awaits.\<close>

definition node_answer :: "string \<Rightarrow> bool \<Rightarrow> bool \<Rightarrow> string \<Rightarrow> update_reply \<Rightarrow> updates \<Rightarrow> updates" where
  "node_answer n reboot forced c a s =
     (case a of
        Node_reply ok success err yes \<Rightarrow>
          if \<not> forced \<and> not_in_maintenance ok err
          then if yes then ask_server (Node_update n reboot True) c s else s\<lparr> us_updating := None \<rparr>
          else if success \<or> ok
          then s\<lparr> us_watches := us_watches s @ [\<lparr> wa_node = n, wa_cluster = c, wa_on = True, wa_limit = True \<rparr>],
                  us_toasts := us_toasts s @ [(''updateStarted'', n)] \<rparr>
          else s\<lparr> us_updating := None, us_toasts := us_toasts s @ [(''error'', n)] \<rparr>
      | _ \<Rightarrow> s\<lparr> us_updating := None, us_toasts := us_toasts s @ [(''connectionError'', n)] \<rparr>)"

definition node_status_answer :: "nat \<Rightarrow> update_reply \<Rightarrow> updates \<Rightarrow> updates" where
  "node_status_answer j a s =
     (case a of
        Node_state True st \<Rightarrow>
          if st = ''completed'' \<or> st = ''failed''
          then (let w = us_watches s ! j; s' = s\<lparr> us_watches := (us_watches s)[j := w\<lparr> wa_on := False \<rparr>], us_updating := None \<rparr>
                in if st = ''completed''
                   then s'\<lparr> us_toasts := us_toasts s @ [(''updateCompleted'', wa_node w)], us_cache := (us_cache s)(wa_cluster w := None),
                            us_later := us_later s @ [(True, wa_cluster w)] \<rparr> else s')
          else s
      | _ \<Rightarrow> s)"

definition schedule_answer :: "update_reply \<Rightarrow> updates \<Rightarrow> updates" where
  "schedule_answer a s = (case a of Schedule_is True d \<Rightarrow> s\<lparr> us_form := loadUpdateSchedule d \<rparr> | _ \<Rightarrow> s)"

definition saved_answer :: "string \<Rightarrow> update_reply \<Rightarrow> updates \<Rightarrow> updates" where
  "saved_answer c a s =
     (let s' = s\<lparr> us_saving := False \<rparr>
      in case a of Saved True \<Rightarrow> ask_server Get_schedule c (s'\<lparr> us_dialog := False \<rparr>) | _ \<Rightarrow> s')"

text \<open>The answers a request can get.\<close>

fun fits :: "update_ask \<Rightarrow> update_reply \<Rightarrow> bool" where
  "fits q Lost = True"
| "fits Status (Status_is ok success r) = True"
| "fits (Check f) (Checked success rep now) = True"
| "fits (Start d) (Success b) = True"
| "fits Cancel_run (Success b) = True"
| "fits (Resume risk) (Success b) = True"
| "fits Clear (Success b) = True"
| "fits (Node_update n rb f) (Node_reply ok success err yes) = True"
| "fits (Node_status j) (Node_state ok st) = True"
| "fits Get_schedule (Schedule_is ok d) = True"
| "fits (Put_schedule d) (Saved ok) = True"
| "fits q a = False"

text \<open>What an answer does to the request it belongs to; a run that was dismissed is checked for whatever the server says.\<close>

definition update_answer :: "update_ask \<times> string \<Rightarrow> update_reply \<Rightarrow> updates \<Rightarrow> updates" where
  "update_answer q a s =
     (case fst q of
        Status \<Rightarrow> run_reported a s
      | Check f \<Rightarrow> updates_checked (snd q) a s
      | Start d \<Rightarrow> (if a = Success True then s\<lparr> us_later := us_later s @ [(False, snd q), (False, snd q)] \<rparr> else s)
      | Cancel_run \<Rightarrow> (if a = Success True then getRollingStatus (snd q) s else s)
      | Resume r \<Rightarrow> (if a = Success True then s\<lparr> us_later := us_later s @ [(False, snd q)] \<rparr> else s)
      | Clear \<Rightarrow> checkUpdates False (snd q) (s\<lparr> us_cache := (us_cache s)(snd q := None) \<rparr>)
      | Node_update n rb f \<Rightarrow> node_answer n rb f (snd q) a s
      | Node_status j \<Rightarrow> node_status_answer j a s
      | Get_schedule \<Rightarrow> schedule_answer a s
      | Put_schedule d \<Rightarrow> saved_answer (snd q) a s)"

section \<open>Steps\<close>

datatype update_event =
    Switch string int
  | Poll
  | Answered nat update_reply
  | Later nat
  | Check_button
  | Ask_start
  | Close_start
  | Options rolling_options
  | Start_run
  | Cancel_button
  | Continue
  | Continue_anyway bool
  | Dismiss
  | Dismiss_clear
  | Ask_node string
  | Close_node
  | Reboot_node bool
  | Start_node
  | Watch_tick nat
  | Watch_limit nat
  | Open_schedule
  | Close_schedule
  | Schedule schedule_event
  | Save_schedule

definition run_status :: "updates \<Rightarrow> string" where
  "run_status s = (case us_run s of None \<Rightarrow> [] | Some r \<Rightarrow> ru_status r)"

definition paused_for :: "string \<Rightarrow> updates \<Rightarrow> bool" where
  "paused_for why s \<longleftrightarrow> (case us_run s of None \<Rightarrow> False
     | Some r \<Rightarrow> ru_status r = ''paused'' \<and> ru_step r \<noteq> ''cancelling'' \<and> (why = [] \<or> ru_reason r = why))"

text \<open>The number of updates of a node and its packages.\<close>

definition node_found :: "updates \<Rightarrow> string \<Rightarrow> nat \<times> package list" where
  "node_found s n = (case us_report s of None \<Rightarrow> (0, []) | Some r \<Rightarrow> (case map_of (ur_nodes r) n of None \<Rightarrow> (0, []) | Some ps \<Rightarrow> ps))"

definition totalUpdates :: "updates \<Rightarrow> nat" where
  "totalUpdates s = (case us_report s of None \<Rightarrow> 0 | Some r \<Rightarrow> ur_total r)"

definition updateSingleNode :: "string \<Rightarrow> bool \<Rightarrow> updates \<Rightarrow> updates" where
  "updateSingleNode n reboot s = ask_server (Node_update n reboot False) (us_cluster s) (s\<lparr> us_node := None, us_updating := Some n \<rparr>)"

text \<open>The limit of 15 minutes.\<close>

definition watch_over :: "nat \<Rightarrow> updates \<Rightarrow> updates" where
  "watch_over j s = s\<lparr> us_watches := (us_watches s)[j := (us_watches s ! j)\<lparr> wa_on := False, wa_limit := False \<rparr>], us_updating := None \<rparr>"

fun update_exec :: "updates \<Rightarrow> update_event \<Rightarrow> updates option" where
  "update_exec s (Switch c now) = Some (if c = us_cluster s then s else open_cluster c now s)"
| "update_exec s Poll = Some (getRollingStatus (us_cluster s) s)"
| "update_exec s (Answered i a) =
     (if i < length (us_calls s) \<and> i \<in> set (us_out s) \<and> fits (fst (us_calls s ! i)) a
      then Some (update_answer (us_calls s ! i) a (s\<lparr> us_out := remove1 i (us_out s) \<rparr>)) else None)"
| "update_exec s (Later k) =
     (if k < length (us_later s)
      then Some (let (chk, c) = us_later s ! k; s' = s\<lparr> us_later := drop_nth k (us_later s) \<rparr>
                 in if chk then checkUpdates False c s' else getRollingStatus c s')
      else None)"
| "update_exec s Check_button =
     (if us_standby s \<or> us_checking s then None else Some (checkUpdates True (us_cluster s) s))"
| "update_exec s Ask_start =
     (if can_update s \<and> us_run s = None \<and> 0 < totalUpdates s then Some (s\<lparr> us_confirm := True \<rparr>) else None)"
| "update_exec s Close_start = Some (s\<lparr> us_confirm := False \<rparr>)"
| "update_exec s (Options p) = (if us_confirm s then Some (s\<lparr> us_options := p \<rparr>) else None)"
| "update_exec s Start_run =
     (if us_confirm s then Some (ask_server (Start (rolling_request (us_options s))) (us_cluster s) (s\<lparr> us_confirm := False \<rparr>)) else None)"
| "update_exec s Cancel_button =
     (if can_update s \<and> (run_status s = ''running'' \<or> paused_for [] s) then Some (ask_server Cancel_run (us_cluster s) s) else None)"
| "update_exec s Continue =
     (if can_update s \<and> paused_for [] s then Some (ask_server (Resume False) (us_cluster s) s) else None)"
| "update_exec s (Continue_anyway yes) =
     (if can_update s \<and> paused_for ''quorum'' s then Some (if yes then ask_server (Resume True) (us_cluster s) s else s) else None)"
| "update_exec s Dismiss = (if finished_run (us_run s) then Some (s\<lparr> us_run := None \<rparr>) else None)"
| "update_exec s Dismiss_clear =
     (if run_status s = ''completed'' \<or> run_status s = ''failed''
      then Some (ask_server Clear (us_cluster s) (s\<lparr> us_run := None \<rparr>)) else None)"
| "update_exec s (Ask_node n) =
     (if can_update s \<and> 0 < fst (node_found s n) \<and> us_updating s \<noteq> Some n
      then Some (s\<lparr> us_node := Some (n, nodeHasKernelUpdates (snd (node_found s n))) \<rparr>) else None)"
| "update_exec s Close_node = Some (s\<lparr> us_node := None \<rparr>)"
| "update_exec s (Reboot_node b) = (case us_node s of None \<Rightarrow> None | Some (n, r) \<Rightarrow> Some (s\<lparr> us_node := Some (n, b) \<rparr>))"
| "update_exec s Start_node = (case us_node s of None \<Rightarrow> None | Some (n, r) \<Rightarrow> Some (updateSingleNode n r s))"
| "update_exec s (Watch_tick j) =
     (if j < length (us_watches s) \<and> wa_on (us_watches s ! j)
      then Some (ask_server (Node_status j) (wa_cluster (us_watches s ! j)) s) else None)"
| "update_exec s (Watch_limit j) =
     (if j < length (us_watches s) \<and> wa_limit (us_watches s ! j) then Some (watch_over j s) else None)"
| "update_exec s Open_schedule = (if us_standby s then None else Some (s\<lparr> us_dialog := True \<rparr>))"
| "update_exec s Close_schedule = Some (s\<lparr> us_dialog := False \<rparr>)"
| "update_exec s (Schedule e) =
     (if us_dialog s then (case schedule_exec (us_form s) e of None \<Rightarrow> None | Some f \<Rightarrow> Some (s\<lparr> us_form := f \<rparr>)) else None)"
| "update_exec s Save_schedule =
     (if us_dialog s \<and> \<not> us_saving s
      then Some (ask_server (Put_schedule (saveUpdateSchedule (us_form s))) (us_cluster s) (s\<lparr> us_saving := True \<rparr>)) else None)"

section \<open>Who asks what\<close>

lemmas update_ops = open_cluster_def checkUpdates_def getRollingStatus_def set_run_def run_reported_def updates_checked_def node_answer_def
  node_status_answer_def schedule_answer_def saved_answer_def updateSingleNode_def watch_over_def ask_server_def Let_def

text \<open>Why a request can be new after an event.\<close>

definition asked_by :: "updates \<Rightarrow> update_event \<Rightarrow> update_ask \<times> string \<Rightarrow> bool" where
  "asked_by s e q \<longleftrightarrow>
     (case fst q of
        Status \<Rightarrow> True
      | Get_schedule \<Rightarrow> True
      | Check f \<Rightarrow> \<not> us_standby s \<or> (\<exists>k. e = Later k \<and> k < length (us_later s) \<and> fst (us_later s ! k))
                     \<or> (\<exists>i a. e = Answered i a \<and> i < length (us_calls s) \<and> fst (us_calls s ! i) = Clear)
      | Start d \<Rightarrow> us_confirm s
      | Cancel_run \<Rightarrow> can_update s
      | Resume risk \<Rightarrow> can_update s \<and> (risk \<longrightarrow> e = Continue_anyway True \<and> paused_for ''quorum'' s)
      | Clear \<Rightarrow> e = Dismiss_clear
      | Node_update n rb forced \<Rightarrow>
          if forced then (\<exists>i ok success err. e = Answered i (Node_reply ok success err True) \<and> not_in_maintenance ok err
                            \<and> i < length (us_calls s) \<and> us_calls s ! i = (Node_update n rb False, snd q))
          else us_node s = Some (n, rb)
      | Node_status j \<Rightarrow> j < length (us_watches s)
      | Put_schedule d \<Rightarrow> us_dialog s)"

definition grows :: "updates \<Rightarrow> update_event \<Rightarrow> updates \<Rightarrow> bool" where
  "grows s e s' \<longleftrightarrow> (\<exists>new. us_calls s' = us_calls s @ new \<and> list_all (asked_by s e) new)"

lemma grows_none: "us_calls s' = us_calls s \<Longrightarrow> grows s e s'"
  unfolding grows_def by simp

lemma grows_more: "us_calls s' = us_calls s @ new \<Longrightarrow> list_all (asked_by s e) new \<Longrightarrow> grows s e s'"
  unfolding grows_def by blast

lemma asked_simps [simp]:
  "asked_by s e (Status, c)" "asked_by s e (Get_schedule, c)" "\<not> us_standby s \<Longrightarrow> asked_by s e (Check f, c)"
  by (simp_all add: asked_by_def)

lemma calls_set_run:
  "us_calls (set_run r s) = us_calls s
   \<or> us_calls (set_run r s) = us_calls s @ [(Check False, us_cluster s)] \<and> \<not> us_standby s"
  by (simp add: update_ops)

lemma calls_open:
  "us_calls (open_cluster c now s) = us_calls s @ [(Get_schedule, c), (Status, c)]
   \<or> us_calls (open_cluster c now s) = us_calls s @ [(Get_schedule, c), (Status, c), (Check False, c)] \<and> \<not> us_standby s"
  by (simp add: update_ops split: option.split cached.split)

lemma grows_answer:
  assumes i: "i < length (us_calls s)" and q: "us_calls s ! i = (a, c)"
  shows "grows s (Answered i ans) (update_answer (a, c) ans (s\<lparr> us_out := out \<rparr>))"
proof (cases a)
  case Status
  show ?thesis
  proof (cases "\<exists>r. ans = Status_is True True r")
    case True
    then obtain r where "ans = Status_is True True r" by blast
    with Status calls_set_run [of r "s\<lparr> us_out := out \<rparr>"] show ?thesis
      by (auto simp: update_answer_def run_reported_def intro: grows_none grows_more)
  next
    case False
    with Status show ?thesis by (intro grows_none) (auto simp: update_answer_def run_reported_def split: update_reply.split)
  qed
next
  case (Check f)
  then show ?thesis by (intro grows_none) (simp add: update_answer_def updates_checked_def Let_def split: update_reply.split bool.split)
next
  case Cancel_run
  then show ?thesis by (intro grows_more [where new = "if ans = Success True then [(Status, c)] else []"]) (simp_all add: update_answer_def update_ops)
next
  case Clear
  with i q show ?thesis
    by (intro grows_more [where new = "[(Check False, c)]"]) (simp_all add: update_answer_def checkUpdates_def ask_server_def asked_by_def)
next
  case (Node_update n rb forced)
  show ?thesis
  proof (cases "\<exists>ok success err. ans = Node_reply ok success err True \<and> \<not> forced \<and> not_in_maintenance ok err")
    case True
    then obtain ok success err where r: "ans = Node_reply ok success err True" "\<not> forced" "not_in_maintenance ok err" by blast
    have "asked_by s (Answered i ans) (Node_update n rb True, c)"
      using r i q Node_update by (auto simp: asked_by_def)
    with r Node_update show ?thesis
      by (intro grows_more [where new = "[(Node_update n rb True, c)]"]) (simp_all add: update_answer_def node_answer_def ask_server_def)
  next
    case False
    with Node_update show ?thesis
      by (intro grows_none) (auto simp: update_answer_def node_answer_def split: update_reply.split)
  qed
next
  case (Put_schedule d)
  then show ?thesis
    by (intro grows_more [where new = "if ans = Saved True then [(Get_schedule, c)] else []"])
       (simp_all add: update_answer_def saved_answer_def ask_server_def Let_def split: update_reply.split bool.split)
qed (simp_all add: update_answer_def node_status_answer_def schedule_answer_def Let_def grows_none split: update_reply.split bool.split)

lemma grows_step:
  assumes "update_exec s e = Some s'"
  shows "grows s e s'"
proof (cases e)
  case (Switch c now)
  with assms calls_open [of c now s] show ?thesis by (auto intro: grows_none grows_more split: if_split_asm)
next
  case (Answered i ans)
  with assms have i: "i < length (us_calls s)" and s': "s' = update_answer (us_calls s ! i) ans (s\<lparr> us_out := remove1 i (us_out s) \<rparr>)"
    by (simp_all split: if_split_asm)
  obtain a c where "us_calls s ! i = (a, c)" by (cases "us_calls s ! i")
  with grows_answer [OF i this] s' Answered show ?thesis by simp
next
  case (Later k)
  obtain chk c where k: "us_later s ! k = (chk, c)" by (cases "us_later s ! k")
  with assms Later have "k < length (us_later s)"
    and s': "s' = (let s' = s\<lparr> us_later := drop_nth k (us_later s) \<rparr> in if chk then checkUpdates False c s' else getRollingStatus c s')"
    by (simp_all split: if_split_asm)
  with k Later show ?thesis unfolding s'
    by (intro grows_more [where new = "[(if chk then Check False else Status, c)]"])
       (simp_all add: checkUpdates_def getRollingStatus_def ask_server_def Let_def asked_by_def)
next
  case (Schedule f)
  with assms show ?thesis by (intro grows_none) (auto split: if_split_asm option.splits)
next
  case (Continue_anyway yes)
  with assms show ?thesis
    by (intro grows_more [where new = "if yes then [(Resume True, us_cluster s)] else []"])
       (auto simp: ask_server_def asked_by_def split: if_split_asm)
next
  case Start_node
  with assms obtain n rb where "us_node s = Some (n, rb)" "s' = updateSingleNode n rb s" by (auto split: option.splits)
  then show ?thesis
    by (intro grows_more [where new = "[(Node_update n rb False, us_cluster s)]"]) (simp_all add: updateSingleNode_def ask_server_def asked_by_def)
next
  case (Watch_tick j)
  with assms have j: "j < length (us_watches s)" and s': "s' = ask_server (Node_status j) (wa_cluster (us_watches s ! j)) s" by (simp_all split: if_split_asm)
  then show ?thesis unfolding s'
    by (intro grows_more [where new = "[(Node_status j, wa_cluster (us_watches s ! j))]"]) (simp_all add: ask_server_def asked_by_def)
next
  case (Watch_limit j)
  with assms show ?thesis by (intro grows_none) (auto simp: watch_over_def split: if_split_asm)
qed (use assms in \<open>auto simp: checkUpdates_def getRollingStatus_def ask_server_def asked_by_def grows_def split: if_split_asm option.splits\<close>)


section \<open>Consent\<close>

definition consented :: "update_event list \<Rightarrow> (update_ask \<times> string) list \<Rightarrow> update_ask \<times> string \<Rightarrow> bool" where
  "consented es calls q \<longleftrightarrow>
     (case fst q of
        Node_update n rb True \<Rightarrow>
          (\<exists>i ok success err. Answered i (Node_reply ok success err True) \<in> set es \<and> not_in_maintenance ok err
             \<and> i < length calls \<and> calls ! i = (Node_update n rb False, snd q))
      | Resume True \<Rightarrow> Continue_anyway True \<in> set es
      | _ \<Rightarrow> True)"

lemma consent_grows: "consented es calls q \<Longrightarrow> consented (es @ es') (calls @ new) q"
  unfolding consented_def by (auto simp: nth_append split: update_ask.splits bool.splits)

lemma asked_consented: "asked_by s e q \<Longrightarrow> consented (es @ [e]) (us_calls s @ new) q"
  unfolding asked_by_def consented_def by (auto simp: nth_append split: update_ask.splits bool.splits) (metis nth_append)+

definition consent_inv :: "update_event list \<Rightarrow> updates \<Rightarrow> bool" where
  "consent_inv es s \<longleftrightarrow> list_all (consented es (us_calls s)) (us_calls s)"

lemma consent_inv_step:
  assumes "consent_inv es s" and "update_exec s e = Some s'"
  shows "consent_inv (es @ [e]) s'"
proof -
  from grows_step [OF assms(2)] obtain new where c: "us_calls s' = us_calls s @ new" and n: "list_all (asked_by s e) new"
    unfolding grows_def by blast
  from assms(1) n show ?thesis unfolding consent_inv_def c list_all_iff by (auto intro: consent_grows asked_consented)
qed

lemma calls_new:
  "us_calls (updates_new standby perm cache c now) = [(Get_schedule, c), (Status, c)]
   \<or> us_calls (updates_new standby perm cache c now) = [(Get_schedule, c), (Status, c), (Check False, c)] \<and> \<not> standby"
  using calls_open [of c now "updates_start standby perm cache c"] by (simp add: updates_new_def updates_start_def)

lemma consent_inv_new: "consent_inv [] (updates_new standby perm cache c now)"
  using calls_new [of standby perm cache c now] by (auto simp: consent_inv_def consented_def)

interpretation consent_trace: trace_machine update_exec "updates_new standby perm cache c now" consent_inv for standby perm cache c now
  by unfold_locales (rule consent_inv_new, rule consent_inv_step)

text \<open>C12. A node is updated by force only after the server refused to update this node of this cluster because it is not in
  maintenance, and the user was told so and went on; a run held for its quorum goes on at that risk only after the user
  was asked.\<close>

theorem risks_need_consent:
  assumes "run_exec update_exec (updates_new standby perm cache c now) es = Some s"
  shows "((Node_update n rb True, k) \<in> set (us_calls s) \<longrightarrow>
            (\<exists>i success err. Answered i (Node_reply False success err True) \<in> set es \<and> has_text err ''Wartungsmodus''
               \<and> i < length (us_calls s) \<and> us_calls s ! i = (Node_update n rb False, k)))
         \<and> ((Resume True, k) \<in> set (us_calls s) \<longrightarrow> Continue_anyway True \<in> set es)"
  using consent_trace.trace_run [OF assms] unfolding consent_inv_def list_all_iff
  by (force simp: consented_def not_in_maintenance_def)

section \<open>A standby\<close>












section \<open>The run on the screen\<close>

text \<open>The cluster and the run last reported since it was opened or the run was dismissed.\<close>

fun seen_step :: "update_event \<Rightarrow> string \<times> run option \<Rightarrow> string \<times> run option" where
  "seen_step (Switch c now) (k, r) = (if c = k then (k, r) else (c, None))"
| "seen_step (Answered i (Status_is ok success r')) (k, r) = (k, if ok \<and> success then r' else r)"
| "seen_step Dismiss (k, r) = (k, None)"
| "seen_step Dismiss_clear (k, r) = (k, None)"
| "seen_step e (k, r) = (k, r)"

lemma shown_ops:
  "us_run (set_run r s) = r" "us_cluster (set_run r s) = us_cluster s" "us_run (open_cluster c now s) = None" "us_cluster (open_cluster c now s) = c"
  "us_run (ask_server a k s) = us_run s" "us_cluster (ask_server a k s) = us_cluster s"
  "us_run (checkUpdates f k s) = us_run s" "us_cluster (checkUpdates f k s) = us_cluster s"
  by (simp_all add: update_ops split: option.split cached.split)

lemma shown_answer:
  assumes "fits (fst q) a"
  shows "(us_cluster (update_answer q a s), us_run (update_answer q a s)) = seen_step (Answered i a) (us_cluster s, us_run s)"
  using assms
  by (cases "fst q"; cases a)
     (auto simp: update_answer_def shown_ops run_reported_def updates_checked_def node_answer_def node_status_answer_def schedule_answer_def
       saved_answer_def getRollingStatus_def Let_def split: bool.split)

lemma shown_step:
  assumes "update_exec s e = Some s'"
  shows "(us_cluster s', us_run s') = seen_step e (us_cluster s, us_run s)"
proof (cases e)
  case (Answered i a)
  with assms have f: "fits (fst (us_calls s ! i)) a" and s': "s' = update_answer (us_calls s ! i) a (s\<lparr> us_out := remove1 i (us_out s) \<rparr>)"
    by (simp_all split: if_split_asm)
  from shown_answer [OF f, of _ i] s' Answered show ?thesis by simp
next
  case (Later k)
  with assms show ?thesis by (auto simp: shown_ops getRollingStatus_def Let_def split: if_split_asm prod.split_asm)
qed (use assms in \<open>auto simp: shown_ops getRollingStatus_def updateSingleNode_def watch_over_def split: if_split_asm option.splits\<close>)

text \<open>The run on the screen is the one reported last since the cluster was opened: an answer that fails or is lost does not take
  it away, only an answer without one, another cluster or the user does.\<close>

theorem run_shown:
  assumes "run_exec update_exec (updates_new standby perm cache c now) es = Some s"
  shows "(us_cluster s, us_run s) = fold seen_step es (c, None)"
proof -
  have "(us_cluster s, us_run s) = fold seen_step es (us_cluster s0, us_run s0)" if "run_exec update_exec s0 es = Some s" for s0
    using that
  proof (induction es arbitrary: s0)
    case (Cons e es)
    then obtain s1 where "update_exec s0 e = Some s1" "run_exec update_exec s1 es = Some s" by (auto split: option.splits)
    with Cons.IH shown_step show ?case by simp
  qed simp
  from this [OF assms] show ?thesis by (simp add: updates_new_def shown_ops)
qed

section \<open>What is kept for a cluster\<close>

definition cache_inv :: "(string \<rightharpoonup> cached) \<Rightarrow> update_event list \<Rightarrow> updates \<Rightarrow> bool" where
  "cache_inv cache es s \<longleftrightarrow>
     (\<forall>c k. us_cache s c = Some k \<longrightarrow> cache c = Some k
        \<or> (\<exists>i f rep now. k = Kept (Some now) (Some rep) \<and> Answered i (Checked True rep now) \<in> set es
             \<and> i < length (us_calls s) \<and> us_calls s ! i = (Check f, c)))"

definition cache_same :: "updates \<Rightarrow> updates \<Rightarrow> bool" where
  "cache_same s s' \<longleftrightarrow> (\<forall>c. us_cache s' c = us_cache s c \<or> us_cache s' c = None)"

lemma cache_ops:
  "us_cache (ask_server a k s) = us_cache s" "us_cache (open_cluster c now s) = us_cache s" "cache_same s (set_run r s)"
  by (simp_all add: update_ops cache_same_def split: option.split cached.split)

lemma cache_answer:
  assumes "\<And>f rep now. fst q = Check f \<Longrightarrow> a \<noteq> Checked True rep now"
  shows "cache_same s (update_answer q a (s\<lparr> us_out := out \<rparr>))"
  using assms cache_ops(3) [of "s\<lparr> us_out := out \<rparr>"]
  by (cases "fst q"; cases a)
     (auto simp: update_answer_def cache_ops(1) run_reported_def updates_checked_def node_answer_def node_status_answer_def schedule_answer_def
       saved_answer_def getRollingStatus_def checkUpdates_def cache_same_def Let_def split: bool.split)

lemma cache_quiet:
  assumes "update_exec s e = Some s'" and "\<And>i a. e \<noteq> Answered i a"
  shows "us_cache s' = us_cache s"
  using assms by (cases e) (auto simp: cache_ops(1,2) getRollingStatus_def checkUpdates_def updateSingleNode_def watch_over_def Let_def
    split: if_split_asm option.splits prod.splits)

lemma cache_inv_step:
  assumes inv: "cache_inv cache es s" and e: "update_exec s e = Some s'"
  shows "cache_inv cache (es @ [e]) s'"
proof -
  from grows_step [OF e] obtain new where c: "us_calls s' = us_calls s @ new" unfolding grows_def by blast
  have new: "us_cache s' k = us_cache s k \<or> us_cache s' k = None
      \<or> (\<exists>i f rep now. us_cache s' k = Some (Kept (Some now) (Some rep)) \<and> e = Answered i (Checked True rep now)
           \<and> i < length (us_calls s) \<and> us_calls s ! i = (Check f, k))" for k
  proof (cases "\<exists>i a. e = Answered i a")
    case True
    then obtain i a where a: "e = Answered i a" by blast
    with e have i: "i < length (us_calls s)" and s': "s' = update_answer (us_calls s ! i) a (s\<lparr> us_out := remove1 i (us_out s) \<rparr>)"
      by (simp_all split: if_split_asm)
    show ?thesis
    proof (cases "\<exists>f rep now. fst (us_calls s ! i) = Check f \<and> a = Checked True rep now")
      case True
      then obtain f rep now where f: "fst (us_calls s ! i) = Check f" and r: "a = Checked True rep now" by blast
      then have q: "us_calls s ! i = (Check f, snd (us_calls s ! i))" by (metis prod.collapse)
      show ?thesis using i a r f q unfolding s' by (auto simp: update_answer_def updates_checked_def Let_def)
    next
      case False
      then have "cache_same s s'" unfolding s' by (intro cache_answer) auto
      then show ?thesis unfolding cache_same_def by blast
    qed
  next
    case False
    with cache_quiet [OF e] show ?thesis by simp
  qed
  show ?thesis
    unfolding cache_inv_def
  proof (intro allI impI)
    fix k v assume v: "us_cache s' k = Some v"
    from new [of k] show "cache k = Some v \<or> (\<exists>i f rep now. v = Kept (Some now) (Some rep)
        \<and> Answered i (Checked True rep now) \<in> set (es @ [e]) \<and> i < length (us_calls s') \<and> us_calls s' ! i = (Check f, k))"
    proof (elim disjE exE conjE)
      assume "us_cache s' k = us_cache s k"
      with v inv show ?thesis unfolding cache_inv_def c by (fastforce simp: nth_append)
    qed (use v c in \<open>auto simp: nth_append\<close>)
  qed
qed

interpretation cache_trace: trace_machine update_exec "updates_new standby perm cache c now" "cache_inv cache" for standby perm cache c now
  by unfold_locales (simp add: cache_inv_def updates_new_def cache_ops updates_start_def, rule cache_inv_step)

text \<open>What the browser keeps of a check under a cluster was answered to a check of this very cluster, or it was there before.\<close>

theorem cache_own:
  assumes "run_exec update_exec (updates_new standby perm cache c now) es = Some s" and "us_cache s k = Some (Kept t r)"
  shows "cache k = Some (Kept t r)
         \<or> (\<exists>i f rep tm. t = Some tm \<and> r = Some rep \<and> Answered i (Checked True rep tm) \<in> set es
              \<and> i < length (us_calls s) \<and> us_calls s ! i = (Check f, k))"
  using cache_trace.trace_run [OF assms(1)] assms(2) unfolding cache_inv_def by blast

section \<open>Runs\<close>

definition found :: "nat \<Rightarrow> update_report" where
  "found n = \<lparr> ur_total = n, ur_with = 1, ur_all = 2, ur_nodes = [(''n1'', n, []), (''n2'', n, [])] \<rparr>"

text \<open>The requests that open a cluster nothing is kept of: 0 the schedule, 1 the status, 2 a check.\<close>

definition forced_update :: "update_event list" where
  "forced_update = [Answered 2 (Checked True (found 3) 0), Ask_node ''n1'', Start_node,
     Answered 3 (Node_reply False False (Some ''Kein Wartungsmodus'') True), Answered 4 (Node_reply True True None False)]"

definition held_run :: run where
  "held_run = \<lparr> ru_status = ''paused'', ru_reason = ''quorum'', ru_step = ''held'' \<rparr>"

definition at_risk :: "update_event list" where
  "at_risk = forced_update @ [Answered 1 (Status_is True True (Some held_run)), Continue_anyway True, Poll, Answered 6 Lost]"

lemmas update_eval = updates_new_def updates_start_def update_ops update_answer_def can_update_def node_found_def totalUpdates_def found_def
  paused_for_def run_status_def held_run_def not_in_maintenance_def has_text_def finished_run_def nodeHasKernelUpdates_def

definition risky :: updates where
  "risky = the (run_exec update_exec (updates_new False True Map.empty ''a'' 0) at_risk)"

lemma risky_run: "run_exec update_exec (updates_new False True Map.empty ''a'' 0) at_risk = Some risky"
  and risky_calls: "us_calls risky = [(Get_schedule, ''a''), (Status, ''a''), (Check False, ''a''), (Node_update ''n1'' False False, ''a''),
     (Node_update ''n1'' False True, ''a''), (Resume True, ''a''), (Status, ''a'')]"
  and risky_cache: "us_cache risky ''a'' = Some (Kept (Some 0) (Some (found 3)))"
  by (simp_all add: risky_def at_risk_def forced_update_def update_eval)

lemma risks_need_consent_witness:
  "\<exists>i success err. Answered i (Node_reply False success err True) \<in> set at_risk \<and> us_calls risky ! i = (Node_update ''n1'' False False, ''a'')"
proof -
  have "(Node_update ''n1'' False True, ''a'') \<in> set (us_calls risky)" by (simp add: risky_calls)
  with risks_need_consent [OF risky_run, of "''n1''" False "''a''"] show ?thesis by blast
qed

text \<open>The answer that was lost at the end does not hide the run.\<close>

lemma run_shown_witness: "us_run risky = Some held_run"
  using run_shown [OF risky_run] by (simp add: at_risk_def forced_update_def)

lemma cache_own_witness: "\<exists>i f rep at. Answered i (Checked True rep at) \<in> set at_risk \<and> us_calls risky ! i = (Check f, ''a'')"
  using cache_own [OF risky_run risky_cache] by auto

definition reader_run :: "update_event list" where
  "reader_run = [Answered 0 (Schedule_is True []), Answered 1 (Status_is True True (Some held_run)), Poll]"

definition reader :: updates where
  "reader = the (run_exec update_exec (updates_new True True Map.empty ''a'' 0) reader_run)"

lemma reader_run: "run_exec update_exec (updates_new True True Map.empty ''a'' 0) reader_run = Some reader"
  by (simp add: reader_def reader_run_def update_eval)


section \<open>What goes wrong\<close>

definition done_run :: run where
  "done_run = \<lparr> ru_status = ''completed'', ru_reason = [], ru_step = [] \<rparr>"

text \<open>A finished run that is dismissed on a standby is cleared and the updates are checked for.\<close>

lemma standby_checks:
  "run_ends update_exec (updates_new True True Map.empty ''a'' 0)
     [Answered 1 (Status_is True True (Some done_run)), Dismiss_clear, Answered 2 (Success True)]
     (\<lambda>s. map fst (us_calls s) = [Get_schedule, Status, Clear, Check False])"
  by (simp add: run_ends_def update_eval done_run_def)

text \<open>The other button that dismisses a run tells the server nothing: the next poll brings the run back and the updates are checked for again.\<close>

lemma dismissed_comes_back:
  "run_ends update_exec (updates_new False True Map.empty ''a'' 0)
     [Answered 1 (Status_is True True (Some done_run)), Dismiss, Poll, Answered 4 (Status_is True True (Some done_run))]
     (\<lambda>s. us_run s = Some done_run \<and> map fst (us_calls s) = [Get_schedule, Status, Check False, Check False, Status, Check False])"
  by (simp add: run_ends_def update_eval done_run_def)

text \<open>Answers are not asked for the cluster they belong to: the section shows the updates, the run and the schedule of the cluster
  that was left, and a save writes that schedule to the other one.\<close>

lemma updates_of_other_cluster:
  "run_ends update_exec (updates_new False True Map.empty ''a'' 0)
     [Switch ''b'' 0, Answered 5 (Checked True (found 0) 1), Answered 2 (Checked True (found 7) 2), Answered 1 (Status_is True True (Some held_run))]
     (\<lambda>s. us_cluster s = ''b'' \<and> us_report s = Some (found 7) \<and> us_run s = Some held_run)"
  by (simp add: run_ends_def update_eval)

lemma schedule_of_other_cluster:
  "run_ends update_exec (updates_new False True Map.empty ''a'' 0)
     [Switch ''b'' 0, Answered 3 (Schedule_is True []), Answered 0 (Schedule_is True [(''enabled'', Bool True)]), Open_schedule, Save_schedule]
     (\<lambda>s. \<exists>d. last (us_calls s) = (Put_schedule d, ''b'') \<and> prop_of d ''enabled'' = Bool True)"
  by (simp add: run_ends_def update_eval saveUpdateSchedule_def loadUpdateSchedule_def prop_of_def or_else_def)

text \<open>An update of a node that failed is not reported: its mark goes, and no text comes.\<close>

lemma failed_not_told:
  "run_ends update_exec (updates_new False True Map.empty ''a'' 0)
     [Answered 2 (Checked True (found 3) 0), Ask_node ''n1'', Start_node, Answered 3 (Node_reply True True None False),
      Watch_tick 0, Answered 4 (Node_state True ''failed'')]
     (\<lambda>s. us_updating s = None \<and> us_toasts s = [(''updateStarted'', ''n1'')])"
  by (simp add: run_ends_def update_eval)

text \<open>The limit of one update takes the mark from the node that is updated now.\<close>

lemma mark_of_other_node:
  "run_ends update_exec (updates_new False True Map.empty ''a'' 0)
     [Answered 2 (Checked True (found 3) 0), Ask_node ''n1'', Start_node, Answered 3 (Node_reply True True None False),
      Watch_tick 0, Answered 4 (Node_state True ''completed''), Ask_node ''n2'', Start_node, Answered 5 (Node_reply True True None False),
      Watch_limit 0]
     (\<lambda>s. us_updating s = None \<and> map wa_on (us_watches s) = [False, True])"
  by (simp add: run_ends_def update_eval)

text \<open>Two polls on their way when the update ends: its end is told twice, and the updates are checked for twice.\<close>

lemma end_told_twice:
  "run_ends update_exec (updates_new False True Map.empty ''a'' 0)
     [Answered 2 (Checked True (found 3) 0), Ask_node ''n1'', Start_node, Answered 3 (Node_reply True True None False),
      Watch_tick 0, Watch_tick 0, Answered 4 (Node_state True ''completed''), Answered 5 (Node_state True ''completed'')]
     (\<lambda>s. us_toasts s = [(''updateStarted'', ''n1''), (''updateCompleted'', ''n1''), (''updateCompleted'', ''n1'')] \<and> length (us_later s) = 2)"
  by (simp add: run_ends_def update_eval)

end
