(* ===== verification/Datastores.thy ===== *)
theory Datastores
  imports Js_Values
begin

text \<open>
  The storages of a cluster (\<open>DatastoreTab\<close> in web/src/storage.js): the list with its lock, the content of the storage that
  is picked and the deletion of a volume in it, the threshold of a balanced group, and a file that is sent to all nodes.
  \<open>localeCompare\<close> is a parameter. A section whose parent has the list takes it from there. Uploads and downloads, with the
  reading of the content that follows them, are left out but for their names.

  \<^item> \<open>list_of_cluster\<close>: a list that counts as loaded was answered for the cluster shown, or the parent gave it.
  \<^item> \<open>deletes_listed_volume\<close>: a deletion names a volume the server listed for this very storage and node, when no other one
    is picked while a list is on its way; \<open>deleted_on_other_node\<close>: otherwise it may not.
  \<^item> \<open>last_threshold_sent\<close>: the last threshold chosen is the last one sent.
  \<^item> \<open>sync_polls_end\<close>: a file that is sent to all nodes is asked about 21 times at most.
\<close>

section \<open>The list\<close>

record store_row =
  sr_storage :: string
  sr_type :: string
  sr_content :: string
  sr_total :: nat
  sr_used :: nat
  sr_active :: bool
  sr_on :: "string list option"
  sr_off :: "string list option"

record stores =
  so_shared :: "store_row list"
  so_local :: "(string \<times> store_row list) list"
  so_nodes :: "string list"

definition row_cmp :: "(string \<Rightarrow> string \<Rightarrow> int) \<Rightarrow> store_row \<Rightarrow> store_row \<Rightarrow> int" where
  "row_cmp cmp a b = cmp (sr_storage a) (sr_storage b)"

definition put_local :: "(string \<Rightarrow> string \<Rightarrow> int) \<Rightarrow> stores \<Rightarrow> string \<Rightarrow> (string \<times> store_row list) list \<Rightarrow> (string \<times> store_row list) list" where
  "put_local cmp d n acc =
     (case map_of (so_local d) n of None \<Rightarrow> acc | Some rs \<Rightarrow> AList.update n (js_sort (row_cmp cmp) rs) acc)"

definition stableSortData :: "(string \<Rightarrow> string \<Rightarrow> int) \<Rightarrow> stores \<Rightarrow> stores" where
  "stableSortData cmp d =
     (let ns = js_sort cmp (so_nodes d)
      in \<lparr> so_shared = js_sort (row_cmp cmp) (so_shared d), so_local = fold (put_local cmp d) ns [], so_nodes = ns \<rparr>)"

text \<open>The sorted list has the same shared storages and nodes, and for every node that is listed the same storages.\<close>

lemma fold_put_local:
  "map_of (fold (put_local cmp d) ns acc) n
   = (if n \<in> set ns \<and> map_of (so_local d) n \<noteq> None then map_option (js_sort (row_cmp cmp)) (map_of (so_local d) n) else map_of acc n)"
  by (induction ns arbitrary: acc) (auto simp: put_local_def update_conv' split: option.split)

lemma sorted_stores:
  "mset (so_shared (stableSortData cmp d)) = mset (so_shared d) \<and> mset (so_nodes (stableSortData cmp d)) = mset (so_nodes d)
   \<and> (n \<in> set (so_nodes d) \<longrightarrow> map_option mset (map_of (so_local (stableSortData cmp d)) n) = map_option mset (map_of (so_local d) n))
   \<and> (n \<notin> set (so_nodes d) \<longrightarrow> map_of (so_local (stableSortData cmp d)) n = None)"
  by (auto simp: stableSortData_def Let_def fold_put_local option.map_comp comp_def)

text \<open>A row: what it says (a storage is active when it is enabled too), and the node its content is asked from.\<close>

datatype row_look = Unreachable | Partial | Raw_device | Normal

definition partial_row :: "bool \<Rightarrow> store_row \<Rightarrow> bool" where
  "partial_row shared r \<longleftrightarrow> shared \<and> (case (sr_on r, sr_off r) of (Some a, Some b) \<Rightarrow> a \<noteq> [] \<and> b \<noteq> [] | _ \<Rightarrow> False)"

definition row_state :: "bool \<Rightarrow> store_row \<Rightarrow> row_look" where
  "row_state shared r =
     (if \<not> sr_active r then Unreachable else if partial_row shared r then Partial
      else if sr_total r = 0 \<and> sr_used r = 0 then Raw_device else Normal)"

definition clickNode :: "string option \<Rightarrow> store_row \<Rightarrow> string option" where
  "clickNode node r =
     (case node of Some n \<Rightarrow> Some n | None \<Rightarrow> (case sr_on r of Some (n # ns) \<Rightarrow> Some n | _ \<Rightarrow> None))"

definition canUploadTo :: "store_row option \<Rightarrow> bool" where
  "canUploadTo r = (case r of None \<Rightarrow> False | Some s \<Rightarrow> js_includes (sr_content s) ''iso'' \<or> js_includes (sr_content s) ''vztmpl'')"

definition upload_content :: "string \<Rightarrow> string" where
  "upload_content name =
     (let f = to_lower name
      in if list_ex (ends_with f) [''.vmdk'', ''.qcow2'', ''.img'', ''.raw''] then ''import''
         else if list_ex (ends_with f) [''.tar.gz'', ''.tar.xz'', ''.tar.zst''] then ''vztmpl'' else ''iso'')"

text \<open>The name of a download; the last part of the path of its address comes from the URL parser, none where that fails.\<close>

definition download_name :: "string option \<Rightarrow> string \<Rightarrow> string" where
  "download_name last_part typed_name =
     (let n = trim typed_name;
          f = (if n \<noteq> [] then n else case last_part of None \<Rightarrow> ''download.iso'' | Some p \<Rightarrow> if p = [] then ''download.iso'' else p)
      in if ends_with (to_lower f) ''.iso'' \<or> ends_with (to_lower f) ''.img'' then f else f @ ''.iso'')"

text \<open>The storage a click in the sidebar opens: on the node it names, else a shared one, else the first node that has it.\<close>

definition has_store :: "string \<Rightarrow> store_row list \<Rightarrow> bool" where
  "has_store name = list_ex (\<lambda>s. sr_storage s = name)"

definition initial_storage :: "stores \<Rightarrow> string \<Rightarrow> string option \<Rightarrow> (string \<times> string option) option" where
  "initial_storage d name node =
     (case node of
        Some n \<Rightarrow> (case map_of (so_local d) n of
                     Some ss \<Rightarrow> if has_store name ss then Some (name, Some n) else None
                   | None \<Rightarrow> None)
      | None \<Rightarrow> None)"

definition sidebar_storage :: "stores \<Rightarrow> string \<Rightarrow> string option \<Rightarrow> (string \<times> string option) option" where
  "sidebar_storage d name node =
     (case initial_storage d name node of
        Some p \<Rightarrow> Some p
      | None \<Rightarrow> if has_store name (so_shared d) then Some (name, None)
                else (case find (\<lambda>(n, ss). has_store name ss) (so_local d) of None \<Rightarrow> None | Some (n, ss) \<Rightarrow> Some (name, Some n)))"

lemma sidebar_storage_there:
  assumes "sidebar_storage d name node = Some (x, w)" and "distinct (map fst (so_local d))"
  shows "x = name \<and> (case w of None \<Rightarrow> has_store name (so_shared d) | Some n \<Rightarrow> (\<exists>ss. map_of (so_local d) n = Some ss \<and> has_store name ss))"
proof (cases "initial_storage d name node")
  case None
  have "\<exists>ss. map_of (so_local d) n = Some ss \<and> has_store name ss" if "find (\<lambda>(n, ss). has_store name ss) (so_local d) = Some (n, ss)" for n ss
    using that assms(2) by (auto simp: find_Some_iff intro!: exI [of _ ss]) (metis map_of_is_SomeI nth_mem)
  with None assms show ?thesis
    by (auto simp: sidebar_storage_def split: if_split_asm option.split_asm prod.split_asm)
next
  case (Some p)
  with assms show ?thesis by (auto simp: sidebar_storage_def initial_storage_def split: option.split_asm if_split_asm)
qed


section \<open>State\<close>

text \<open>A request for the list knows its cluster; one for a content its cluster, storage and node. \<open>dt_from\<close> says which answer the list
  on the page is, none for that of the parent.\<close>

record volume =
  vo_volid :: string
  vo_kind :: string
  vo_guest :: bool

datatype group_change = Threshold_to nat | Tolerance_to nat

type_synonym store_place = "string \<times> string \<times> string option"

record group =
  gr_id :: string
  gr_threshold :: nat
  gr_tolerance :: nat
  gr_storages :: "string list"

record dstores =
  dt_cluster :: string
  dt_parent :: bool
  dt_initial :: "(string \<times> string option) option"
  dt_done :: bool
  dt_loading :: bool
  dt_lock :: bool
  dt_stores :: stores
  dt_from :: "nat option"
  dt_open :: "string list"
  dt_fetches :: "string list"
  dt_out :: "nat list"
  dt_selected :: "(string \<times> string option) option"
  dt_content :: "volume list"
  dt_content_loading :: bool
  dt_loads :: "store_place list"
  dt_loads_out :: "nat list"
  dt_confirm :: "volume option"
  dt_deletes :: "(store_place \<times> string) list"
  dt_groups :: "group list"
  dt_group :: "group option"
  dt_timer :: "(string \<times> string \<times> group_change) option"
  dt_puts :: "(string \<times> string \<times> group_change) list"

definition no_stores :: stores where
  "no_stores = \<lparr> so_shared = [], so_local = [], so_nodes = [] \<rparr>"

definition fetchDatastores :: "string \<Rightarrow> dstores \<Rightarrow> dstores" where
  "fetchDatastores c s =
     (if dt_lock s then s
      else s\<lparr> dt_lock := True, dt_loading := (dt_loading s \<or> \<not> dt_done s), dt_out := dt_out s @ [length (dt_fetches s)],
              dt_fetches := dt_fetches s @ [c] \<rparr>)"

definition loadStorageContent :: "string \<Rightarrow> string option \<Rightarrow> dstores \<Rightarrow> dstores" where
  "loadStorageContent name node s =
     s\<lparr> dt_content_loading := True, dt_selected := Some (name, node), dt_loads_out := dt_loads_out s @ [length (dt_loads s)],
        dt_loads := dt_loads s @ [(dt_cluster s, name, node)] \<rparr>"

text \<open>Every new list, and another click in the sidebar, opens the storage of the sidebar again.\<close>

definition open_initial :: "dstores \<Rightarrow> dstores" where
  "open_initial s =
     (case dt_initial s of
        None \<Rightarrow> s
      | Some (name, node) \<Rightarrow>
          if \<not> dt_done s then s
          else case sidebar_storage (dt_stores s) name node of None \<Rightarrow> s | Some (x, n) \<Rightarrow> loadStorageContent x n s)"

definition take_list :: "(string \<Rightarrow> string \<Rightarrow> int) \<Rightarrow> nat option \<Rightarrow> stores \<Rightarrow> dstores \<Rightarrow> dstores" where
  "take_list cmp from_answer d s =
     (let d' = stableSortData cmp d
      in open_initial (s\<lparr> dt_stores := d', dt_from := from_answer, dt_open := (if dt_done s then dt_open s else ''shared'' # so_nodes d'), dt_done := True \<rparr>))"

text \<open>The answer to a request for the list: one for another cluster is thrown away, and in any case the lock and the wheel end.\<close>

definition list_got :: "(string \<Rightarrow> string \<Rightarrow> int) \<Rightarrow> nat \<Rightarrow> stores option \<Rightarrow> dstores \<Rightarrow> dstores" where
  "list_got cmp i r s =
     (let s' = (case r of None \<Rightarrow> s | Some d \<Rightarrow> if dt_fetches s ! i \<noteq> dt_cluster s then s else take_list cmp (Some i) d s)
      in s'\<lparr> dt_loading := False, dt_lock := False \<rparr>)"

text \<open>The list of the parent; only the first one ends the wheel.\<close>

definition parent_list :: "(string \<Rightarrow> string \<Rightarrow> int) \<Rightarrow> stores \<Rightarrow> dstores \<Rightarrow> dstores" where
  "parent_list cmp d s =
     (if so_shared d = [] then s\<lparr> dt_parent := False \<rparr>
      else (let s' = s\<lparr> dt_parent := True \<rparr> in if dt_done s then take_list cmp None d s' else (take_list cmp None d s')\<lparr> dt_loading := False \<rparr>))"

definition open_stores :: "string \<Rightarrow> dstores \<Rightarrow> dstores" where
  "open_stores c s =
     (let s' = s\<lparr> dt_cluster := c, dt_selected := None, dt_content := [], dt_groups := [], dt_group := None, dt_done := False, dt_lock := False \<rparr>
      in if dt_parent s then s' else fetchDatastores c s')"

definition dstores_new :: "(string \<times> string option) option \<Rightarrow> string \<Rightarrow> dstores" where
  "dstores_new initial c = open_stores c
     \<lparr> dt_cluster = c, dt_parent = False, dt_initial = initial, dt_done = False, dt_loading = True, dt_lock = False, dt_stores = no_stores, dt_from = None,
       dt_open = [], dt_fetches = [], dt_out = [], dt_selected = None, dt_content = [], dt_content_loading = False, dt_loads = [],
       dt_loads_out = [], dt_confirm = None, dt_deletes = [], dt_groups = [], dt_group = None, dt_timer = None, dt_puts = [] \<rparr>"

definition toggleNode :: "string \<Rightarrow> dstores \<Rightarrow> dstores" where
  "toggleNode n s = s\<lparr> dt_open := (if n \<in> set (dt_open s) then filter (\<lambda>x. x \<noteq> n) (dt_open s) else n # dt_open s) \<rparr>"

section \<open>Content and deletion\<close>

definition content_got :: "volume list option \<Rightarrow> dstores \<Rightarrow> dstores" where
  "content_got r s = (case r of None \<Rightarrow> s | Some vs \<Rightarrow> s\<lparr> dt_content := vs \<rparr>)\<lparr> dt_content_loading := False \<rparr>"

definition deletable :: "volume \<Rightarrow> bool" where
  "deletable v \<longleftrightarrow> vo_kind v = ''backup'' \<or> \<not> vo_guest v \<and> (vo_kind v = ''iso'' \<or> vo_kind v = ''vztmpl'')"

definition handleDelete :: "volume \<Rightarrow> string \<times> string option \<Rightarrow> dstores \<Rightarrow> dstores" where
  "handleDelete v sel s = s\<lparr> dt_deletes := dt_deletes s @ [((dt_cluster s, sel), vo_volid v)] \<rparr>"

definition deleted :: "string \<Rightarrow> dstores \<Rightarrow> dstores" where
  "deleted volid s = s\<lparr> dt_content := filter (\<lambda>v. vo_volid v \<noteq> volid) (dt_content s), dt_confirm := None \<rparr>"

section \<open>Groups\<close>

definition set_threshold :: "string \<Rightarrow> nat \<Rightarrow> group \<Rightarrow> group" where
  "set_threshold g n x = (if gr_id x = g then x\<lparr> gr_threshold := n \<rparr> else x)"

text \<open>One timer for all groups and both numbers.\<close>

definition updateClusterThreshold :: "string \<Rightarrow> nat \<Rightarrow> dstores \<Rightarrow> dstores" where
  "updateClusterThreshold g n s =
     s\<lparr> dt_groups := map (set_threshold g n) (dt_groups s), dt_group := map_option (set_threshold g n) (dt_group s),
        dt_timer := Some (dt_cluster s, g, Threshold_to n) \<rparr>"

definition update_tolerance :: "string \<Rightarrow> nat \<Rightarrow> dstores \<Rightarrow> dstores" where
  "update_tolerance g n s =
     s\<lparr> dt_group := map_option (\<lambda>x. x\<lparr> gr_tolerance := n \<rparr>) (dt_group s), dt_timer := Some (dt_cluster s, g, Tolerance_to n) \<rparr>"

definition threshold_due :: "dstores \<Rightarrow> dstores" where
  "threshold_due s = (case dt_timer s of None \<Rightarrow> s | Some p \<Rightarrow> s\<lparr> dt_timer := None, dt_puts := dt_puts s @ [p] \<rparr>)"

text \<open>What the other changes of a group send, none where they are refused.\<close>

definition createStorageCluster :: "string \<Rightarrow> string list \<Rightarrow> (string \<times> string list) option" where
  "createStorageCluster name stores = (if trim name = [] \<or> length stores < 2 then None else Some (name, stores))"

definition pick_member :: "string \<Rightarrow> bool \<Rightarrow> string list \<Rightarrow> string list" where
  "pick_member x on stores = (if on then stores @ [x] else filter (\<lambda>s. s \<noteq> x) stores)"

definition addStorageToCluster :: "string \<Rightarrow> string \<Rightarrow> group list \<Rightarrow> string list option" where
  "addStorageToCluster g x gs = (case find (\<lambda>c. gr_id c = g) gs of None \<Rightarrow> None | Some c \<Rightarrow> Some (gr_storages c @ [x]))"

definition removeStorageFromCluster :: "string \<Rightarrow> string \<Rightarrow> group list \<Rightarrow> string list option" where
  "removeStorageFromCluster g x gs =
     (case find (\<lambda>c. gr_id c = g) gs of
        None \<Rightarrow> None
      | Some c \<Rightarrow> if length (gr_storages c) \<le> 2 then None else Some (filter (\<lambda>s. s \<noteq> x) (gr_storages c)))"

definition deleteStorageCluster :: "string \<Rightarrow> dstores \<Rightarrow> dstores" where
  "deleteStorageCluster g s =
     s\<lparr> dt_groups := filter (\<lambda>c. gr_id c \<noteq> g) (dt_groups s),
        dt_group := (case dt_group s of None \<Rightarrow> None | Some c \<Rightarrow> if gr_id c = g then None else Some c) \<rparr>"

section \<open>Steps\<close>

datatype dstores_event =
    Cluster string
  | Parent stores
  | Sidebar "(string \<times> string option) option"
  | Refetch
  | Listed nat "stores option"
  | Toggle string
  | Pick string "string option"
  | Content nat "volume list option"
  | Ask_delete nat
  | No_delete
  | Delete
  | Deleted string
  | Groups "group list"
  | Group group
  | Threshold nat
  | Tolerance nat
  | Timer
  | Group_gone string

fun dstores_exec :: "(string \<Rightarrow> string \<Rightarrow> int) \<Rightarrow> dstores \<Rightarrow> dstores_event \<Rightarrow> dstores option" where
  "dstores_exec cmp s (Cluster c) = Some (if c = dt_cluster s then s else open_stores c s)"
| "dstores_exec cmp s (Parent d) = Some (parent_list cmp d s)"
| "dstores_exec cmp s (Sidebar x) = Some (if x = dt_initial s then s else open_initial (s\<lparr> dt_initial := x \<rparr>))"
| "dstores_exec cmp s Refetch = Some (fetchDatastores (dt_cluster s) s)"
| "dstores_exec cmp s (Listed i r) =
     (if i < length (dt_fetches s) \<and> i \<in> set (dt_out s) then Some (list_got cmp i r (s\<lparr> dt_out := remove1 i (dt_out s) \<rparr>)) else None)"
| "dstores_exec cmp s (Toggle n) = Some (toggleNode n s)"
| "dstores_exec cmp s (Pick name node) = (if dt_loading s then None else Some (loadStorageContent name node s))"
| "dstores_exec cmp s (Content j r) =
     (if j < length (dt_loads s) \<and> j \<in> set (dt_loads_out s) then Some (content_got r (s\<lparr> dt_loads_out := remove1 j (dt_loads_out s) \<rparr>)) else None)"
| "dstores_exec cmp s (Ask_delete k) =
     (if k < length (dt_content s) \<and> deletable (dt_content s ! k) \<and> \<not> dt_content_loading s \<and> dt_selected s \<noteq> None
      then Some (s\<lparr> dt_confirm := Some (dt_content s ! k) \<rparr>) else None)"
| "dstores_exec cmp s No_delete = Some (s\<lparr> dt_confirm := None \<rparr>)"
| "dstores_exec cmp s Delete =
     (case (dt_confirm s, dt_selected s) of (Some v, Some sel) \<Rightarrow> Some (handleDelete v sel s) | _ \<Rightarrow> None)"
| "dstores_exec cmp s (Deleted v) = (if v \<in> set (map snd (dt_deletes s)) then Some (deleted v s) else None)"
| "dstores_exec cmp s (Groups gs) = Some (s\<lparr> dt_groups := gs \<rparr>)"
| "dstores_exec cmp s (Group g) = Some (s\<lparr> dt_group := Some g \<rparr>)"
| "dstores_exec cmp s (Threshold n) = (case dt_group s of None \<Rightarrow> None | Some g \<Rightarrow> Some (updateClusterThreshold (gr_id g) n s))"
| "dstores_exec cmp s (Tolerance n) = (case dt_group s of None \<Rightarrow> None | Some g \<Rightarrow> Some (update_tolerance (gr_id g) n s))"
| "dstores_exec cmp s Timer = (case dt_timer s of None \<Rightarrow> None | Some p \<Rightarrow> Some (threshold_due s))"
| "dstores_exec cmp s (Group_gone g) = Some (deleteStorageCluster g s)"


section \<open>The list belongs to the cluster\<close>

definition list_inv :: "(string \<Rightarrow> string \<Rightarrow> int) \<Rightarrow> dstores_event list \<Rightarrow> dstores \<Rightarrow> bool" where
  "list_inv cmp es s \<longleftrightarrow>
     (dt_done s \<longrightarrow>
        (case dt_from s of
           None \<Rightarrow> \<exists>d. Parent d \<in> set es \<and> dt_stores s = stableSortData cmp d
         | Some i \<Rightarrow> i < length (dt_fetches s) \<and> dt_fetches s ! i = dt_cluster s
             \<and> (\<exists>d. Listed i (Some d) \<in> set es \<and> dt_stores s = stableSortData cmp d)))"

text \<open>What the list depends on.\<close>

definition same_list :: "dstores \<Rightarrow> dstores \<Rightarrow> bool" where
  "same_list s s' \<longleftrightarrow> dt_cluster s' = dt_cluster s \<and> dt_done s' = dt_done s \<and> dt_from s' = dt_from s \<and> dt_stores s' = dt_stores s
     \<and> (\<exists>new. dt_fetches s' = dt_fetches s @ new)"

lemma same_list_load: "same_list s (loadStorageContent x n s)"
  by (simp add: same_list_def loadStorageContent_def)

lemma same_list_initial: "same_list s (open_initial s)"
  by (auto simp: open_initial_def same_list_load split: option.split) (simp_all add: same_list_def)

lemma same_list_trans: "same_list s t \<Longrightarrow> same_list t u \<Longrightarrow> same_list s u"
  unfolding same_list_def by auto

lemma list_inv_same: "list_inv cmp es s \<Longrightarrow> same_list s s' \<Longrightarrow> list_inv cmp (es @ es') s'"
  unfolding list_inv_def same_list_def by (auto simp: nth_append split: option.splits)

lemma take_list_got:
  "dt_done (take_list cmp o' d s)" "dt_from (take_list cmp o' d s) = o'" "dt_stores (take_list cmp o' d s) = stableSortData cmp d"
  "dt_cluster (take_list cmp o' d s) = dt_cluster s" "dt_fetches (take_list cmp o' d s) = dt_fetches s"
  by (simp_all add: take_list_def open_initial_def loadStorageContent_def Let_def split: option.split)

lemma list_inv_step:
  assumes inv: "list_inv cmp es s" and e: "dstores_exec cmp s e = Some s'"
  shows "list_inv cmp (es @ [e]) s'"
proof (cases "same_list s s'")
  case True
  from list_inv_same [OF inv True] show ?thesis .
next
  case False
  show ?thesis
  proof (cases e)
    case (Cluster c)
    with e False have "s' = open_stores c s" by (auto simp: same_list_def split: if_split_asm)
    then show ?thesis by (simp add: list_inv_def open_stores_def fetchDatastores_def Let_def)
  next
    case (Parent d)
    with e False have "s' = parent_list cmp d s" "so_shared d \<noteq> []" by (auto simp: same_list_def parent_list_def)
    with Parent show ?thesis by (auto simp: list_inv_def parent_list_def take_list_got Let_def)
  next
    case (Listed i r)
    with e have i: "i < length (dt_fetches s)" and s': "s' = list_got cmp i r (s\<lparr> dt_out := remove1 i (dt_out s) \<rparr>)" by (simp_all split: if_split_asm)
    with False obtain d where "r = Some d" "dt_fetches s ! i = dt_cluster s"
      by (cases r) (auto simp: list_got_def same_list_def split: if_split_asm)
    with i Listed show ?thesis unfolding s' by (auto simp: list_inv_def list_got_def take_list_got)
  next
    case (Sidebar x)
    with e False same_list_initial [of "s\<lparr> dt_initial := x \<rparr>"] show ?thesis by (auto simp: same_list_def split: if_split_asm)
  qed (use e False in \<open>auto simp: same_list_def fetchDatastores_def toggleNode_def loadStorageContent_def content_got_def handleDelete_def deleted_def
       updateClusterThreshold_def update_tolerance_def threshold_due_def deleteStorageCluster_def split: if_split_asm option.splits\<close>)
qed

lemma list_inv_new: "list_inv cmp [] (dstores_new x c)"
  by (simp add: list_inv_def dstores_new_def open_stores_def fetchDatastores_def)

interpretation list_trace: trace_machine "dstores_exec cmp" "dstores_new x c" "list_inv cmp" for cmp x c
  by unfold_locales (rule list_inv_new, rule list_inv_step)

text \<open>A list that counts as loaded is what the server answered for the cluster on the screen, sorted, or what the parent gave;
  an answer for a cluster that was left is thrown away.\<close>

theorem list_of_cluster:
  assumes "run_exec (dstores_exec cmp) (dstores_new x c) es = Some s" and "dt_done s" and "\<And>d. Parent d \<notin> set es"
  shows "\<exists>i d. i < length (dt_fetches s) \<and> dt_fetches s ! i = dt_cluster s \<and> Listed i (Some d) \<in> set es \<and> dt_stores s = stableSortData cmp d"
  using list_trace.trace_run [OF assms(1)] assms(2,3) by (auto simp: list_inv_def split: option.splits)


section \<open>Deletions\<close>

text \<open>No storage is picked, by the user or by a new list, while a content is on its way or a deletion waits for its confirmation; and
  no request for a content fails.\<close>

definition calm_step' :: "dstores \<Rightarrow> dstores_event \<Rightarrow> dstores \<Rightarrow> bool" where
  "calm_step' s e s' \<longleftrightarrow>
     ((dt_selected s', dt_cluster s') \<noteq> (dt_selected s, dt_cluster s) \<longrightarrow> dt_loads_out s = [] \<and> dt_confirm s = None)
     \<and> (\<forall>j. e \<noteq> Content j None)"

fun calm_exec :: "(string \<Rightarrow> string \<Rightarrow> int) \<Rightarrow> dstores \<Rightarrow> dstores_event \<Rightarrow> dstores option" where
  "calm_exec cmp s e = (case dstores_exec cmp s e of None \<Rightarrow> None | Some s' \<Rightarrow> if calm_step' s e s' then Some s' else None)"

definition listed_at :: "dstores_event list \<Rightarrow> store_place list \<Rightarrow> store_place \<Rightarrow> volume \<Rightarrow> bool" where
  "listed_at es ls p v \<longleftrightarrow> (\<exists>j vs. Content j (Some vs) \<in> set es \<and> j < length ls \<and> ls ! j = p \<and> v \<in> set vs)"

lemma listed_more: "listed_at es ls p v \<Longrightarrow> listed_at (es @ es') (ls @ new) p v"
  unfolding listed_at_def by (auto simp: nth_append)

text \<open>What is shown and what may be deleted belongs to the storage that is picked.\<close>

definition picked_ok :: "dstores_event list \<Rightarrow> dstores \<Rightarrow> bool" where
  "picked_ok es s \<longleftrightarrow>
     (\<forall>j \<in> set (dt_loads_out s). j < length (dt_loads s) \<and> (\<forall>sel. dt_selected s = Some sel \<longrightarrow> dt_loads s ! j = (dt_cluster s, sel)))
     \<and> (dt_content_loading s \<longrightarrow> dt_loads_out s \<noteq> [])
     \<and> (\<not> dt_content_loading s \<longrightarrow> (\<forall>sel v. dt_selected s = Some sel \<and> v \<in> set (dt_content s) \<longrightarrow> listed_at es (dt_loads s) (dt_cluster s, sel) v))
     \<and> (\<forall>sel v. dt_selected s = Some sel \<and> dt_confirm s = Some v \<longrightarrow> deletable v \<and> listed_at es (dt_loads s) (dt_cluster s, sel) v)"

definition deletes_ok :: "dstores_event list \<Rightarrow> dstores \<Rightarrow> bool" where
  "deletes_ok es s \<longleftrightarrow>
     (\<forall>p x. (p, x) \<in> set (dt_deletes s) \<longrightarrow> (\<exists>v. listed_at es (dt_loads s) p v \<and> deletable v \<and> x = vo_volid v))"

text \<open>Steps that leave the storage that is picked.\<close>

definition same_pick :: "dstores \<Rightarrow> dstores \<Rightarrow> bool" where
  "same_pick s s' \<longleftrightarrow> dt_cluster s' = dt_cluster s \<and> dt_selected s' = dt_selected s \<and> dt_content s' = dt_content s
     \<and> dt_content_loading s' = dt_content_loading s \<and> dt_loads s' = dt_loads s \<and> dt_loads_out s' = dt_loads_out s
     \<and> dt_confirm s' = dt_confirm s \<and> dt_deletes s' = dt_deletes s"

lemma picked_same: "picked_ok es s \<Longrightarrow> same_pick s s' \<Longrightarrow> picked_ok (es @ es') s'"
  unfolding picked_ok_def same_pick_def by (auto intro: listed_more [where new = "[]", simplified])

lemma deletes_same:
  assumes "deletes_ok es s" and "dt_deletes s' = dt_deletes s" and "dt_loads s' = dt_loads s @ new"
  shows "deletes_ok (es @ es') s'"
  unfolding deletes_ok_def
proof (intro allI impI)
  fix p x assume "(p, x) \<in> set (dt_deletes s')"
  with assms(2) have "(p, x) \<in> set (dt_deletes s)" by simp
  with assms(1) obtain v where "listed_at es (dt_loads s) p v" "deletable v" "x = vo_volid v" unfolding deletes_ok_def by blast
  with listed_more [of es "dt_loads s" p v es' new] assms(3) show "\<exists>v. listed_at (es @ es') (dt_loads s') p v \<and> deletable v \<and> x = vo_volid v" by auto
qed

lemma picked_load:
  assumes p: "picked_ok es s" and c: "Some (x, n) \<noteq> dt_selected s \<longrightarrow> dt_loads_out s = [] \<and> dt_confirm s = None"
  shows "picked_ok (es @ es') (loadStorageContent x n s)"
proof -
  have q: "j < length (dt_loads s) \<and> dt_loads s ! j = (dt_cluster s, x, n)" if "j \<in> set (dt_loads_out s)" for j
  proof -
    from that c have "dt_selected s = Some (x, n)" by (metis list.set_cases list.simps(3))
    with p that show ?thesis unfolding picked_ok_def by blast
  qed
  have d: "deletable v \<and> listed_at es (dt_loads s) (dt_cluster s, x, n) v" if "dt_confirm s = Some v" for v
  proof -
    from that c have "dt_selected s = Some (x, n)" by (metis option.distinct(1))
    with p that show ?thesis unfolding picked_ok_def by blast
  qed
  from q d show ?thesis
    unfolding picked_ok_def loadStorageContent_def by (auto simp: nth_append less_SucI intro: listed_more)
qed

lemma picked_content:
  assumes p: "picked_ok es s" and j: "j \<in> set (dt_loads_out s)"
  shows "picked_ok (es @ [Content j (Some vs)]) (content_got (Some vs) (s\<lparr> dt_loads_out := remove1 j (dt_loads_out s) \<rparr>))"
proof -
  have "listed_at (es @ [Content j (Some vs)]) (dt_loads s) (dt_cluster s, sel) v" if "dt_selected s = Some sel" "v \<in> set vs" for sel v
  proof -
    from p j that(1) have "j < length (dt_loads s) \<and> dt_loads s ! j = (dt_cluster s, sel)" unfolding picked_ok_def by blast
    with that(2) show ?thesis unfolding listed_at_def by auto
  qed
  moreover have "set (remove1 j (dt_loads_out s)) \<subseteq> set (dt_loads_out s)" by (rule set_remove1_subset)
  ultimately show ?thesis
    using p unfolding picked_ok_def content_got_def
    by (auto intro: listed_more [where new = "[]", simplified])
qed

text \<open>What the list changes beside the storage that is picked.\<close>

lemma picked_initial:
  assumes "picked_ok es s" and "(dt_selected (open_initial s), dt_cluster (open_initial s)) \<noteq> (dt_selected s, dt_cluster s)
      \<longrightarrow> dt_loads_out s = [] \<and> dt_confirm s = None"
  shows "picked_ok (es @ es') (open_initial s)"
proof (cases "\<exists>x n. open_initial s = loadStorageContent x n s")
  case True
  then obtain x n where o': "open_initial s = loadStorageContent x n s" by blast
  have "Some (x, n) \<noteq> dt_selected s \<longrightarrow> dt_loads_out s = [] \<and> dt_confirm s = None"
    using assms(2) unfolding o' by (simp add: loadStorageContent_def)
  from picked_load [OF assms(1) this] show ?thesis unfolding o' .
next
  case False
  then have "open_initial s = s" by (auto simp: open_initial_def split: option.splits prod.splits if_splits)
  with assms picked_same [of es s s es'] show ?thesis by (simp add: same_pick_def)
qed

lemma initial_fields:
  "dt_deletes (open_initial s) = dt_deletes s" "\<exists>new. dt_loads (open_initial s) = dt_loads s @ new"
  by (auto simp: open_initial_def loadStorageContent_def split: option.split)

lemma picked_step:
  assumes p: "picked_ok es s" and c: "calm_exec cmp s e = Some s'"
  shows "picked_ok (es @ [e]) s'"
proof -
  from c have e: "dstores_exec cmp s e = Some s'" and calm: "calm_step' s e s'" by (auto split: option.splits if_split_asm)
  have take: "picked_ok (es @ [e]) (take_list cmp o' d t)"
    if "same_pick s t" and "(dt_selected (take_list cmp o' d t), dt_cluster (take_list cmp o' d t)) \<noteq> (dt_selected s, dt_cluster s)
        \<longrightarrow> dt_loads_out s = [] \<and> dt_confirm s = None" for o' d t
  proof -
    from picked_same [OF p that(1), of "[]"] have "picked_ok es t" by simp
    then have "picked_ok es (t\<lparr> dt_stores := st, dt_from := o', dt_open := op, dt_done := True \<rparr>)" for st op
      using picked_same [of es t "t\<lparr> dt_stores := st, dt_from := o', dt_open := op, dt_done := True \<rparr>" "[]"] by (simp add: same_pick_def)
    with that show ?thesis
      unfolding take_list_def Let_def by (intro picked_initial) (simp_all add: same_pick_def)
  qed
  show ?thesis
  proof (cases "same_pick s s'")
    case True
    from picked_same [OF p True] show ?thesis .
  next
    case False
    show ?thesis
    proof (cases e)
      case (Cluster k)
      with e False have s': "s' = open_stores k s" and k: "k \<noteq> dt_cluster s" by (auto simp: same_pick_def split: if_split_asm)
      with calm have "dt_loads_out s = []" "dt_confirm s = None" by (auto simp: calm_step'_def open_stores_def fetchDatastores_def Let_def)
      with p show ?thesis unfolding s' by (auto simp: picked_ok_def open_stores_def fetchDatastores_def Let_def)
    next
      case (Parent d)
      with e False have s': "s' = parent_list cmp d s" and d: "so_shared d \<noteq> []" by (auto simp: same_pick_def parent_list_def)
      have "picked_ok (es @ [e]) (take_list cmp None d (s\<lparr> dt_parent := True \<rparr>))"
        using calm d unfolding s' by (intro take) (auto simp: same_pick_def calm_step'_def parent_list_def Let_def)
      then show ?thesis using d unfolding s' by (auto simp: parent_list_def Let_def picked_ok_def)
    next
      case (Sidebar x)
      with e False have s': "s' = open_initial (s\<lparr> dt_initial := x \<rparr>)" by (auto simp: same_pick_def split: if_split_asm)
      have "picked_ok es (s\<lparr> dt_initial := x \<rparr>)" using picked_same [OF p, of _ "[]"] by (simp add: same_pick_def)
      then show ?thesis using calm unfolding s' by (intro picked_initial) (auto simp: calm_step'_def)
    next
      case (Listed i r)
      with e have s': "s' = list_got cmp i r (s\<lparr> dt_out := remove1 i (dt_out s) \<rparr>)" by (simp split: if_split_asm)
      with False obtain d where r: "r = Some d" "dt_fetches s ! i = dt_cluster s"
        by (cases r) (auto simp: list_got_def same_pick_def split: if_split_asm)
      let ?t = "take_list cmp (Some i) d (s\<lparr> dt_out := remove1 i (dt_out s) \<rparr>)"
      have "picked_ok (es @ [e]) ?t" using calm r unfolding s' by (intro take) (auto simp: same_pick_def calm_step'_def list_got_def)
      then show ?thesis using r unfolding s' by (simp add: list_got_def picked_ok_def)
    next
      case (Pick x n)
      with e have s': "s' = loadStorageContent x n s" by (simp split: if_split_asm)
      show ?thesis using calm unfolding s' by (intro picked_load [OF p]) (auto simp: calm_step'_def loadStorageContent_def)
    next
      case (Content j r)
      with e have j: "j \<in> set (dt_loads_out s)" and s': "s' = content_got r (s\<lparr> dt_loads_out := remove1 j (dt_loads_out s) \<rparr>)"
        by (simp_all split: if_split_asm)
      from calm Content obtain vs where "r = Some vs" by (cases r) (auto simp: calm_step'_def)
      with picked_content [OF p j, of vs] s' Content show ?thesis by simp
    next
      case (Ask_delete k)
      with e have k: "k < length (dt_content s)" "deletable (dt_content s ! k)" "\<not> dt_content_loading s"
        and s': "s' = s\<lparr> dt_confirm := Some (dt_content s ! k) \<rparr>" by (simp_all split: if_split_asm)
      have "listed_at es (dt_loads s) (dt_cluster s, sel) (dt_content s ! k)" if "dt_selected s = Some sel" for sel
        using p k that nth_mem [OF k(1)] unfolding picked_ok_def by blast
      with p k show ?thesis unfolding s' picked_ok_def by (auto intro: listed_more [where new = "[]", simplified])
    next
      case Delete
      with e obtain v sel where "s' = handleDelete v sel s" by (auto split: option.splits)
      with p show ?thesis by (auto simp: picked_ok_def handleDelete_def intro: listed_more [where new = "[]", simplified])
    next
      case (Deleted x)
      with e have "s' = deleted x s" by (simp split: if_split_asm)
      with p show ?thesis by (auto simp: picked_ok_def deleted_def intro: listed_more [where new = "[]", simplified])
    next
      case No_delete
      with e have "s' = s\<lparr> dt_confirm := None \<rparr>" by simp
      with p show ?thesis by (auto simp: picked_ok_def intro: listed_more [where new = "[]", simplified])
    qed (use e False in \<open>auto simp: same_pick_def fetchDatastores_def toggleNode_def
         updateClusterThreshold_def update_tolerance_def threshold_due_def deleteStorageCluster_def split: if_split_asm option.splits\<close>)
  qed
qed


lemma deletes_frame:
  assumes "dstores_exec cmp s e = Some s'" and "e \<noteq> Delete"
  shows "dt_deletes s' = dt_deletes s \<and> (\<exists>new. dt_loads s' = dt_loads s @ new)"
proof -
  have i: "dt_deletes (open_initial t) = dt_deletes t \<and> (\<exists>new. dt_loads (open_initial t) = dt_loads t @ new)" for t
    using initial_fields by blast
  have t: "dt_deletes (take_list cmp o' d t) = dt_deletes t \<and> (\<exists>new. dt_loads (take_list cmp o' d t) = dt_loads t @ new)" for o' d t
    unfolding take_list_def Let_def using i [of "t\<lparr> dt_stores := stableSortData cmp d, dt_from := o',
      dt_open := (if dt_done t then dt_open t else ''shared'' # so_nodes (stableSortData cmp d)), dt_done := True \<rparr>"] by simp
  show ?thesis
  proof (cases e)
    case (Parent d)
    with assms t [of None d "s\<lparr> dt_parent := True \<rparr>"] show ?thesis by (auto simp: parent_list_def Let_def)
  next
    case (Sidebar x)
    with assms i [of "s\<lparr> dt_initial := x \<rparr>"] show ?thesis by (auto split: if_split_asm)
  next
    case (Listed k r)
    with assms t [of "Some k" _ "s\<lparr> dt_out := remove1 k (dt_out s) \<rparr>"] show ?thesis
      by (auto simp: list_got_def Let_def split: if_split_asm option.split)
  qed (use assms in \<open>auto simp: open_stores_def fetchDatastores_def toggleNode_def loadStorageContent_def content_got_def deleted_def Let_def
       updateClusterThreshold_def update_tolerance_def threshold_due_def deleteStorageCluster_def split: if_split_asm option.splits\<close>)
qed

definition delete_inv :: "dstores_event list \<Rightarrow> dstores \<Rightarrow> bool" where
  "delete_inv es s \<longleftrightarrow> picked_ok es s \<and> deletes_ok es s"

lemma delete_inv_step:
  assumes inv: "delete_inv es s" and c: "calm_exec cmp s e = Some s'"
  shows "delete_inv (es @ [e]) s'"
proof -
  from inv have p: "picked_ok es s" and d: "deletes_ok es s" by (simp_all add: delete_inv_def)
  from c have e: "dstores_exec cmp s e = Some s'" by (auto split: option.splits if_split_asm)
  have "deletes_ok (es @ [e]) s'"
  proof (cases "e = Delete")
    case True
    with e obtain v sel where h: "dt_confirm s = Some v" "dt_selected s = Some sel" and s': "s' = handleDelete v sel s" by (auto split: option.splits)
    with p have v: "deletable v" "listed_at es (dt_loads s) (dt_cluster s, sel) v" unfolding picked_ok_def by blast+
    have "deletes_ok (es @ [e]) s" using deletes_same [OF d refl, of "[]"] by simp
    with v listed_more [OF v(2), of "[e]" "[]"] show ?thesis unfolding s' deletes_ok_def handleDelete_def by auto
  next
    case False
    from deletes_frame [OF e False] deletes_same [OF d] show ?thesis by blast
  qed
  with picked_step [OF p c] show ?thesis by (simp add: delete_inv_def)
qed

lemma delete_inv_new: "delete_inv [] (dstores_new x c)"
  by (simp add: delete_inv_def picked_ok_def deletes_ok_def dstores_new_def open_stores_def fetchDatastores_def)

interpretation delete_trace: trace_machine "calm_exec cmp" "dstores_new x c" delete_inv for cmp x c
  by unfold_locales (rule delete_inv_new, rule delete_inv_step)

text \<open>C14. A volume is deleted on the cluster, the storage and the node whose content the server listed it in, and only a backup, an
  image or a template that belongs to no guest; as long as no storage is picked while a content is on its way or a deletion
  waits to be confirmed, and no request for a content fails.\<close>

theorem deletes_listed_volume:
  assumes "run_exec (calm_exec cmp) (dstores_new x c) es = Some s" and "((k, name, node), volid) \<in> set (dt_deletes s)"
  shows "\<exists>j vs v. j < length (dt_loads s) \<and> dt_loads s ! j = (k, name, node) \<and> Content j (Some vs) \<in> set es \<and> v \<in> set vs
           \<and> vo_volid v = volid \<and> (vo_kind v = ''backup'' \<or> \<not> vo_guest v \<and> vo_kind v \<in> {''iso'', ''vztmpl''})"
proof -
  have "deletes_ok es s" using delete_trace.trace_run [OF assms(1)] by (simp add: delete_inv_def)
  with assms(2) obtain v where "listed_at es (dt_loads s) (k, name, node) v" "deletable v" "volid = vo_volid v"
    unfolding deletes_ok_def by blast
  then show ?thesis unfolding listed_at_def deletable_def by auto
qed

section \<open>Thresholds\<close>

text \<open>The changes of a run: cluster, group and number.\<close>

fun changes :: "(string \<Rightarrow> string \<Rightarrow> int) \<Rightarrow> dstores \<Rightarrow> dstores_event list \<Rightarrow> (string \<times> string \<times> group_change) list" where
  "changes cmp s [] = []"
| "changes cmp s (e # es) =
     (case dstores_exec cmp s e of
        None \<Rightarrow> []
      | Some s' \<Rightarrow>
          (case (e, dt_group s) of
             (Threshold n, Some g) \<Rightarrow> [(dt_cluster s, gr_id g, Threshold_to n)]
           | (Tolerance n, Some g) \<Rightarrow> [(dt_cluster s, gr_id g, Tolerance_to n)]
           | _ \<Rightarrow> []) @ changes cmp s' es)"

definition due :: "dstores \<Rightarrow> (string \<times> string \<times> group_change) list" where
  "due s = (case dt_timer s of None \<Rightarrow> [] | Some p \<Rightarrow> [p])"

lemma timer_frame:
  "dt_timer (open_initial s) = dt_timer s" "dt_puts (open_initial s) = dt_puts s"
  "dt_timer (take_list cmp o' d s) = dt_timer s" "dt_puts (take_list cmp o' d s) = dt_puts s"
  "dt_timer (open_stores c s) = dt_timer s" "dt_puts (open_stores c s) = dt_puts s"
  by (simp_all add: take_list_def open_initial_def loadStorageContent_def open_stores_def fetchDatastores_def Let_def split: option.split)

lemma timer_step:
  assumes "dstores_exec cmp s e = Some s'"
  shows "(case (e, dt_group s) of
            (Threshold n, Some g) \<Rightarrow> dt_puts s' = dt_puts s \<and> due s' = [(dt_cluster s, gr_id g, Threshold_to n)]
          | (Tolerance n, Some g) \<Rightarrow> dt_puts s' = dt_puts s \<and> due s' = [(dt_cluster s, gr_id g, Tolerance_to n)]
          | _ \<Rightarrow> dt_puts s' @ due s' = dt_puts s @ due s)"
  using assms
  by (cases e) (auto simp: due_def timer_frame parent_list_def list_got_def fetchDatastores_def toggleNode_def loadStorageContent_def
    content_got_def handleDelete_def deleted_def updateClusterThreshold_def update_tolerance_def threshold_due_def deleteStorageCluster_def
    Let_def split: if_split_asm option.splits)

lemma timer_run:
  assumes "run_exec (dstores_exec cmp) s es = Some s'"
  shows "(if changes cmp s es = [] then dt_puts s' @ due s' = dt_puts s @ due s
          else \<exists>ps. dt_puts s' @ due s' = ps @ [last (changes cmp s es)])"
  using assms
proof (induction es arbitrary: s)
  case (Cons e es)
  then obtain s1 where s1: "dstores_exec cmp s e = Some s1" and r: "run_exec (dstores_exec cmp) s1 es = Some s'" by (auto split: option.splits)
  from timer_step [OF s1] Cons.IH [OF r] s1 show ?case
    by (cases e; cases "dt_group s") auto
qed simp

text \<open>However often and for whichever group the thresholds and tolerances are changed: once the timer ran, the last number sent is
  the last one chosen, for its group and the cluster it was chosen in.\<close>

theorem last_threshold_sent:
  assumes "run_exec (dstores_exec cmp) (dstores_new x c) es = Some s" and "dt_timer s = None" and "changes cmp (dstores_new x c) es \<noteq> []"
  shows "dt_puts s \<noteq> [] \<and> last (dt_puts s) = last (changes cmp (dstores_new x c) es)"
  using timer_run [OF assms(1)] assms(2,3) by (auto simp: due_def)

section \<open>A file for all nodes\<close>

record sync_result =
  sy_file :: string
  sy_ok :: nat
  sy_failed :: nat

datatype sync_note = Some_failed nat nat | Complete nat | Everywhere

definition sync_text :: "sync_result \<Rightarrow> sync_note" where
  "sync_text r = (if 0 < sy_failed r then Some_failed (sy_ok r) (sy_failed r) else if 0 < sy_ok r then Complete (sy_ok r) else Everywhere)"

text \<open>The polls from one attempt on: what the last result of the server is at each, how many there are, and what is told at the end.
  Each comes three seconds after the one before.\<close>

function pollSyncResult :: "string \<Rightarrow> (nat \<Rightarrow> sync_result option) \<Rightarrow> nat \<Rightarrow> nat \<times> sync_note option" where
  "pollSyncResult f ask k =
     (if 20 < k then (0, None)
      else case ask k of
             Some r \<Rightarrow> if sy_file r = f then (1, Some (sync_text r)) else (case pollSyncResult f ask (Suc k) of (n, x) \<Rightarrow> (Suc n, x))
           | None \<Rightarrow> (case pollSyncResult f ask (Suc k) of (n, x) \<Rightarrow> (Suc n, x)))"
  by pat_completeness auto
termination by (relation "measure (\<lambda>(f, ask, k). 21 - k)") auto

declare pollSyncResult.simps [simp del]

text \<open>The polls end: there are 21 at most, and the first result for this file is what is told, if one of them brings one.\<close>

theorem sync_polls_end:
  "fst (pollSyncResult f ask 0) \<le> 21
   \<and> snd (pollSyncResult f ask 0)
     = map_option sync_text (List.find (\<lambda>r. sy_file r = f) (List.map_filter ask [0..<21]))"
proof -
  have "fst (pollSyncResult f ask k) \<le> 21 - k
    \<and> snd (pollSyncResult f ask k) = map_option sync_text (List.find (\<lambda>r. sy_file r = f) (List.map_filter ask [k..<21]))" for k
  proof (induction "21 - k" arbitrary: k)
    case 0
    then show ?case by (simp add: pollSyncResult.simps [of f ask k] map_filter_simps)
  next
    case (Suc m)
    then have k: "k < 21" and IH: "fst (pollSyncResult f ask (Suc k)) \<le> 21 - Suc k
      \<and> snd (pollSyncResult f ask (Suc k)) = map_option sync_text (List.find (\<lambda>r. sy_file r = f) (List.map_filter ask [Suc k..<21]))"
      using Suc(1) [of "Suc k"] by simp_all
    from k have u: "[k..<21] = k # [Suc k..<21]" by (simp add: upt_conv_Cons)
    show ?case
      using k IH by (cases "pollSyncResult f ask (Suc k)") (auto simp: pollSyncResult.simps [of f ask k] u map_filter_simps split: option.split)
  qed
  from this [of 0] show ?thesis by simp
qed


section \<open>Runs\<close>

definition local_row :: store_row where
  "local_row = \<lparr> sr_storage = ''local'', sr_type = ''dir'', sr_content = ''iso'', sr_total = 10, sr_used = 1, sr_active = True, sr_on = None, sr_off = None \<rparr>"

definition shared_row :: store_row where
  "shared_row = local_row\<lparr> sr_storage := ''nas'', sr_on := Some [''n1'', ''n2''] \<rparr>"

definition two_nodes' :: stores where
  "two_nodes' = \<lparr> so_shared = [shared_row], so_local = [(''n1'', [local_row]), (''n2'', [local_row])], so_nodes = [''n1'', ''n2''] \<rparr>"

definition image :: volume where
  "image = \<lparr> vo_volid = ''local:iso/a.iso'', vo_kind = ''iso'', vo_guest = False \<rparr>"

definition in_order :: "string \<Rightarrow> string \<Rightarrow> int" where
  "in_order a b = 0"

definition one_deletion :: "dstores_event list" where
  "one_deletion = [Listed 0 (Some two_nodes'), Pick ''local'' (Some ''n1''), Content 0 (Some [image]), Ask_delete 0, Delete, Deleted ''local:iso/a.iso'']"

lemmas ds_eval = dstores_new_def open_stores_def fetchDatastores_def list_got_def take_list_def open_initial_def loadStorageContent_def
  content_got_def deletable_def handleDelete_def deleted_def stableSortData_def js_sort_def row_cmp_def put_local_def sidebar_storage_def
  initial_storage_def has_store_def two_nodes'_def shared_row_def local_row_def image_def in_order_def Let_def

definition emptied :: dstores where
  "emptied = the (run_exec (calm_exec in_order) (dstores_new None ''a'') one_deletion)"

lemma emptied_run: "run_exec (calm_exec in_order) (dstores_new None ''a'') one_deletion = Some emptied"
  and emptied_calm: "run_exec (dstores_exec in_order) (dstores_new None ''a'') one_deletion = Some emptied"
  and emptied_state: "dt_deletes emptied = [((''a'', ''local'', Some ''n1''), ''local:iso/a.iso'')]" "dt_done emptied" "dt_fetches emptied = [''a'']"
  by (simp_all add: emptied_def one_deletion_def calm_step'_def ds_eval)

lemma deletes_listed_volume_witness: "\<exists>j vs. Content j (Some vs) \<in> set one_deletion \<and> dt_loads emptied ! j = (''a'', ''local'', Some ''n1'')"
proof -
  have "((''a'', ''local'', Some ''n1''), ''local:iso/a.iso'') \<in> set (dt_deletes emptied)" by (simp add: emptied_state)
  from deletes_listed_volume [OF emptied_run this] show ?thesis by blast
qed

lemma list_of_cluster_witness: "\<exists>i d. Listed i (Some d) \<in> set one_deletion \<and> [''a''] ! i = dt_cluster emptied"
proof -
  have "Parent d \<notin> set one_deletion" for d by (simp add: one_deletion_def)
  from list_of_cluster [OF emptied_calm emptied_state(2) this] emptied_state(3) show ?thesis by auto
qed

definition slides :: "dstores_event list" where
  "slides = [Group \<lparr> gr_id = ''g'', gr_threshold = 20, gr_tolerance = 5, gr_storages = [''nas'', ''san''] \<rparr>, Threshold 25, Threshold 30, Timer]"

definition slid :: dstores where
  "slid = the (run_exec (dstores_exec in_order) (dstores_new None ''a'') slides)"

lemma slid_run: "run_exec (dstores_exec in_order) (dstores_new None ''a'') slides = Some slid" "dt_timer slid = None"
  and slid_changes: "changes in_order (dstores_new None ''a'') slides = [(''a'', ''g'', Threshold_to 25), (''a'', ''g'', Threshold_to 30)]"
  by (simp_all add: slid_def slides_def updateClusterThreshold_def set_threshold_def threshold_due_def ds_eval)

lemma last_threshold_sent_witness: "last (dt_puts slid) = (''a'', ''g'', Threshold_to 30)"
  using last_threshold_sent [OF slid_run(1,2)] slid_changes by simp

section \<open>What goes wrong\<close>

text \<open>The content of one node comes while the storage of the same name of another one is picked: the volume is deleted there.\<close>

lemma deleted_on_other_node:
  "run_ends (dstores_exec in_order) (dstores_new None ''a'')
     [Listed 0 (Some two_nodes'), Pick ''local'' (Some ''n1''), Pick ''local'' (Some ''n2''), Content 0 (Some [image]), Ask_delete 0, Delete]
     (\<lambda>s. dt_deletes s = [((''a'', ''local'', Some ''n2''), ''local:iso/a.iso'')] \<and> 1 \<in> set (dt_loads_out s))"
  by (simp add: run_ends_def ds_eval)

text \<open>A content that cannot be read leaves that of the storage before, which is deleted from the one picked now.\<close>

lemma old_content_kept:
  "run_ends (dstores_exec in_order) (dstores_new None ''a'')
     [Listed 0 (Some two_nodes'), Pick ''local'' (Some ''n1''), Content 0 (Some [image]), Pick ''local'' (Some ''n2''), Content 1 None, Ask_delete 0, Delete]
     (\<lambda>s. dt_deletes s = [((''a'', ''local'', Some ''n2''), ''local:iso/a.iso'')] \<and> dt_loads_out s = [])"
  by (simp add: run_ends_def ds_eval)

text \<open>A list that is read again picks the storage of the sidebar again, also under a deletion that waits to be confirmed.\<close>

lemma refresh_picks_again:
  "run_ends (dstores_exec in_order) (dstores_new (Some (''local'', Some ''n1'')) ''a'')
     [Listed 0 (Some two_nodes'), Content 0 (Some [image]), Pick ''local'' (Some ''n2''), Content 1 (Some [image]), Ask_delete 0, Parent two_nodes', Delete]
     (\<lambda>s. dt_selected s = Some (''local'', Some ''n1'') \<and> dt_deletes s = [((''a'', ''local'', Some ''n1''), ''local:iso/a.iso'')])"
  by (simp add: run_ends_def parent_list_def ds_eval)

text \<open>An answer for the cluster that was left ends the wheel: the list of that cluster is shown as the one of the other.\<close>

lemma left_list_shown:
  "run_ends (dstores_exec in_order) (dstores_new None ''a'')
     [Listed 0 (Some two_nodes'), Refetch, Cluster ''b'', Listed 1 (Some two_nodes'), Pick ''local'' (Some ''n1'')]
     (\<lambda>s. \<not> dt_loading s \<and> \<not> dt_done s \<and> dt_stores s = two_nodes' \<and> dt_loads s = [(''b'', ''local'', Some ''n1'')] \<and> 2 \<in> set (dt_out s))"
  by (simp add: run_ends_def ds_eval)

text \<open>The threshold of a group is lost when its tolerance is changed within the same half second.\<close>

lemma threshold_lost:
  "run_ends (dstores_exec in_order) (dstores_new None ''a'')
     [Group \<lparr> gr_id = ''g'', gr_threshold = 20, gr_tolerance = 5, gr_storages = [''nas'', ''san''] \<rparr>, Threshold 40, Tolerance 10, Timer]
     (\<lambda>s. dt_puts s = [(''a'', ''g'', Tolerance_to 10)] \<and> map_option gr_threshold (dt_group s) = Some 40)"
  by (simp add: run_ends_def updateClusterThreshold_def update_tolerance_def set_threshold_def threshold_due_def ds_eval)

text \<open>A member that is removed before the groups are read again is back in the list of the next removal.\<close>

lemma removed_comes_back:
  "let gs = [\<lparr> gr_id = ''g'', gr_threshold = 20, gr_tolerance = 5, gr_storages = [''a'', ''b'', ''c''] \<rparr>]
   in removeStorageFromCluster ''g'' ''a'' gs = Some [''b'', ''c''] \<and> removeStorageFromCluster ''g'' ''b'' gs = Some [''a'', ''c'']"
  by (simp add: removeStorageFromCluster_def)

end
