(* ===== verification/Spec2Isabelle.thy ===== *)
theory Spec2Isabelle
  imports Vnc_Connect Vm_Device_Strings Datacenter_Options Datacenter_Nodes Live_Tasks Sse_Connection Live_Migrations Session
    Install_Wizard Bulk_Migration Migration_Runs Guest_Migration Cross_Migration Menus Cluster_Overview Service_Worker
    Guest_Slots Boot_Order File_Restore Csv_Export Chart_Zoom Guest_Table
    Node_Shell Node_View Evacuation Guest_Create Rolling_Updates Datastores
begin

text \<open>
  PegaProx, the web client: a verification development of the JavaScript under src/web.

  PegaProx manages clusters of hypervisors (Proxmox VE, XCP-ng, ESXi, Hyper-V). A Python server talks to the hypervisors; the
  client, one page built from the files of web/src, shows them. It keeps a session, asks the server over requests that all go
  through \<open>authFetch\<close>, hears about changes over a stream of events (SSE), and opens consoles of guests over a channel of
  its own with end-to-end encryption, or over polling where no WebSocket gets through.

  \<^bold>\<open>How the code is modelled\<close>

  The page runs on one thread: what happens between two awaits is not interrupted. So each component is a state (a record that
  holds the variables of the closure, the refs and states of the React component, and what the browser keeps for them: timers,
  requests on the wire, sockets) and a step for each thing that can wake it up: an answer, a message, a timer, a click. A step
  does what the code does up to its next await; where a function waits, the state holds the point at which it goes on. The
  steps are inductive relations, or partial functions of state and event where the successor is unique (\<open>None\<close>: that event
  cannot come now). The properties hold for every run, so for every order in which the browser may deliver answers, timers and
  clicks. Pure code is translated into functions as it stands. Objects are lists of keys with values (\<open>Js_Values\<close>),
  so that \<open>undefined\<close>, truthiness, \<open>||\<close> and spreading mean what they mean in the code.

  \<^bold>\<open>Theories\<close>

  \<^item> \<open>Js_Prelude\<close>: runs of labelled machines with the locales \<open>step_machine\<close> and \<open>trace_machine\<close> of their invariants, which the machines
    below interpret; strings (split, join, numbers in decimal), lists updated by position, sorting with a comparator.
  \<^item> \<open>Js_Values\<close>: the values of the language.
  \<^item> \<open>Vnc_Frames\<close>, \<open>Vnc_Secure\<close>, \<open>Vnc_Polling\<close>, \<open>Vnc_Connect\<close> (vnc_secure_socket.js): frames with their sequence number, the
    encrypted WebSocket, the polling socket, and \<open>connectVnc\<close>, which tries the one and falls back to the other. Shown: the
    frames leave in the order of the sends, each one once; the peer's frames are delivered in order without a gap and never
    after the first that fails to decrypt; two ends back to back form a reliable channel. Further that the promise settles
    once, and where it never does.
  \<^item> \<open>Vm_Device_Strings\<close> (vm_config.js): the texts of the VirtIO RNG and of the virtiofs shares with their checks. Both
    interpret the locale \<open>param_codec\<close>, which gives the round trip.
  \<^item> \<open>Datacenter_Options\<close>, \<open>Datacenter_Nodes\<close> (datacenter.js): the editor of the datacenter options, whose composite options
    interpret \<open>composite_option\<close> (round trip), mappings of directories, and the CPU model all nodes can run.
  \<^item> \<open>Live_Tasks\<close>, \<open>Sse_Connection\<close>, \<open>Live_Cluster\<close>, \<open>Live_Migrations\<close>, \<open>Cluster_Overview\<close> (dashboard.js): the task bar, the
    life of the event stream with its reconnects, the data of the selected cluster under late answers of earlier ones
    (including the refinement of the cached list of resources), the frames about other hypervisors, and the reads of
    all clusters with the pauses for failing ones.
  \<^item> \<open>Session\<close> (contexts.js) and \<open>Auth_Fetch\<close> (dashboard.js, api_errors.js): language, sign-in and sign-out; requests with a
    time limit, shared reads, and the overlay for a lost session.
  \<^item> \<open>Hyperv_Source\<close> (hyperv.js): the choice of drivers for a guest, the preflight verdict, the form of a host.
  \<^item> \<open>Auto_Install\<close>, \<open>Install_Wizard\<close> (settings_modal.js): the checks of the automated installation, and the wizard whose
    pages they guard.
  \<^item> \<open>Guest_Bulk\<close> (vm_modals.js, tables.js): one action on many guests, at most four at a time.
  \<^item> \<open>Migration_Check\<close>, \<open>Bulk_Migration\<close>, \<open>Guest_Migration\<close>, \<open>Cross_Migration\<close> (vm_modals.js): the check before a migration and the
    three dialogs that move guests. The locale \<open>preflight_client\<close> is the contract of a dialog that uses the check;
    the two that do interpret it, which shows that no block is overridden without consent. \<open>Guest_Config\<close> holds what the
    dialogs read from the configuration of a guest.
  \<^item> \<open>Migration_Runs\<close> (vm_modals.js): the bulk migrations under way, whose looks may be answered in any order.
  \<^item> \<open>Guest_Editor\<close>, \<open>Guest_Slots\<close>, \<open>Boot_Order\<close>, \<open>File_Restore\<close> (vm_config.js): the configuration of a guest with its changed
    fields, their saving and what the stream reports meanwhile; the slots, formats and addresses of new devices (locale
    \<open>slot_series\<close>, interpreted by disks and by network cards); the boot order, which reads and writes its field through the
    editor; the browser through a backup, with its late answers.
  \<^item> \<open>Guest_Table\<close> (tables.js), \<open>Chart_Zoom\<close>, \<open>Csv_Export\<close> (ui.js): the table of guests with the cache of their addresses, its
    filter, order, pages and choice; the finer data a zoomed chart loads; tables as CSV, read back by a reader of RFC 4180.
  \<^item> \<open>Guest_Create\<close> (create_modals.js): the wizard that creates a guest. The lists of a node are asked for whenever the node
    changes and may be answered in any order; shown: they touch no field but those the wizard fills itself, and with the
    pages in a row no guest is created without a name. Where that fails is shown as well (tabs, a number typed meanwhile).
  \<^item> \<open>Node_Shell\<close>, \<open>Node_View\<close> (node_modals.js): the terminals of nodes and containers, from their scripts over the login to what
    goes over the socket; and the page of a node, which stays while another node is chosen and keeps late answers out.
  \<^item> \<open>Evacuation\<close> (security.js): taking a node into maintenance: the wording of the server's reasons, the check with its tick,
    the plan of the evacuation and the lines it is shown in.
  \<^item> \<open>Rolling_Updates\<close> (security.js): the updates of a cluster, with the schedule, the rolling update and the update of one node.
    Shown: nothing risky without consent, what a standby asks, which run is on the screen, what is kept for which cluster.
  \<^item> \<open>Datastores\<close> (storage.js): the storages of a cluster, their content and what is deleted in it, the numbers of balanced groups
    behind their timer, and the polls of a file that is sent to all nodes.
  \<^item> \<open>Menus\<close> (dashboard.js, cloud.js): which entries a menu shows for the permissions of an account; texts for sizes and times.
  \<^item> \<open>Service_Worker\<close> (sw.js): what is kept for use without a network.

  \<^bold>\<open>Bounds\<close>

  No definition uses fuel: the functions recurse over their input or with a measure, and what may run for ever is a step
  relation. Numbers of JavaScript that the code only counts, compares or parses are \<open>int\<close>, loads, rates and the times of charts are \<open>rat\<close>; both agree with a
  double below \<open>2 ^ 53\<close>. Sequence numbers of frames are numbers as in the code, written as 64 bits
  (the two words of the header); bytes are 8-bit words, and IPv4 addresses are words of 32 bits.

  \<^bold>\<open>Parameters\<close>

  Code that is not under src/web is an argument: AES-GCM and the import of a key (\<open>crypto\<close>, with the laws that
  decryption inverts encryption and, where a property needs it, that nothing else decrypts), the host that the URL parser of the
  browser reads from an IPv6 text, the translation of a key, \<open>localeCompare\<close>, the number a text denotes where the code calls
  \<open>Number\<close> on arbitrary text, \<open>TextDecoder\<close>, random digits, the tables of texts and themes, and what the page of a node
  asks of an opaque JSON value (\<open>json_ops\<close>). Answers of the server, frames and the clock are
  inputs of the steps.

  \<^bold>\<open>Not modelled\<close>

  The rendering (JSX, styles, charts, icons), the tables of translations, the handlers that only send one request and show
  a message, the libraries under static/js (noVNC, pako, xterm, React), and the server, which is another program in another
  language. Of the files that are modelled in part these are left out: the raw entries of the context menu; the other dialogs of
  vm_config.js (snapshots, replication, passthrough, firewall), which send one request per button; the account, audit and
  address lists of security.js; the dialogs of create_modals.js that add a cluster or change a profile; uploads,
  downloads and hosts in storage.js; networking.js; and the settings but for the automated installation.
\<close>

end
